(* ===== verification/Prelude.thy ===== *)
theory Prelude
  imports Main "HOL-Library.AList" "HOL-Library.Word"
begin

text \<open>
  What every component shares: the outcome of a Go computation (a value, or a run-time
  panic), Go's maps as association lists, 32-bit counters, and lemmas on lists that
  several components use. The collections \<open>go_simps\<close> (unfolding of the outcome plumbing)
  and \<open>frame_simps\<close> (fields an operation leaves alone) are filled by the components.
\<close>

named_theorems go_simps \<open>evaluation of the outcome plumbing\<close>
named_theorems frame_simps \<open>what an operation leaves unchanged\<close>

section \<open>Outcomes\<close>

text \<open>
  A Go function either returns or panics. The kinds of panic are the run-time errors the
  modelled code can raise; none of it recovers from a panic.
\<close>

datatype panic = NilDeref | NilMapWrite | NegativeLength | SliceBounds | TypeAssertion | ExplicitPanic

datatype 'a outcome = Ret 'a | Panic panic

fun bind_outcome :: "'a outcome \<Rightarrow> ('a \<Rightarrow> 'b outcome) \<Rightarrow> 'b outcome" where
  "bind_outcome (Ret x) f = f x"
| "bind_outcome (Panic p) f = Panic p"

declare bind_outcome.simps [go_simps]

text \<open>Reading through a pointer: \<open>None\<close> is the nil pointer.\<close>

definition deref :: "'a option \<Rightarrow> 'a outcome" where
  "deref p = (case p of None \<Rightarrow> Panic NilDeref | Some x \<Rightarrow> Ret x)"

lemma deref_simps [simp, go_simps]:
  "deref None = Panic NilDeref"
  "deref (Some x) = Ret x"
  by (simp_all add: deref_def)

lemma bind_outcome_Ret_iff [simp]:
  "bind_outcome m f = Ret y \<longleftrightarrow> (\<exists>x. m = Ret x \<and> f x = Ret y)"
  by (cases m) auto

lemma bind_outcome_assoc:
  "bind_outcome (bind_outcome m f) g = bind_outcome m (\<lambda>x. bind_outcome (f x) g)"
  by (cases m) simp_all

lemma deref_Ret_iff [simp]: "deref p = Ret x \<longleftrightarrow> p = Some x"
  by (cases p) auto

text \<open>
  A computation that also changes the outside world (the API server, the clock, the event
  recorder): what it did stays done when it panics.
\<close>

type_synonym ('w, 'a) action = "'w \<Rightarrow> 'a outcome \<times> 'w"

section \<open>Go values\<close>

type_synonym int32 = "32 word"
type_synonym uint64 = "64 word"

text \<open>
  A Go map with string keys is an association list with distinct keys; its order is one of
  the orders in which Go may iterate over it. The results below are stated through
  \<open>map_of\<close>, so they do not depend on that order. A map that may be nil is an option of it.
\<close>

type_synonym label_map = "(string \<times> string) list"

abbreviation wf_map :: "('k \<times> 'v) list \<Rightarrow> bool" where
  "wf_map m \<equiv> distinct (map fst m)"

text \<open>\<open>for k, v := range src { dst[k] = v }\<close>\<close>

fun range_write :: "label_map \<Rightarrow> label_map \<Rightarrow> label_map" where
  "range_write dst [] = dst"
| "range_write dst ((k, v) # src) = range_write (AList.update k v dst) src"

lemma map_of_range_write:
  "wf_map src \<Longrightarrow> map_of (range_write dst src) = map_of dst ++ map_of src"
proof (induction dst src rule: range_write.induct)
  case (1 dst)
  then show ?case by simp
next
  case (2 dst k v src)
  then have "map_of src k = None"
    by (auto simp: map_of_eq_None_iff)
  with 2 show ?case
    by (auto simp: AList.update_conv' map_add_def fun_eq_iff split: option.splits)
qed

lemma wf_range_write: "wf_map dst \<Longrightarrow> wf_map (range_write dst src)"
  by (induction dst src rule: range_write.induct) (simp_all add: distinct_update)

lemma range_write_eq_Nil [simp]: "range_write dst src = [] \<longleftrightarrow> dst = [] \<and> src = []"
proof (induction dst src rule: range_write.induct)
  case (2 dst k v src)
  have "AList.update k v dst \<noteq> []" by (cases dst) auto
  with 2 show ?case by simp
qed simp

lemma map_le_Some: "m \<subseteq>\<^sub>m m' \<Longrightarrow> m k = Some v \<Longrightarrow> m' k = Some v"
  by (metis domI map_le_def)

section \<open>Lists\<close>

text \<open>\<open>for i := 0; i < n; i++\<close> over the elements \<open>f 0 \<dots> f (n - 1)\<close>.\<close>

lemma distinct_map_upt:
  "(\<And>i j. i < n \<Longrightarrow> j < n \<Longrightarrow> f i = f j \<Longrightarrow> i = j) \<Longrightarrow> distinct (map f [0..<n])"
  by (auto simp: distinct_map inj_on_def)

lemma sum_list_map_filter_split:
  "length xs = length (filter P xs) + length (filter (\<lambda>x. \<not> P x) xs)"
  by (simp add: sum_length_filter_compl)

lemma filter_map_distinct:
  "distinct (map f xs) \<Longrightarrow> distinct (map f (filter P xs))"
  by (simp add: distinct_map_filter)

end
