(* ===== verification/GoStrings.thy ===== *)
theory GoStrings
  imports Prelude
begin

text \<open>
  The string operations of Go's standard library the operator uses: \<open>strings.Replace\<close>,
  \<open>strings.Split\<close> and \<open>strings.HasSuffix\<close>, \<open>strconv.Itoa\<close> (also \<open>fmt\<close>'s \<open>%d\<close>),
  \<open>strconv.Atoi\<close> and \<open>strconv.ParseInt\<close> with base 0. Strings are byte lists. The callers
  only ask of the two parsers whether they failed, so a failure is \<open>None\<close>. The base
  prefixes of \<open>ParseInt\<close> are those of the Go releases the repository is built with
  (1.8 to 1.10): \<open>0x\<close> or \<open>0X\<close> for 16, a leading \<open>0\<close> for 8.
\<close>

section \<open>Replace, Split, suffixes\<close>

definition replace_slash :: "string \<Rightarrow> string" where
  "replace_slash s = map (\<lambda>c. if c = CHR ''/'' then CHR ''-'' else c) s"

lemma slash_notin_replace_slash [simp]: "CHR ''/'' \<notin> set (replace_slash s)"
  by (auto simp: replace_slash_def)

lemma replace_slash_id: "CHR ''/'' \<notin> set s \<Longrightarrow> replace_slash s = s"
  by (induction s) (auto simp: replace_slash_def)

lemma replace_slash_append [simp]:
  "replace_slash (s @ t) = replace_slash s @ replace_slash t"
  by (simp add: replace_slash_def)

lemma length_replace_slash [simp]: "length (replace_slash s) = length s"
  by (simp add: replace_slash_def)

fun split_on :: "char \<Rightarrow> string \<Rightarrow> string list" where
  "split_on c [] = [[]]"
| "split_on c (x # xs) =
     (if x = c then [] # split_on c xs
      else (case split_on c xs of [] \<Rightarrow> [[x]] | p # ps \<Rightarrow> (x # p) # ps))"

lemma split_on_not_Nil [simp]: "split_on c s \<noteq> []"
  by (cases s) (simp_all split: list.splits)

lemma split_on_absent: "c \<notin> set s \<Longrightarrow> split_on c s = [s]"
  by (induction s) auto

lemma split_on_append:
  "c \<notin> set s \<Longrightarrow> split_on c (s @ c # t) = s # split_on c t"
  by (induction s) auto

lemma length_split_on: "length (split_on c s) = Suc (count_list s c)"
  by (induction s) (auto split: list.splits)

lemma split_on_parts: "p \<in> set (split_on c s) \<Longrightarrow> c \<notin> set p"
  by (induction s arbitrary: p) (auto split: list.splits if_splits)

text \<open>Splitting a string sees its last character in the last part.\<close>

lemma split_on_snoc:
  "split_on c (s @ [x]) =
     (if x = c then split_on c s @ [[]] else butlast (split_on c s) @ [last (split_on c s) @ [x]])"
proof (induction s)
  case (Cons y ys)
  obtain p ps where "split_on c ys = p # ps" by (cases "split_on c ys") auto
  with Cons show ?case by (cases ps) auto
qed simp

text \<open>\<open>strings.ToLower\<close> on ASCII.\<close>

definition ToLower :: "string \<Rightarrow> string" where
  "ToLower s = map (\<lambda>c. if 65 \<le> (of_char c :: nat) \<and> (of_char c :: nat) \<le> 90 then char_of (of_char c + 32 :: nat) else c) s"

section \<open>Joining and paths\<close>

text \<open>\<open>strings.Join\<close>, with the separator first; \<open>path.Clean\<close> and \<open>path.Join\<close>.\<close>

fun join_with :: "string \<Rightarrow> string list \<Rightarrow> string" where
  "join_with sep [] = []"
| "join_with sep [x] = x"
| "join_with sep (x # y # ys) = x @ sep @ join_with sep (y # ys)"

lemma split_on_join:
  "xs \<noteq> [] \<Longrightarrow> (\<And>x. x \<in> set xs \<Longrightarrow> c \<notin> set x) \<Longrightarrow> split_on c (join_with [c] xs) = xs"
proof (induction "[c]" xs rule: join_with.induct)
  case (2 x)
  then show ?case by (simp add: split_on_absent)
next
  case (3 x y ys)
  then show ?case using split_on_append [of c x "join_with [c] (y # ys)"] by simp
qed simp

lemma join_with_append:
  "xs \<noteq> [] \<Longrightarrow> ys \<noteq> [] \<Longrightarrow> join_with sep (xs @ ys) = join_with sep xs @ sep @ join_with sep ys"
proof (induction sep xs rule: join_with.induct)
  case (2 sep x)
  then show ?case by (cases ys) simp_all
qed simp_all

text \<open>The elements of a path, the last ones first: an empty one and \<open>.\<close> go, \<open>..\<close> takes one away.\<close>

fun clean_elements :: "bool \<Rightarrow> string list \<Rightarrow> string list \<Rightarrow> string list" where
  "clean_elements rooted acc [] = rev acc"
| "clean_elements rooted acc (s # ss) =
     (if s = [] \<or> s = ''.'' then clean_elements rooted acc ss
      else if s = ''..'' then
        (if acc \<noteq> [] \<and> hd acc \<noteq> ''..'' then clean_elements rooted (tl acc) ss
         else if rooted then clean_elements rooted acc ss
         else clean_elements rooted (s # acc) ss)
      else clean_elements rooted (s # acc) ss)"

definition path_Clean :: "string \<Rightarrow> string" where
  "path_Clean p =
     (if p = [] then ''.''
      else let rooted = (hd p = CHR ''/'');
               out = join_with ''/'' (clean_elements rooted [] (split_on (CHR ''/'') p))
        in if rooted then ''/'' @ out else if out = [] then ''.'' else out)"

definition path_Join :: "string list \<Rightarrow> string" where
  "path_Join elems =
     (case dropWhile (\<lambda>e. e = []) elems of [] \<Rightarrow> [] | es \<Rightarrow> path_Clean (join_with ''/'' es))"

text \<open>A path that stays as it is: rooted, of elements that are names.\<close>

definition plain_element :: "string \<Rightarrow> bool" where
  "plain_element s \<longleftrightarrow> s \<noteq> [] \<and> s \<noteq> ''.'' \<and> s \<noteq> ''..'' \<and> CHR ''/'' \<notin> set s"

definition rooted_path :: "string list \<Rightarrow> string" where
  "rooted_path ss = ''/'' @ join_with ''/'' ss"

lemma clean_elements_plain:
  "list_all (\<lambda>s. s = [] \<or> plain_element s) ss \<Longrightarrow>
     clean_elements rooted acc ss = rev acc @ filter (\<lambda>s. s \<noteq> []) ss"
  by (induction ss arbitrary: acc) (auto simp: plain_element_def)

lemma path_Join_rooted:
  assumes "list_all plain_element base" and "base \<noteq> []" and "list_all (\<lambda>s. s = [] \<or> plain_element s) ss"
  shows "path_Join (rooted_path base # ss) = rooted_path (base @ filter (\<lambda>s. s \<noteq> []) ss)"
proof -
  have join: "join_with ''/'' (rooted_path base # ss) = rooted_path (base @ ss)"
    using join_with_append [OF assms(2), of ss "''/''"] by (cases ss) (simp_all add: rooted_path_def)
  have full: "filter (\<lambda>s. s \<noteq> []) base = base"
    using assms(1) by (auto simp: filter_id_conv list_all_iff plain_element_def)
  have plain: "list_all (\<lambda>s. s = [] \<or> plain_element s) (base @ ss)"
    using assms by (auto simp: list_all_iff)
  have "CHR ''/'' \<notin> set s" if "s \<in> set (base @ ss)" for s
  proof -
    have "s = [] \<or> plain_element s" using plain that unfolding list_all_iff by blast
    then show ?thesis by (auto simp: plain_element_def)
  qed
  then have "split_on (CHR ''/'') (join_with ''/'' (base @ ss)) = base @ ss"
    using assms(2) by (intro split_on_join) simp_all
  then have "split_on (CHR ''/'') (rooted_path (base @ ss)) = [] # base @ ss"
    by (simp add: rooted_path_def)
  then have "clean_elements True [] (split_on (CHR ''/'') (rooted_path (base @ ss))) =
      base @ filter (\<lambda>s. s \<noteq> []) ss"
    using clean_elements_plain [OF plain, of True "[]"] by (simp add: full)
  then show ?thesis by (simp add: path_Join_def join path_Clean_def) (simp add: rooted_path_def)
qed

lemma rooted_path_inject:
  assumes "list_all plain_element ss" and "list_all plain_element ts" and "ss \<noteq> []" and "ts \<noteq> []"
  shows "rooted_path ss = rooted_path ts \<longleftrightarrow> ss = ts"
proof -
  have "split_on (CHR ''/'') (join_with ''/'' xs) = xs" if "list_all plain_element xs" "xs \<noteq> []" for xs
    using that by (intro split_on_join) (auto simp: list_all_iff plain_element_def)
  with assms show ?thesis by (metis rooted_path_def same_append_eq)
qed

section \<open>Decimal printing\<close>

definition digit_char :: "nat \<Rightarrow> char" where
  "digit_char d = ''0123456789abcdefghijklmnopqrstuvwxyz'' ! d"

fun nat_digits :: "nat \<Rightarrow> string" where
  "nat_digits n = (if n < 10 then [digit_char n] else nat_digits (n div 10) @ [digit_char (n mod 10)])"

declare nat_digits.simps [simp del]

definition itoa :: "int \<Rightarrow> string" where
  "itoa i = (if i < 0 then CHR ''-'' # nat_digits (nat (- i)) else nat_digits (nat i))"

section \<open>Parsing\<close>

text \<open>The byte-to-digit switch of \<open>ParseUint\<close>: digits, then lower and upper case letters.\<close>

definition digit_value :: "char \<Rightarrow> nat option" where
  "digit_value c =
     (let d = of_char c :: nat in
      if of_char CHR ''0'' \<le> d \<and> d \<le> of_char CHR ''9'' then Some (d - of_char CHR ''0'')
      else if of_char CHR ''a'' \<le> d \<and> d \<le> of_char CHR ''z'' then Some (d - of_char CHR ''a'' + 10)
      else if of_char CHR ''A'' \<le> d \<and> d \<le> of_char CHR ''Z'' then Some (d - of_char CHR ''A'' + 10)
      else None)"

text \<open>
  The accumulation loop of \<open>ParseUint\<close>, over unbounded numbers: it fails on a byte that is
  no digit of the base. The range checks come after it in \<open>parse_int\<close>; an accumulator that
  leaves the range never comes back into it, so both orders fail on the same strings.
\<close>

fun parse_digits :: "nat \<Rightarrow> nat \<Rightarrow> string \<Rightarrow> nat option" where
  "parse_digits base n [] = Some n"
| "parse_digits base n (c # cs) =
     (case digit_value c of
        None \<Rightarrow> None
      | Some v \<Rightarrow> if base \<le> v then None else parse_digits base (n * base + v) cs)"

fun parse_uint :: "nat \<Rightarrow> string \<Rightarrow> nat option" where
  "parse_uint base [] = None"
| "parse_uint base (c # s) =
     (if base \<noteq> 0 then parse_digits base 0 (c # s)
      else if c = CHR ''0'' \<and> s \<noteq> [] \<and> (hd s = CHR ''x'' \<or> hd s = CHR ''X'')
        then if length s < 2 then None else parse_digits 16 0 (tl s)
      else if c = CHR ''0'' then parse_digits 8 0 s
      else parse_digits 10 0 (c # s))"

text \<open>\<open>ParseInt(s, base, bits)\<close>; base 0 reads the base off the prefix.\<close>

definition parse_int :: "nat \<Rightarrow> nat \<Rightarrow> string \<Rightarrow> int option" where
  "parse_int base bits s =
     (if s = [] then None
      else let neg = (hd s = CHR ''-'');
               t = (if hd s = CHR ''+'' \<or> neg then tl s else s) in
        case parse_uint base t of
          None \<Rightarrow> None
        | Some un \<Rightarrow>
            if \<not> neg \<and> 2 ^ (bits - 1) \<le> un then None
            else if neg \<and> 2 ^ (bits - 1) < un then None
            else Some (if neg then - int un else int un))"

text \<open>\<open>int\<close> has 64 bits on the platforms the operator is built for.\<close>

definition atoi :: "string \<Rightarrow> int option" where
  "atoi s = parse_int 10 64 s"

section \<open>Printing then parsing\<close>

lemma less_10_cases:
  "(n::nat) < 10 \<Longrightarrow> n \<in> {0, 1, 2, 3, 4, 5, 6, 7, 8, 9}"
  by auto

lemma digit_value_digit_char [simp]: "n < 10 \<Longrightarrow> digit_value (digit_char n) = Some n"
  by (drule less_10_cases) (auto simp: digit_char_def digit_value_def)

lemma digit_char_sign: "n < 10 \<Longrightarrow> digit_char n \<notin> {CHR ''-'', CHR ''+'', CHR ''/'', CHR '':'', CHR ''x'', CHR ''X''}"
  by (drule less_10_cases) (auto simp: digit_char_def)

lemma digit_char_zero_iff: "n < 10 \<Longrightarrow> digit_char n = CHR ''0'' \<longleftrightarrow> n = 0"
  by (drule less_10_cases) (auto simp: digit_char_def)

lemma parse_digits_append:
  "parse_digits b n (s @ t) = Option.bind (parse_digits b n s) (\<lambda>m. parse_digits b m t)"
  by (induction b n s rule: parse_digits.induct) (auto split: option.splits)

lemma parse_digits_nat_digits: "parse_digits 10 0 (nat_digits n) = Some n"
proof (induction n rule: nat_digits.induct)
  case (1 n)
  show ?case
  proof (cases "n < 10")
    case True
    then show ?thesis by (simp add: nat_digits.simps [of n])
  next
    case False
    with 1 show ?thesis
      by (simp add: nat_digits.simps [of n] parse_digits_append)
  qed
qed

lemma nat_digits_not_Nil [simp]: "nat_digits n \<noteq> []"
  by (subst nat_digits.simps) simp

lemma set_nat_digits: "c \<in> set (nat_digits n) \<Longrightarrow> \<exists>d < 10. c = digit_char d"
proof (induction n rule: nat_digits.induct)
  case (1 n)
  show ?case
  proof (cases "n < 10")
    case True
    with 1 show ?thesis by (auto simp: nat_digits.simps [of n])
  next
    case False
    with 1 have "c = digit_char (n mod 10) \<or> c \<in> set (nat_digits (n div 10))"
      by (simp add: nat_digits.simps [of n])
    moreover have "n mod 10 < 10" by simp
    ultimately show ?thesis using False "1.IH" by blast
  qed
qed

lemma nat_digits_no_sign:
  assumes "c \<in> {CHR ''-'', CHR ''+'', CHR ''/'', CHR '':'', CHR ''x'', CHR ''X''}"
  shows "c \<notin> set (nat_digits n)"
  using assms digit_char_sign by (fastforce dest: set_nat_digits)

lemma hd_nat_digits_zero: "hd (nat_digits n) = CHR ''0'' \<longleftrightarrow> n = 0"
proof (induction n rule: nat_digits.induct)
  case (1 n)
  show ?case
  proof (cases "n < 10")
    case True
    then show ?thesis by (simp add: nat_digits.simps [of n] digit_char_zero_iff)
  next
    case False
    with 1 have "hd (nat_digits (n div 10)) \<noteq> CHR ''0''" by auto
    with False show ?thesis by (simp add: nat_digits.simps [of n])
  qed
qed

lemma nat_digits_inject [simp]: "nat_digits m = nat_digits n \<longleftrightarrow> m = n"
  by (metis parse_digits_nat_digits option.inject)

lemma itoa_not_Nil [simp]: "itoa i \<noteq> []"
  by (simp add: itoa_def)

lemma itoa_inject [simp]: "itoa i = itoa j \<longleftrightarrow> i = j"
proof -
  have "hd (nat_digits n) \<noteq> CHR ''-''" for n
    using nat_digits_no_sign [of "CHR ''-''" n] by (metis hd_in_set insertI1 nat_digits_not_Nil)
  then show ?thesis
    by (auto simp: itoa_def nat_eq_iff2 split: if_splits) (metis list.sel(1))+
qed

lemma itoa_no_slash: "CHR ''/'' \<notin> set (itoa i)"
  using nat_digits_no_sign [of "CHR ''/''"] by (auto simp: itoa_def)

lemma itoa_nonneg_no_dash: "0 \<le> i \<Longrightarrow> CHR ''-'' \<notin> set (itoa i)"
  using nat_digits_no_sign [of "CHR ''-''"] by (auto simp: itoa_def)

lemma parse_uint_nat_digits: "base = 0 \<or> base = 10 \<Longrightarrow> parse_uint base (nat_digits n) = Some n"
proof -
  assume base: "base = 0 \<or> base = 10"
  obtain c s where cs: "nat_digits n = c # s" by (cases "nat_digits n") auto
  show ?thesis
  proof (cases "n = 0")
    case True
    then have "nat_digits n = ''0''" by (simp add: nat_digits.simps digit_char_def)
    with base True parse_digits_nat_digits [of 0] show ?thesis
      by (auto simp: nat_digits.simps [of 0] digit_char_def)
  next
    case False
    with cs hd_nat_digits_zero [of n] have "c \<noteq> CHR ''0''" by simp
    with base cs parse_digits_nat_digits [of n] show ?thesis by (auto simp del: parse_digits.simps)
  qed
qed

text \<open>
  \<open>ParseInt(Itoa(i), 0, bits)\<close> and \<open>ParseInt(Itoa(i), 10, bits)\<close> give \<open>i\<close> back for every \<open>i\<close>
  of that width: a decimal numeral never has a base prefix.
\<close>

lemma parse_int_itoa:
  assumes "base = 0 \<or> base = 10" and "- (2 ^ (bits - 1)) \<le> i" and "i < 2 ^ (bits - 1)"
  shows "parse_int base bits (itoa i) = Some i"
proof (cases "i < 0")
  case True
  have "\<not> 2 ^ (bits - 1) < nat (- i)"
    using True assms(2) by (simp add: nat_less_iff not_less)
  with True show ?thesis
    by (simp add: parse_int_def itoa_def parse_uint_nat_digits [OF assms(1)])
next
  case False
  have hd: "hd (nat_digits (nat i)) \<notin> {CHR ''-'', CHR ''+''}"
    using nat_digits_no_sign [of _ "nat i"] hd_in_set [OF nat_digits_not_Nil [of "nat i"]] by blast
  have "\<not> 2 ^ (bits - 1) \<le> nat i"
    using False assms(3) by (simp add: not_le nat_less_iff)
  with False hd show ?thesis
    by (simp add: parse_int_def itoa_def parse_uint_nat_digits [OF assms(1)] Let_def)
qed

lemma atoi_itoa: "- (2 ^ 63) \<le> i \<Longrightarrow> i < 2 ^ 63 \<Longrightarrow> atoi (itoa i) = Some i"
  unfolding atoi_def by (rule parse_int_itoa) simp_all

end
