(* ===== verification/ApiTypes.thy ===== *)
theory ApiTypes
  imports GoStrings
begin

text \<open>
  The data the operator works on: the \<open>Caffe2Job\<close> resource of
  pkg/apis/caffe2/v1alpha1/types.go and the Kubernetes objects it refers to, field by
  field. Named string types of Go (backend types, condition types, pod phases) stay
  strings, because a decoded object can carry any string. A pointer is an option, with
  \<open>None\<close> for nil; a slice is a list (a nil slice and an empty one behave alike in all the
  modelled code); a map that the code compares with nil is an option of an association
  list. Of the Kubernetes objects only the fields the operator reads or writes are listed;
  the others travel in an opaque \<open>Rest\<close> field.
\<close>

section \<open>Errors\<close>

text \<open>
  An error of the API client carries a reason; \<open>fmt.Errorf\<close> and \<open>errors.New\<close> give plain
  errors, written here as the format, its string arguments and the errors it quotes (a
  quoted error loses its reason); \<open>utilerrors.NewAggregate\<close> bundles several.
\<close>

datatype go_error =
    StatusError string string
  | Errorf string "string list" "go_error list"
  | Aggregate "go_error list"

definition reasonForError :: "go_error option \<Rightarrow> string" where
  "reasonForError err = (case err of Some (StatusError reason _) \<Rightarrow> reason | _ \<Rightarrow> [])"

definition IsNotFound :: "go_error option \<Rightarrow> bool" where
  "IsNotFound err \<longleftrightarrow> reasonForError err = ''NotFound''"

definition IsInvalid :: "go_error option \<Rightarrow> bool" where
  "IsInvalid err \<longleftrightarrow> reasonForError err = ''Invalid''"

definition IsTimeout :: "go_error option \<Rightarrow> bool" where
  "IsTimeout err \<longleftrightarrow> reasonForError err = ''Timeout''"

definition IsAlreadyExists :: "go_error option \<Rightarrow> bool" where
  "IsAlreadyExists err \<longleftrightarrow> reasonForError err = ''AlreadyExists''"

lemmas reason_defs = reasonForError_def IsNotFound_def IsInvalid_def IsTimeout_def IsAlreadyExists_def

lemma plain_errors_have_no_reason [simp]:
  "\<not> IsNotFound (Some (Errorf f as es))" "\<not> IsInvalid (Some (Errorf f as es))"
  "\<not> IsTimeout (Some (Errorf f as es))"
  "\<not> IsNotFound (Some (Aggregate es))" "\<not> IsTimeout (Some (Aggregate es))"
  "\<not> IsNotFound None" "\<not> IsInvalid None" "\<not> IsTimeout None"
  by (simp_all add: reason_defs)

text \<open>\<open>NewAggregate\<close>: nil for an empty list. The lists it gets here hold no nil error.\<close>

definition NewAggregate :: "go_error list \<Rightarrow> go_error option" where
  "NewAggregate errlist = (if errlist = [] then None else Some (Aggregate errlist))"

lemma NewAggregate_None [simp]: "NewAggregate es = None \<longleftrightarrow> es = []"
  by (simp add: NewAggregate_def)

section \<open>Metadata\<close>

text \<open>Times are nanoseconds since the epoch.\<close>

type_synonym time = int

record OwnerReference =
  or_APIVersion :: string
  or_Kind :: string
  or_Name :: string
  or_UID :: string
  or_Controller :: "bool option"
  or_BlockOwnerDeletion :: "bool option"

record ObjectMeta =
  om_Name :: string
  om_GenerateName :: string
  om_Namespace :: string
  om_UID :: string
  om_ResourceVersion :: string
  om_DeletionTimestamp :: "time option"
  om_Labels :: "label_map option"
  om_Annotations :: "label_map option"
  om_OwnerReferences :: "OwnerReference list"
  om_Finalizers :: "string list"

text \<open>The zero value, which a composite literal starts from.\<close>

definition zero_ObjectMeta :: ObjectMeta where
  "zero_ObjectMeta =
     \<lparr>om_Name = [], om_GenerateName = [], om_Namespace = [], om_UID = [], om_ResourceVersion = [],
      om_DeletionTimestamp = None, om_Labels = None, om_Annotations = None,
      om_OwnerReferences = [], om_Finalizers = []\<rparr>"

text \<open>Ranging over, reading or measuring a nil map is ranging over an empty one.\<close>

definition map_entries :: "label_map option \<Rightarrow> label_map" where
  "map_entries m = (case m of None \<Rightarrow> [] | Some kvs \<Rightarrow> kvs)"

lemma map_entries_simps [simp]: "map_entries None = []" "map_entries (Some m) = m"
  by (simp_all add: map_entries_def)

text \<open>
  \<open>metav1.GetControllerOf\<close>: the first owner reference whose \<open>Controller\<close> field points to true.
\<close>

fun first_controller :: "OwnerReference list \<Rightarrow> OwnerReference option" where
  "first_controller [] = None"
| "first_controller (r # refs) =
     (if or_Controller r = Some True then Some r else first_controller refs)"

definition GetControllerOf :: "ObjectMeta \<Rightarrow> OwnerReference option" where
  "GetControllerOf controllee = first_controller (om_OwnerReferences controllee)"

lemma first_controller_Some:
  "first_controller refs = Some r \<Longrightarrow> r \<in> set refs \<and> or_Controller r = Some True"
  by (induction refs) (auto split: if_splits)

lemma first_controller_None:
  "first_controller refs = None \<longleftrightarrow> (\<forall>r \<in> set refs. or_Controller r \<noteq> Some True)"
  by (induction refs) auto

section \<open>Pods and services\<close>

record EnvVar =
  ev_Name :: string
  ev_Value :: string
  ev_ValueFrom :: "string option"

record Container =
  ct_Name :: string
  ct_Env :: "EnvVar list"
  ct_Rest :: string

record PodSpec =
  ps_Containers :: "Container list"
  ps_RestartPolicy :: string
  ps_NodeName :: string
  ps_Rest :: string

record PodTemplateSpec =
  pt_Meta :: ObjectMeta
  pt_Spec :: PodSpec

record Pod =
  pod_Meta :: ObjectMeta
  pod_Spec :: PodSpec
  pod_Phase :: string

record Service =
  svc_Meta :: ObjectMeta
  svc_Rest :: string

definition PodPending :: string where "PodPending = ''Pending''"
definition PodRunning :: string where "PodRunning = ''Running''"
definition PodSucceeded :: string where "PodSucceeded = ''Succeeded''"
definition PodFailed :: string where "PodFailed = ''Failed''"

lemmas pod_phase_defs = PodPending_def PodRunning_def PodSucceeded_def PodFailed_def

lemma pod_phases_distinct [simp]:
  "PodPending \<noteq> PodRunning" "PodPending \<noteq> PodSucceeded" "PodPending \<noteq> PodFailed"
  "PodRunning \<noteq> PodPending" "PodRunning \<noteq> PodSucceeded" "PodRunning \<noteq> PodFailed"
  "PodSucceeded \<noteq> PodPending" "PodSucceeded \<noteq> PodRunning" "PodSucceeded \<noteq> PodFailed"
  "PodFailed \<noteq> PodPending" "PodFailed \<noteq> PodRunning" "PodFailed \<noteq> PodSucceeded"
  by (simp_all add: pod_phase_defs)

abbreviation pod_labels :: "Pod \<Rightarrow> label_map" where
  "pod_labels p \<equiv> map_entries (om_Labels (pod_Meta p))"

section \<open>The Caffe2Job resource\<close>

record Caffe2BackendSpec =
  be_Type :: string
  be_NFSPath :: string
  be_RedisHost :: string
  be_RedisPort :: uint64

definition NoneBackendType :: string where "NoneBackendType = ''none''"
definition RedisBackendType :: string where "RedisBackendType = ''redis''"
definition NFSBackendType :: string where "NFSBackendType = ''nfs''"

lemmas backend_type_defs = NoneBackendType_def RedisBackendType_def NFSBackendType_def

record ChiefSpec =
  ch_ReplicaName :: string
  ch_ReplicaIndex :: int

record TerminationPolicySpec =
  tp_Chief :: "ChiefSpec option"

record Caffe2ReplicaSpec =
  rs_Replicas :: "int32 option"
  rs_Template :: "PodTemplateSpec option"

record Caffe2JobSpec =
  js_RuntimeID :: string
  js_Backend :: "Caffe2BackendSpec option"
  js_ReplicaSpecs :: "Caffe2ReplicaSpec option"
  js_TerminationPolicy :: "TerminationPolicySpec option"

record Caffe2ReplicaStatus =
  st_Active :: int32
  st_Succeeded :: int32
  st_Failed :: int32

record Caffe2JobCondition =
  cd_Type :: string
  cd_Status :: string
  cd_Reason :: string
  cd_Message :: string
  cd_LastUpdateTime :: time
  cd_LastTransitionTime :: time

definition Caffe2JobCreated :: string where "Caffe2JobCreated = ''Created''"
definition Caffe2JobRunning :: string where "Caffe2JobRunning = ''Running''"
definition Caffe2JobSucceeded :: string where "Caffe2JobSucceeded = ''Succeeded''"
definition Caffe2JobFailed :: string where "Caffe2JobFailed = ''Failed''"

lemmas condition_type_defs =
  Caffe2JobCreated_def Caffe2JobRunning_def Caffe2JobSucceeded_def Caffe2JobFailed_def

lemma condition_types_distinct [simp]:
  "Caffe2JobRunning \<noteq> Caffe2JobSucceeded" "Caffe2JobRunning \<noteq> Caffe2JobFailed"
  "Caffe2JobSucceeded \<noteq> Caffe2JobRunning" "Caffe2JobSucceeded \<noteq> Caffe2JobFailed"
  "Caffe2JobFailed \<noteq> Caffe2JobRunning" "Caffe2JobFailed \<noteq> Caffe2JobSucceeded"
  "Caffe2JobCreated \<noteq> Caffe2JobRunning" "Caffe2JobCreated \<noteq> Caffe2JobSucceeded"
  "Caffe2JobCreated \<noteq> Caffe2JobFailed" "Caffe2JobRunning \<noteq> Caffe2JobCreated"
  "Caffe2JobSucceeded \<noteq> Caffe2JobCreated" "Caffe2JobFailed \<noteq> Caffe2JobCreated"
  by (simp_all add: condition_type_defs)

record Caffe2JobStatus =
  ss_Conditions :: "Caffe2JobCondition list"
  ss_ReplicaStatuses :: "Caffe2ReplicaStatus option"
  ss_StartTime :: "time option"
  ss_CompletionTime :: "time option"
  ss_LastReconcileTime :: "time option"

record Caffe2Job =
  job_Meta :: ObjectMeta
  job_Spec :: Caffe2JobSpec
  job_Status :: Caffe2JobStatus

abbreviation job_Name :: "Caffe2Job \<Rightarrow> string" where "job_Name j \<equiv> om_Name (job_Meta j)"
abbreviation job_Namespace :: "Caffe2Job \<Rightarrow> string" where "job_Namespace j \<equiv> om_Namespace (job_Meta j)"
abbreviation job_UID :: "Caffe2Job \<Rightarrow> string" where "job_UID j \<equiv> om_UID (job_Meta j)"

section \<open>Group, version and kind\<close>

record GroupVersionKind =
  gvk_Group :: string
  gvk_Version :: string
  gvk_Kind :: string

text \<open>\<open>gvk.GroupVersion().String()\<close>\<close>

definition GroupVersion_String :: "GroupVersionKind \<Rightarrow> string" where
  "GroupVersion_String gv =
     (if gvk_Group gv = [] \<and> gvk_Version gv = [] then []
      else if gvk_Group gv = [] \<and> gvk_Version gv = ''v1'' then gvk_Version gv
      else if gvk_Group gv \<noteq> [] then gvk_Group gv @ ''/'' @ gvk_Version gv
      else gvk_Version gv)"

definition GroupName :: string where "GroupName = ''kubeflow.org''"
definition Caffe2JobResourceKind :: string where "Caffe2JobResourceKind = ''Caffe2Job''"
definition GroupVersion :: string where "GroupVersion = ''v1alpha1''"

definition groupVersionKind :: GroupVersionKind where
  "groupVersionKind = \<lparr>gvk_Group = GroupName, gvk_Version = GroupVersion, gvk_Kind = Caffe2JobResourceKind\<rparr>"

text \<open>\<open>api.SchemeGroupVersion.WithKind("Caffe2Job")\<close>\<close>

definition controllerKind :: GroupVersionKind where
  "controllerKind = \<lparr>gvk_Group = GroupName, gvk_Version = GroupVersion, gvk_Kind = ''Caffe2Job''\<rparr>"

lemmas gvk_defs = GroupVersion_String_def GroupName_def Caffe2JobResourceKind_def GroupVersion_def
  groupVersionKind_def controllerKind_def

lemma controllerKind_eq: "controllerKind = groupVersionKind"
  by (simp add: controllerKind_def groupVersionKind_def Caffe2JobResourceKind_def)

section \<open>Object keys\<close>

text \<open>
  \<open>cache.MetaNamespaceKeyFunc\<close> on an object with metadata (it cannot fail there), and
  \<open>cache.SplitMetaNamespaceKey\<close>.
\<close>

definition MetaNamespaceKey :: "ObjectMeta \<Rightarrow> string" where
  "MetaNamespaceKey meta =
     (if om_Namespace meta \<noteq> [] then om_Namespace meta @ ''/'' @ om_Name meta else om_Name meta)"

definition SplitMetaNamespaceKey :: "string \<Rightarrow> go_error + (string \<times> string)" where
  "SplitMetaNamespaceKey key =
     (case split_on (CHR ''/'') key of
        [name] \<Rightarrow> Inr ([], name)
      | [ns, name] \<Rightarrow> Inr (ns, name)
      | _ \<Rightarrow> Inl (Errorf ''unexpected key format: %q'' [key] []))"

lemma Split_MetaNamespaceKey:
  assumes "CHR ''/'' \<notin> set (om_Namespace m)" and "CHR ''/'' \<notin> set (om_Name m)"
  shows "SplitMetaNamespaceKey (MetaNamespaceKey m) = Inr (om_Namespace m, om_Name m)"
  using assms
  by (simp add: SplitMetaNamespaceKey_def MetaNamespaceKey_def split_on_append split_on_absent)

lemma SplitMetaNamespaceKey_no_slash:
  "SplitMetaNamespaceKey key = Inr (ns, name) \<Longrightarrow> CHR ''/'' \<notin> set ns \<and> CHR ''/'' \<notin> set name"
  using split_on_parts [of _ "CHR ''/''" key]
  by (auto simp: SplitMetaNamespaceKey_def split: list.splits)

lemma SplitMetaNamespaceKey_Inl_iff:
  "(\<exists>e. SplitMetaNamespaceKey key = Inl e) \<longleftrightarrow> 2 \<le> count_list key (CHR ''/'')"
proof -
  have "length (split_on (CHR ''/'') key) = Suc (count_list key (CHR ''/''))"
    by (rule length_split_on)
  then show ?thesis
    by (auto simp: SplitMetaNamespaceKey_def split: list.splits)
qed

section \<open>A sample job\<close>

text \<open>Used by the concrete runs beside the properties: two workers on redis, and a clock that ticks.\<close>

definition empty_status :: Caffe2JobStatus where
  "empty_status = \<lparr>ss_Conditions = [], ss_ReplicaStatuses = None, ss_StartTime = None,
     ss_CompletionTime = None, ss_LastReconcileTime = None\<rparr>"

definition sample_template :: PodTemplateSpec where
  "sample_template = \<lparr>pt_Meta = zero_ObjectMeta\<lparr>om_Labels := Some [(''app'', ''x'')]\<rparr>,
     pt_Spec = \<lparr>ps_Containers = [\<lparr>ct_Name = ''c'', ct_Env = [], ct_Rest = []\<rparr>],
                ps_RestartPolicy = ''Never'', ps_NodeName = [], ps_Rest = []\<rparr>\<rparr>"

definition sample_spec :: Caffe2ReplicaSpec where
  "sample_spec = \<lparr>rs_Replicas = Some 2, rs_Template = Some sample_template\<rparr>"

definition sample_job :: Caffe2Job where
  "sample_job = \<lparr>job_Meta = zero_ObjectMeta\<lparr>om_Name := ''job'', om_Namespace := ''ns'', om_UID := ''u1''\<rparr>,
     job_Spec = \<lparr>js_RuntimeID = ''r1'',
       js_Backend = Some \<lparr>be_Type = RedisBackendType, be_NFSPath = [], be_RedisHost = ''h'', be_RedisPort = 6379\<rparr>,
       js_ReplicaSpecs = Some sample_spec,
       js_TerminationPolicy = Some \<lparr>tp_Chief = Some \<lparr>ch_ReplicaName = ''WORKER'', ch_ReplicaIndex = 0\<rparr>\<rparr>\<rparr>,
     job_Status = empty_status\<rparr>"

text \<open>The same without backend, run-time id and termination policy.\<close>

definition bare_job :: Caffe2Job where
  "bare_job = sample_job\<lparr>job_Spec :=
     \<lparr>js_RuntimeID = [], js_Backend = None, js_ReplicaSpecs = Some sample_spec, js_TerminationPolicy = None\<rparr>\<rparr>"

definition ticking :: "int \<Rightarrow> time \<times> int" where
  "ticking w = (w, w + 1)"

lemmas sample_job_defs = empty_status_def sample_template_def sample_spec_def sample_job_def
  bare_job_def ticking_def zero_ObjectMeta_def

end
