(* ===== verification/Memory.thy ===== *)
theory Memory
  imports ApiTypes "HOL-Library.Monad_Syntax" "HOL-Library.Sublist"
begin

text \<open>
  The memory that the generated deep-copy functions work on: a list of cells, where an address is a
  position in it and allocation appends a cell, and the ways the generator copies a pointer, a map
  and a slice. The \<open>raw_\<close> records are the Go structs with their pointers; the records of
  \<open>ApiTypes\<close> are the values they stand for, and a \<open>view\<close> reads such a value out of memory. A copy gives what it leaves in \<open>*out\<close> and the memory afterwards; it gives \<open>None\<close> only for
  an address that holds no value of the pointer's type, which Go's type system rules out.
\<close>

section \<open>Memory\<close>

type_synonym addr = nat

text \<open>A slice that is not nil: the address of its array and its length.\<close>

type_synonym raw_slice = "(addr \<times> nat) option"

record raw_OwnerReference =
  ro_APIVersion :: string
  ro_Kind :: string
  ro_Name :: string
  ro_UID :: string
  ro_Controller :: "addr option"
  ro_BlockOwnerDeletion :: "addr option"

record raw_ObjectMeta =
  rm_Name :: string
  rm_GenerateName :: string
  rm_Namespace :: string
  rm_UID :: string
  rm_ResourceVersion :: string
  rm_DeletionTimestamp :: "addr option"
  rm_Labels :: "addr option"
  rm_Annotations :: "addr option"
  rm_OwnerReferences :: raw_slice
  rm_Finalizers :: raw_slice

record raw_Container =
  rc_Name :: string
  rc_Env :: raw_slice
  rc_Rest :: string

record raw_PodSpec =
  rp_Containers :: raw_slice
  rp_RestartPolicy :: string
  rp_NodeName :: string
  rp_Rest :: string

record raw_PodTemplateSpec =
  rt_Meta :: raw_ObjectMeta
  rt_Spec :: raw_PodSpec

record raw_TerminationPolicySpec =
  rx_Chief :: "addr option"

record raw_ReplicaSpec =
  rr_Replicas :: "addr option"
  rr_Template :: "addr option"

record raw_JobSpec =
  rj_RuntimeID :: string
  rj_Backend :: "addr option"
  rj_ReplicaSpecs :: "addr option"
  rj_TerminationPolicy :: "addr option"

record raw_JobStatus =
  rs_Conditions :: raw_slice
  rs_ReplicaStatuses :: "addr option"
  rs_StartTime :: "addr option"
  rs_CompletionTime :: "addr option"
  rs_LastReconcileTime :: "addr option"

record TypeMeta =
  tm_Kind :: string
  tm_APIVersion :: string

record ListMeta =
  lm_SelfLink :: string
  lm_ResourceVersion :: string
  lm_Continue :: string

record raw_Job =
  rw_TypeMeta :: TypeMeta
  rw_Meta :: raw_ObjectMeta
  rw_Spec :: raw_JobSpec
  rw_Status :: raw_JobStatus

record raw_JobList =
  rl_TypeMeta :: TypeMeta
  rl_ListMeta :: ListMeta
  rl_Items :: raw_slice

datatype cell =
    BoolCell bool
  | TimeCell time
  | Int32Cell int32
  | MapCell label_map
  | StringsCell "string list"
  | OwnerReferencesCell "raw_OwnerReference list"
  | EnvVarsCell "EnvVar list"
  | ContainersCell "raw_Container list"
  | PodTemplateCell raw_PodTemplateSpec
  | BackendCell Caffe2BackendSpec
  | ReplicaSpecCell raw_ReplicaSpec
  | ChiefCell ChiefSpec
  | TerminationPolicyCell raw_TerminationPolicySpec
  | ReplicaStatusCell Caffe2ReplicaStatus
  | ConditionCell Caffe2JobCondition
  | ConditionsCell "Caffe2JobCondition list"
  | JobSpecCell raw_JobSpec
  | JobStatusCell raw_JobStatus
  | JobCell raw_Job
  | JobsCell "raw_Job list"
  | JobListCell raw_JobList

type_synonym memory = "cell list"

definition load :: "memory \<Rightarrow> addr \<Rightarrow> cell option" where
  "load h a = (if a < length h then Some (h ! a) else None)"

section \<open>Reading and copying through pointers, maps and slices\<close>

text \<open>
  \<open>unwrap\<close> is the type of a cell. \<open>new(T)\<close> followed by \<open>*out = *in\<close> appends a cell that holds the
  shallow copy; \<open>into\<close> then fills it in.
\<close>

definition view_ptr ::
  "(cell \<Rightarrow> 'r option) \<Rightarrow> (memory \<Rightarrow> 'r \<Rightarrow> 'v option) \<Rightarrow> memory \<Rightarrow> addr option \<Rightarrow> 'v option option" where
  "view_ptr unwrap view h p =
     (case p of
        None \<Rightarrow> Some None
      | Some a \<Rightarrow> do { c \<leftarrow> load h a; x \<leftarrow> unwrap c; v \<leftarrow> view h x; Some (Some v) })"

definition copy_ptr ::
  "('r \<Rightarrow> cell) \<Rightarrow> (cell \<Rightarrow> 'r option) \<Rightarrow> ('r \<Rightarrow> memory \<Rightarrow> ('r \<times> memory) option) \<Rightarrow>
     addr option \<Rightarrow> memory \<Rightarrow> (addr option \<times> memory) option" where
  "copy_ptr wrap unwrap into p h =
     (case p of
        None \<Rightarrow> Some (None, h)
      | Some a \<Rightarrow> do {
          c \<leftarrow> load h a;
          x \<leftarrow> unwrap c;
          (y, h1) \<leftarrow> into x (h @ [wrap x]);
          Some (Some (length h), h1[length h := wrap y]) })"

text \<open>\<open>*out = make(map[string]string, len(*in)); for key, val := range *in { (*out)[key] = val }\<close>\<close>

definition the_map :: "cell \<Rightarrow> label_map option" where
  "the_map c = (case c of MapCell m \<Rightarrow> if wf_map m then Some m else None | _ \<Rightarrow> None)"

definition view_map :: "memory \<Rightarrow> addr option \<Rightarrow> label_map option option" where
  "view_map = view_ptr the_map (\<lambda>h m. Some m)"

definition copy_map :: "addr option \<Rightarrow> memory \<Rightarrow> (addr option \<times> memory) option" where
  "copy_map p h =
     (case p of
        None \<Rightarrow> Some (None, h)
      | Some a \<Rightarrow> do {
          c \<leftarrow> load h a;
          m \<leftarrow> the_map c;
          Some (Some (length h), h @ [MapCell (range_write [] m)]) })"

fun view_items :: "(memory \<Rightarrow> 'r \<Rightarrow> 'v option) \<Rightarrow> memory \<Rightarrow> 'r list \<Rightarrow> 'v list option" where
  "view_items view h [] = Some []"
| "view_items view h (x # xs) = do { v \<leftarrow> view h x; vs \<leftarrow> view_items view h xs; Some (v # vs) }"

text \<open>\<open>for i := range *in { (*in)[i].DeepCopyInto(&(*out)[i]) }\<close>\<close>

fun copy_items ::
  "('r \<Rightarrow> memory \<Rightarrow> ('r \<times> memory) option) \<Rightarrow> 'r list \<Rightarrow> memory \<Rightarrow> ('r list \<times> memory) option" where
  "copy_items into [] h = Some ([], h)"
| "copy_items into (x # xs) h = do {
     (y, h1) \<leftarrow> into x h;
     (ys, h2) \<leftarrow> copy_items into xs h1;
     Some (y # ys, h2) }"

definition view_slice ::
  "(cell \<Rightarrow> 'r list option) \<Rightarrow> (memory \<Rightarrow> 'r \<Rightarrow> 'v option) \<Rightarrow> memory \<Rightarrow> raw_slice \<Rightarrow> 'v list option" where
  "view_slice unwrap view h s =
     (case s of
        None \<Rightarrow> Some []
      | Some (a, n) \<Rightarrow> do {
          c \<leftarrow> load h a;
          xs \<leftarrow> unwrap c;
          if n \<le> length xs then view_items view h (take n xs) else None })"

definition copy_slice ::
  "('r list \<Rightarrow> cell) \<Rightarrow> (cell \<Rightarrow> 'r list option) \<Rightarrow> ('r \<Rightarrow> memory \<Rightarrow> ('r \<times> memory) option) \<Rightarrow>
     raw_slice \<Rightarrow> memory \<Rightarrow> (raw_slice \<times> memory) option" where
  "copy_slice wrap unwrap into s h =
     (case s of
        None \<Rightarrow> Some (None, h)
      | Some (a, n) \<Rightarrow> do {
          c \<leftarrow> load h a;
          xs \<leftarrow> unwrap c;
          if n \<le> length xs then do {
            (ys, h1) \<leftarrow> copy_items into (take n xs) (h @ [wrap (take n xs)]);
            Some (Some (length h, n), h1[length h := wrap ys]) }
          else None })"

text \<open>A type without pointers is copied by the assignment alone.\<close>

definition plain_view :: "memory \<Rightarrow> 'r \<Rightarrow> 'r option" where "plain_view h x = Some x"
definition plain_copy :: "'r \<Rightarrow> memory \<Rightarrow> ('r \<times> memory) option" where "plain_copy x h = Some (x, h)"

section \<open>What a deep copy is\<close>

text \<open>
  \<open>keeps n h k\<close>: the cells of \<open>h\<close> from address \<open>n\<close> on are the same in \<open>k\<close>. A computation copies to \<open>Q\<close> if it
  leaves every old cell alone and \<open>Q\<close> holds of its result in any memory that has the new cells,
  whatever is in the old ones.
\<close>

definition keeps :: "nat \<Rightarrow> memory \<Rightarrow> memory \<Rightarrow> bool" where
  "keeps n h k \<longleftrightarrow> (\<forall>a. n \<le> a \<and> a < length h \<longrightarrow> load k a = load h a)"

definition copies_to :: "('r \<times> memory) option \<Rightarrow> memory \<Rightarrow> (memory \<Rightarrow> 'r \<Rightarrow> bool) \<Rightarrow> bool" where
  "copies_to m h Q \<longleftrightarrow>
     (\<exists>x h'. m = Some (x, h') \<and> prefix h h' \<and> (\<forall>k. keeps (length h) h' k \<longrightarrow> Q k x))"

lemma load_append [simp]: "load (h @ t) a = (if a < length h then load h a else load t (a - length h))"
  by (auto simp: load_def nth_append)

lemma load_prefix: "prefix h h' \<Longrightarrow> a < length h \<Longrightarrow> load h' a = load h a"
  by (auto simp: prefix_def)

lemma load_Some_less: "load h a = Some c \<Longrightarrow> a < length h"
  by (simp add: load_def split: if_splits)

lemma keeps_refl [simp]: "keeps n h h"
  by (simp add: keeps_def)

lemma keeps_prefix: "prefix h h' \<Longrightarrow> keeps n h h'"
  by (simp add: keeps_def load_prefix)

lemma keeps_mono: "keeps m h k \<Longrightarrow> m \<le> n \<Longrightarrow> keeps n h k"
  by (auto simp: keeps_def)

lemma keeps_shorter: "prefix h h' \<Longrightarrow> keeps n h' k \<Longrightarrow> keeps n h k"
  unfolding keeps_def by (metis load_prefix order_less_le_trans prefix_length_le)

lemma keeps_load: "keeps 0 h k \<Longrightarrow> load h a = Some c \<Longrightarrow> load k a = Some c"
  by (simp add: keeps_def load_Some_less)

lemma copies_to_Some: "(\<And>k. Q k x) \<Longrightarrow> copies_to (Some (x, h)) h Q"
  by (simp add: copies_to_def)

lemma copies_to_mono: "copies_to m h P \<Longrightarrow> (\<And>k x. P k x \<Longrightarrow> Q k x) \<Longrightarrow> copies_to m h Q"
  by (auto simp: copies_to_def)

text \<open>One step of a \<open>DeepCopyInto\<close> after another.\<close>

lemma copies_to_bind:
  assumes "copies_to m h P"
    and "\<And>x h1. prefix h h1 \<Longrightarrow> copies_to (f (x, h1)) h1 (\<lambda>k y. P k x \<longrightarrow> Q k y)"
  shows "copies_to (Option.bind m f) h Q"
proof -
  obtain x h1 where m: "m = Some (x, h1)" "prefix h h1" "\<forall>k. keeps (length h) h1 k \<longrightarrow> P k x"
    using assms(1) by (auto simp: copies_to_def)
  obtain y h2 where f: "f (x, h1) = Some (y, h2)" "prefix h1 h2"
    "\<forall>k. keeps (length h1) h2 k \<longrightarrow> P k x \<longrightarrow> Q k y"
    using assms(2) [OF m(2), of x] by (auto simp: copies_to_def)
  have "Q k y" if "keeps (length h) h2 k" for k
    using that m f keeps_mono [OF that prefix_length_le [OF m(2)]] keeps_shorter [OF f(2)] by blast
  with m f show ?thesis by (auto simp: copies_to_def intro: prefix_order.trans)
qed

lemma length_view_items: "view_items view h xs = Some vs \<Longrightarrow> length vs = length xs"
  by (induction xs arbitrary: vs) (auto simp: bind_eq_Some_conv)

text \<open>
  A way to read a type out of memory and a way to copy it, that fit: what is read depends on
  reachable cells only, and the copy reads the same.
\<close>

locale deep_copier =
  fixes view :: "memory \<Rightarrow> 'r \<Rightarrow> 'v option"
    and into :: "'r \<Rightarrow> memory \<Rightarrow> ('r \<times> memory) option"
  assumes view_keeps: "view h x = Some v \<Longrightarrow> keeps 0 h k \<Longrightarrow> view k x = Some v"
    and copies: "view h x = Some v \<Longrightarrow> copies_to (into x h) h (\<lambda>k y. view k y = Some v)"
begin

lemma view_prefix: "view h x = Some v \<Longrightarrow> prefix h h' \<Longrightarrow> view h' x = Some v"
  by (rule view_keeps [OF _ keeps_prefix])

text \<open>One field after the other: each is read from the memory the struct was in.\<close>

lemma step:
  assumes "view h x = Some v" and "prefix h h1"
    and "\<And>y h2. prefix h h2 \<Longrightarrow> copies_to (f (y, h2)) h2 (\<lambda>k z. view k y = Some v \<longrightarrow> Q k z)"
  shows "copies_to (Option.bind (into x h1) f) h1 Q"
proof (rule copies_to_bind [OF copies])
  show "view h1 x = Some v" by (rule view_prefix [OF assms(1,2)])
  show "copies_to (f (y, h2)) h2 (\<lambda>k z. view k y = Some v \<longrightarrow> Q k z)" if "prefix h1 h2" for y h2
    by (rule assms(3) [OF prefix_order.trans [OF assms(2) that]])
qed

lemma items_keeps: "view_items view h xs = Some vs \<Longrightarrow> keeps 0 h k \<Longrightarrow> view_items view k xs = Some vs"
  by (induction xs arbitrary: vs) (auto simp: bind_eq_Some_conv dest: view_keeps)

lemma items_copies:
  "view_items view h xs = Some vs \<Longrightarrow> copies_to (copy_items into xs h) h (\<lambda>k ys. view_items view k ys = Some vs)"
proof (induction xs arbitrary: h vs)
  case Nil
  then show ?case by (simp add: copies_to_Some)
next
  case (Cons x xs)
  then obtain v ws where v: "view h x = Some v" "view_items view h xs = Some ws" "vs = v # ws"
    by (auto simp: bind_eq_Some_conv)
  have rest: "copies_to (copy_items into xs h1) h1 (\<lambda>k ys. view_items view k ys = Some ws)" if "prefix h h1" for h1
    using Cons.IH [OF items_keeps [OF v(2) keeps_prefix [OF that]]] .
  show ?case
    unfolding copy_items.simps
    by (rule copies_to_bind [OF copies [OF v(1)]], unfold split_conv, rule copies_to_bind [OF rest])
      (auto intro!: copies_to_Some simp: v(3))
qed

end

lemma plain_copier: "deep_copier plain_view plain_copy"
  by unfold_locales (simp_all add: plain_view_def plain_copy_def copies_to_Some)

text \<open>
  The new cell is written after \<open>into\<close> has run: what was copied sits in cells further on.
\<close>

lemma copies_to_cell:
  assumes "copies_to m (h @ [c]) P" and "\<And>k x. P k x \<Longrightarrow> load k (length h) = Some (g x) \<Longrightarrow> Q k (f x)"
  shows "copies_to (do { (x, h1) \<leftarrow> m; Some (f x, h1[length h := g x]) }) h Q"
proof -
  obtain x h1 where m: "m = Some (x, h1)" "prefix (h @ [c]) h1" "\<forall>k. keeps (Suc (length h)) h1 k \<longrightarrow> P k x"
    using assms(1) by (auto simp: copies_to_def)
  then obtain t where t: "h1 = h @ c # t" by (auto simp: prefix_def)
  have "Q k (f x)" if k: "keeps (length h) (h1[length h := g x]) k" for k
  proof (rule assms(2))
    have "keeps (Suc (length h)) h1 k"
      using k unfolding keeps_def load_def by (auto simp: nth_list_update split: if_splits)
    with m(3) show "P k x" by blast
    have "load (h1[length h := g x]) (length h) = Some (g x)" by (simp add: t load_def)
    then show "load k (length h) = Some (g x)" using k t by (simp add: keeps_def)
  qed
  moreover have "prefix h (h1[length h := g x])" using t by simp
  ultimately show ?thesis using m(1) by (auto simp: copies_to_def)
qed

lemma copier_ptr:
  assumes c: "deep_copier view into" and wrap: "\<And>x. unwrap (wrap x) = Some x"
  shows "deep_copier (view_ptr unwrap view) (copy_ptr wrap unwrap into)"
proof
  fix h p v k
  assume v: "view_ptr unwrap view h p = Some v" and k: "keeps 0 h k"
  note keeps_load [OF k] deep_copier.view_keeps [OF c _ k]
  with v show "view_ptr unwrap view k p = Some v"
    unfolding view_ptr_def by (cases p) (fastforce simp: bind_eq_Some_conv)+
next
  fix h p v
  assume v: "view_ptr unwrap view h p = Some v"
  show "copies_to (copy_ptr wrap unwrap into p h) h (\<lambda>k q. view_ptr unwrap view k q = Some v)"
  proof (cases p)
    case None
    with v show ?thesis by (simp add: view_ptr_def copy_ptr_def copies_to_Some)
  next
    case (Some a)
    with v obtain c' x w where x: "load h a = Some c'" "unwrap c' = Some x" "view h x = Some w" "v = Some w"
      by (auto simp: view_ptr_def bind_eq_Some_conv)
    have "view (h @ [wrap x]) x = Some w" by (rule deep_copier.view_prefix [OF c x(3)]) simp
    from deep_copier.copies [OF c this]
    have "copies_to (do { (y, h1) \<leftarrow> into x (h @ [wrap x]); Some (Some (length h), h1[length h := wrap y]) }) h
        (\<lambda>k q. view_ptr unwrap view k q = Some v)"
      by (rule copies_to_cell) (simp add: view_ptr_def wrap x(4))
    with Some x(1,2) show ?thesis by (simp add: copy_ptr_def)
  qed
qed

lemma copier_slice:
  assumes c: "deep_copier view into" and wrap: "\<And>xs. unwrap (wrap xs) = Some xs"
  shows "deep_copier (view_slice unwrap view) (copy_slice wrap unwrap into)"
proof
  fix h s v k
  assume v: "view_slice unwrap view h s = Some v" and k: "keeps 0 h k"
  note keeps_load [OF k] deep_copier.items_keeps [OF c _ k]
  with v show "view_slice unwrap view k s = Some v"
    unfolding view_slice_def by (cases s) (fastforce simp: bind_eq_Some_conv split: if_splits)+
next
  fix h s v
  assume v: "view_slice unwrap view h s = Some v"
  show "copies_to (copy_slice wrap unwrap into s h) h (\<lambda>k q. view_slice unwrap view k q = Some v)"
  proof (cases s)
    case None
    with v show ?thesis by (simp add: view_slice_def copy_slice_def copies_to_Some)
  next
    case (Some an)
    then obtain a n where s: "s = Some (a, n)" by (cases an) simp
    with v obtain c' xs where x: "load h a = Some c'" "unwrap c' = Some xs" "n \<le> length xs"
      "view_items view h (take n xs) = Some v"
      by (auto simp: view_slice_def bind_eq_Some_conv split: if_splits)
    have "view_items view (h @ [wrap (take n xs)]) (take n xs) = Some v"
      by (rule deep_copier.items_keeps [OF c x(4) keeps_prefix]) simp
    from deep_copier.items_copies [OF c this]
    have "copies_to (do { (ys, h1) \<leftarrow> copy_items into (take n xs) (h @ [wrap (take n xs)]);
          Some (Some (length h, n), h1[length h := wrap ys]) }) h (\<lambda>k q. view_slice unwrap view k q = Some v)"
    proof (rule copies_to_cell)
      fix k ys
      assume ys: "view_items view k ys = Some v" "load k (length h) = Some (wrap ys)"
      then have "length ys = n" using length_view_items [OF x(4)] length_view_items [OF ys(1)] x(3) by simp
      with ys show "view_slice unwrap view k (Some (length h, n)) = Some v" by (simp add: view_slice_def wrap)
    qed
    with s x(1-3) show ?thesis by (simp add: copy_slice_def)
  qed
qed

text \<open>
  A type with a cell of its own can be pointed to, and a type whose arrays have a cell can be in a slice: a pointer or a
  slice is then copied as the contract asks.
\<close>

locale pointed_copier = deep_copier view into
  for view :: "memory \<Rightarrow> 'r \<Rightarrow> 'v option" and into :: "'r \<Rightarrow> memory \<Rightarrow> ('r \<times> memory) option" +
  fixes wrap :: "'r \<Rightarrow> cell"
    and unwrap :: "cell \<Rightarrow> 'r option"
  assumes unwrap_wrap: "unwrap (wrap x) = Some x"

sublocale pointed_copier \<subseteq> ptr: deep_copier "view_ptr unwrap view" "copy_ptr wrap unwrap into"
  by (rule copier_ptr [OF deep_copier_axioms unwrap_wrap])

locale sliced_copier = deep_copier view into
  for view :: "memory \<Rightarrow> 'r \<Rightarrow> 'v option" and into :: "'r \<Rightarrow> memory \<Rightarrow> ('r \<times> memory) option" +
  fixes wrap :: "'r list \<Rightarrow> cell"
    and unwrap :: "cell \<Rightarrow> 'r list option"
  assumes unwrap_wrap: "unwrap (wrap xs) = Some xs"

sublocale sliced_copier \<subseteq> slice: deep_copier "view_slice unwrap view" "copy_slice wrap unwrap into"
  by (rule copier_slice [OF deep_copier_axioms unwrap_wrap])

text \<open>A map is copied entry by entry.\<close>

lemma update_fresh: "k \<notin> fst ` set m \<Longrightarrow> AList.update k v m = m @ [(k, v)]"
  by (induction m) auto

lemma range_write_append: "distinct (map fst (dst @ src)) \<Longrightarrow> range_write dst src = dst @ src"
  by (induction dst src rule: range_write.induct) (simp_all add: update_fresh)

lemma the_map_Some: "the_map c = Some m \<longleftrightarrow> c = MapCell m \<and> wf_map m"
  by (cases c) (auto simp: the_map_def)

lemma copier_map: "deep_copier view_map copy_map"
proof
  fix h p v k
  assume "view_map h p = Some v" "keeps 0 h k"
  then show "view_map k p = Some v"
    unfolding view_map_def view_ptr_def by (cases p) (fastforce simp: bind_eq_Some_conv dest: keeps_load)+
next
  fix h p v
  assume v: "view_map h p = Some v"
  show "copies_to (copy_map p h) h (\<lambda>k q. view_map k q = Some v)"
  proof (cases p)
    case None
    with v show ?thesis by (simp add: view_map_def view_ptr_def copy_map_def copies_to_Some)
  next
    case (Some a)
    with v obtain m where m: "load h a = Some (MapCell m)" "wf_map m" "v = Some m"
      by (auto simp: view_map_def view_ptr_def bind_eq_Some_conv the_map_Some)
    have the: "the_map (MapCell m) = Some m" using m(2) by (simp add: the_map_Some)
    have run: "copy_map p h = Some (Some (length h), h @ [MapCell m])"
      using Some m(1) the range_write_append [of "[]" m] m(2) by (simp add: copy_map_def)
    have "view_map k (Some (length h)) = Some v" if "keeps (length h) (h @ [MapCell m]) k" for k
    proof -
      have "load k (length h) = Some (MapCell m)" using that by (simp add: keeps_def load_def)
      with the m(3) show ?thesis by (simp add: view_map_def view_ptr_def)
    qed
    with run show ?thesis by (auto simp: copies_to_def)
  qed
qed

section \<open>The types of cells\<close>

definition the_Bool :: "cell \<Rightarrow> bool option" where "the_Bool c = (case c of BoolCell x \<Rightarrow> Some x | _ \<Rightarrow> None)"
definition the_Time :: "cell \<Rightarrow> time option" where "the_Time c = (case c of TimeCell x \<Rightarrow> Some x | _ \<Rightarrow> None)"
definition the_Int32 :: "cell \<Rightarrow> int32 option" where "the_Int32 c = (case c of Int32Cell x \<Rightarrow> Some x | _ \<Rightarrow> None)"
definition the_strings :: "cell \<Rightarrow> string list option" where "the_strings c = (case c of StringsCell x \<Rightarrow> Some x | _ \<Rightarrow> None)"
definition the_OwnerReferences :: "cell \<Rightarrow> raw_OwnerReference list option" where "the_OwnerReferences c = (case c of OwnerReferencesCell x \<Rightarrow> Some x | _ \<Rightarrow> None)"
definition the_EnvVars :: "cell \<Rightarrow> EnvVar list option" where "the_EnvVars c = (case c of EnvVarsCell x \<Rightarrow> Some x | _ \<Rightarrow> None)"
definition the_Containers :: "cell \<Rightarrow> raw_Container list option" where "the_Containers c = (case c of ContainersCell x \<Rightarrow> Some x | _ \<Rightarrow> None)"
definition the_PodTemplate :: "cell \<Rightarrow> raw_PodTemplateSpec option" where "the_PodTemplate c = (case c of PodTemplateCell x \<Rightarrow> Some x | _ \<Rightarrow> None)"
definition the_Backend :: "cell \<Rightarrow> Caffe2BackendSpec option" where "the_Backend c = (case c of BackendCell x \<Rightarrow> Some x | _ \<Rightarrow> None)"
definition the_ReplicaSpec :: "cell \<Rightarrow> raw_ReplicaSpec option" where "the_ReplicaSpec c = (case c of ReplicaSpecCell x \<Rightarrow> Some x | _ \<Rightarrow> None)"
definition the_Chief :: "cell \<Rightarrow> ChiefSpec option" where "the_Chief c = (case c of ChiefCell x \<Rightarrow> Some x | _ \<Rightarrow> None)"
definition the_TerminationPolicy :: "cell \<Rightarrow> raw_TerminationPolicySpec option" where "the_TerminationPolicy c = (case c of TerminationPolicyCell x \<Rightarrow> Some x | _ \<Rightarrow> None)"
definition the_ReplicaStatus :: "cell \<Rightarrow> Caffe2ReplicaStatus option" where "the_ReplicaStatus c = (case c of ReplicaStatusCell x \<Rightarrow> Some x | _ \<Rightarrow> None)"
definition the_Condition :: "cell \<Rightarrow> Caffe2JobCondition option" where "the_Condition c = (case c of ConditionCell x \<Rightarrow> Some x | _ \<Rightarrow> None)"
definition the_Conditions :: "cell \<Rightarrow> Caffe2JobCondition list option" where "the_Conditions c = (case c of ConditionsCell x \<Rightarrow> Some x | _ \<Rightarrow> None)"
definition the_JobSpec :: "cell \<Rightarrow> raw_JobSpec option" where "the_JobSpec c = (case c of JobSpecCell x \<Rightarrow> Some x | _ \<Rightarrow> None)"
definition the_JobStatus :: "cell \<Rightarrow> raw_JobStatus option" where "the_JobStatus c = (case c of JobStatusCell x \<Rightarrow> Some x | _ \<Rightarrow> None)"
definition the_Job :: "cell \<Rightarrow> raw_Job option" where "the_Job c = (case c of JobCell x \<Rightarrow> Some x | _ \<Rightarrow> None)"
definition the_Jobs :: "cell \<Rightarrow> raw_Job list option" where "the_Jobs c = (case c of JobsCell x \<Rightarrow> Some x | _ \<Rightarrow> None)"
definition the_JobList :: "cell \<Rightarrow> raw_JobList option" where "the_JobList c = (case c of JobListCell x \<Rightarrow> Some x | _ \<Rightarrow> None)"

lemmas the_cell_defs =
  the_Bool_def the_Time_def the_Int32_def the_strings_def the_OwnerReferences_def the_EnvVars_def the_Containers_def the_PodTemplate_def the_Backend_def the_ReplicaSpec_def the_Chief_def the_TerminationPolicy_def the_ReplicaStatus_def the_Condition_def the_Conditions_def the_JobSpec_def the_JobStatus_def the_Job_def the_Jobs_def the_JobList_def

lemma the_cell [simp]:
  "the_Bool (BoolCell x0) = Some x0"
  "the_Time (TimeCell x1) = Some x1"
  "the_Int32 (Int32Cell x2) = Some x2"
  "the_strings (StringsCell x3) = Some x3"
  "the_OwnerReferences (OwnerReferencesCell x4) = Some x4"
  "the_EnvVars (EnvVarsCell x5) = Some x5"
  "the_Containers (ContainersCell x6) = Some x6"
  "the_PodTemplate (PodTemplateCell x7) = Some x7"
  "the_Backend (BackendCell x8) = Some x8"
  "the_ReplicaSpec (ReplicaSpecCell x9) = Some x9"
  "the_Chief (ChiefCell x10) = Some x10"
  "the_TerminationPolicy (TerminationPolicyCell x11) = Some x11"
  "the_ReplicaStatus (ReplicaStatusCell x12) = Some x12"
  "the_Condition (ConditionCell x13) = Some x13"
  "the_Conditions (ConditionsCell x14) = Some x14"
  "the_JobSpec (JobSpecCell x15) = Some x15"
  "the_JobStatus (JobStatusCell x16) = Some x16"
  "the_Job (JobCell x17) = Some x17"
  "the_Jobs (JobsCell x18) = Some x18"
  "the_JobList (JobListCell x19) = Some x19"
  by (simp_all add: the_cell_defs)

end
