(* ===== verification/DeepCopy.thy ===== *)
theory DeepCopy
  imports Memory
begin

text \<open>
  pkg/apis/caffe2/v1alpha1/zz_generated.deepcopy.go, with the generated copying of the metadata, the
  owner references and the pod template under vendor/. For every type there is the value a struct
  stands for (\<open>view\<close>), its \<open>DeepCopyInto\<close>, field by field in the order of the code, and the proof that
  the two fit. The structs that \<open>ApiTypes\<close> does not open up (\<open>ct_Rest\<close>, \<open>ps_Rest\<close>, \<open>ev_ValueFrom\<close>) are copied as
  values. A guard \<open>if in.F != nil { if *in == nil \<dots> }\<close> is the case distinction of \<open>copy_ptr\<close>.
\<close>

section \<open>Fields\<close>

interpretation plain: deep_copier plain_view plain_copy
  by (rule plain_copier)

interpretation label_map: deep_copier view_map copy_map
  by (rule copier_map)

interpretation bool_cell: pointed_copier plain_view plain_copy BoolCell the_Bool
  by (intro pointed_copier.intro pointed_copier_axioms.intro plain_copier the_cell(1))

interpretation time_cell: pointed_copier plain_view plain_copy TimeCell the_Time
  by (intro pointed_copier.intro pointed_copier_axioms.intro plain_copier the_cell(2))

interpretation int32_cell: pointed_copier plain_view plain_copy Int32Cell the_Int32
  by (intro pointed_copier.intro pointed_copier_axioms.intro plain_copier the_cell(3))

interpretation backend_cell: pointed_copier plain_view plain_copy BackendCell the_Backend
  by (intro pointed_copier.intro pointed_copier_axioms.intro plain_copier the_cell(9))

interpretation chief_cell: pointed_copier plain_view plain_copy ChiefCell the_Chief
  by (intro pointed_copier.intro pointed_copier_axioms.intro plain_copier the_cell(11))

interpretation replica_status_cell: pointed_copier plain_view plain_copy ReplicaStatusCell the_ReplicaStatus
  by (intro pointed_copier.intro pointed_copier_axioms.intro plain_copier the_cell(13))

interpretation strings_cell: sliced_copier plain_view plain_copy StringsCell the_strings
  by (intro sliced_copier.intro sliced_copier_axioms.intro plain_copier the_cell(4))

interpretation env_vars_cell: sliced_copier plain_view plain_copy EnvVarsCell the_EnvVars
  by (intro sliced_copier.intro sliced_copier_axioms.intro plain_copier the_cell(6))

interpretation conditions_cell: sliced_copier plain_view plain_copy ConditionsCell the_Conditions
  by (intro sliced_copier.intro sliced_copier_axioms.intro plain_copier the_cell(15))

section \<open>OwnerReference\<close>

definition view_OwnerReference :: "memory \<Rightarrow> raw_OwnerReference \<Rightarrow> OwnerReference option" where
  "view_OwnerReference h r =
     do { c \<leftarrow> view_ptr the_Bool plain_view h (ro_Controller r);
       b \<leftarrow> view_ptr the_Bool plain_view h (ro_BlockOwnerDeletion r);
       Some \<lparr>or_APIVersion = ro_APIVersion r,
         or_Kind = ro_Kind r,
         or_Name = ro_Name r,
         or_UID = ro_UID r,
         or_Controller = c,
         or_BlockOwnerDeletion = b\<rparr> }"

definition DeepCopyInto_OwnerReference :: "raw_OwnerReference \<Rightarrow> memory \<Rightarrow> (raw_OwnerReference \<times> memory) option" where
  "DeepCopyInto_OwnerReference r h =
     do { (c, h1) \<leftarrow> copy_ptr BoolCell the_Bool plain_copy (ro_Controller r) h;
       (b, h2) \<leftarrow> copy_ptr BoolCell the_Bool plain_copy (ro_BlockOwnerDeletion r) h1;
       Some (r\<lparr>ro_Controller := c, ro_BlockOwnerDeletion := b\<rparr>, h2) }"

interpretation owner_reference: deep_copier view_OwnerReference DeepCopyInto_OwnerReference
proof
  fix h r v
  assume v: "view_OwnerReference h r = Some v"
  then obtain c b where f: "view_ptr the_Bool plain_view h (ro_Controller r) = Some c"
      "view_ptr the_Bool plain_view h (ro_BlockOwnerDeletion r) = Some b"
      and val: "v = \<lparr>or_APIVersion = ro_APIVersion r,
         or_Kind = ro_Kind r,
         or_Name = ro_Name r,
         or_UID = ro_UID r,
         or_Controller = c,
         or_BlockOwnerDeletion = b\<rparr>"
    by (auto simp: view_OwnerReference_def bind_eq_Some_conv)
  show "view_OwnerReference k r = Some v" if k: "keeps 0 h k" for k
    using bool_cell.ptr.view_keeps [OF f(1) k] bool_cell.ptr.view_keeps [OF f(2) k]
    by (simp add: view_OwnerReference_def val)
  show "copies_to (DeepCopyInto_OwnerReference r h) h (\<lambda>k q. view_OwnerReference k q = Some v)"
    unfolding DeepCopyInto_OwnerReference_def
    by (rule bool_cell.ptr.step [OF f(1) prefix_order.refl], unfold split_conv,
        rule bool_cell.ptr.step [OF f(2)], assumption)
      (auto intro!: copies_to_Some simp: view_OwnerReference_def val)
qed

interpretation owner_references_cell: sliced_copier view_OwnerReference DeepCopyInto_OwnerReference OwnerReferencesCell the_OwnerReferences
  by (intro sliced_copier.intro sliced_copier_axioms.intro owner_reference.deep_copier_axioms the_cell(5))

section \<open>ObjectMeta\<close>

definition view_ObjectMeta :: "memory \<Rightarrow> raw_ObjectMeta \<Rightarrow> ObjectMeta option" where
  "view_ObjectMeta h r =
     do { d \<leftarrow> view_ptr the_Time plain_view h (rm_DeletionTimestamp r);
       l \<leftarrow> view_map h (rm_Labels r);
       a \<leftarrow> view_map h (rm_Annotations r);
       os \<leftarrow> view_slice the_OwnerReferences view_OwnerReference h (rm_OwnerReferences r);
       fs \<leftarrow> view_slice the_strings plain_view h (rm_Finalizers r);
       Some \<lparr>om_Name = rm_Name r,
         om_GenerateName = rm_GenerateName r,
         om_Namespace = rm_Namespace r,
         om_UID = rm_UID r,
         om_ResourceVersion = rm_ResourceVersion r,
         om_DeletionTimestamp = d,
         om_Labels = l,
         om_Annotations = a,
         om_OwnerReferences = os,
         om_Finalizers = fs\<rparr> }"

definition DeepCopyInto_ObjectMeta :: "raw_ObjectMeta \<Rightarrow> memory \<Rightarrow> (raw_ObjectMeta \<times> memory) option" where
  "DeepCopyInto_ObjectMeta r h =
     do { (d, h1) \<leftarrow> copy_ptr TimeCell the_Time plain_copy (rm_DeletionTimestamp r) h;
       (l, h2) \<leftarrow> copy_map (rm_Labels r) h1;
       (a, h3) \<leftarrow> copy_map (rm_Annotations r) h2;
       (os, h4) \<leftarrow> copy_slice OwnerReferencesCell the_OwnerReferences DeepCopyInto_OwnerReference (rm_OwnerReferences r) h3;
       (fs, h5) \<leftarrow> copy_slice StringsCell the_strings plain_copy (rm_Finalizers r) h4;
       Some (r\<lparr>rm_DeletionTimestamp := d, rm_Labels := l, rm_Annotations := a, rm_OwnerReferences := os, rm_Finalizers := fs\<rparr>, h5) }"

interpretation object_meta: deep_copier view_ObjectMeta DeepCopyInto_ObjectMeta
proof
  fix h r v
  assume v: "view_ObjectMeta h r = Some v"
  then obtain d l a os fs where f: "view_ptr the_Time plain_view h (rm_DeletionTimestamp r) = Some d"
      "view_map h (rm_Labels r) = Some l"
      "view_map h (rm_Annotations r) = Some a"
      "view_slice the_OwnerReferences view_OwnerReference h (rm_OwnerReferences r) = Some os"
      "view_slice the_strings plain_view h (rm_Finalizers r) = Some fs"
      and val: "v = \<lparr>om_Name = rm_Name r,
         om_GenerateName = rm_GenerateName r,
         om_Namespace = rm_Namespace r,
         om_UID = rm_UID r,
         om_ResourceVersion = rm_ResourceVersion r,
         om_DeletionTimestamp = d,
         om_Labels = l,
         om_Annotations = a,
         om_OwnerReferences = os,
         om_Finalizers = fs\<rparr>"
    by (auto simp: view_ObjectMeta_def bind_eq_Some_conv)
  show "view_ObjectMeta k r = Some v" if k: "keeps 0 h k" for k
    using time_cell.ptr.view_keeps [OF f(1) k] label_map.view_keeps [OF f(2) k] label_map.view_keeps [OF f(3) k] owner_references_cell.slice.view_keeps [OF f(4) k] strings_cell.slice.view_keeps [OF f(5) k]
    by (simp add: view_ObjectMeta_def val)
  show "copies_to (DeepCopyInto_ObjectMeta r h) h (\<lambda>k q. view_ObjectMeta k q = Some v)"
    unfolding DeepCopyInto_ObjectMeta_def
    by (rule time_cell.ptr.step [OF f(1) prefix_order.refl], unfold split_conv,
        rule label_map.step [OF f(2)], assumption, unfold split_conv,
        rule label_map.step [OF f(3)], assumption, unfold split_conv,
        rule owner_references_cell.slice.step [OF f(4)], assumption, unfold split_conv,
        rule strings_cell.slice.step [OF f(5)], assumption)
      (auto intro!: copies_to_Some simp: view_ObjectMeta_def val)
qed

section \<open>Container\<close>

definition view_Container :: "memory \<Rightarrow> raw_Container \<Rightarrow> Container option" where
  "view_Container h r =
     do { e \<leftarrow> view_slice the_EnvVars plain_view h (rc_Env r);
       Some \<lparr>ct_Name = rc_Name r,
         ct_Env = e,
         ct_Rest = rc_Rest r\<rparr> }"

definition DeepCopyInto_Container :: "raw_Container \<Rightarrow> memory \<Rightarrow> (raw_Container \<times> memory) option" where
  "DeepCopyInto_Container r h =
     do { (e, h1) \<leftarrow> copy_slice EnvVarsCell the_EnvVars plain_copy (rc_Env r) h;
       Some (r\<lparr>rc_Env := e\<rparr>, h1) }"

interpretation container: deep_copier view_Container DeepCopyInto_Container
proof
  fix h r v
  assume v: "view_Container h r = Some v"
  then obtain e where f: "view_slice the_EnvVars plain_view h (rc_Env r) = Some e"
      and val: "v = \<lparr>ct_Name = rc_Name r,
         ct_Env = e,
         ct_Rest = rc_Rest r\<rparr>"
    by (auto simp: view_Container_def bind_eq_Some_conv)
  show "view_Container k r = Some v" if k: "keeps 0 h k" for k
    using env_vars_cell.slice.view_keeps [OF f k]
    by (simp add: view_Container_def val)
  show "copies_to (DeepCopyInto_Container r h) h (\<lambda>k q. view_Container k q = Some v)"
    unfolding DeepCopyInto_Container_def
    by (rule env_vars_cell.slice.step [OF f prefix_order.refl])
      (auto intro!: copies_to_Some simp: view_Container_def val)
qed

interpretation containers_cell: sliced_copier view_Container DeepCopyInto_Container ContainersCell the_Containers
  by (intro sliced_copier.intro sliced_copier_axioms.intro container.deep_copier_axioms the_cell(7))

section \<open>PodSpec\<close>

definition view_PodSpec :: "memory \<Rightarrow> raw_PodSpec \<Rightarrow> PodSpec option" where
  "view_PodSpec h r =
     do { cs \<leftarrow> view_slice the_Containers view_Container h (rp_Containers r);
       Some \<lparr>ps_Containers = cs,
         ps_RestartPolicy = rp_RestartPolicy r,
         ps_NodeName = rp_NodeName r,
         ps_Rest = rp_Rest r\<rparr> }"

definition DeepCopyInto_PodSpec :: "raw_PodSpec \<Rightarrow> memory \<Rightarrow> (raw_PodSpec \<times> memory) option" where
  "DeepCopyInto_PodSpec r h =
     do { (cs, h1) \<leftarrow> copy_slice ContainersCell the_Containers DeepCopyInto_Container (rp_Containers r) h;
       Some (r\<lparr>rp_Containers := cs\<rparr>, h1) }"

interpretation pod_spec: deep_copier view_PodSpec DeepCopyInto_PodSpec
proof
  fix h r v
  assume v: "view_PodSpec h r = Some v"
  then obtain cs where f: "view_slice the_Containers view_Container h (rp_Containers r) = Some cs"
      and val: "v = \<lparr>ps_Containers = cs,
         ps_RestartPolicy = rp_RestartPolicy r,
         ps_NodeName = rp_NodeName r,
         ps_Rest = rp_Rest r\<rparr>"
    by (auto simp: view_PodSpec_def bind_eq_Some_conv)
  show "view_PodSpec k r = Some v" if k: "keeps 0 h k" for k
    using containers_cell.slice.view_keeps [OF f k]
    by (simp add: view_PodSpec_def val)
  show "copies_to (DeepCopyInto_PodSpec r h) h (\<lambda>k q. view_PodSpec k q = Some v)"
    unfolding DeepCopyInto_PodSpec_def
    by (rule containers_cell.slice.step [OF f prefix_order.refl])
      (auto intro!: copies_to_Some simp: view_PodSpec_def val)
qed

section \<open>PodTemplateSpec\<close>

definition view_PodTemplateSpec :: "memory \<Rightarrow> raw_PodTemplateSpec \<Rightarrow> PodTemplateSpec option" where
  "view_PodTemplateSpec h r =
     do { m \<leftarrow> view_ObjectMeta h (rt_Meta r);
       s \<leftarrow> view_PodSpec h (rt_Spec r);
       Some \<lparr>pt_Meta = m,
         pt_Spec = s\<rparr> }"

definition DeepCopyInto_PodTemplateSpec :: "raw_PodTemplateSpec \<Rightarrow> memory \<Rightarrow> (raw_PodTemplateSpec \<times> memory) option" where
  "DeepCopyInto_PodTemplateSpec r h =
     do { (m, h1) \<leftarrow> DeepCopyInto_ObjectMeta (rt_Meta r) h;
       (s, h2) \<leftarrow> DeepCopyInto_PodSpec (rt_Spec r) h1;
       Some (r\<lparr>rt_Meta := m, rt_Spec := s\<rparr>, h2) }"

interpretation pod_template: deep_copier view_PodTemplateSpec DeepCopyInto_PodTemplateSpec
proof
  fix h r v
  assume v: "view_PodTemplateSpec h r = Some v"
  then obtain m s where f: "view_ObjectMeta h (rt_Meta r) = Some m"
      "view_PodSpec h (rt_Spec r) = Some s"
      and val: "v = \<lparr>pt_Meta = m,
         pt_Spec = s\<rparr>"
    by (auto simp: view_PodTemplateSpec_def bind_eq_Some_conv)
  show "view_PodTemplateSpec k r = Some v" if k: "keeps 0 h k" for k
    using object_meta.view_keeps [OF f(1) k] pod_spec.view_keeps [OF f(2) k]
    by (simp add: view_PodTemplateSpec_def val)
  show "copies_to (DeepCopyInto_PodTemplateSpec r h) h (\<lambda>k q. view_PodTemplateSpec k q = Some v)"
    unfolding DeepCopyInto_PodTemplateSpec_def
    by (rule object_meta.step [OF f(1) prefix_order.refl], unfold split_conv,
        rule pod_spec.step [OF f(2)], assumption)
      (auto intro!: copies_to_Some simp: view_PodTemplateSpec_def val)
qed

interpretation pod_template_cell: pointed_copier view_PodTemplateSpec DeepCopyInto_PodTemplateSpec PodTemplateCell the_PodTemplate
  by (intro pointed_copier.intro pointed_copier_axioms.intro pod_template.deep_copier_axioms the_cell(8))

section \<open>Caffe2ReplicaSpec\<close>

definition view_Caffe2ReplicaSpec :: "memory \<Rightarrow> raw_ReplicaSpec \<Rightarrow> Caffe2ReplicaSpec option" where
  "view_Caffe2ReplicaSpec h r =
     do { n \<leftarrow> view_ptr the_Int32 plain_view h (rr_Replicas r);
       t \<leftarrow> view_ptr the_PodTemplate view_PodTemplateSpec h (rr_Template r);
       Some \<lparr>rs_Replicas = n,
         rs_Template = t\<rparr> }"

definition DeepCopyInto_Caffe2ReplicaSpec :: "raw_ReplicaSpec \<Rightarrow> memory \<Rightarrow> (raw_ReplicaSpec \<times> memory) option" where
  "DeepCopyInto_Caffe2ReplicaSpec r h =
     do { (n, h1) \<leftarrow> copy_ptr Int32Cell the_Int32 plain_copy (rr_Replicas r) h;
       (t, h2) \<leftarrow> copy_ptr PodTemplateCell the_PodTemplate DeepCopyInto_PodTemplateSpec (rr_Template r) h1;
       Some (r\<lparr>rr_Replicas := n, rr_Template := t\<rparr>, h2) }"

interpretation replica_spec: deep_copier view_Caffe2ReplicaSpec DeepCopyInto_Caffe2ReplicaSpec
proof
  fix h r v
  assume v: "view_Caffe2ReplicaSpec h r = Some v"
  then obtain n t where f: "view_ptr the_Int32 plain_view h (rr_Replicas r) = Some n"
      "view_ptr the_PodTemplate view_PodTemplateSpec h (rr_Template r) = Some t"
      and val: "v = \<lparr>rs_Replicas = n,
         rs_Template = t\<rparr>"
    by (auto simp: view_Caffe2ReplicaSpec_def bind_eq_Some_conv)
  show "view_Caffe2ReplicaSpec k r = Some v" if k: "keeps 0 h k" for k
    using int32_cell.ptr.view_keeps [OF f(1) k] pod_template_cell.ptr.view_keeps [OF f(2) k]
    by (simp add: view_Caffe2ReplicaSpec_def val)
  show "copies_to (DeepCopyInto_Caffe2ReplicaSpec r h) h (\<lambda>k q. view_Caffe2ReplicaSpec k q = Some v)"
    unfolding DeepCopyInto_Caffe2ReplicaSpec_def
    by (rule int32_cell.ptr.step [OF f(1) prefix_order.refl], unfold split_conv,
        rule pod_template_cell.ptr.step [OF f(2)], assumption)
      (auto intro!: copies_to_Some simp: view_Caffe2ReplicaSpec_def val)
qed

interpretation replica_spec_cell: pointed_copier view_Caffe2ReplicaSpec DeepCopyInto_Caffe2ReplicaSpec ReplicaSpecCell the_ReplicaSpec
  by (intro pointed_copier.intro pointed_copier_axioms.intro replica_spec.deep_copier_axioms the_cell(10))

section \<open>TerminationPolicySpec\<close>

definition view_TerminationPolicySpec :: "memory \<Rightarrow> raw_TerminationPolicySpec \<Rightarrow> TerminationPolicySpec option" where
  "view_TerminationPolicySpec h r =
     do { c \<leftarrow> view_ptr the_Chief plain_view h (rx_Chief r);
       Some \<lparr>tp_Chief = c\<rparr> }"

definition DeepCopyInto_TerminationPolicySpec :: "raw_TerminationPolicySpec \<Rightarrow> memory \<Rightarrow> (raw_TerminationPolicySpec \<times> memory) option" where
  "DeepCopyInto_TerminationPolicySpec r h =
     do { (c, h1) \<leftarrow> copy_ptr ChiefCell the_Chief plain_copy (rx_Chief r) h;
       Some (r\<lparr>rx_Chief := c\<rparr>, h1) }"

interpretation termination_policy: deep_copier view_TerminationPolicySpec DeepCopyInto_TerminationPolicySpec
proof
  fix h r v
  assume v: "view_TerminationPolicySpec h r = Some v"
  then obtain c where f: "view_ptr the_Chief plain_view h (rx_Chief r) = Some c"
      and val: "v = \<lparr>tp_Chief = c\<rparr>"
    by (auto simp: view_TerminationPolicySpec_def bind_eq_Some_conv)
  show "view_TerminationPolicySpec k r = Some v" if k: "keeps 0 h k" for k
    using chief_cell.ptr.view_keeps [OF f k]
    by (simp add: view_TerminationPolicySpec_def val)
  show "copies_to (DeepCopyInto_TerminationPolicySpec r h) h (\<lambda>k q. view_TerminationPolicySpec k q = Some v)"
    unfolding DeepCopyInto_TerminationPolicySpec_def
    by (rule chief_cell.ptr.step [OF f prefix_order.refl])
      (auto intro!: copies_to_Some simp: view_TerminationPolicySpec_def val)
qed

interpretation termination_policy_cell: pointed_copier view_TerminationPolicySpec DeepCopyInto_TerminationPolicySpec TerminationPolicyCell the_TerminationPolicy
  by (intro pointed_copier.intro pointed_copier_axioms.intro termination_policy.deep_copier_axioms the_cell(12))

section \<open>Caffe2JobSpec\<close>

definition view_Caffe2JobSpec :: "memory \<Rightarrow> raw_JobSpec \<Rightarrow> Caffe2JobSpec option" where
  "view_Caffe2JobSpec h r =
     do { b \<leftarrow> view_ptr the_Backend plain_view h (rj_Backend r);
       s \<leftarrow> view_ptr the_ReplicaSpec view_Caffe2ReplicaSpec h (rj_ReplicaSpecs r);
       t \<leftarrow> view_ptr the_TerminationPolicy view_TerminationPolicySpec h (rj_TerminationPolicy r);
       Some \<lparr>js_RuntimeID = rj_RuntimeID r,
         js_Backend = b,
         js_ReplicaSpecs = s,
         js_TerminationPolicy = t\<rparr> }"

definition DeepCopyInto_Caffe2JobSpec :: "raw_JobSpec \<Rightarrow> memory \<Rightarrow> (raw_JobSpec \<times> memory) option" where
  "DeepCopyInto_Caffe2JobSpec r h =
     do { (b, h1) \<leftarrow> copy_ptr BackendCell the_Backend plain_copy (rj_Backend r) h;
       (s, h2) \<leftarrow> copy_ptr ReplicaSpecCell the_ReplicaSpec DeepCopyInto_Caffe2ReplicaSpec (rj_ReplicaSpecs r) h1;
       (t, h3) \<leftarrow> copy_ptr TerminationPolicyCell the_TerminationPolicy DeepCopyInto_TerminationPolicySpec (rj_TerminationPolicy r) h2;
       Some (r\<lparr>rj_Backend := b, rj_ReplicaSpecs := s, rj_TerminationPolicy := t\<rparr>, h3) }"

interpretation job_spec: deep_copier view_Caffe2JobSpec DeepCopyInto_Caffe2JobSpec
proof
  fix h r v
  assume v: "view_Caffe2JobSpec h r = Some v"
  then obtain b s t where f: "view_ptr the_Backend plain_view h (rj_Backend r) = Some b"
      "view_ptr the_ReplicaSpec view_Caffe2ReplicaSpec h (rj_ReplicaSpecs r) = Some s"
      "view_ptr the_TerminationPolicy view_TerminationPolicySpec h (rj_TerminationPolicy r) = Some t"
      and val: "v = \<lparr>js_RuntimeID = rj_RuntimeID r,
         js_Backend = b,
         js_ReplicaSpecs = s,
         js_TerminationPolicy = t\<rparr>"
    by (auto simp: view_Caffe2JobSpec_def bind_eq_Some_conv)
  show "view_Caffe2JobSpec k r = Some v" if k: "keeps 0 h k" for k
    using backend_cell.ptr.view_keeps [OF f(1) k] replica_spec_cell.ptr.view_keeps [OF f(2) k] termination_policy_cell.ptr.view_keeps [OF f(3) k]
    by (simp add: view_Caffe2JobSpec_def val)
  show "copies_to (DeepCopyInto_Caffe2JobSpec r h) h (\<lambda>k q. view_Caffe2JobSpec k q = Some v)"
    unfolding DeepCopyInto_Caffe2JobSpec_def
    by (rule backend_cell.ptr.step [OF f(1) prefix_order.refl], unfold split_conv,
        rule replica_spec_cell.ptr.step [OF f(2)], assumption, unfold split_conv,
        rule termination_policy_cell.ptr.step [OF f(3)], assumption)
      (auto intro!: copies_to_Some simp: view_Caffe2JobSpec_def val)
qed

section \<open>Caffe2JobStatus\<close>

definition view_Caffe2JobStatus :: "memory \<Rightarrow> raw_JobStatus \<Rightarrow> Caffe2JobStatus option" where
  "view_Caffe2JobStatus h r =
     do { cs \<leftarrow> view_slice the_Conditions plain_view h (rs_Conditions r);
       n \<leftarrow> view_ptr the_ReplicaStatus plain_view h (rs_ReplicaStatuses r);
       t1 \<leftarrow> view_ptr the_Time plain_view h (rs_StartTime r);
       t2 \<leftarrow> view_ptr the_Time plain_view h (rs_CompletionTime r);
       t3 \<leftarrow> view_ptr the_Time plain_view h (rs_LastReconcileTime r);
       Some \<lparr>ss_Conditions = cs,
         ss_ReplicaStatuses = n,
         ss_StartTime = t1,
         ss_CompletionTime = t2,
         ss_LastReconcileTime = t3\<rparr> }"

definition DeepCopyInto_Caffe2JobStatus :: "raw_JobStatus \<Rightarrow> memory \<Rightarrow> (raw_JobStatus \<times> memory) option" where
  "DeepCopyInto_Caffe2JobStatus r h =
     do { (cs, h1) \<leftarrow> copy_slice ConditionsCell the_Conditions plain_copy (rs_Conditions r) h;
       (n, h2) \<leftarrow> copy_ptr ReplicaStatusCell the_ReplicaStatus plain_copy (rs_ReplicaStatuses r) h1;
       (t1, h3) \<leftarrow> copy_ptr TimeCell the_Time plain_copy (rs_StartTime r) h2;
       (t2, h4) \<leftarrow> copy_ptr TimeCell the_Time plain_copy (rs_CompletionTime r) h3;
       (t3, h5) \<leftarrow> copy_ptr TimeCell the_Time plain_copy (rs_LastReconcileTime r) h4;
       Some (r\<lparr>rs_Conditions := cs, rs_ReplicaStatuses := n, rs_StartTime := t1, rs_CompletionTime := t2, rs_LastReconcileTime := t3\<rparr>, h5) }"

interpretation job_status: deep_copier view_Caffe2JobStatus DeepCopyInto_Caffe2JobStatus
proof
  fix h r v
  assume v: "view_Caffe2JobStatus h r = Some v"
  then obtain cs n t1 t2 t3 where f: "view_slice the_Conditions plain_view h (rs_Conditions r) = Some cs"
      "view_ptr the_ReplicaStatus plain_view h (rs_ReplicaStatuses r) = Some n"
      "view_ptr the_Time plain_view h (rs_StartTime r) = Some t1"
      "view_ptr the_Time plain_view h (rs_CompletionTime r) = Some t2"
      "view_ptr the_Time plain_view h (rs_LastReconcileTime r) = Some t3"
      and val: "v = \<lparr>ss_Conditions = cs,
         ss_ReplicaStatuses = n,
         ss_StartTime = t1,
         ss_CompletionTime = t2,
         ss_LastReconcileTime = t3\<rparr>"
    by (auto simp: view_Caffe2JobStatus_def bind_eq_Some_conv)
  show "view_Caffe2JobStatus k r = Some v" if k: "keeps 0 h k" for k
    using conditions_cell.slice.view_keeps [OF f(1) k] replica_status_cell.ptr.view_keeps [OF f(2) k] time_cell.ptr.view_keeps [OF f(3) k] time_cell.ptr.view_keeps [OF f(4) k] time_cell.ptr.view_keeps [OF f(5) k]
    by (simp add: view_Caffe2JobStatus_def val)
  show "copies_to (DeepCopyInto_Caffe2JobStatus r h) h (\<lambda>k q. view_Caffe2JobStatus k q = Some v)"
    unfolding DeepCopyInto_Caffe2JobStatus_def
    by (rule conditions_cell.slice.step [OF f(1) prefix_order.refl], unfold split_conv,
        rule replica_status_cell.ptr.step [OF f(2)], assumption, unfold split_conv,
        rule time_cell.ptr.step [OF f(3)], assumption, unfold split_conv,
        rule time_cell.ptr.step [OF f(4)], assumption, unfold split_conv,
        rule time_cell.ptr.step [OF f(5)], assumption)
      (auto intro!: copies_to_Some simp: view_Caffe2JobStatus_def val)
qed

section \<open>Caffe2Job\<close>

definition view_Caffe2Job :: "memory \<Rightarrow> raw_Job \<Rightarrow> (TypeMeta \<times> Caffe2Job) option" where
  "view_Caffe2Job h r =
     do { m \<leftarrow> view_ObjectMeta h (rw_Meta r);
       s \<leftarrow> view_Caffe2JobSpec h (rw_Spec r);
       st \<leftarrow> view_Caffe2JobStatus h (rw_Status r);
       Some (rw_TypeMeta r, \<lparr>job_Meta = m,
         job_Spec = s,
         job_Status = st\<rparr>) }"

definition DeepCopyInto_Caffe2Job :: "raw_Job \<Rightarrow> memory \<Rightarrow> (raw_Job \<times> memory) option" where
  "DeepCopyInto_Caffe2Job r h =
     do { (m, h1) \<leftarrow> DeepCopyInto_ObjectMeta (rw_Meta r) h;
       (s, h2) \<leftarrow> DeepCopyInto_Caffe2JobSpec (rw_Spec r) h1;
       (st, h3) \<leftarrow> DeepCopyInto_Caffe2JobStatus (rw_Status r) h2;
       Some (r\<lparr>rw_Meta := m, rw_Spec := s, rw_Status := st\<rparr>, h3) }"

interpretation job: deep_copier view_Caffe2Job DeepCopyInto_Caffe2Job
proof
  fix h r v
  assume v: "view_Caffe2Job h r = Some v"
  then obtain m s st where f: "view_ObjectMeta h (rw_Meta r) = Some m"
      "view_Caffe2JobSpec h (rw_Spec r) = Some s"
      "view_Caffe2JobStatus h (rw_Status r) = Some st"
      and val: "v = (rw_TypeMeta r, \<lparr>job_Meta = m,
         job_Spec = s,
         job_Status = st\<rparr>)"
    by (auto simp: view_Caffe2Job_def bind_eq_Some_conv)
  show "view_Caffe2Job k r = Some v" if k: "keeps 0 h k" for k
    using object_meta.view_keeps [OF f(1) k] job_spec.view_keeps [OF f(2) k] job_status.view_keeps [OF f(3) k]
    by (simp add: view_Caffe2Job_def val)
  show "copies_to (DeepCopyInto_Caffe2Job r h) h (\<lambda>k q. view_Caffe2Job k q = Some v)"
    unfolding DeepCopyInto_Caffe2Job_def
    by (rule object_meta.step [OF f(1) prefix_order.refl], unfold split_conv,
        rule job_spec.step [OF f(2)], assumption, unfold split_conv,
        rule job_status.step [OF f(3)], assumption)
      (auto intro!: copies_to_Some simp: view_Caffe2Job_def val)
qed

interpretation jobs_cell: sliced_copier view_Caffe2Job DeepCopyInto_Caffe2Job JobsCell the_Jobs
  by (intro sliced_copier.intro sliced_copier_axioms.intro job.deep_copier_axioms the_cell(19))

section \<open>Caffe2JobList\<close>

definition view_Caffe2JobList :: "memory \<Rightarrow> raw_JobList \<Rightarrow> (TypeMeta \<times> ListMeta \<times> (TypeMeta \<times> Caffe2Job) list) option" where
  "view_Caffe2JobList h r =
     do { js \<leftarrow> view_slice the_Jobs view_Caffe2Job h (rl_Items r);
       Some (rl_TypeMeta r, rl_ListMeta r, js) }"

definition DeepCopyInto_Caffe2JobList :: "raw_JobList \<Rightarrow> memory \<Rightarrow> (raw_JobList \<times> memory) option" where
  "DeepCopyInto_Caffe2JobList r h =
     do { (js, h1) \<leftarrow> copy_slice JobsCell the_Jobs DeepCopyInto_Caffe2Job (rl_Items r) h;
       Some (r\<lparr>rl_Items := js\<rparr>, h1) }"

interpretation job_list: deep_copier view_Caffe2JobList DeepCopyInto_Caffe2JobList
proof
  fix h r v
  assume v: "view_Caffe2JobList h r = Some v"
  then obtain js where f: "view_slice the_Jobs view_Caffe2Job h (rl_Items r) = Some js"
      and val: "v = (rl_TypeMeta r, rl_ListMeta r, js)"
    by (auto simp: view_Caffe2JobList_def bind_eq_Some_conv)
  show "view_Caffe2JobList k r = Some v" if k: "keeps 0 h k" for k
    using jobs_cell.slice.view_keeps [OF f k]
    by (simp add: view_Caffe2JobList_def val)
  show "copies_to (DeepCopyInto_Caffe2JobList r h) h (\<lambda>k q. view_Caffe2JobList k q = Some v)"
    unfolding DeepCopyInto_Caffe2JobList_def
    by (rule jobs_cell.slice.step [OF f prefix_order.refl])
      (auto intro!: copies_to_Some simp: view_Caffe2JobList_def val)
qed

section \<open>The functions that allocate\<close>

text \<open>\<open>DeepCopyInto\<close> of the types that point to nothing.\<close>

abbreviation DeepCopyInto_Caffe2JobCondition :: "Caffe2JobCondition \<Rightarrow> memory \<Rightarrow> (Caffe2JobCondition \<times> memory) option" where
  "DeepCopyInto_Caffe2JobCondition \<equiv> plain_copy"

abbreviation DeepCopyInto_Caffe2ReplicaStatus :: "Caffe2ReplicaStatus \<Rightarrow> memory \<Rightarrow> (Caffe2ReplicaStatus \<times> memory) option" where
  "DeepCopyInto_Caffe2ReplicaStatus \<equiv> plain_copy"

abbreviation DeepCopyInto_ChiefSpec :: "ChiefSpec \<Rightarrow> memory \<Rightarrow> (ChiefSpec \<times> memory) option" where
  "DeepCopyInto_ChiefSpec \<equiv> plain_copy"

text \<open>\<open>DeepCopy\<close>: nil gives nil, otherwise \<open>new\<close> and \<open>DeepCopyInto\<close>.\<close>

definition DeepCopy_Caffe2BackendSpec :: "addr option \<Rightarrow> memory \<Rightarrow> (addr option \<times> memory) option" where
  "DeepCopy_Caffe2BackendSpec = copy_ptr BackendCell the_Backend plain_copy"

definition DeepCopy_Caffe2Job :: "addr option \<Rightarrow> memory \<Rightarrow> (addr option \<times> memory) option" where
  "DeepCopy_Caffe2Job = copy_ptr JobCell the_Job DeepCopyInto_Caffe2Job"

definition DeepCopy_Caffe2JobCondition :: "addr option \<Rightarrow> memory \<Rightarrow> (addr option \<times> memory) option" where
  "DeepCopy_Caffe2JobCondition = copy_ptr ConditionCell the_Condition DeepCopyInto_Caffe2JobCondition"

definition DeepCopy_Caffe2JobList :: "addr option \<Rightarrow> memory \<Rightarrow> (addr option \<times> memory) option" where
  "DeepCopy_Caffe2JobList = copy_ptr JobListCell the_JobList DeepCopyInto_Caffe2JobList"

definition DeepCopy_Caffe2JobSpec :: "addr option \<Rightarrow> memory \<Rightarrow> (addr option \<times> memory) option" where
  "DeepCopy_Caffe2JobSpec = copy_ptr JobSpecCell the_JobSpec DeepCopyInto_Caffe2JobSpec"

definition DeepCopy_Caffe2JobStatus :: "addr option \<Rightarrow> memory \<Rightarrow> (addr option \<times> memory) option" where
  "DeepCopy_Caffe2JobStatus = copy_ptr JobStatusCell the_JobStatus DeepCopyInto_Caffe2JobStatus"

definition DeepCopy_Caffe2ReplicaSpec :: "addr option \<Rightarrow> memory \<Rightarrow> (addr option \<times> memory) option" where
  "DeepCopy_Caffe2ReplicaSpec = copy_ptr ReplicaSpecCell the_ReplicaSpec DeepCopyInto_Caffe2ReplicaSpec"

definition DeepCopy_Caffe2ReplicaStatus :: "addr option \<Rightarrow> memory \<Rightarrow> (addr option \<times> memory) option" where
  "DeepCopy_Caffe2ReplicaStatus = copy_ptr ReplicaStatusCell the_ReplicaStatus DeepCopyInto_Caffe2ReplicaStatus"

definition DeepCopy_ChiefSpec :: "addr option \<Rightarrow> memory \<Rightarrow> (addr option \<times> memory) option" where
  "DeepCopy_ChiefSpec = copy_ptr ChiefCell the_Chief DeepCopyInto_ChiefSpec"

definition DeepCopy_TerminationPolicySpec :: "addr option \<Rightarrow> memory \<Rightarrow> (addr option \<times> memory) option" where
  "DeepCopy_TerminationPolicySpec = copy_ptr TerminationPolicyCell the_TerminationPolicy DeepCopyInto_TerminationPolicySpec"

text \<open>\<open>DeepCopyObject\<close> gives an interface value that is nil itself when the copy is nil.\<close>

datatype runtime_object = JobObject addr | JobListObject addr

definition DeepCopyObject_Caffe2Job :: "addr option \<Rightarrow> memory \<Rightarrow> (runtime_object option \<times> memory) option" where
  "DeepCopyObject_Caffe2Job p h =
     do { (c, h1) \<leftarrow> DeepCopy_Caffe2Job p h; Some (map_option JobObject c, h1) }"

definition DeepCopyObject_Caffe2JobList :: "addr option \<Rightarrow> memory \<Rightarrow> (runtime_object option \<times> memory) option" where
  "DeepCopyObject_Caffe2JobList p h =
     do { (c, h1) \<leftarrow> DeepCopy_Caffe2JobList p h; Some (map_option JobListObject c, h1) }"

text \<open>
  The functions registered with the scheme, by type: \<open>in.(*T).DeepCopyInto(out.(*T))\<close>, where the
  assertions panic on a pointer to another type.
\<close>

definition generated_fn ::
  "('r \<Rightarrow> cell) \<Rightarrow> (cell \<Rightarrow> 'r option) \<Rightarrow> ('r \<Rightarrow> memory \<Rightarrow> ('r \<times> memory) option) \<Rightarrow>
     addr \<Rightarrow> addr \<Rightarrow> memory \<Rightarrow> memory outcome option" where
  "generated_fn wrap unwrap into inp out h =
     do { c \<leftarrow> load h inp;
       d \<leftarrow> load h out;
       (case unwrap c of
          None \<Rightarrow> Some (Panic TypeAssertion)
        | Some x \<Rightarrow>
            if unwrap d = None then Some (Panic TypeAssertion)
            else do { (y, h1) \<leftarrow> into x h; Some (Ret (h1[out := wrap y])) }) }"

definition RegisterDeepCopies :: "(string \<times> (addr \<Rightarrow> addr \<Rightarrow> memory \<Rightarrow> memory outcome option)) list" where
  "RegisterDeepCopies =
     [(''Caffe2BackendSpec'', generated_fn BackendCell the_Backend plain_copy),
      (''Caffe2Job'', generated_fn JobCell the_Job DeepCopyInto_Caffe2Job),
      (''Caffe2JobCondition'', generated_fn ConditionCell the_Condition DeepCopyInto_Caffe2JobCondition),
      (''Caffe2JobList'', generated_fn JobListCell the_JobList DeepCopyInto_Caffe2JobList),
      (''Caffe2JobSpec'', generated_fn JobSpecCell the_JobSpec DeepCopyInto_Caffe2JobSpec),
      (''Caffe2JobStatus'', generated_fn JobStatusCell the_JobStatus DeepCopyInto_Caffe2JobStatus),
      (''Caffe2ReplicaSpec'', generated_fn ReplicaSpecCell the_ReplicaSpec DeepCopyInto_Caffe2ReplicaSpec),
      (''Caffe2ReplicaStatus'', generated_fn ReplicaStatusCell the_ReplicaStatus DeepCopyInto_Caffe2ReplicaStatus),
      (''ChiefSpec'', generated_fn ChiefCell the_Chief DeepCopyInto_ChiefSpec),
      (''TerminationPolicySpec'', generated_fn TerminationPolicyCell the_TerminationPolicy DeepCopyInto_TerminationPolicySpec)]"

section \<open>Lemmas\<close>

text \<open>The value a cell of a type stands for.\<close>

definition value_at :: "(cell \<Rightarrow> 'r option) \<Rightarrow> (memory \<Rightarrow> 'r \<Rightarrow> 'v option) \<Rightarrow> memory \<Rightarrow> addr \<Rightarrow> 'v option" where
  "value_at unwrap view h a = do { c \<leftarrow> load h a; x \<leftarrow> unwrap c; view h x }"

lemma view_ptr_value: "view_ptr unwrap view h (Some a) = map_option Some (value_at unwrap view h a)"
  by (cases "load h a") (auto simp: view_ptr_def value_at_def split: bind_splits)

text \<open>
  A pointer's copy: it is new, it stands for the same value whatever happens to the old cells, and
  the original does whatever happens to the new ones.
\<close>

lemma copy_ptr_independent:
  assumes c: "deep_copier view into" and wrap: "\<And>x. unwrap (wrap x) = Some x"
    and v: "value_at unwrap view h p = Some v"
  shows "\<exists>q h'. copy_ptr wrap unwrap into (Some p) h = Some (Some q, h') \<and> length h \<le> q \<and> prefix h h' \<and>
    (\<forall>k. keeps (length h) h' k \<longrightarrow> value_at unwrap view k q = Some v) \<and>
    (\<forall>k. keeps 0 h k \<longrightarrow> value_at unwrap view k p = Some v)"
proof -
  have cp: "deep_copier (view_ptr unwrap view) (copy_ptr wrap unwrap into)" by (rule copier_ptr [OF c wrap])
  have v': "view_ptr unwrap view h (Some p) = Some (Some v)" using v by (simp add: view_ptr_value)
  obtain r h' where m: "copy_ptr wrap unwrap into (Some p) h = Some (r, h')" "prefix h h'"
    "\<forall>k. keeps (length h) h' k \<longrightarrow> view_ptr unwrap view k r = Some (Some v)"
    using deep_copier.copies [OF cp v'] by (auto simp: copies_to_def)
  then have r: "r = Some (length h)" by (auto simp: copy_ptr_def bind_eq_Some_conv)
  have "value_at unwrap view k p = Some v" if "keeps 0 h k" for k
    using deep_copier.view_keeps [OF cp v' that] by (simp add: view_ptr_value)
  with m r show ?thesis by (auto simp: view_ptr_value)
qed

text \<open>A registered function leaves alone every old cell but \<open>*out\<close>.\<close>

lemma generated_fn_copies:
  assumes c: "deep_copier view into" and wrap: "\<And>x. unwrap (wrap x) = Some x"
    and v: "value_at unwrap view h inp = Some v" and out: "load h out = Some d" "unwrap d \<noteq> None"
  shows "\<exists>h'. generated_fn wrap unwrap into inp out h = Some (Ret h') \<and> length h \<le> length h' \<and>
    (\<forall>a < length h. a \<noteq> out \<longrightarrow> load h' a = load h a) \<and>
    (\<forall>k. keeps (length h) h' k \<and> load k out = load h' out \<longrightarrow> value_at unwrap view k out = Some v)"
proof -
  obtain e x where x: "load h inp = Some e" "unwrap e = Some x" "view h x = Some v"
    using v by (auto simp: value_at_def bind_eq_Some_conv)
  obtain y h1 where m: "into x h = Some (y, h1)" "prefix h h1" "\<forall>k. keeps (length h) h1 k \<longrightarrow> view k y = Some v"
    using deep_copier.copies [OF c x(3)] by (auto simp: copies_to_def)
  let ?h = "h1[out := wrap y]"
  have less: "out < length h" "length h \<le> length h1"
    using load_Some_less [OF out(1)] prefix_length_le [OF m(2)] by auto
  have "load ?h a = load h a" if "a < length h" "a \<noteq> out" for a
    using that less load_prefix [OF m(2) that(1)] by (simp add: load_def)
  moreover have "value_at unwrap view k out = Some v"
    if "keeps (length h) ?h k" and "load k out = load ?h out" for k
  proof -
    have "keeps (length h) h1 k" using that(1) less by (auto simp: keeps_def load_def)
    moreover have "load k out = Some (wrap y)" using that(2) less by (simp add: load_def)
    ultimately show ?thesis using m(3) by (simp add: value_at_def wrap)
  qed
  moreover have "generated_fn wrap unwrap into inp out h = Some (Ret ?h)"
    using x m(1) out by (auto simp: generated_fn_def)
  ultimately show ?thesis using less by auto
qed

lemmas job_at = job.deep_copier_axioms the_cell(18)

abbreviation job_value :: "memory \<Rightarrow> addr \<Rightarrow> (TypeMeta \<times> Caffe2Job) option" where
  "job_value \<equiv> value_at the_Job view_Caffe2Job"

text \<open>A job in memory: labels, an owner and a chief behind pointers, and a second, empty job.\<close>

definition sample_raw_meta :: raw_ObjectMeta where
  "sample_raw_meta = \<lparr>rm_Name = ''job'', rm_GenerateName = [], rm_Namespace = ''ns'', rm_UID = ''u'',
     rm_ResourceVersion = [], rm_DeletionTimestamp = None, rm_Labels = Some 0, rm_Annotations = None,
     rm_OwnerReferences = Some (1, 1), rm_Finalizers = None\<rparr>"

definition sample_raw_job :: raw_Job where
  "sample_raw_job = \<lparr>rw_TypeMeta = \<lparr>tm_Kind = ''Caffe2Job'', tm_APIVersion = ''v1''\<rparr>, rw_Meta = sample_raw_meta,
     rw_Spec = \<lparr>rj_RuntimeID = ''r'', rj_Backend = None, rj_ReplicaSpecs = None, rj_TerminationPolicy = Some 3\<rparr>,
     rw_Status = \<lparr>rs_Conditions = None, rs_ReplicaStatuses = None, rs_StartTime = None,
       rs_CompletionTime = None, rs_LastReconcileTime = None\<rparr>\<rparr>"

definition sample_memory :: memory where
  "sample_memory =
     [MapCell [(''app'', ''x'')],
      OwnerReferencesCell [\<lparr>ro_APIVersion = [], ro_Kind = ''K'', ro_Name = ''o'', ro_UID = ''1'',
        ro_Controller = Some 2, ro_BlockOwnerDeletion = Some 2\<rparr>],
      BoolCell True,
      TerminationPolicyCell \<lparr>rx_Chief = Some 4\<rparr>,
      ChiefCell \<lparr>ch_ReplicaName = ''worker'', ch_ReplicaIndex = 0\<rparr>,
      JobCell sample_raw_job]"

lemmas sample_memory_defs = sample_memory_def sample_raw_job_def sample_raw_meta_def

lemma sample_memory_job: "\<exists>v. job_value sample_memory 5 = Some v \<and> om_Labels (job_Meta (snd v)) = Some [(''app'', ''x'')]"
  by (simp add: value_at_def load_def sample_memory_defs view_Caffe2Job_def view_ObjectMeta_def
      view_Caffe2JobSpec_def view_Caffe2JobStatus_def view_ptr_def view_map_def view_slice_def the_map_def
      view_OwnerReference_def view_TerminationPolicySpec_def plain_view_def the_cell_defs nth_Cons')

section \<open>Properties\<close>

text \<open>
  C26. A deep copy of a job is a job of its own: \<open>DeepCopy\<close> returns a new address at which the same
  value is read, writing to any cell that existed before does not change what the copy reads, and
  writing to any cell that the copy brought along does not change what the original reads.
\<close>

theorem DeepCopy_Caffe2Job_independent:
  assumes "job_value h p = Some v"
  shows "\<exists>q h'. DeepCopy_Caffe2Job (Some p) h = Some (Some q, h') \<and> length h \<le> q \<and> prefix h h' \<and>
    (\<forall>k. keeps (length h) h' k \<longrightarrow> job_value k q = Some v) \<and>
    (\<forall>k. keeps 0 h k \<longrightarrow> job_value k p = Some v)"
  unfolding DeepCopy_Caffe2Job_def by (rule copy_ptr_independent [OF job_at assms])

theorem DeepCopy_Caffe2Job_independent_witness:
  "\<exists>q h' v. DeepCopy_Caffe2Job (Some 5) sample_memory = Some (Some q, h') \<and> q \<noteq> 5 \<and>
    om_Labels (job_Meta (snd v)) = Some [(''app'', ''x'')] \<and>
    job_value (h'[0 := MapCell [(''app'', ''y'')]]) q = Some v"
proof -
  obtain v where v: "job_value sample_memory 5 = Some v" "om_Labels (job_Meta (snd v)) = Some [(''app'', ''x'')]"
    using sample_memory_job by blast
  obtain q h' where c: "DeepCopy_Caffe2Job (Some 5) sample_memory = Some (Some q, h')" "length sample_memory \<le> q"
    "prefix sample_memory h'" "\<forall>k. keeps (length sample_memory) h' k \<longrightarrow> job_value k q = Some v"
    using DeepCopy_Caffe2Job_independent [OF v(1)] by blast
  have n: "length sample_memory = 6" by (simp add: sample_memory_def)
  have "keeps (length sample_memory) h' (h'[0 := MapCell [(''app'', ''y'')]])"
    unfolding n by (simp add: keeps_def load_def)
  then have "job_value (h'[0 := MapCell [(''app'', ''y'')]]) q = Some v" using c(4) by blast
  moreover have "q \<noteq> 5" using c(2) n by simp
  ultimately show ?thesis using c(1) v(2) by blast
qed


text \<open>
  The function registered with the scheme for jobs makes \<open>*out\<close> a deep copy of \<open>*in\<close>: no other
  cell that existed before changes, and \<open>*out\<close> then reads the value of \<open>*in\<close> whatever is written to
  the old cells. A pointer to another type makes it panic.
\<close>

theorem registered_job_copy:
  assumes "map_of RegisterDeepCopies ''Caffe2Job'' = Some f" and "job_value h inp = Some v"
    and "load h out = Some d"
  shows "case d of
      JobCell r \<Rightarrow> \<exists>h'. f inp out h = Some (Ret h') \<and> (\<forall>a < length h. a \<noteq> out \<longrightarrow> load h' a = load h a) \<and>
        (\<forall>k. keeps (length h) h' k \<and> load k out = load h' out \<longrightarrow> job_value k out = Some v)
    | _ \<Rightarrow> f inp out h = Some (Panic TypeAssertion)"
proof -
  have f: "f = generated_fn JobCell the_Job DeepCopyInto_Caffe2Job"
    using assms(1) by (simp add: RegisterDeepCopies_def)
  show ?thesis
  proof (cases "the_Job d")
    case None
    then have "f inp out h = Some (Panic TypeAssertion)"
      using assms(2,3) by (auto simp: f generated_fn_def value_at_def bind_eq_Some_conv)
    with None show ?thesis by (simp add: the_Job_def split: cell.splits)
  next
    case (Some r)
    then have "d = JobCell r" by (simp add: the_Job_def split: cell.splits)
    with generated_fn_copies [OF job_at assms(2,3)] Some show ?thesis by (auto simp: f)
  qed
qed

theorem registered_job_copy_witness:
  "\<exists>f. map_of RegisterDeepCopies ''Caffe2Job'' = Some f \<and> f 5 0 sample_memory = Some (Panic TypeAssertion)"
proof -
  obtain v where v: "job_value sample_memory 5 = Some v" using sample_memory_job by blast
  obtain f where f: "map_of RegisterDeepCopies ''Caffe2Job'' = Some f" by (simp add: RegisterDeepCopies_def)
  have "load sample_memory 0 = Some (MapCell [(''app'', ''x'')])" by (simp add: load_def sample_memory_def)
  from registered_job_copy [OF f v this] f show ?thesis by simp
qed

end
