(* ===== verification/Conditions.thy ===== *)
theory Conditions
  imports ApiTypes
begin

text \<open>
  The condition list of a job status: \<open>newCondition\<close>, \<open>getCondition\<close>, \<open>setCondition\<close>,
  \<open>removementCondition\<close>, \<open>filterOutCondition\<close> and \<open>updateCaffe2JobConditions\<close> of
  pkg/controller/controller.go. The contract of such a store (what a type shows after an
  update or a removal) is the locale \<open>condition_store\<close>; its lemmas are about sequences of
  updates, and its interpretation on the code's functions is at the end.

  \<open>time.Now\<close> is a reading of a clock that the reading may advance: the parameter \<open>now\<close>.
\<close>

section \<open>Operations\<close>

definition ConditionTrue :: string where "ConditionTrue = ''True''"

definition newCondition ::
  "('w \<Rightarrow> time \<times> 'w) \<Rightarrow> string \<Rightarrow> string \<Rightarrow> string \<Rightarrow> 'w \<Rightarrow> Caffe2JobCondition \<times> 'w" where
  "newCondition now conditionType reason message w =
     (let (t1, w1) = now w; (t2, w2) = now w1 in
      (\<lparr>cd_Type = conditionType, cd_Status = ConditionTrue, cd_Reason = reason, cd_Message = message,
        cd_LastUpdateTime = t1, cd_LastTransitionTime = t2\<rparr>, w2))"

fun find_condition :: "Caffe2JobCondition list \<Rightarrow> string \<Rightarrow> Caffe2JobCondition option" where
  "find_condition [] condType = None"
| "find_condition (c # cs) condType = (if cd_Type c = condType then Some c else find_condition cs condType)"

definition getCondition :: "Caffe2JobStatus \<Rightarrow> string \<Rightarrow> Caffe2JobCondition option" where
  "getCondition status condType = find_condition (ss_Conditions status) condType"

fun filterOutCondition :: "Caffe2JobCondition list \<Rightarrow> string \<Rightarrow> Caffe2JobCondition list" where
  "filterOutCondition [] condType = []"
| "filterOutCondition (c # cs) condType =
     (if cd_Type c = condType then filterOutCondition cs condType
      else c # filterOutCondition cs condType)"

definition setCondition :: "Caffe2JobStatus \<Rightarrow> Caffe2JobCondition \<Rightarrow> Caffe2JobStatus" where
  "setCondition status condition =
     (let currentCond = getCondition status (cd_Type condition) in
      case currentCond of
        Some cur \<Rightarrow>
          if cd_Status cur = cd_Status condition \<and> cd_Reason cur = cd_Reason condition then status
          else
            let condition' = (if cd_Status cur = cd_Status condition
                              then condition\<lparr>cd_LastTransitionTime := cd_LastTransitionTime cur\<rparr>
                              else condition)
            in status\<lparr>ss_Conditions :=
                        filterOutCondition (ss_Conditions status) (cd_Type condition) @ [condition']\<rparr>
      | None \<Rightarrow>
          status\<lparr>ss_Conditions :=
                   filterOutCondition (ss_Conditions status) (cd_Type condition) @ [condition]\<rparr>)"

definition removementCondition :: "Caffe2JobStatus \<Rightarrow> string \<Rightarrow> Caffe2JobStatus" where
  "removementCondition status condType =
     status\<lparr>ss_Conditions := filterOutCondition (ss_Conditions status) condType\<rparr>"

definition updateCaffe2JobConditions ::
  "('w \<Rightarrow> time \<times> 'w) \<Rightarrow> Caffe2Job \<Rightarrow> string \<Rightarrow> string \<Rightarrow> string \<Rightarrow> 'w \<Rightarrow> Caffe2Job \<times> go_error option \<times> 'w" where
  "updateCaffe2JobConditions now job conditionType reason message w =
     (let (condition, w') = newCondition now conditionType reason message w in
      (job\<lparr>job_Status := setCondition (job_Status job) condition\<rparr>, None, w'))"

section \<open>The list functions\<close>

lemma filterOutCondition_filter: "filterOutCondition cs t = filter (\<lambda>c. cd_Type c \<noteq> t) cs"
  by (induction cs) auto

lemma find_condition_find: "find_condition cs t = find (\<lambda>c. cd_Type c = t) cs"
  by (induction cs) auto

lemma find_condition_append:
  "find_condition (cs @ ds) t =
     (case find_condition cs t of None \<Rightarrow> find_condition ds t | Some c \<Rightarrow> Some c)"
  by (induction cs) auto

lemma find_condition_filterOut:
  "find_condition (filterOutCondition cs t) u = (if u = t then None else find_condition cs u)"
  by (induction cs) auto

lemma find_condition_None_iff: "find_condition cs t = None \<longleftrightarrow> t \<notin> cd_Type ` set cs"
  by (induction cs) auto

lemma find_condition_SomeD: "find_condition cs t = Some c \<Longrightarrow> c \<in> set cs \<and> cd_Type c = t"
  by (induction cs) (auto split: if_splits)

lemma newCondition_fields [simp]:
  "cd_Type (fst (newCondition now t r m w)) = t"
  "cd_Status (fst (newCondition now t r m w)) = ConditionTrue"
  "cd_Reason (fst (newCondition now t r m w)) = r"
  "cd_Message (fst (newCondition now t r m w)) = m"
  by (simp_all add: newCondition_def split: prod.splits)

section \<open>The invariant and the view\<close>

text \<open>At most one condition of each type; and what a status shows of a type.\<close>

definition one_per_type :: "Caffe2JobStatus \<Rightarrow> bool" where
  "one_per_type s \<longleftrightarrow> distinct (map cd_Type (ss_Conditions s))"

definition shown :: "Caffe2JobStatus \<Rightarrow> string \<Rightarrow> (string \<times> string) option" where
  "shown s t = map_option (\<lambda>c. (cd_Status c, cd_Reason c)) (getCondition s t)"

lemma shown_dom: "dom (shown s) = cd_Type ` set (ss_Conditions s)"
  by (auto simp: shown_def getCondition_def find_condition_None_iff dom_def)

lemma setCondition_cases:
  obtains (same) "setCondition s c = s" "shown s (cd_Type c) = Some (cd_Status c, cd_Reason c)"
  | (replaced) c' where "setCondition s c =
        s\<lparr>ss_Conditions := filterOutCondition (ss_Conditions s) (cd_Type c) @ [c']\<rparr>"
      "cd_Type c' = cd_Type c" "cd_Status c' = cd_Status c" "cd_Reason c' = cd_Reason c"
      "cd_Message c' = cd_Message c"
proof (cases "getCondition s (cd_Type c)")
  case None
  then show thesis by (intro replaced [of c]) (simp_all add: setCondition_def)
next
  case (Some cur)
  show thesis
  proof (cases "cd_Status cur = cd_Status c \<and> cd_Reason cur = cd_Reason c")
    case True
    with Some show thesis by (intro same) (simp_all add: setCondition_def shown_def)
  next
    case False
    with Some show thesis
      by (intro replaced [of "if cd_Status cur = cd_Status c
            then c\<lparr>cd_LastTransitionTime := cd_LastTransitionTime cur\<rparr> else c"])
         (auto simp: setCondition_def Let_def)
  qed
qed

lemma shown_setCondition:
  "shown (setCondition s c) = (shown s)(cd_Type c \<mapsto> (cd_Status c, cd_Reason c))"
proof (cases rule: setCondition_cases [of s c])
  case same
  then show ?thesis by auto
next
  case (replaced c')
  then show ?thesis
    by (auto simp: shown_def getCondition_def find_condition_append find_condition_filterOut
        split: option.splits)
qed

lemma shown_removementCondition: "shown (removementCondition s t) = (shown s)(t := None)"
  by (auto simp: shown_def getCondition_def removementCondition_def find_condition_filterOut)

lemma one_per_type_setCondition: "one_per_type s \<Longrightarrow> one_per_type (setCondition s c)"
  by (cases rule: setCondition_cases [of s c])
     (auto simp: one_per_type_def filterOutCondition_filter filter_map_distinct)

lemma one_per_type_removementCondition: "one_per_type s \<Longrightarrow> one_per_type (removementCondition s t)"
  by (simp add: one_per_type_def removementCondition_def filterOutCondition_filter filter_map_distinct)

lemma setCondition_frame [frame_simps, simp]:
  "ss_ReplicaStatuses (setCondition s c) = ss_ReplicaStatuses s"
  "ss_StartTime (setCondition s c) = ss_StartTime s"
  "ss_CompletionTime (setCondition s c) = ss_CompletionTime s"
  "ss_LastReconcileTime (setCondition s c) = ss_LastReconcileTime s"
  by (cases rule: setCondition_cases [of s c], simp_all)+

section \<open>The contract of a condition store\<close>

text \<open>
  \<open>view s t\<close> is the status and reason the store shows for type \<open>t\<close>; \<open>put\<close> and \<open>drop\<close> change
  that type only. The client lemmas are about any sequence of updates.
\<close>

locale condition_store =
  fixes view :: "'s \<Rightarrow> string \<Rightarrow> (string \<times> string) option"
    and put :: "'s \<Rightarrow> Caffe2JobCondition \<Rightarrow> 's"
    and drop_type :: "'s \<Rightarrow> string \<Rightarrow> 's"
    and ok :: "'s \<Rightarrow> bool"
  assumes view_put: "view (put s c) = (view s)(cd_Type c \<mapsto> (cd_Status c, cd_Reason c))"
    and view_drop: "view (drop_type s t) = (view s)(t := None)"
    and ok_put: "ok s \<Longrightarrow> ok (put s c)"
    and ok_drop: "ok s \<Longrightarrow> ok (drop_type s t)"
begin

lemma ok_puts: "ok s \<Longrightarrow> ok (foldl put s cs)"
  by (induction cs arbitrary: s) (simp_all add: ok_put)

lemma view_puts:
  "view (foldl put s cs) = view s ++ map_of (rev (map (\<lambda>c. (cd_Type c, cd_Status c, cd_Reason c)) cs))"
  by (induction cs arbitrary: s) (auto simp: view_put)

lemma dom_view_puts: "dom (view (foldl put s cs)) = dom (view s) \<union> cd_Type ` set cs"
  by (induction cs arbitrary: s) (auto simp: view_put)

lemma view_put_drop: "view (drop_type (put s c) (cd_Type c)) = (view s)(cd_Type c := None)"
  by (simp add: view_put view_drop)

lemma put_monotone: "dom (view s) \<subseteq> dom (view (foldl put s cs))"
  by (simp add: dom_view_puts)

end

interpretation conds: condition_store shown setCondition removementCondition one_per_type
  by unfold_locales
     (simp_all add: shown_setCondition shown_removementCondition
       one_per_type_setCondition one_per_type_removementCondition)

definition sample_condition :: "string \<Rightarrow> time \<Rightarrow> Caffe2JobCondition" where
  "sample_condition reason t = \<lparr>cd_Type = Caffe2JobRunning, cd_Status = ConditionTrue, cd_Reason = reason,
     cd_Message = [], cd_LastUpdateTime = t, cd_LastTransitionTime = t\<rparr>"

definition running_job :: Caffe2Job where
  "running_job = sample_job\<lparr>job_Status := empty_status\<lparr>ss_Conditions := [sample_condition ''a'' 3]\<rparr>\<rparr>"

section \<open>Properties\<close>

text \<open>
  C25. Whatever conditions are set one after the other, the list keeps at most one condition
  per type, shows for each type the status and reason set last, and loses no type.
\<close>

theorem setCondition_sequence:
  assumes "one_per_type s"
  shows "one_per_type (foldl setCondition s cs) \<and>
    shown (foldl setCondition s cs) =
      shown s ++ map_of (rev (map (\<lambda>c. (cd_Type c, cd_Status c, cd_Reason c)) cs)) \<and>
    dom (shown s) \<subseteq> dom (shown (foldl setCondition s cs))"
  using assms by (simp add: conds.ok_puts conds.view_puts conds.put_monotone)

theorem setCondition_sequence_witness:
  "one_per_type (foldl setCondition empty_status [sample_condition ''a'' 3, sample_condition ''b'' 4]) \<and>
    shown (foldl setCondition empty_status [sample_condition ''a'' 3, sample_condition ''b'' 4]) Caffe2JobRunning =
      Some (ConditionTrue, ''b'')"
  using setCondition_sequence [of empty_status "[sample_condition ''a'' 3, sample_condition ''b'' 4]"]
  by (simp add: one_per_type_def empty_status_def sample_condition_def)


text \<open>
  A condition the controller sets again keeps the transition time it first got: a new
  reading of the clock reaches \<open>LastTransitionTime\<close> only when the status itself changes, and
  every condition set this way has status True.
\<close>

theorem transition_time_stable:
  assumes "getCondition (job_Status job) t = Some cur" and "cd_Status cur = ConditionTrue"
    and "updateCaffe2JobConditions now job t reason message w = (job', err, w')"
  shows "\<exists>c. getCondition (job_Status job') t = Some c \<and> cd_Status c = ConditionTrue \<and>
    cd_Reason c = reason \<and> cd_LastTransitionTime c = cd_LastTransitionTime cur"
  using assms
  by (auto simp: updateCaffe2JobConditions_def newCondition_def setCondition_def getCondition_def
      find_condition_append find_condition_filterOut Let_def split: prod.splits)

theorem transition_time_stable_witness:
  "\<exists>c. getCondition (job_Status (fst (updateCaffe2JobConditions ticking running_job Caffe2JobRunning ''b'' [] 7)))
      Caffe2JobRunning = Some c \<and> cd_Reason c = ''b'' \<and> cd_LastTransitionTime c = 3"
proof -
  let ?u = "updateCaffe2JobConditions ticking running_job Caffe2JobRunning ''b'' [] 7"
  have "getCondition (job_Status running_job) Caffe2JobRunning = Some (sample_condition ''a'' 3)"
    by (simp add: getCondition_def running_job_def sample_condition_def)
  from transition_time_stable [OF this, of ticking "''b''" "[]" 7 "fst ?u" "fst (snd ?u)" "snd (snd ?u)"]
  show ?thesis by (auto simp: sample_condition_def)
qed


end
