(* ===== verification/JobStatus.thy ===== *)
theory JobStatus
  imports Conditions
begin

text \<open>
  pkg/controller/status.go: the replica counters of a job (\<open>int32\<close>, so they wrap) and
  \<open>updateStatus\<close>, which turns them into conditions and times. The job is passed through:
  the code changes it in place.
\<close>

section \<open>Operations\<close>

definition caffe2JobCreatedReason :: string where "caffe2JobCreatedReason = ''Caffe2JobCreated''"
definition caffe2JobSucceededReason :: string where "caffe2JobSucceededReason = ''Caffe2JobSucceeded''"
definition caffe2JobRunningReason :: string where "caffe2JobRunningReason = ''Caffe2JobRunning''"
definition caffe2JobFailedReason :: string where "caffe2JobFailedReason = ''Caffe2JobFailed''"

lemmas reason_name_defs = caffe2JobCreatedReason_def caffe2JobSucceededReason_def
  caffe2JobRunningReason_def caffe2JobFailedReason_def

definition set_status :: "Caffe2Job \<Rightarrow> (Caffe2JobStatus \<Rightarrow> Caffe2JobStatus) \<Rightarrow> Caffe2Job" where
  "set_status job f = job\<lparr>job_Status := f (job_Status job)\<rparr>"

lemma set_status_simps [simp]:
  "job_Meta (set_status job f) = job_Meta job" "job_Spec (set_status job f) = job_Spec job"
  "job_Status (set_status job f) = f (job_Status job)"
  by (simp_all add: set_status_def)

definition initializeCaffe2ReplicaStatuses :: "Caffe2Job \<Rightarrow> Caffe2Job" where
  "initializeCaffe2ReplicaStatuses job =
     set_status job (\<lambda>s. s\<lparr>ss_ReplicaStatuses := Some \<lparr>st_Active = 0, st_Succeeded = 0, st_Failed = 0\<rparr>\<rparr>)"

text \<open>\<open>job.Status.ReplicaStatuses.X++\<close>: a nil \<open>ReplicaStatuses\<close> panics.\<close>

definition bump :: "(Caffe2ReplicaStatus \<Rightarrow> Caffe2ReplicaStatus) \<Rightarrow> Caffe2Job \<Rightarrow> Caffe2Job outcome" where
  "bump f job =
     bind_outcome (deref (ss_ReplicaStatuses (job_Status job)))
       (\<lambda>rs. Ret (set_status job (\<lambda>s. s\<lparr>ss_ReplicaStatuses := Some (f rs)\<rparr>)))"

definition increaseCaffe2JobReplicaStatusesActive :: "Caffe2Job \<Rightarrow> Caffe2Job outcome" where
  "increaseCaffe2JobReplicaStatusesActive job = bump (\<lambda>rs. rs\<lparr>st_Active := st_Active rs + 1\<rparr>) job"

definition updateCaffe2JobReplicaStatuses :: "Caffe2Job \<Rightarrow> Pod \<Rightarrow> Caffe2Job outcome" where
  "updateCaffe2JobReplicaStatuses job pod =
     (if pod_Phase pod = PodRunning \<or> pod_Phase pod = PodPending
        then bump (\<lambda>rs. rs\<lparr>st_Active := st_Active rs + 1\<rparr>) job
      else if pod_Phase pod = PodSucceeded
        then bump (\<lambda>rs. rs\<lparr>st_Succeeded := st_Succeeded rs + 1\<rparr>) job
      else if pod_Phase pod = PodFailed
        then bump (\<lambda>rs. rs\<lparr>st_Failed := st_Failed rs + 1\<rparr>) job
      else Ret job)"

text \<open>One \<open>if guard { msg := ...; err := tc.updateCaffe2JobConditions(...) }\<close> of \<open>updateStatus\<close>.\<close>

definition leave_condition ::
  "('w \<Rightarrow> time \<times> 'w) \<Rightarrow> bool \<Rightarrow> string \<Rightarrow> string \<Rightarrow> string \<Rightarrow> Caffe2Job \<Rightarrow> 'w \<Rightarrow>
     Caffe2Job \<times> go_error option \<times> 'w" where
  "leave_condition now guard conditionType reason msg job w =
     (if guard then updateCaffe2JobConditions now job conditionType reason msg w
      else (job, None, w))"

text \<open>\<open>if guard { now := metav1.Now(); job.Status.X = &now }\<close>\<close>

definition stamp ::
  "('w \<Rightarrow> time \<times> 'w) \<Rightarrow> bool \<Rightarrow> (time \<Rightarrow> Caffe2JobStatus \<Rightarrow> Caffe2JobStatus) \<Rightarrow> Caffe2Job \<Rightarrow> 'w \<Rightarrow> Caffe2Job \<times> 'w" where
  "stamp now guard put job w =
     (if guard then let (t, w') = now w in (set_status job (put t), w') else (job, w))"

definition updateStatus ::
  "('w \<Rightarrow> time \<times> 'w) \<Rightarrow> Caffe2Job \<Rightarrow> int \<Rightarrow> ('w, Caffe2Job \<times> go_error option) action" where
  "updateStatus now job replicas w =
     (case ss_ReplicaStatuses (job_Status job) of
        None \<Rightarrow> (Panic NilDeref, w)
      | Some rs \<Rightarrow>
          let expected = replicas - sint (st_Succeeded rs);
              running = sint (st_Active rs);
              failed = sint (st_Failed rs);
              (job1, w1) = stamp now (running = replicas) (\<lambda>t s. s\<lparr>ss_StartTime := Some t\<rparr>) job w;
              (job2, err2, w2) = leave_condition now (0 < running) Caffe2JobRunning caffe2JobRunningReason
                 (''Caffe2Job '' @ job_Name job @ '' is running.'') job1 w1
          in if err2 \<noteq> None then (Ret (job2, err2), w2)
          else
          let (job3, w3) = stamp now (expected = 0) (\<lambda>t s. s\<lparr>ss_CompletionTime := Some t\<rparr>) job2 w2;
              (job4, err4, w4) = leave_condition now (expected = 0) Caffe2JobSucceeded caffe2JobSucceededReason
                 (''Caffe2Job '' @ job_Name job @ '' is successfully completed.'') job3 w3
          in if err4 \<noteq> None then (Ret (job4, err4), w4)
          else
          let (job5, err5, w5) = leave_condition now (0 < failed) Caffe2JobFailed caffe2JobFailedReason
                 (''Caffe2Job '' @ job_Name job @ '' is failed.'') job4 w4
          in (Ret (job5, err5), w5))"

section \<open>Lemmas\<close>

lemma bump_Some:
  "ss_ReplicaStatuses (job_Status job) = Some rs \<Longrightarrow>
     bump f job = Ret (set_status job (\<lambda>s. s\<lparr>ss_ReplicaStatuses := Some (f rs)\<rparr>))"
  by (simp add: bump_def)

lemma updateConditions_facts:
  assumes "updateCaffe2JobConditions now job t r m w = (job', err, w')"
  shows "err = None" "job_Meta job' = job_Meta job" "job_Spec job' = job_Spec job"
    "shown (job_Status job') = (shown (job_Status job))(t \<mapsto> (ConditionTrue, r))"
    "ss_ReplicaStatuses (job_Status job') = ss_ReplicaStatuses (job_Status job)"
    "ss_StartTime (job_Status job') = ss_StartTime (job_Status job)"
    "ss_CompletionTime (job_Status job') = ss_CompletionTime (job_Status job)"
    "one_per_type (job_Status job) \<Longrightarrow> one_per_type (job_Status job')"
  using assms
  by (auto simp: updateCaffe2JobConditions_def shown_setCondition newCondition_def
      one_per_type_setCondition split: prod.splits)

lemma leave_condition_facts:
  assumes "leave_condition now g t r m job w = (job', err, w')"
  shows "err = None" "job_Meta job' = job_Meta job" "job_Spec job' = job_Spec job"
    "shown (job_Status job') =
      (if g then (shown (job_Status job))(t \<mapsto> (ConditionTrue, r)) else shown (job_Status job))"
    "ss_ReplicaStatuses (job_Status job') = ss_ReplicaStatuses (job_Status job)"
    "ss_StartTime (job_Status job') = ss_StartTime (job_Status job)"
    "ss_CompletionTime (job_Status job') = ss_CompletionTime (job_Status job)"
    "one_per_type (job_Status job) \<Longrightarrow> one_per_type (job_Status job')"
  using assms updateConditions_facts [of now job t r m w job' err w']
  by (simp_all add: leave_condition_def split: if_splits)

lemma shown_time_updates [simp]:
  "shown (s\<lparr>ss_StartTime := x\<rparr>) = shown s"
  "shown (s\<lparr>ss_CompletionTime := x\<rparr>) = shown s"
  "shown (s\<lparr>ss_ReplicaStatuses := y\<rparr>) = shown s"
  "one_per_type (s\<lparr>ss_StartTime := x\<rparr>) = one_per_type s"
  "one_per_type (s\<lparr>ss_CompletionTime := x\<rparr>) = one_per_type s"
  "one_per_type (s\<lparr>ss_ReplicaStatuses := y\<rparr>) = one_per_type s"
  by (auto simp: shown_def getCondition_def one_per_type_def)

text \<open>What \<open>updateStatus\<close> does, all branches at once.\<close>

lemma updateStatus_effect:
  assumes "ss_ReplicaStatuses (job_Status job) = Some rs"
  obtains job' w' where
    "updateStatus now job replicas w = (Ret (job', None), w')"
    "job_Meta job' = job_Meta job" "job_Spec job' = job_Spec job"
    "ss_ReplicaStatuses (job_Status job') = Some rs"
    "shown (job_Status job') =
       shown (job_Status job)
       ++ (if 0 < sint (st_Active rs) then [Caffe2JobRunning \<mapsto> (ConditionTrue, caffe2JobRunningReason)] else Map.empty)
       ++ (if sint (st_Succeeded rs) = replicas
             then [Caffe2JobSucceeded \<mapsto> (ConditionTrue, caffe2JobSucceededReason)] else Map.empty)
       ++ (if 0 < sint (st_Failed rs) then [Caffe2JobFailed \<mapsto> (ConditionTrue, caffe2JobFailedReason)] else Map.empty)"
    "sint (st_Active rs) \<noteq> replicas \<longrightarrow> ss_StartTime (job_Status job') = ss_StartTime (job_Status job)"
    "sint (st_Active rs) = replicas \<longrightarrow> ss_StartTime (job_Status job') = Some (fst (now w))"
    "ss_CompletionTime (job_Status job') = ss_CompletionTime (job_Status job)
       \<or> sint (st_Succeeded rs) = replicas \<and> ss_CompletionTime (job_Status job') \<noteq> None"
    "sint (st_Succeeded rs) = replicas \<longrightarrow> ss_CompletionTime (job_Status job') \<noteq> None"
    "one_per_type (job_Status job) \<longrightarrow> one_per_type (job_Status job')"
proof -
  let ?run = "sint (st_Active rs)" and ?exp = "replicas - sint (st_Succeeded rs)"
  let ?fail = "sint (st_Failed rs)"
  obtain job1 w1 where s1: "stamp now (?run = replicas) (\<lambda>t s. s\<lparr>ss_StartTime := Some t\<rparr>) job w = (job1, w1)"
    by (cases "stamp now (?run = replicas) (\<lambda>t s. s\<lparr>ss_StartTime := Some t\<rparr>) job w")
  obtain job2 err2 w2 where s2: "leave_condition now (0 < ?run) Caffe2JobRunning caffe2JobRunningReason
      (''Caffe2Job '' @ job_Name job @ '' is running.'') job1 w1 = (job2, err2, w2)"
    by (metis prod_cases3)
  note f2 = leave_condition_facts [OF s2]
  obtain job3 w3 where s3: "stamp now (?exp = 0) (\<lambda>t s. s\<lparr>ss_CompletionTime := Some t\<rparr>) job2 w2 = (job3, w3)"
    by (cases "stamp now (?exp = 0) (\<lambda>t s. s\<lparr>ss_CompletionTime := Some t\<rparr>) job2 w2")
  obtain job4 err4 w4 where s4: "leave_condition now (?exp = 0) Caffe2JobSucceeded caffe2JobSucceededReason
      (''Caffe2Job '' @ job_Name job @ '' is successfully completed.'') job3 w3 = (job4, err4, w4)"
    by (metis prod_cases3)
  note f4 = leave_condition_facts [OF s4]
  obtain job5 err5 w5 where s5: "leave_condition now (0 < ?fail) Caffe2JobFailed caffe2JobFailedReason
      (''Caffe2Job '' @ job_Name job @ '' is failed.'') job4 w4 = (job5, err5, w5)"
    by (metis prod_cases3)
  note f5 = leave_condition_facts [OF s5]
  have res: "updateStatus now job replicas w = (Ret (job5, None), w5)"
    using assms s1 s2 s3 s4 s5 f2(1) f4(1) f5(1) by (simp add: updateStatus_def Let_def)
  have g1: "job_Meta job1 = job_Meta job" "job_Spec job1 = job_Spec job"
    "ss_ReplicaStatuses (job_Status job1) = ss_ReplicaStatuses (job_Status job)"
    "shown (job_Status job1) = shown (job_Status job)"
    "ss_CompletionTime (job_Status job1) = ss_CompletionTime (job_Status job)"
    "ss_StartTime (job_Status job1) = (if ?run = replicas then Some (fst (now w)) else ss_StartTime (job_Status job))"
    "one_per_type (job_Status job1) = one_per_type (job_Status job)"
    using s1 by (auto simp: stamp_def split: if_splits prod.splits)
  have g3: "job_Meta job3 = job_Meta job2" "job_Spec job3 = job_Spec job2"
    "ss_ReplicaStatuses (job_Status job3) = ss_ReplicaStatuses (job_Status job2)"
    "shown (job_Status job3) = shown (job_Status job2)"
    "ss_CompletionTime (job_Status job3) =
       (if ?exp = 0 then Some (fst (now w2)) else ss_CompletionTime (job_Status job2))"
    "ss_StartTime (job_Status job3) = ss_StartTime (job_Status job2)"
    "one_per_type (job_Status job3) = one_per_type (job_Status job2)"
    using s3 by (auto simp: stamp_def split: if_splits prod.splits)
  have sh: "shown (job_Status job5) =
       shown (job_Status job)
       ++ (if 0 < ?run then [Caffe2JobRunning \<mapsto> (ConditionTrue, caffe2JobRunningReason)] else Map.empty)
       ++ (if sint (st_Succeeded rs) = replicas
             then [Caffe2JobSucceeded \<mapsto> (ConditionTrue, caffe2JobSucceededReason)] else Map.empty)
       ++ (if 0 < ?fail then [Caffe2JobFailed \<mapsto> (ConditionTrue, caffe2JobFailedReason)] else Map.empty)"
    by (simp add: g1(4) g3(4) f2(4) f4(4) f5(4))
  show thesis
  proof (rule that [OF res _ _ _ sh])
    show "one_per_type (job_Status job) \<longrightarrow> one_per_type (job_Status job5)"
      using f2(8) f4(8) f5(8) g1(7) g3(7) by blast
  qed (simp_all add: assms f2(2-7) f4(2-7) f5(2-7) g1 g3)
qed

lemma updateStatus_shown:
  assumes "ss_ReplicaStatuses (job_Status job) = Some rs"
  shows "\<exists>job' w'. updateStatus now job replicas w = (Ret (job', None), w') \<and>
    job_Meta job' = job_Meta job \<and> job_Spec job' = job_Spec job \<and>
    ss_ReplicaStatuses (job_Status job') = Some rs \<and>
    (one_per_type (job_Status job) \<longrightarrow> one_per_type (job_Status job')) \<and>
    (\<forall>t. shown (job_Status job') t =
      (if t = Caffe2JobRunning \<and> 0 < sint (st_Active rs) then Some (ConditionTrue, caffe2JobRunningReason)
       else if t = Caffe2JobSucceeded \<and> sint (st_Succeeded rs) = replicas
         then Some (ConditionTrue, caffe2JobSucceededReason)
       else if t = Caffe2JobFailed \<and> 0 < sint (st_Failed rs) then Some (ConditionTrue, caffe2JobFailedReason)
       else shown (job_Status job) t))"
  by (rule updateStatus_effect [OF assms, of now replicas w]) (auto simp: map_add_def)

text \<open>The clock is all that \<open>updateStatus\<close> touches of the world.\<close>

lemma updateStatus_world:
  assumes "\<And>w. f (snd (now w)) = f w"
  shows "f (snd (updateStatus now job replicas w)) = f w"
proof -
  have clock: "now w = (t, w') \<Longrightarrow> f w' = f w" for t w w' using assms [of w] by simp
  have one: "f (snd (stamp now g put job w)) = f w" for g put job w
    by (auto simp: stamp_def clock split: prod.splits)
  have two: "f (snd (snd (leave_condition now g t r m job w))) = f w" for g t r m job w
    using clock by (auto simp: leave_condition_def updateCaffe2JobConditions_def newCondition_def
        split: prod.splits)
  show ?thesis
    using one two by (simp add: updateStatus_def Let_def split: option.splits prod.splits) (metis snd_conv)
qed

definition counted_job :: "int32 \<Rightarrow> int32 \<Rightarrow> int32 \<Rightarrow> Caffe2Job" where
  "counted_job active succeeded failed = sample_job\<lparr>job_Status := empty_status\<lparr>ss_StartTime := Some 3,
     ss_ReplicaStatuses := Some \<lparr>st_Active = active, st_Succeeded = succeeded, st_Failed = failed\<rparr>\<rparr>\<rparr>"

section \<open>Properties\<close>

text \<open>
  C24. \<open>updateStatus\<close> leaves exactly the conditions the counters call for: Running when some
  pod is active, Succeeded when the succeeded pods are as many as the replicas, Failed when
  a pod failed. No other condition changes and none is ever taken away; metadata, spec and
  counters stay as they were, and it never returns an error.
\<close>

theorem updateStatus_conditions:
  assumes "ss_ReplicaStatuses (job_Status job) = Some rs"
  shows "\<exists>job' w'. updateStatus now job replicas w = (Ret (job', None), w') \<and>
    job_Meta job' = job_Meta job \<and> job_Spec job' = job_Spec job \<and>
    ss_ReplicaStatuses (job_Status job') = Some rs \<and>
    (one_per_type (job_Status job) \<longrightarrow> one_per_type (job_Status job')) \<and>
    (\<forall>t. shown (job_Status job') t =
      (if t = Caffe2JobRunning \<and> 0 < sint (st_Active rs) then Some (ConditionTrue, caffe2JobRunningReason)
       else if t = Caffe2JobSucceeded \<and> sint (st_Succeeded rs) = replicas
         then Some (ConditionTrue, caffe2JobSucceededReason)
       else if t = Caffe2JobFailed \<and> 0 < sint (st_Failed rs) then Some (ConditionTrue, caffe2JobFailedReason)
       else shown (job_Status job) t))"
  by (rule updateStatus_shown [OF assms])

theorem updateStatus_conditions_witness:
  "\<exists>job' w'. updateStatus ticking (counted_job 1 1 0) 2 0 = (Ret (job', None), w') \<and>
    shown (job_Status job') Caffe2JobRunning = Some (ConditionTrue, caffe2JobRunningReason) \<and>
    shown (job_Status job') Caffe2JobSucceeded = None"
proof -
  have "ss_ReplicaStatuses (job_Status (counted_job 1 1 0)) = Some \<lparr>st_Active = 1, st_Succeeded = 1, st_Failed = 0\<rparr>"
    and "shown (job_Status (counted_job 1 1 0)) Caffe2JobSucceeded = None"
    by (simp_all add: counted_job_def sample_job_defs shown_def getCondition_def)
  with updateStatus_conditions [OF this(1), of ticking 2 0] show ?thesis by auto
qed


text \<open>
  The start time is overwritten at every reconciliation in which the number of active
  pods equals the number of replicas, whatever it was before, and is kept otherwise; a
  completed job always has a completion time.
\<close>

theorem updateStatus_times:
  assumes "ss_ReplicaStatuses (job_Status job) = Some rs"
  shows "\<exists>job' w'. updateStatus now job replicas w = (Ret (job', None), w') \<and>
    ss_StartTime (job_Status job') =
      (if sint (st_Active rs) = replicas then Some (fst (now w)) else ss_StartTime (job_Status job)) \<and>
    (sint (st_Succeeded rs) = replicas \<longrightarrow> ss_CompletionTime (job_Status job') \<noteq> None) \<and>
    (sint (st_Succeeded rs) \<noteq> replicas \<longrightarrow>
      ss_CompletionTime (job_Status job') = ss_CompletionTime (job_Status job))"
  by (rule updateStatus_effect [OF assms, of now replicas w]) auto

theorem updateStatus_times_witness:
  "\<exists>job' w'. updateStatus ticking (counted_job 2 0 0) 2 10 = (Ret (job', None), w') \<and>
    ss_StartTime (job_Status (counted_job 2 0 0)) = Some 3 \<and> ss_StartTime (job_Status job') = Some 10"
proof -
  have "ss_ReplicaStatuses (job_Status (counted_job 2 0 0)) = Some \<lparr>st_Active = 2, st_Succeeded = 0, st_Failed = 0\<rparr>"
    and "ss_StartTime (job_Status (counted_job 2 0 0)) = Some 3"
    by (simp_all add: counted_job_def)
  with updateStatus_times [OF this(1), of ticking 2 10] show ?thesis by (auto simp: ticking_def)
qed


end
