(* ===== verification/Defaults.thy ===== *)
theory Defaults
  imports ApiTypes
begin

text \<open>
  Defaulting of a job (pkg/apis/caffe2/v1alpha1/defaults.go and the generated
  zz_generated.defaults.go) and its validation (pkg/apis/caffe2/validation/validation.go).
  Both read through pointers the user may have left nil; a nil read is a panic of the model.
\<close>

section \<open>Defaults\<close>

definition zero_BackendSpec :: Caffe2BackendSpec where
  "zero_BackendSpec = \<lparr>be_Type = [], be_NFSPath = [], be_RedisHost = [], be_RedisPort = 0\<rparr>"

text \<open>\<open>fmt.Sprintf("%d", time.Now().Unix())\<close>: whole seconds of the clock.\<close>

definition unix_seconds :: "time \<Rightarrow> int" where
  "unix_seconds t = t div 1000000000"

definition default_RuntimeID :: "('w \<Rightarrow> time \<times> 'w) \<Rightarrow> Caffe2JobSpec \<Rightarrow> 'w \<Rightarrow> Caffe2JobSpec \<times> 'w" where
  "default_RuntimeID now c w =
     (if js_RuntimeID c = [] then let (t, w') = now w in (c\<lparr>js_RuntimeID := itoa (unix_seconds t)\<rparr>, w')
      else (c, w))"

definition default_RestartPolicy :: "Caffe2ReplicaSpec \<Rightarrow> Caffe2ReplicaSpec" where
  "default_RestartPolicy r =
     (case rs_Template r of
        Some t \<Rightarrow>
          if ps_RestartPolicy (pt_Spec t) = []
            then r\<lparr>rs_Template := Some (t\<lparr>pt_Spec := (pt_Spec t)\<lparr>ps_RestartPolicy := ''Never''\<rparr>\<rparr>)\<rparr>
          else r
      | None \<Rightarrow> r)"

definition default_Replicas :: "Caffe2ReplicaSpec \<Rightarrow> Caffe2ReplicaSpec" where
  "default_Replicas r = (case rs_Replicas r of None \<Rightarrow> r\<lparr>rs_Replicas := Some 1\<rparr> | Some _ \<Rightarrow> r)"

definition default_Backend :: "int32 \<Rightarrow> Caffe2BackendSpec option \<Rightarrow> Caffe2BackendSpec" where
  "default_Backend replicas b =
     (case b of
        None \<Rightarrow> if replicas = 1 then zero_BackendSpec\<lparr>be_Type := NoneBackendType\<rparr>
                else zero_BackendSpec\<lparr>be_Type := RedisBackendType\<rparr>
      | Some be \<Rightarrow> be)"

definition default_TerminationPolicy :: "TerminationPolicySpec option \<Rightarrow> TerminationPolicySpec" where
  "default_TerminationPolicy tp =
     (case tp of
        None \<Rightarrow> \<lparr>tp_Chief = Some \<lparr>ch_ReplicaName = ''WORKER'', ch_ReplicaIndex = 0\<rparr>\<rparr>
      | Some p \<Rightarrow> p)"

definition SetDefaults_Caffe2Job :: "('w \<Rightarrow> time \<times> 'w) \<Rightarrow> Caffe2Job \<Rightarrow> ('w, Caffe2Job) action" where
  "SetDefaults_Caffe2Job now obj w =
     (let (c1, w1) = default_RuntimeID now (job_Spec obj) w in
      (bind_outcome (deref (js_ReplicaSpecs c1)) (\<lambda>r.
         let r' = default_Replicas (default_RestartPolicy r) in
         bind_outcome (deref (rs_Replicas r')) (\<lambda>n.
           Ret (obj\<lparr>job_Spec :=
             c1\<lparr>js_ReplicaSpecs := Some r',
                js_Backend := Some (default_Backend n (js_Backend c1)),
                js_TerminationPolicy := Some (default_TerminationPolicy (js_TerminationPolicy c1))\<rparr>\<rparr>))),
       w1))"

definition SetObjectDefaults_Caffe2Job :: "('w \<Rightarrow> time \<times> 'w) \<Rightarrow> Caffe2Job \<Rightarrow> ('w, Caffe2Job) action" where
  "SetObjectDefaults_Caffe2Job now obj w = SetDefaults_Caffe2Job now obj w"

text \<open>The loop over the items of a list stops at the first panic.\<close>

fun SetObjectDefaults_Caffe2JobList ::
  "('w \<Rightarrow> time \<times> 'w) \<Rightarrow> Caffe2Job list \<Rightarrow> ('w, Caffe2Job list) action" where
  "SetObjectDefaults_Caffe2JobList now [] w = (Ret [], w)"
| "SetObjectDefaults_Caffe2JobList now (a # items) w =
     (case SetObjectDefaults_Caffe2Job now a w of
        (Panic p, w1) \<Rightarrow> (Panic p, w1)
      | (Ret a', w1) \<Rightarrow>
          (case SetObjectDefaults_Caffe2JobList now items w1 of
             (Panic p, w2) \<Rightarrow> (Panic p, w2)
           | (Ret items', w2) \<Rightarrow> (Ret (a' # items'), w2)))"

text \<open>What a defaulted spec has: nothing the controller reads is nil or empty any more.\<close>

definition defaulted :: "Caffe2JobSpec \<Rightarrow> bool" where
  "defaulted c \<longleftrightarrow>
     js_RuntimeID c \<noteq> [] \<and> js_Backend c \<noteq> None \<and> js_TerminationPolicy c \<noteq> None \<and>
     (\<exists>r. js_ReplicaSpecs c = Some r \<and> rs_Replicas r \<noteq> None \<and>
          (\<forall>t. rs_Template r = Some t \<longrightarrow> ps_RestartPolicy (pt_Spec t) \<noteq> []))"

lemma default_Replicas_Some: "\<exists>n. rs_Replicas (default_Replicas r) = Some n"
  by (auto simp: default_Replicas_def split: option.splits)

lemma default_parts_frame [simp]:
  "rs_Replicas (default_RestartPolicy r) = rs_Replicas r"
  "rs_Template (default_Replicas r) = rs_Template r"
  "rs_Replicas (default_Replicas r) = Some (case rs_Replicas r of None \<Rightarrow> 1 | Some n \<Rightarrow> n)"
  by (auto simp: default_RestartPolicy_def default_Replicas_def split: option.splits)

lemma default_parts_idem:
  "default_RestartPolicy (default_Replicas (default_RestartPolicy r)) = default_Replicas (default_RestartPolicy r)"
  "default_Replicas (default_Replicas r) = default_Replicas r"
  by (auto simp: default_RestartPolicy_def default_Replicas_def split: option.splits)

lemma SetDefaults_cases:
  "SetDefaults_Caffe2Job now job w =
     (case js_ReplicaSpecs (job_Spec job) of
        None \<Rightarrow> (Panic NilDeref, snd (default_RuntimeID now (job_Spec job) w))
      | Some r \<Rightarrow>
          let c1 = fst (default_RuntimeID now (job_Spec job) w);
              r' = default_Replicas (default_RestartPolicy r) in
          (Ret (job\<lparr>job_Spec := c1\<lparr>js_ReplicaSpecs := Some r',
               js_Backend := Some (default_Backend (the (rs_Replicas r')) (js_Backend c1)),
               js_TerminationPolicy := Some (default_TerminationPolicy (js_TerminationPolicy c1))\<rparr>\<rparr>),
           snd (default_RuntimeID now (job_Spec job) w)))"
proof -
  have eq: "js_ReplicaSpecs (fst (default_RuntimeID now (job_Spec job) w)) = js_ReplicaSpecs (job_Spec job)"
    by (simp add: default_RuntimeID_def split: prod.splits)
  show ?thesis
  proof (cases "js_ReplicaSpecs (job_Spec job)")
    case None
    with eq show ?thesis by (simp add: SetDefaults_Caffe2Job_def case_prod_beta)
  next
    case (Some r)
    obtain n where "rs_Replicas (default_Replicas (default_RestartPolicy r)) = Some n"
      using default_Replicas_Some by blast
    with eq Some show ?thesis by (simp add: SetDefaults_Caffe2Job_def case_prod_beta Let_def)
  qed
qed

lemma default_RuntimeID_frame:
  "js_Backend (fst (default_RuntimeID now c w)) = js_Backend c"
  "js_TerminationPolicy (fst (default_RuntimeID now c w)) = js_TerminationPolicy c"
  "js_RuntimeID (fst (default_RuntimeID now c w)) \<noteq> []"
  "js_RuntimeID c \<noteq> [] \<Longrightarrow> default_RuntimeID now c w = (c, w)"
  by (auto simp: default_RuntimeID_def split: prod.splits)

lemma SetDefaults_Ret:
  assumes "SetDefaults_Caffe2Job now job w = (Ret job', w')"
  obtains r where "js_ReplicaSpecs (job_Spec job) = Some r"
    "js_ReplicaSpecs (job_Spec job') = Some (default_Replicas (default_RestartPolicy r))"
    "js_Backend (job_Spec job') =
       Some (default_Backend (case rs_Replicas r of None \<Rightarrow> 1 | Some n \<Rightarrow> n) (js_Backend (job_Spec job)))"
    "js_TerminationPolicy (job_Spec job') = Some (default_TerminationPolicy (js_TerminationPolicy (job_Spec job)))"
    "job_Meta job' = job_Meta job" "job_Status job' = job_Status job"
  using assms
  by (cases "js_ReplicaSpecs (job_Spec job)")
     (auto simp: SetDefaults_cases Let_def default_RuntimeID_frame simp del: split_paired_All)

lemma defaulted_fixed:
  assumes "defaulted (job_Spec job)"
  shows "SetDefaults_Caffe2Job now job w = (Ret job, w)"
proof -
  obtain r where r: "js_ReplicaSpecs (job_Spec job) = Some r"
    and rid: "js_RuntimeID (job_Spec job) \<noteq> []"
    using assms by (auto simp: defaulted_def)
  have "default_Replicas (default_RestartPolicy r) = r"
    using assms r by (auto simp: defaulted_def default_Replicas_def default_RestartPolicy_def split: option.splits)
  with assms r rid show ?thesis
    by (auto simp: SetDefaults_cases default_RuntimeID_frame(4) defaulted_def
        default_Backend_def default_TerminationPolicy_def)
qed

lemma SetDefaults_defaulted:
  assumes "SetDefaults_Caffe2Job now job w = (Ret job', w')"
  shows "defaulted (job_Spec job')"
  using assms default_RuntimeID_frame(3) [of now "job_Spec job" w]
  by (auto simp: SetDefaults_cases defaulted_def Let_def default_RestartPolicy_def default_Replicas_def
      split: option.splits)

section \<open>Validation\<close>

definition multi_worker :: "Caffe2JobSpec \<Rightarrow> bool outcome" where
  \<comment> \<open>\<open>*c.ReplicaSpecs.Replicas > 1\<close>\<close>
  "multi_worker c =
     bind_outcome (deref (js_ReplicaSpecs c)) (\<lambda>r.
       bind_outcome (deref (rs_Replicas r)) (\<lambda>n. Ret (1 < sint n)))"

definition validate_backend :: "Caffe2JobSpec \<Rightarrow> go_error option outcome" where
  "validate_backend c =
     (case js_Backend c of
        None \<Rightarrow>
          bind_outcome (multi_worker c) (\<lambda>m.
            if m then Ret (Some (Errorf ''Invalid backend for multiple pods'' [] [])) else Ret None)
      | Some b \<Rightarrow>
          bind_outcome (if be_Type b = NoneBackendType then multi_worker c else Ret False) (\<lambda>m.
            if m then Ret (Some (Errorf ''Invalid backend for multiple pods'' [] []))
            else if be_Type b = NFSBackendType \<and> be_NFSPath b = []
              then Ret (Some (Errorf ''Invalid backend config for NFS backend'' [] []))
            else if be_Type b = RedisBackendType \<and> be_RedisHost b = []
              then Ret (Some (Errorf ''Invalid backend config for redis backend'' [] []))
            else Ret None))"

definition ValidateCaffe2JobSpec :: "Caffe2JobSpec \<Rightarrow> go_error option outcome" where
  "ValidateCaffe2JobSpec c =
     (if (case js_TerminationPolicy c of None \<Rightarrow> True | Some p \<Rightarrow> tp_Chief p = None)
      then Ret (Some (Errorf ''Invalid termination policy: %v'' [] []))
      else bind_outcome (validate_backend c) (\<lambda>err.
        case err of
          Some e \<Rightarrow> Ret (Some e)
        | None \<Rightarrow>
            bind_outcome (deref (js_ReplicaSpecs c)) (\<lambda>r.
              if rs_Template r = None
                then Ret (Some (Errorf ''Replica is missing Template; %v'' [] []))
              else Ret None)))"

text \<open>The contract: what the user may ask for, given that the replica count is set.\<close>

definition backend_usable :: "Caffe2BackendSpec option \<Rightarrow> int \<Rightarrow> bool" where
  "backend_usable b n \<longleftrightarrow>
     (case b of
        None \<Rightarrow> n \<le> 1
      | Some be \<Rightarrow>
          (be_Type be = NoneBackendType \<longrightarrow> n \<le> 1) \<and>
          (be_Type be = NFSBackendType \<longrightarrow> be_NFSPath be \<noteq> []) \<and>
          (be_Type be = RedisBackendType \<longrightarrow> be_RedisHost be \<noteq> []))"

definition spec_ok :: "Caffe2JobSpec \<Rightarrow> bool" where
  "spec_ok c \<longleftrightarrow>
     (\<exists>p r n. js_TerminationPolicy c = Some p \<and> tp_Chief p \<noteq> None \<and>
        js_ReplicaSpecs c = Some r \<and> rs_Replicas r = Some n \<and>
        backend_usable (js_Backend c) (sint n) \<and> rs_Template r \<noteq> None)"

lemma multi_worker_Some:
  "js_ReplicaSpecs c = Some r \<Longrightarrow> rs_Replicas r = Some n \<Longrightarrow> multi_worker c = Ret (1 < sint n)"
  by (simp add: multi_worker_def)

lemma validate_backend_Some:
  assumes "js_ReplicaSpecs c = Some r" and "rs_Replicas r = Some n"
  shows "\<exists>e. validate_backend c = Ret e \<and> (e = None \<longleftrightarrow> backend_usable (js_Backend c) (sint n))"
  using multi_worker_Some [OF assms]
  by (auto simp: validate_backend_def backend_usable_def backend_type_defs split: option.splits)

lemma validate_decides:
  assumes "js_ReplicaSpecs c = Some r" and "rs_Replicas r = Some n"
  shows "\<exists>e. ValidateCaffe2JobSpec c = Ret e \<and> (e = None \<longleftrightarrow> spec_ok c)"
proof -
  obtain e where e: "validate_backend c = Ret e" "e = None \<longleftrightarrow> backend_usable (js_Backend c) (sint n)"
    using validate_backend_Some [OF assms] by blast
  then show ?thesis
    using assms
    by (cases "js_TerminationPolicy c"; cases e)
       (auto simp: ValidateCaffe2JobSpec_def spec_ok_def)
qed

section \<open>Properties\<close>




text \<open>
  Validation accepts exactly the specs that have a chief, a template and a backend fit
  for the number of workers; on a spec with a replica count it never panics.
\<close>

theorem Validate_iff_spec_ok:
  assumes "js_ReplicaSpecs c = Some r" and "rs_Replicas r = Some n"
  shows "(ValidateCaffe2JobSpec c = Ret None \<longleftrightarrow> spec_ok c) \<and>
    (\<exists>e. ValidateCaffe2JobSpec c = Ret e)"
  using validate_decides [OF assms] by auto

theorem Validate_iff_spec_ok_witness: "ValidateCaffe2JobSpec (job_Spec sample_job) = Ret None"
proof -
  have "js_ReplicaSpecs (job_Spec sample_job) = Some sample_spec" "rs_Replicas sample_spec = Some 2"
    and "spec_ok (job_Spec sample_job)"
    by (simp_all add: spec_ok_def sample_job_defs backend_usable_def backend_type_defs)
  with Validate_iff_spec_ok [OF this(1,2)] show ?thesis by blast
qed


text \<open>
  A job with several workers (or none) and no backend is defaulted to the redis backend
  without a host, which validation then always rejects: such a job is never valid unless its
  author names a backend.
\<close>

theorem default_backend_rejected:
  assumes "js_ReplicaSpecs (job_Spec job) = Some r" and "rs_Replicas r = Some n" and "n \<noteq> 1"
    and "js_Backend (job_Spec job) = None"
    and "SetDefaults_Caffe2Job now job w = (Ret job', w')"
  shows "\<exists>e. ValidateCaffe2JobSpec (job_Spec job') = Ret (Some e)"
proof -
  obtain r' where r': "js_ReplicaSpecs (job_Spec job') = Some r'" "rs_Replicas r' = Some n"
    and b: "js_Backend (job_Spec job') = Some (zero_BackendSpec\<lparr>be_Type := RedisBackendType\<rparr>)"
    by (rule SetDefaults_Ret [OF assms(5)]) (use assms(1-4) in \<open>simp add: default_Backend_def\<close>)
  obtain e where "ValidateCaffe2JobSpec (job_Spec job') = Ret e"
    and "e = None \<longleftrightarrow> spec_ok (job_Spec job')"
    using validate_decides [OF r'] by blast
  moreover have "\<not> spec_ok (job_Spec job')"
    using b by (auto simp: spec_ok_def backend_usable_def zero_BackendSpec_def backend_type_defs)
  ultimately show ?thesis by auto
qed

theorem default_backend_rejected_witness:
  "\<exists>e. ValidateCaffe2JobSpec (job_Spec (case fst (SetDefaults_Caffe2Job ticking bare_job 0) of Ret job' \<Rightarrow> job')) = Ret (Some e)"
proof -
  obtain job' w' where eq: "SetDefaults_Caffe2Job ticking bare_job 0 = (Ret job', w')"
    by (simp add: SetDefaults_cases bare_job_def Let_def)
  have "js_ReplicaSpecs (job_Spec bare_job) = Some sample_spec" "rs_Replicas sample_spec = Some 2" "(2 :: int32) \<noteq> 1"
    "js_Backend (job_Spec bare_job) = None"
    by (simp_all add: sample_job_defs)
  from default_backend_rejected [OF this eq] show ?thesis by (simp add: eq)
qed

text \<open>
  C37. Which jobs are valid once they are defaulted, in terms of what their author wrote: those with a
  template, a chief in the termination policy if there is one, and a backend fit for the number of
  workers. Without a backend only a single worker is valid: for any other count the default is the redis
  backend without a host, which validation rejects. On a job with a replica spec neither step panics.
\<close>

theorem defaulted_job_valid_iff:
  assumes "js_ReplicaSpecs (job_Spec job) = Some r"
  shows "\<exists>job' w' e. SetDefaults_Caffe2Job now job w = (Ret job', w') \<and>
    ValidateCaffe2JobSpec (job_Spec job') = Ret e \<and>
    (e = None \<longleftrightarrow>
      (case js_TerminationPolicy (job_Spec job) of None \<Rightarrow> True | Some p \<Rightarrow> tp_Chief p \<noteq> None) \<and>
      rs_Template r \<noteq> None \<and>
      (let n = (case rs_Replicas r of None \<Rightarrow> 1 | Some n \<Rightarrow> n) in
       case js_Backend (job_Spec job) of None \<Rightarrow> n = 1 | Some b \<Rightarrow> backend_usable (Some b) (sint n)))"
proof -
  obtain job' w' where set: "SetDefaults_Caffe2Job now job w = (Ret job', w')"
    using assms by (simp add: SetDefaults_cases Let_def)
  from SetDefaults_Ret [OF this] obtain
    rs: "js_ReplicaSpecs (job_Spec job') = Some (default_Replicas (default_RestartPolicy r))" and
    be: "js_Backend (job_Spec job') =
       Some (default_Backend (case rs_Replicas r of None \<Rightarrow> 1 | Some n \<Rightarrow> n) (js_Backend (job_Spec job)))" and
    tp: "js_TerminationPolicy (job_Spec job') = Some (default_TerminationPolicy (js_TerminationPolicy (job_Spec job)))"
    using assms by auto
  have n: "rs_Replicas (default_Replicas (default_RestartPolicy r)) = Some (case rs_Replicas r of None \<Rightarrow> 1 | Some n \<Rightarrow> n)"
    by simp
  obtain e where e: "ValidateCaffe2JobSpec (job_Spec job') = Ret e" "e = None \<longleftrightarrow> spec_ok (job_Spec job')"
    using validate_decides [OF rs n] by blast
  have template: "rs_Template (default_Replicas (default_RestartPolicy r)) = None \<longleftrightarrow> rs_Template r = None"
    by (auto simp: default_RestartPolicy_def split: option.splits)
  let ?n = "case rs_Replicas r of None \<Rightarrow> 1 | Some n \<Rightarrow> n"
  have ok: "spec_ok (job_Spec job') \<longleftrightarrow>
      tp_Chief (default_TerminationPolicy (js_TerminationPolicy (job_Spec job))) \<noteq> None \<and>
      backend_usable (Some (default_Backend ?n (js_Backend (job_Spec job)))) (sint ?n) \<and>
      rs_Template (default_Replicas (default_RestartPolicy r)) \<noteq> None"
    unfolding spec_ok_def rs be tp by (simp only: option.inject n ex_simps simp_thms)
  have backend: "backend_usable (Some (default_Backend m b)) (sint m) \<longleftrightarrow>
      (case b of None \<Rightarrow> m = 1 | Some b \<Rightarrow> backend_usable (Some b) (sint m))" for m b
    by (cases b) (auto simp: default_Backend_def backend_usable_def zero_BackendSpec_def backend_type_defs)
  have chief: "tp_Chief (default_TerminationPolicy t) \<noteq> None \<longleftrightarrow>
      (case t of None \<Rightarrow> True | Some p \<Rightarrow> tp_Chief p \<noteq> None)" for t
    by (cases t) (simp_all add: default_TerminationPolicy_def)
  have "e = None \<longleftrightarrow>
      (case js_TerminationPolicy (job_Spec job) of None \<Rightarrow> True | Some p \<Rightarrow> tp_Chief p \<noteq> None) \<and>
      rs_Template r \<noteq> None \<and>
      (let n = (case rs_Replicas r of None \<Rightarrow> 1 | Some n \<Rightarrow> n) in
       case js_Backend (job_Spec job) of None \<Rightarrow> n = 1 | Some b \<Rightarrow> backend_usable (Some b) (sint n))"
    using e(2) ok unfolding template chief backend by (simp only: Let_def conj_ac)
  with set e(1) show ?thesis by blast
qed

theorem defaulted_job_valid_iff_witness:
  "\<exists>job' w' e. SetDefaults_Caffe2Job ticking bare_job 0 = (Ret job', w') \<and>
    ValidateCaffe2JobSpec (job_Spec job') = Ret (Some e)"
proof -
  have "js_ReplicaSpecs (job_Spec bare_job) = Some sample_spec" "rs_Replicas sample_spec = Some 2"
    "js_Backend (job_Spec bare_job) = None"
    by (simp_all add: sample_job_defs)
  with defaulted_job_valid_iff [of bare_job sample_spec ticking 0] show ?thesis by (auto simp: Let_def)
qed

end
