(* ===== verification/Selectors.thy ===== *)
theory Selectors
  imports ApiTypes "HOL-Library.List_Lexorder" "HOL-Library.Char_ord"
begin

text \<open>
  Labels and label selectors as vendored from k8s.io/apimachinery: the syntax checks of
  pkg/util/validation/validation.go, the requirements and selectors of pkg/labels/selector.go,
  \<open>LabelSelectorAsSelector\<close> of pkg/apis/meta/v1/helpers.go and the name check of
  pkg/api/validation/generic.go. The controller finds its pods through them. The regular
  expressions are written as the sets of strings they match. The contract clients use (a
  selector made from a label set matches exactly the supersets of that set) is the locale
  \<open>set_selector\<close>.
\<close>

section \<open>Syntax of names and values\<close>

definition in_range :: "char \<Rightarrow> char \<Rightarrow> char \<Rightarrow> bool" where
  "in_range lo hi c \<longleftrightarrow> (of_char lo :: nat) \<le> of_char c \<and> (of_char c :: nat) \<le> of_char hi"

definition is_digit :: "char \<Rightarrow> bool" where "is_digit c \<longleftrightarrow> in_range (CHR ''0'') (CHR ''9'') c"
definition is_lower :: "char \<Rightarrow> bool" where "is_lower c \<longleftrightarrow> in_range (CHR ''a'') (CHR ''z'') c"
definition is_upper :: "char \<Rightarrow> bool" where "is_upper c \<longleftrightarrow> in_range (CHR ''A'') (CHR ''Z'') c"

lemmas char_class_defs = in_range_def is_digit_def is_lower_def is_upper_def

text \<open>\<open>[A-Za-z0-9]\<close> and \<open>[-A-Za-z0-9_.]\<close>\<close>

definition qname_char :: "char \<Rightarrow> bool" where
  "qname_char c \<longleftrightarrow> is_upper c \<or> is_lower c \<or> is_digit c"

definition qname_ext_char :: "char \<Rightarrow> bool" where
  "qname_ext_char c \<longleftrightarrow> qname_char c \<or> c = CHR ''-'' \<or> c = CHR ''_'' \<or> c = CHR ''.''"

text \<open>\<open>^([A-Za-z0-9][-A-Za-z0-9_.]*)?[A-Za-z0-9]$\<close>\<close>

definition qualifiedNameRegexp :: "string \<Rightarrow> bool" where
  "qualifiedNameRegexp s \<longleftrightarrow>
     s \<noteq> [] \<and> qname_char (hd s) \<and> qname_char (last s) \<and> list_all qname_ext_char s"

definition labelValueRegexp :: "string \<Rightarrow> bool" where
  "labelValueRegexp s \<longleftrightarrow> s = [] \<or> qualifiedNameRegexp s"

text \<open>\<open>^[a-z0-9]([-a-z0-9]*[a-z0-9])?$\<close>, and such labels separated by dots\<close>

definition dns_char :: "char \<Rightarrow> bool" where
  "dns_char c \<longleftrightarrow> is_lower c \<or> is_digit c"

definition dns1123LabelRegexp :: "string \<Rightarrow> bool" where
  "dns1123LabelRegexp s \<longleftrightarrow>
     s \<noteq> [] \<and> dns_char (hd s) \<and> dns_char (last s) \<and> list_all (\<lambda>c. dns_char c \<or> c = CHR ''-'') s"

definition dns1123SubdomainRegexp :: "string \<Rightarrow> bool" where
  "dns1123SubdomainRegexp s \<longleftrightarrow> list_all dns1123LabelRegexp (split_on (CHR ''.'') s)"

definition MaxLenError :: "nat \<Rightarrow> string" where
  "MaxLenError n = ''must be no more than '' @ itoa (int n) @ '' characters''"

definition EmptyError :: string where "EmptyError = ''must be non-empty''"

definition qualifiedNameErrMsg :: string where
  "qualifiedNameErrMsg = ''must consist of alphanumeric characters, '-', '_' or '.', and must start and end with an alphanumeric character''"

definition labelValueErrMsg :: string where
  "labelValueErrMsg = ''a valid label must be an empty string or consist of alphanumeric characters, '-', '_' or '.', and must start and end with an alphanumeric character''"

definition dns1123SubdomainErrorMsg :: string where
  "dns1123SubdomainErrorMsg = ''a DNS-1123 subdomain must consist of lower case alphanumeric characters, '-' or '.', and must start and end with an alphanumeric character''"

text \<open>
  The checks return the list of complaints, empty when the string is fine. A complaint about
  the syntax is its leading message; the examples and the expression that \<open>RegexError\<close>
  appends to it are left out.
\<close>

definition IsDNS1123Subdomain :: "string \<Rightarrow> string list" where
  "IsDNS1123Subdomain value =
     (if 253 < length value then [MaxLenError 253] else []) @
     (if \<not> dns1123SubdomainRegexp value then [dns1123SubdomainErrorMsg] else [])"

definition name_part_errors :: "string \<Rightarrow> string list" where
  "name_part_errors name =
     (if length name = 0 then [''name part '' @ EmptyError]
      else if 63 < length name then [''name part '' @ MaxLenError 63] else []) @
     (if \<not> qualifiedNameRegexp name then [''name part '' @ qualifiedNameErrMsg] else [])"

definition IsQualifiedName :: "string \<Rightarrow> string list" where
  "IsQualifiedName value =
     (case split_on (CHR ''/'') value of
        [name] \<Rightarrow> name_part_errors name
      | [prefix, name] \<Rightarrow>
          (if length prefix = 0 then [''prefix part '' @ EmptyError]
           else map (\<lambda>m. ''prefix part '' @ m) (IsDNS1123Subdomain prefix)) @
          name_part_errors name
      | _ \<Rightarrow> [''a qualified name '' @ qualifiedNameErrMsg])"

definition IsValidLabelValue :: "string \<Rightarrow> string list" where
  "IsValidLabelValue value =
     (if 63 < length value then [MaxLenError 63] else []) @
     (if \<not> labelValueRegexp value then [labelValueErrMsg] else [])"

text \<open>
  \<open>maskTrailingDash\<close> slices \<open>name[:len(name)-2]\<close>, which panics on the name \<open>"-"\<close>.
\<close>

definition maskTrailingDash :: "string \<Rightarrow> string outcome" where
  "maskTrailingDash name =
     (if name \<noteq> [] \<and> last name = CHR ''-''
      then (if length name < 2 then Panic SliceBounds else Ret (take (length name - 2) name @ ''a''))
      else Ret name)"

definition NameIsDNSSubdomain :: "string \<Rightarrow> bool \<Rightarrow> string list outcome" where
  "NameIsDNSSubdomain name prefix =
     bind_outcome (if prefix then maskTrailingDash name else Ret name) (\<lambda>n. Ret (IsDNS1123Subdomain n))"

lemmas label_syntax_defs = IsQualifiedName_def name_part_errors_def IsValidLabelValue_def
  labelValueRegexp_def qualifiedNameRegexp_def qname_ext_char_def qname_char_def char_class_defs

lemma IsValidLabelValue_ok:
  "IsValidLabelValue v = [] \<longleftrightarrow> length v \<le> 63 \<and> labelValueRegexp v"
  by (simp add: IsValidLabelValue_def)

section \<open>Requirements\<close>

datatype sel_operator =
    OpDoesNotExist | OpEquals | OpDoubleEquals | OpIn | OpNotEquals | OpNotIn | OpExists
  | OpGreaterThan | OpLessThan | OpOther string

record Requirement =
  rq_key :: string
  rq_operator :: sel_operator
  rq_strValues :: "string list"

definition validateLabelKey :: "string \<Rightarrow> go_error option" where
  "validateLabelKey k =
     (if IsQualifiedName k \<noteq> [] then Some (Errorf ''invalid label key %q: %s'' (k # IsQualifiedName k) [])
      else None)"

definition validateLabelValue :: "string \<Rightarrow> go_error option" where
  "validateLabelValue v =
     (if IsValidLabelValue v \<noteq> [] then Some (Errorf ''invalid label value: %q: %s'' (v # IsValidLabelValue v) [])
      else None)"

fun first_error :: "('a \<Rightarrow> go_error option) \<Rightarrow> 'a list \<Rightarrow> go_error option" where
  "first_error f [] = None"
| "first_error f (x # xs) = (case f x of Some e \<Rightarrow> Some e | None \<Rightarrow> first_error f xs)"

definition operator_error :: "sel_operator \<Rightarrow> string list \<Rightarrow> go_error option" where
  "operator_error op vals =
     (if op = OpIn \<or> op = OpNotIn then
        (if vals = [] then Some (Errorf ''for 'in', 'notin' operators, values set can't be empty'' [] []) else None)
      else if op = OpEquals \<or> op = OpDoubleEquals \<or> op = OpNotEquals then
        (if length vals \<noteq> 1 then Some (Errorf ''exact-match compatibility requires one single value'' [] []) else None)
      else if op = OpExists \<or> op = OpDoesNotExist then
        (if vals \<noteq> [] then Some (Errorf ''values set must be empty for exists and does not exist'' [] []) else None)
      else if op = OpGreaterThan \<or> op = OpLessThan then
        (if length vals \<noteq> 1 then Some (Errorf ''for 'Gt', 'Lt' operators, exactly one value is required'' [] [])
         else if list_ex (\<lambda>v. parse_int 10 64 v = None) vals
           then Some (Errorf ''for 'Gt', 'Lt' operators, the value must be an integer'' [] [])
         else None)
      else Some (Errorf ''operator '%v' is not recognized'' [] []))"

definition NewRequirement :: "string \<Rightarrow> sel_operator \<Rightarrow> string list \<Rightarrow> go_error + Requirement" where
  "NewRequirement key op vals =
     (case validateLabelKey key of
        Some e \<Rightarrow> Inl e
      | None \<Rightarrow>
          (case operator_error op vals of
             Some e \<Rightarrow> Inl e
           | None \<Rightarrow>
               (case first_error validateLabelValue vals of
                  Some e \<Rightarrow> Inl e
                | None \<Rightarrow> Inr \<lparr>rq_key = key, rq_operator = op, rq_strValues = sort vals\<rparr>)))"

text \<open>\<open>labels.Set\<close>: \<open>Has\<close> and \<open>Get\<close> on a map, nil included.\<close>

definition Set_Has :: "label_map \<Rightarrow> string \<Rightarrow> bool" where
  "Set_Has ls label = (map_of ls label \<noteq> None)"

definition Set_Get :: "label_map \<Rightarrow> string \<Rightarrow> string" where
  "Set_Get ls label = (case map_of ls label of None \<Rightarrow> [] | Some v \<Rightarrow> v)"

definition Requirement_Matches :: "Requirement \<Rightarrow> label_map \<Rightarrow> bool" where
  "Requirement_Matches r ls =
     (let has = Set_Has ls (rq_key r); value = Set_Get ls (rq_key r);
          hasValue = value \<in> set (rq_strValues r) in
      case rq_operator r of
        OpIn \<Rightarrow> if \<not> has then False else hasValue
      | OpEquals \<Rightarrow> if \<not> has then False else hasValue
      | OpDoubleEquals \<Rightarrow> if \<not> has then False else hasValue
      | OpNotIn \<Rightarrow> if \<not> has then True else \<not> hasValue
      | OpNotEquals \<Rightarrow> if \<not> has then True else \<not> hasValue
      | OpExists \<Rightarrow> has
      | OpDoesNotExist \<Rightarrow> \<not> has
      | OpOther _ \<Rightarrow> False
      | op \<Rightarrow>
          if \<not> has then False
          else (case (parse_int 10 64 value, rq_strValues r) of
                  (Some lsValue, [v]) \<Rightarrow>
                    (case parse_int 10 64 v of
                       None \<Rightarrow> False
                     | Some rValue \<Rightarrow>
                         (op = OpGreaterThan \<and> rValue < lsValue) \<or> (op = OpLessThan \<and> lsValue < rValue))
                | _ \<Rightarrow> False))"

section \<open>Selectors\<close>

datatype Selector = NothingSelector | InternalSelector "Requirement list"

definition Everything :: Selector where "Everything = InternalSelector []"
definition Nothing :: Selector where "Nothing = NothingSelector"

fun Selector_Matches :: "Selector \<Rightarrow> label_map \<Rightarrow> bool" where
  "Selector_Matches NothingSelector l = False"
| "Selector_Matches (InternalSelector rs) l = list_all (\<lambda>r. Requirement_Matches r l) rs"

fun Selector_Empty :: "Selector \<Rightarrow> bool" where
  "Selector_Empty NothingSelector = False"
| "Selector_Empty (InternalSelector rs) = (rs = [])"

text \<open>\<open>sort.Sort(ByKey(sel))\<close>; the requirements added here have distinct keys.\<close>

fun Selector_Add :: "Selector \<Rightarrow> Requirement list \<Rightarrow> Selector" where
  "Selector_Add NothingSelector reqs = NothingSelector"
| "Selector_Add (InternalSelector rs) reqs = InternalSelector (sort_key rq_key (rs @ reqs))"

text \<open>\<open>SelectorFromValidatedSet\<close>: one equality per label, nothing checked.\<close>

definition equals_requirement :: "string \<times> string \<Rightarrow> Requirement" where
  "equals_requirement kv = \<lparr>rq_key = fst kv, rq_operator = OpEquals, rq_strValues = [snd kv]\<rparr>"

definition SelectorFromValidatedSet :: "label_map \<Rightarrow> Selector" where
  "SelectorFromValidatedSet ls = InternalSelector (sort_key rq_key (map equals_requirement ls))"

text \<open>\<open>SelectorFromSet\<close>: a label that does not check gives the selector that matches everything.\<close>

fun requirements_of_set :: "label_map \<Rightarrow> Requirement list option" where
  "requirements_of_set [] = Some []"
| "requirements_of_set ((label, value) # ls) =
     (case NewRequirement label OpEquals [value] of
        Inl _ \<Rightarrow> None
      | Inr r \<Rightarrow> map_option ((#) r) (requirements_of_set ls))"

definition SelectorFromSet :: "label_map \<Rightarrow> Selector" where
  "SelectorFromSet ls =
     (case requirements_of_set ls of
        None \<Rightarrow> InternalSelector []
      | Some rs \<Rightarrow> InternalSelector (sort_key rq_key rs))"

text \<open>The \<open>metav1.LabelSelector\<close> of the API, and its translation.\<close>

record LabelSelectorRequirement =
  le_Key :: string
  le_Operator :: string
  le_Values :: "string list"

record LabelSelector =
  lb_MatchLabels :: label_map
  lb_MatchExpressions :: "LabelSelectorRequirement list"

fun add_match_labels :: "Selector \<Rightarrow> label_map \<Rightarrow> go_error + Selector" where
  "add_match_labels sel [] = Inr sel"
| "add_match_labels sel ((k, v) # kvs) =
     (case NewRequirement k OpEquals [v] of
        Inl e \<Rightarrow> Inl e
      | Inr r \<Rightarrow> add_match_labels (Selector_Add sel [r]) kvs)"

definition expression_operator :: "string \<Rightarrow> sel_operator option" where
  "expression_operator s =
     (if s = ''In'' then Some OpIn else if s = ''NotIn'' then Some OpNotIn
      else if s = ''Exists'' then Some OpExists
      else if s = ''DoesNotExist'' then Some OpDoesNotExist else None)"

fun add_match_expressions :: "Selector \<Rightarrow> LabelSelectorRequirement list \<Rightarrow> go_error + Selector" where
  "add_match_expressions sel [] = Inr sel"
| "add_match_expressions sel (expr # exprs) =
     (case expression_operator (le_Operator expr) of
        None \<Rightarrow> Inl (Errorf ''%q is not a valid pod selector operator'' [le_Operator expr] [])
      | Some op \<Rightarrow>
          (case NewRequirement (le_Key expr) op (le_Values expr) of
             Inl e \<Rightarrow> Inl e
           | Inr r \<Rightarrow> add_match_expressions (Selector_Add sel [r]) exprs))"

definition LabelSelectorAsSelector :: "LabelSelector option \<Rightarrow> go_error + Selector" where
  "LabelSelectorAsSelector ps =
     (case ps of
        None \<Rightarrow> Inr Nothing
      | Some s \<Rightarrow>
          if length (lb_MatchLabels s) + length (lb_MatchExpressions s) = 0 then Inr Everything
          else (case add_match_labels (InternalSelector []) (lb_MatchLabels s) of
                  Inl e \<Rightarrow> Inl e
                | Inr sel \<Rightarrow> add_match_expressions sel (lb_MatchExpressions s)))"

section \<open>Lemmas\<close>

definition holds_label :: "label_map \<Rightarrow> string \<times> string \<Rightarrow> bool" where
  "holds_label ls kv \<longleftrightarrow> map_of ls (fst kv) = Some (snd kv)"

lemma equals_requirement_Matches:
  "Requirement_Matches (equals_requirement kv) ls \<longleftrightarrow> holds_label ls kv"
  by (auto simp: Requirement_Matches_def equals_requirement_def holds_label_def Set_Has_def Set_Get_def)

lemma NewRequirement_equals:
  "NewRequirement k OpEquals [v] =
     (case validateLabelKey k of
        Some e \<Rightarrow> Inl e
      | None \<Rightarrow> (case validateLabelValue v of Some e \<Rightarrow> Inl e | None \<Rightarrow> Inr (equals_requirement (k, v))))"
  by (auto simp: NewRequirement_def operator_error_def equals_requirement_def split: option.splits)

definition label_ok :: "string \<times> string \<Rightarrow> bool" where
  "label_ok kv \<longleftrightarrow> IsQualifiedName (fst kv) = [] \<and> IsValidLabelValue (snd kv) = []"

lemma NewRequirement_equals_ok:
  "label_ok (k, v) \<Longrightarrow> NewRequirement k OpEquals [v] = Inr (equals_requirement (k, v))"
  "\<not> label_ok (k, v) \<Longrightarrow> \<exists>e. NewRequirement k OpEquals [v] = Inl e"
  by (auto simp: NewRequirement_equals label_ok_def validateLabelKey_def validateLabelValue_def)

lemma Selector_Add_Matches:
  "sel \<noteq> NothingSelector \<Longrightarrow>
     Selector_Matches (Selector_Add sel rs) l \<longleftrightarrow>
       Selector_Matches sel l \<and> list_all (\<lambda>r. Requirement_Matches r l) rs"
  by (cases sel) (auto simp: list_all_iff)

lemma Selector_Add_not_Nothing [simp]: "Selector_Add sel rs = NothingSelector \<longleftrightarrow> sel = NothingSelector"
  by (cases sel) simp_all

lemma add_match_labels_ok:
  assumes "sel \<noteq> NothingSelector"
  shows "(case add_match_labels sel kvs of
            Inl e \<Rightarrow> \<not> list_all label_ok kvs
          | Inr sel' \<Rightarrow> list_all label_ok kvs \<and> sel' \<noteq> NothingSelector \<and>
              (\<forall>l. Selector_Matches sel' l \<longleftrightarrow> Selector_Matches sel l \<and> list_all (holds_label l) kvs))"
  using assms
proof (induction sel kvs rule: add_match_labels.induct)
  case (1 sel)
  then show ?case by simp
next
  case (2 sel k v kvs)
  show ?case
  proof (cases "label_ok (k, v)")
    case True
    with 2 show ?thesis
      by (auto simp: NewRequirement_equals_ok(1) Selector_Add_Matches equals_requirement_Matches
          split: sum.splits)
  next
    case False
    then obtain e where "NewRequirement k OpEquals [v] = Inl e"
      using NewRequirement_equals_ok(2) by blast
    with False show ?thesis by simp
  qed
qed

lemma LabelSelectorAsSelector_labels:
  "(case LabelSelectorAsSelector (Some \<lparr>lb_MatchLabels = m, lb_MatchExpressions = []\<rparr>) of
      Inl e \<Rightarrow> \<not> list_all label_ok m
    | Inr sel \<Rightarrow> list_all label_ok m \<and> (\<forall>l. Selector_Matches sel l \<longleftrightarrow> list_all (holds_label l) m))"
  using add_match_labels_ok [of "InternalSelector []" m]
  by (auto simp: LabelSelectorAsSelector_def Everything_def split: sum.splits)

lemma SelectorFromValidatedSet_Matches:
  "Selector_Matches (SelectorFromValidatedSet m) l \<longleftrightarrow> list_all (holds_label l) m"
  by (auto simp: SelectorFromValidatedSet_def list_all_iff equals_requirement_Matches)

lemma SelectorFromValidatedSet_Empty [simp]: "Selector_Empty (SelectorFromValidatedSet m) \<longleftrightarrow> m = []"
  using length_sort [of rq_key "map equals_requirement m"]
  by (auto simp: SelectorFromValidatedSet_def simp del: length_sort)

section \<open>The contract of a selector made from a label set\<close>

text \<open>
  \<open>required\<close> says which label sets may be turned into a selector at all; the selector made
  from one matches the label sets that hold every label of it.
\<close>

locale set_selector =
  fixes select :: "label_map \<Rightarrow> label_map \<Rightarrow> bool"
  assumes select_iff: "select m l \<longleftrightarrow> list_all (holds_label l) m"
begin

lemma select_refl: "wf_map m \<Longrightarrow> select m m"
  by (auto simp: select_iff list_all_iff holds_label_def)

lemma select_map_le: "select m l \<Longrightarrow> map_of l \<subseteq>\<^sub>m map_of l' \<Longrightarrow> select m l'"
  by (auto simp: select_iff list_all_iff holds_label_def map_le_def dom_def)

lemma select_range_write:
  "wf_map m \<Longrightarrow> wf_map src \<Longrightarrow> map_of m \<subseteq>\<^sub>m map_of src \<Longrightarrow> select m (range_write dst src)"
  by (auto simp: select_iff list_all_iff holds_label_def map_of_range_write map_le_def dom_def
      map_add_def split: option.splits)

lemma select_conflict: "(k, v) \<in> set m \<Longrightarrow> map_of l k \<noteq> Some v \<Longrightarrow> \<not> select m l"
  by (force simp: select_iff list_all_iff holds_label_def)

end

interpretation vset: set_selector "\<lambda>m. Selector_Matches (SelectorFromValidatedSet m)"
  by unfold_locales (rule SelectorFromValidatedSet_Matches)

section \<open>Properties\<close>

text \<open>
  The selector the controller builds from a set of labels exists exactly when every key is
  a qualified name and every value a valid label value; when it exists it matches exactly the
  label sets that hold all those labels, whatever the order of the map.
\<close>

theorem LabelSelectorAsSelector_matches:
  "(case LabelSelectorAsSelector (Some \<lparr>lb_MatchLabels = m, lb_MatchExpressions = []\<rparr>) of
      Inl e \<Rightarrow> \<exists>(k, v) \<in> set m. IsQualifiedName k \<noteq> [] \<or> IsValidLabelValue v \<noteq> []
    | Inr sel \<Rightarrow> (\<forall>(k, v) \<in> set m. IsQualifiedName k = [] \<and> IsValidLabelValue v = []) \<and>
        (\<forall>l. Selector_Matches sel l \<longleftrightarrow> (\<forall>(k, v) \<in> set m. map_of l k = Some v)))"
  using LabelSelectorAsSelector_labels [of m]
  by (auto simp: list_all_iff label_ok_def holds_label_def split: sum.splits)

theorem LabelSelectorAsSelector_matches_witness:
  "\<exists>sel. LabelSelectorAsSelector (Some \<lparr>lb_MatchLabels = [(''a'', ''b'')], lb_MatchExpressions = []\<rparr>) = Inr sel \<and>
    Selector_Matches sel [(''c'', ''d''), (''a'', ''b'')] \<and> \<not> Selector_Matches sel [(''a'', ''c'')]"
proof -
  have "IsQualifiedName ''a'' = []" "IsValidLabelValue ''b'' = []" by (simp_all add: label_syntax_defs)
  with LabelSelectorAsSelector_matches [of "[(''a'', ''b'')]"] show ?thesis
    by (cases "LabelSelectorAsSelector (Some \<lparr>lb_MatchLabels = [(''a'', ''b'')], lb_MatchExpressions = []\<rparr>)")
      simp_all
qed


end
