(* ===== verification/Utilities.thy ===== *)
theory Utilities
  imports Selectors
begin

text \<open>
  The helpers of pkg/util and pkg/apis/caffe2/helper: retrying (retryutil), random names (util),
  labels, owner references and error tests (k8sutil), the owner reference and CRD name of the API
  helper. The random source and the function that is retried are not part of the repository and
  are arguments.
\<close>

section \<open>Retrying\<close>

datatype retry_error = RetryError int | OtherError go_error

text \<open>
  One call of \<open>f\<close> ends the loop when it reports an error or success. \<open>tick\<close> waits for the ticker.
  The number is how many calls may still follow this one.
\<close>

primrec retry_loop ::
  "nat \<Rightarrow> int \<Rightarrow> ('w \<Rightarrow> (bool \<times> go_error option) \<times> 'w) \<Rightarrow> ('w \<Rightarrow> 'w) \<Rightarrow> 'w \<Rightarrow> retry_error option \<times> 'w" where
  "retry_loop 0 maxRetries f tick w =
     (case f w of
        ((ok, Some err), w1) \<Rightarrow> (Some (OtherError err), w1)
      | ((ok, None), w1) \<Rightarrow> if ok then (None, w1) else (Some (RetryError maxRetries), w1))"
| "retry_loop (Suc n) maxRetries f tick w =
     (case f w of
        ((ok, Some err), w1) \<Rightarrow> (Some (OtherError err), w1)
      | ((ok, None), w1) \<Rightarrow> if ok then (None, w1) else retry_loop n maxRetries f tick (tick w1))"

text \<open>\<open>time.NewTicker\<close> panics on an interval that is not positive.\<close>

definition Retry ::
  "int \<Rightarrow> int \<Rightarrow> ('w \<Rightarrow> (bool \<times> go_error option) \<times> 'w) \<Rightarrow> ('w \<Rightarrow> 'w) \<Rightarrow> ('w, retry_error option) action" where
  "Retry interval maxRetries f tick w =
     (if maxRetries \<le> 0
        then (Ret (Some (OtherError (Errorf ''maxRetries (%d) should be > 0'' [itoa maxRetries] []))), w)
      else if interval \<le> 0 then (Panic ExplicitPanic, w)
      else (case retry_loop (nat maxRetries - 1) maxRetries f tick w of (r, w1) \<Rightarrow> (Ret r, w1)))"

definition IsRetryFailure :: "retry_error option \<Rightarrow> bool" where
  "IsRetryFailure err = (case err of Some (RetryError n) \<Rightarrow> True | _ \<Rightarrow> False)"

definition decisive :: "bool \<times> go_error option \<Rightarrow> bool" where
  "decisive r \<longleftrightarrow> fst r \<or> snd r \<noteq> None"

text \<open>The world before the \<open>k\<close>-th call, when no call before it was decisive.\<close>

definition attempt :: "('w \<Rightarrow> (bool \<times> go_error option) \<times> 'w) \<Rightarrow> ('w \<Rightarrow> 'w) \<Rightarrow> nat \<Rightarrow> 'w \<Rightarrow> 'w" where
  "attempt f tick k w = ((\<lambda>w. tick (snd (f w))) ^^ k) w"

lemma attempt_Suc: "attempt f tick (Suc k) w = attempt f tick k (tick (snd (f w)))"
  using funpow_swap1 [of "\<lambda>w. tick (snd (f w))" k w] by (simp add: attempt_def)

lemma retry_loop_decisive:
  assumes "k \<le> n" and "decisive (fst (f (attempt f tick k w)))"
    and "\<And>j. j < k \<Longrightarrow> \<not> decisive (fst (f (attempt f tick j w)))"
  shows "retry_loop n m f tick w =
    (case f (attempt f tick k w) of ((ok, e), w') \<Rightarrow> (map_option OtherError e, w'))"
  using assms
proof (induction n arbitrary: k w)
  case 0
  then show ?case by (auto simp: attempt_def decisive_def split: prod.splits option.splits)
next
  case (Suc n)
  show ?case
  proof (cases k)
    case 0
    with Suc.prems(2) show ?thesis
      by (auto simp: attempt_def decisive_def split: prod.splits option.splits)
  next
    case (Suc j)
    have "\<not> decisive (fst (f (attempt f tick 0 w)))" using Suc.prems(3) [of 0] Suc by simp
    then obtain w1 where f: "f w = ((False, None), w1)"
      by (cases "f w") (auto simp: attempt_def decisive_def)
    have "retry_loop n m f tick (tick w1) =
        (case f (attempt f tick j (tick w1)) of ((ok, e), w') \<Rightarrow> (map_option OtherError e, w'))"
    proof (rule Suc.IH)
      show "j \<le> n" using Suc.prems(1) Suc by simp
      show "decisive (fst (f (attempt f tick j (tick w1))))"
        using Suc.prems(2) Suc by (simp add: attempt_Suc f)
      show "\<not> decisive (fst (f (attempt f tick i (tick w1))))" if "i < j" for i
        using Suc.prems(3) [of "Suc i"] that Suc by (simp add: attempt_Suc f)
    qed
    with f Suc show ?thesis by (simp add: attempt_Suc)
  qed
qed

lemma retry_loop_exhausted:
  assumes "\<And>j. j \<le> n \<Longrightarrow> \<not> decisive (fst (f (attempt f tick j w)))"
  shows "retry_loop n m f tick w = (Some (RetryError m), snd (f (attempt f tick n w)))"
  using assms
proof (induction n arbitrary: w)
  case 0
  then show ?case by (cases "f w") (auto simp: attempt_def decisive_def)
next
  case (Suc n)
  from Suc.prems [of 0] obtain w1 where f: "f w = ((False, None), w1)"
    by (cases "f w") (auto simp: attempt_def decisive_def)
  have "\<not> decisive (fst (f (attempt f tick j (tick w1))))" if "j \<le> n" for j
    using Suc.prems [of "Suc j"] that by (simp add: attempt_Suc f)
  from Suc.IH [OF this] f show ?case by (simp add: attempt_Suc)
qed

section \<open>Random names\<close>

definition letterBytes :: string where "letterBytes = ''0123456789abcdefghijklmnopqrstuvwxyz''"
definition letterIdxBits :: nat where "letterIdxBits = 6"
definition letterIdxMask :: nat where "letterIdxMask = 2 ^ letterIdxBits - 1"
definition letterIdxMax :: nat where "letterIdxMax = 63 div letterIdxBits"

text \<open>
  \<open>src k\<close> is the \<open>k\<close>-th value of \<open>src.Int63()\<close>. An index that is not below 36 is thrown away, so for
  some sources the loop does not end: the result is then \<open>None\<close>.
\<close>

partial_function (option) rand_loop ::
  "(nat \<Rightarrow> nat) \<Rightarrow> nat \<Rightarrow> int \<Rightarrow> nat \<Rightarrow> nat \<Rightarrow> string \<Rightarrow> string option" where
  "rand_loop src drawn i cache remain b =
     (if i < 0 then Some b
      else let (cache1, remain1, drawn1) =
                 (if remain = 0 then (src drawn, letterIdxMax, drawn + 1) else (cache, remain, drawn));
               idx = cache1 mod (letterIdxMask + 1);
               (b1, i1) = (if idx < length letterBytes then (b[nat i := letterBytes ! idx], i - 1) else (b, i))
           in rand_loop src drawn1 i1 (cache1 div 2 ^ letterIdxBits) (remain1 - 1) b1)"

definition RandString :: "(nat \<Rightarrow> nat) \<Rightarrow> int \<Rightarrow> string option outcome" where
  "RandString src n =
     (if n < 0 then Panic NegativeLength
      else Ret (rand_loop src 1 (n - 1) (src 0) letterIdxMax (replicate (nat n) (char_of (0 :: nat)))))"

lemma letter_consts: "Suc letterIdxMask = 64" "2 ^ letterIdxBits = (64 :: nat)" "letterIdxMax = 10" "length letterBytes = 36"
  by (simp_all add: letterIdxMask_def letterIdxBits_def letterIdxMax_def letterBytes_def)

lemma rand_loop_unfold:
  "rand_loop src drawn (int k) cache remain b =
    (let c = (if remain = 0 then src drawn else cache); r = (if remain = 0 then 10 else remain);
         d = (if remain = 0 then Suc drawn else drawn) in
     if c mod 64 < 36 then rand_loop src d (int k - 1) (c div 64) (r - 1) (b[k := letterBytes ! (c mod 64)])
     else rand_loop src d (int k) (c div 64) (r - 1) b)"
  by (subst rand_loop.simps) (simp add: letter_consts Let_def)

text \<open>
  A source whose values all have a usable low letter is enough for the loop to end: whatever is in
  the cache, it is used up in ten rounds, and the next value brings a letter.
\<close>

definition filled_from :: "nat \<Rightarrow> string \<Rightarrow> bool" where
  "filled_from k b \<longleftrightarrow> (\<forall>j. k \<le> j \<and> j < length b \<longrightarrow> b ! j \<in> set letterBytes)"

lemma rand_loop_returns:
  assumes src: "\<And>k. src k mod 64 < 36"
    and "k \<le> length b" and "filled_from k b"
  shows "\<exists>s. rand_loop src drawn (int k - 1) cache remain b = Some s \<and> length s = length b \<and>
    set s \<subseteq> set letterBytes"
  using assms(2,3)
proof (induction k arbitrary: drawn cache remain b)
  case 0
  then have "set b \<subseteq> set letterBytes" by (auto simp: filled_from_def in_set_conv_nth)
  then show ?case by (subst rand_loop.simps) simp
next
  case (Suc k)
  have put: "\<exists>s. rand_loop src drawn' (int k - 1) cache' remain' (b[k := letterBytes ! idx]) = Some s \<and>
      length s = length b \<and> set s \<subseteq> set letterBytes" if "idx < 36" for drawn' cache' remain' idx
  proof -
    have "letterBytes ! idx \<in> set letterBytes" using that by (simp add: letter_consts)
    then have "filled_from k (b[k := letterBytes ! idx])"
      using Suc.prems by (auto simp: filled_from_def nth_list_update Suc_le_eq)
    then show ?thesis using Suc.IH [of "b[k := letterBytes ! idx]"] Suc.prems(1) by simp
  qed
  have "\<exists>s. rand_loop src drawn (int k) cache remain b = Some s \<and> length s = length b \<and>
      set s \<subseteq> set letterBytes"
  proof (induction remain arbitrary: drawn cache)
    case 0
    show ?case by (subst rand_loop_unfold) (use put src in \<open>simp add: Let_def\<close>)
  next
    case (Suc remain)
    show ?case by (subst rand_loop_unfold) (use put Suc.IH in \<open>simp add: Let_def\<close>)
  qed
  then show ?case by simp
qed

text \<open>DNS-1035 labels start with a letter.\<close>

definition dns1035Label :: "string \<Rightarrow> bool" where
  "dns1035Label s \<longleftrightarrow> s \<noteq> [] \<and> is_lower (hd s) \<and> dns_char (last s) \<and>
     list_all (\<lambda>c. dns_char c \<or> c = CHR ''-'') s"

section \<open>Labels, owners and errors\<close>

definition addOwnerRefToObject :: "ObjectMeta \<Rightarrow> OwnerReference \<Rightarrow> ObjectMeta" where
  "addOwnerRefToObject obj r = obj\<lparr>om_OwnerReferences := om_OwnerReferences obj @ [r]\<rparr>"

definition IsKubernetesResourceAlreadyExistError :: "go_error option \<Rightarrow> bool" where
  "IsKubernetesResourceAlreadyExistError err = IsAlreadyExists err"

definition IsKubernetesResourceNotFoundError :: "go_error option \<Rightarrow> bool" where
  "IsKubernetesResourceNotFoundError err = IsNotFound err"

definition AppLabel :: string where "AppLabel = ''caffe2-job''"

definition LabelsForJob :: "string \<Rightarrow> label_map" where
  "LabelsForJob jobName = [(''caffe2_job'', jobName), (''app'', AppLabel)]"

text \<open>Merging into a nil map panics at the first write.\<close>

fun mergeLabels :: "label_map option \<Rightarrow> label_map \<Rightarrow> label_map option outcome" where
  "mergeLabels l1 [] = Ret l1"
| "mergeLabels l1 ((k, v) # l2) =
     (if map_of (map_entries l1) k \<noteq> None then mergeLabels l1 l2
      else (case l1 of
              None \<Rightarrow> Panic NilMapWrite
            | Some m \<Rightarrow> mergeLabels (Some (AList.update k v m)) l2))"

definition AsOwner :: "Caffe2Job \<Rightarrow> OwnerReference" where
  "AsOwner job =
     \<lparr>or_APIVersion = GroupVersion_String groupVersionKind, or_Kind = gvk_Kind groupVersionKind,
      or_Name = job_Name job, or_UID = job_UID job,
      or_Controller = Some True, or_BlockOwnerDeletion = Some True\<rparr>"

definition CRDKindPlural :: string where "CRDKindPlural = ''caffe2jobs''"
definition CRDGroup :: string where "CRDGroup = ''kubeflow.org''"

definition CRDName :: string where "CRDName = CRDKindPlural @ ''.'' @ CRDGroup"

definition scalingReason :: "int \<Rightarrow> int \<Rightarrow> string" where
  "scalingReason from_size to_size =
     ''Current cluster size: '' @ itoa from_size @ '', desired cluster size: '' @ itoa to_size"

lemma mergeLabels_Some:
  assumes "wf_map l2"
  shows "\<exists>m'. mergeLabels (Some m) l2 = Ret (Some m') \<and> map_of m' = map_of l2 ++ map_of m"
  using assms
proof (induction l2 arbitrary: m)
  case (Cons kv l2)
  obtain k v where kv: "kv = (k, v)" by (cases kv)
  have k: "map_of l2 k = None" using Cons.prems kv by (auto simp: map_of_eq_None_iff)
  show ?case
  proof (cases "map_of m k")
    case None
    obtain m' where "mergeLabels (Some (AList.update k v m)) l2 = Ret (Some m')"
      "map_of m' = map_of l2 ++ map_of (AList.update k v m)"
      using Cons.IH [of "AList.update k v m"] Cons.prems by auto
    with None k kv show ?thesis
      by (auto simp: AList.update_conv' map_add_def fun_eq_iff split: option.splits)
  next
    case (Some u)
    obtain m' where "mergeLabels (Some m) l2 = Ret (Some m')" "map_of m' = map_of l2 ++ map_of m"
      using Cons.IH [of m] Cons.prems by auto
    with Some kv show ?thesis by (auto simp: map_add_def fun_eq_iff split: option.splits)
  qed
qed simp

section \<open>Properties\<close>

text \<open>
  \<open>Retry\<close> calls the function at most \<open>maxRetries\<close> times, one tick apart, and stops at the first
  call that succeeds or fails, whose result is its own; only if all of them ask for another try is
  the result the retry failure. Without a positive number of tries nothing is called.
\<close>

theorem Retry_first_decisive:
  assumes "0 < interval"
  shows "if maxRetries \<le> 0 then \<exists>e. Retry interval maxRetries f tick w = (Ret (Some (OtherError e)), w)
    else if \<exists>k < nat maxRetries. decisive (fst (f (attempt f tick k w))) then
      \<exists>k < nat maxRetries. (\<forall>j < k. \<not> decisive (fst (f (attempt f tick j w)))) \<and>
        Retry interval maxRetries f tick w =
          (case f (attempt f tick k w) of ((ok, e), w') \<Rightarrow> (Ret (map_option OtherError e), w'))
    else Retry interval maxRetries f tick w =
      (Ret (Some (RetryError maxRetries)), snd (f (attempt f tick (nat maxRetries - 1) w)))"
proof -
  let ?dec = "\<lambda>k. decisive (fst (f (attempt f tick k w)))"
  show ?thesis
  proof (cases "maxRetries \<le> 0")
    case True
    then show ?thesis by (simp add: Retry_def)
  next
    case pos: False
    show ?thesis
    proof (cases "\<exists>k < nat maxRetries. ?dec k")
      case True
      then obtain k0 where k0: "k0 < nat maxRetries" "?dec k0" by blast
      let ?k = "LEAST k. ?dec k"
      have dec: "?dec ?k" by (rule LeastI [of ?dec, OF k0(2)])
      have first: "\<not> ?dec j" if "j < ?k" for j using not_less_Least [OF that] .
      have bound: "?k < nat maxRetries" using Least_le [of ?dec, OF k0(2)] k0(1) by linarith
      then have "?k \<le> nat maxRetries - 1" by linarith
      then have "retry_loop (nat maxRetries - 1) maxRetries f tick w =
          (case f (attempt f tick ?k w) of ((ok, e), w') \<Rightarrow> (map_option OtherError e, w'))"
        by (rule retry_loop_decisive [where k = ?k]) (fact dec, erule first)
      then have "Retry interval maxRetries f tick w =
          (case f (attempt f tick ?k w) of ((ok, e), w') \<Rightarrow> (Ret (map_option OtherError e), w'))"
        using pos assms by (simp add: Retry_def split: prod.splits)
      with first bound have "\<exists>k < nat maxRetries. (\<forall>j < k. \<not> ?dec j) \<and> Retry interval maxRetries f tick w =
          (case f (attempt f tick k w) of ((ok, e), w') \<Rightarrow> (Ret (map_option OtherError e), w'))"
        by blast
      then show ?thesis unfolding if_not_P [OF pos] if_P [OF True] .
    next
      case False
      then have "retry_loop (nat maxRetries - 1) maxRetries f tick w =
          (Some (RetryError maxRetries), snd (f (attempt f tick (nat maxRetries - 1) w)))"
        using pos by (intro retry_loop_exhausted) auto
      then show ?thesis
        unfolding if_not_P [OF pos] if_not_P [OF False] using pos assms by (simp add: Retry_def)
    qed
  qed
qed

theorem Retry_first_decisive_witness:
  "Retry 1 3 (\<lambda>w :: nat. ((False, None), w + 1)) (\<lambda>w. w + 5) 0 = (Ret (Some (RetryError 3)), 13)"
  using Retry_first_decisive [of 1 3 "\<lambda>w :: nat. ((False, None), w + 1)" "\<lambda>w. w + 5" 0]
  by (simp add: decisive_def attempt_def numeral_2_eq_2)

text \<open>
  For a source whose values have a usable low letter \<open>RandString\<close> ends, with a string of the
  length asked for over digits and lower-case letters. It need not be a DNS-1035 label, as the
  comment promises: from the source that yields 0 it is all zeros.
\<close>

theorem RandString_letters:
  assumes "\<And>k. src k mod 64 < 36" and "0 \<le> n"
  shows "\<exists>s. RandString src n = Ret (Some s) \<and> int (length s) = n \<and> set s \<subseteq> set letterBytes"
proof -
  let ?b = "replicate (nat n) (char_of (0 :: nat))"
  have "filled_from (nat n) ?b" unfolding filled_from_def length_replicate by (meson not_le)
  from rand_loop_returns [of src, OF assms(1) _ this, where drawn = 1 and cache = "src 0" and remain = letterIdxMax] assms(2)
  show ?thesis by (auto simp: RandString_def)
qed

theorem RandString_letters_witness:
  "\<exists>s. RandString (\<lambda>k. 0) 3 = Ret (Some s) \<and> length s = 3 \<and> set s \<subseteq> set letterBytes"
  using RandString_letters [of "\<lambda>k. 0" 3] by auto

text \<open>The source that yields 0 gives a name that is not a DNS-1035 label.\<close>

lemma RandString_zero: "RandString (\<lambda>k. 0) 1 = Ret (Some ''0'') \<and> \<not> dns1035Label ''0''"
proof -
  have "rand_loop (\<lambda>k. 0) 1 (int 0) 0 10 [char_of (0 :: nat)] = Some ''0''"
    by (subst rand_loop_unfold, subst rand_loop.simps) (simp add: letterBytes_def)
  then show ?thesis by (simp add: RandString_def letter_consts dns1035Label_def char_class_defs)
qed

end
