(* ===== verification/RestClient.thy ===== *)
theory RestClient
  imports ApiTypes "HOL-Library.Sublist"
begin

text \<open>
  The typed client of pkg/client/clientset/versioned/typed/kubeflow/v1alpha1 and, under vendor/, the
  request builder of client-go it chains (rest/request.go). What is not opened up is a field of the
  client record \<open>rest_client\<close>: the serializers, and the exchange with the server, which takes the verb, the path, the
  query and the body of a request (client-side throttling and the retries after a Retry-After answer
  are part of it). A request that is refused before that leaves the world alone.
\<close>

section \<open>Requests\<close>

record ListOptions =
  lo_LabelSelector :: string
  lo_FieldSelector :: string
  lo_Watch :: bool
  lo_ResourceVersion :: string

record DeleteOptions =
  dl_GracePeriodSeconds :: "int option"
  dl_PropagationPolicy :: "string option"

type_synonym query = "(string \<times> string list) list"

record 'w rest_client =
  cl_basePath :: string
  cl_versionedAPIPath :: string
  cl_encode_get :: "string \<Rightarrow> go_error + query"
  cl_encode_list :: "ListOptions \<Rightarrow> go_error + query"
  cl_encode_job :: "Caffe2Job \<Rightarrow> go_error + string"
  cl_encode_delete :: "DeleteOptions \<Rightarrow> go_error + string"
  cl_decode_job :: "string \<Rightarrow> go_error + Caffe2Job"
  cl_decode_list :: "string \<Rightarrow> go_error + Caffe2Job list"
  cl_exchange :: "string \<Rightarrow> string \<Rightarrow> query \<Rightarrow> string option \<Rightarrow> 'w \<Rightarrow> (go_error + string) \<times> 'w"

record request =
  rq_verb :: string
  rq_pathPrefix :: string
  rq_params :: query
  rq_namespace :: string
  rq_namespaceSet :: bool
  rq_resource :: string
  rq_resourceName :: string
  rq_subresource :: string
  rq_err :: "go_error option"
  rq_body :: "string option"

text \<open>\<open>cl_basePath\<close> is the path of the base URL, which \<open>NewRESTClient\<close> ends with a slash.\<close>

definition NewRequest :: "'w rest_client \<Rightarrow> string \<Rightarrow> request" where
  "NewRequest c verb =
     \<lparr>rq_verb = verb, rq_pathPrefix = path_Join [path_Join [''/'', cl_basePath c], cl_versionedAPIPath c],
      rq_params = [], rq_namespace = [], rq_namespaceSet = False, rq_resource = [], rq_resourceName = [],
      rq_subresource = [], rq_err = None, rq_body = None\<rparr>"

definition quoted :: "string \<Rightarrow> string" where
  "quoted s = CHR 0x27 # s @ [CHR 0x27]"

definition IsValidPathSegmentName :: "string \<Rightarrow> string list" where
  "IsValidPathSegmentName name =
     (if name = ''.'' then [''may not be '' @ quoted ''.'']
      else if name = ''..'' then [''may not be '' @ quoted ''..'']
      else (if CHR ''/'' \<in> set name then [''may not contain '' @ quoted ''/''] else []) @
           (if CHR ''%'' \<in> set name then [''may not contain '' @ quoted ''%''] else []))"

text \<open>Every method returns the request as it is once an error is set.\<close>

definition unless_failed :: "(request \<Rightarrow> request) \<Rightarrow> request \<Rightarrow> request" where
  "unless_failed f r = (if rq_err r \<noteq> None then r else f r)"

definition fail_request :: "string \<Rightarrow> string list \<Rightarrow> request \<Rightarrow> request" where
  "fail_request msg args r = r\<lparr>rq_err := Some (Errorf msg args [])\<rparr>"

definition request_Resource :: "string \<Rightarrow> request \<Rightarrow> request" where
  "request_Resource resource = unless_failed (\<lambda>r.
     if rq_resource r \<noteq> [] then
       fail_request ''resource already set to %q, cannot change to %q'' [rq_resource r, resource] r
     else if IsValidPathSegmentName resource \<noteq> [] then
       fail_request ''invalid resource %q: %v'' (resource # IsValidPathSegmentName resource) r
     else r\<lparr>rq_resource := resource\<rparr>)"

definition request_SubResource :: "string list \<Rightarrow> request \<Rightarrow> request" where
  "request_SubResource subresources = unless_failed (\<lambda>r.
     if rq_subresource r \<noteq> [] then
       fail_request ''subresource already set to %q, cannot change to %q'' [rq_subresource r, path_Join subresources] r
     else (case find (\<lambda>s. IsValidPathSegmentName s \<noteq> []) subresources of
             Some s \<Rightarrow> fail_request ''invalid subresource %q: %v'' (s # IsValidPathSegmentName s) r
           | None \<Rightarrow> r\<lparr>rq_subresource := path_Join subresources\<rparr>))"

definition request_Name :: "string \<Rightarrow> request \<Rightarrow> request" where
  "request_Name resourceName = unless_failed (\<lambda>r.
     if length resourceName = 0 then fail_request ''resource name may not be empty'' [] r
     else if rq_resourceName r \<noteq> [] then
       fail_request ''resource name already set to %q, cannot change to %q'' [rq_resourceName r, resourceName] r
     else if IsValidPathSegmentName resourceName \<noteq> [] then
       fail_request ''invalid resource name %q: %v'' (resourceName # IsValidPathSegmentName resourceName) r
     else r\<lparr>rq_resourceName := resourceName\<rparr>)"

definition request_Namespace :: "string \<Rightarrow> request \<Rightarrow> request" where
  "request_Namespace namespace = unless_failed (\<lambda>r.
     if rq_namespaceSet r then
       fail_request ''namespace already set to %q, cannot change to %q'' [rq_namespace r, namespace] r
     else if IsValidPathSegmentName namespace \<noteq> [] then
       fail_request ''invalid namespace %q: %v'' (namespace # IsValidPathSegmentName namespace) r
     else r\<lparr>rq_namespaceSet := True, rq_namespace := namespace\<rparr>)"

definition append_params :: "query \<Rightarrow> query \<Rightarrow> query" where
  "append_params new params =
     fold (\<lambda>(k, v) ps. AList.update k (case map_of ps k of None \<Rightarrow> v | Some old \<Rightarrow> old @ v) ps) new params"

definition request_VersionedParams :: "go_error + query \<Rightarrow> request \<Rightarrow> request" where
  "request_VersionedParams encoded = unless_failed (\<lambda>r.
     case encoded of
       Inl err \<Rightarrow> r\<lparr>rq_err := Some err\<rparr>
     | Inr params \<Rightarrow> r\<lparr>rq_params := append_params params (rq_params r)\<rparr>)"

text \<open>\<open>None\<close> is an object that is nil, which sets no body; otherwise the outcome of encoding it.\<close>

definition request_Body :: "(go_error + string) option \<Rightarrow> request \<Rightarrow> request" where
  "request_Body obj = unless_failed (\<lambda>r.
     case obj of
       None \<Rightarrow> r
     | Some (Inl err) \<Rightarrow> r\<lparr>rq_err := Some err\<rparr>
     | Some (Inr data) \<Rightarrow> r\<lparr>rq_body := Some data\<rparr>)"

definition request_URL :: "request \<Rightarrow> string" where
  "request_URL r =
     (let p = rq_pathPrefix r;
          p = (if rq_namespaceSet r \<and> 0 < length (rq_namespace r)
               then path_Join [p, ''namespaces'', rq_namespace r] else p);
          p = (if length (rq_resource r) \<noteq> 0 then path_Join [p, ToLower (rq_resource r)] else p)
      in if length (rq_resourceName r) \<noteq> 0 \<or> length (rq_subresource r) \<noteq> 0
         then path_Join [p, rq_resourceName r, rq_subresource r, []] else p)"

definition request_Do :: "'w rest_client \<Rightarrow> request \<Rightarrow> 'w \<Rightarrow> (go_error + string) \<times> 'w" where
  "request_Do c r w =
     (case rq_err r of
        Some err \<Rightarrow> (Inl err, w)
      | None \<Rightarrow>
          if (rq_verb r = ''GET'' \<or> rq_verb r = ''PUT'' \<or> rq_verb r = ''DELETE'') \<and> rq_namespaceSet r \<and>
             0 < length (rq_resourceName r) \<and> length (rq_namespace r) = 0
            then (Inl (Errorf ''an empty namespace may not be set when a resource name is provided'' [] []), w)
          else if rq_verb r = ''POST'' \<and> rq_namespaceSet r \<and> length (rq_namespace r) = 0
            then (Inl (Errorf ''an empty namespace may not be set during creation'' [] []), w)
          else cl_exchange c (rq_verb r) (request_URL r) (rq_params r) (rq_body r) w)"

text \<open>
  \<open>Do().Into(result)\<close>, and \<open>Do().Error()\<close>, with the errors as the exchange and the decoders report
  them: reading a \<open>Status\<close> out of the body of a failed answer is part of these.
\<close>

definition into_result :: "(string \<Rightarrow> go_error + 'a) \<Rightarrow> (go_error + string) \<times> 'w \<Rightarrow> (go_error + 'a) \<times> 'w" where
  "into_result decode = map_prod (\<lambda>r. case r of Inl err \<Rightarrow> Inl err | Inr data \<Rightarrow> decode data) id"

definition error_result :: "(go_error + string) \<times> 'w \<Rightarrow> go_error option \<times> 'w" where
  "error_result = map_prod (\<lambda>r. case r of Inl err \<Rightarrow> Some err | Inr data \<Rightarrow> None) id"

section \<open>The typed client\<close>

text \<open>What every method starts with.\<close>

definition job_request :: "'w rest_client \<Rightarrow> string \<Rightarrow> string \<Rightarrow> request" where
  "job_request c verb ns = request_Resource ''caffe2jobs'' (request_Namespace ns (NewRequest c verb))"

definition Jobs_Get :: "'w rest_client \<Rightarrow> string \<Rightarrow> string \<Rightarrow> string \<Rightarrow> 'w \<Rightarrow> (go_error + Caffe2Job) \<times> 'w" where
  "Jobs_Get c ns name options w =
     into_result (cl_decode_job c) (request_Do c
       (request_VersionedParams (cl_encode_get c options) (request_Name name (job_request c ''GET'' ns))) w)"

definition Jobs_List :: "'w rest_client \<Rightarrow> string \<Rightarrow> ListOptions \<Rightarrow> 'w \<Rightarrow> (go_error + Caffe2Job list) \<times> 'w" where
  "Jobs_List c ns opts w =
     into_result (cl_decode_list c) (request_Do c
       (request_VersionedParams (cl_encode_list c opts) (job_request c ''GET'' ns)) w)"

text \<open>\<open>Watch\<close> hands the request to the watch stream; here, the request it does so with.\<close>

definition Jobs_Watch :: "'w rest_client \<Rightarrow> string \<Rightarrow> ListOptions \<Rightarrow> request" where
  "Jobs_Watch c ns opts =
     request_VersionedParams (cl_encode_list c (opts\<lparr>lo_Watch := True\<rparr>)) (job_request c ''GET'' ns)"

definition Jobs_Create ::
  "'w rest_client \<Rightarrow> string \<Rightarrow> Caffe2Job option \<Rightarrow> 'w \<Rightarrow> (go_error + Caffe2Job) \<times> 'w" where
  "Jobs_Create c ns caffe2Job w =
     into_result (cl_decode_job c) (request_Do c
       (request_Body (map_option (cl_encode_job c) caffe2Job) (job_request c ''POST'' ns)) w)"

definition Jobs_Update ::
  "'w rest_client \<Rightarrow> string \<Rightarrow> Caffe2Job option \<Rightarrow> ('w, go_error + Caffe2Job) action" where
  "Jobs_Update c ns caffe2Job w =
     (case caffe2Job of
        None \<Rightarrow> (Panic NilDeref, w)
      | Some job \<Rightarrow>
          map_prod Ret id (into_result (cl_decode_job c) (request_Do c
            (request_Body (Some (cl_encode_job c job)) (request_Name (job_Name job) (job_request c ''PUT'' ns))) w)))"

definition Jobs_Delete ::
  "'w rest_client \<Rightarrow> string \<Rightarrow> string \<Rightarrow> DeleteOptions option \<Rightarrow> 'w \<Rightarrow> go_error option \<times> 'w" where
  "Jobs_Delete c ns name options w =
     error_result (request_Do c
       (request_Body (map_option (cl_encode_delete c) options) (request_Name name (job_request c ''DELETE'' ns))) w)"

definition Jobs_DeleteCollection ::
  "'w rest_client \<Rightarrow> string \<Rightarrow> DeleteOptions option \<Rightarrow> ListOptions \<Rightarrow> 'w \<Rightarrow> go_error option \<times> 'w" where
  "Jobs_DeleteCollection c ns options listOptions w =
     error_result (request_Do c
       (request_Body (map_option (cl_encode_delete c) options)
         (request_VersionedParams (cl_encode_list c listOptions) (job_request c ''DELETE'' ns))) w)"

definition Jobs_Patch ::
  "'w rest_client \<Rightarrow> string \<Rightarrow> string \<Rightarrow> string \<Rightarrow> string list \<Rightarrow> 'w \<Rightarrow> (go_error + Caffe2Job) \<times> 'w" where
  "Jobs_Patch c ns name data subresources w =
     into_result (cl_decode_job c) (request_Do c
       (request_Body (Some (Inr data))
         (request_Name name (request_SubResource subresources (job_request c ''PATCH'' ns)))) w)"

lemmas request_defs = request_Resource_def request_Name_def request_Namespace_def request_VersionedParams_def
  request_Body_def unless_failed_def fail_request_def

section \<open>Lemmas\<close>

text \<open>A segment the builder accepts, and the client for the API group of jobs at the root of a server.\<close>

definition addressable :: "string \<Rightarrow> bool" where
  "addressable s \<longleftrightarrow> s \<noteq> [] \<and> IsValidPathSegmentName s = []"

definition job_client :: "'w rest_client \<Rightarrow> bool" where
  "job_client c \<longleftrightarrow> cl_basePath c = ''/'' \<and> cl_versionedAPIPath c = rooted_path [''apis'', GroupName, GroupVersion]"

definition job_path :: "string \<Rightarrow> string list \<Rightarrow> string" where
  "job_path ns rest = rooted_path ([''apis'', GroupName, GroupVersion, ''namespaces'', ns, ''caffe2jobs''] @ rest)"

lemma IsValidPathSegmentName_Nil [simp]: "IsValidPathSegmentName [] = []"
  by (simp add: IsValidPathSegmentName_def)

lemma IsValidPathSegmentName_jobs [simp]: "IsValidPathSegmentName ''caffe2jobs'' = []"
  by (simp add: IsValidPathSegmentName_def)

lemma addressable_plain: "addressable s \<Longrightarrow> plain_element s"
  by (auto simp: addressable_def plain_element_def IsValidPathSegmentName_def split: if_splits)

lemma ToLower_jobs: "ToLower ''caffe2jobs'' = ''caffe2jobs''"
  by (simp add: ToLower_def)

lemma plain_names [simp]:
  "plain_element ''apis''" "plain_element GroupName" "plain_element GroupVersion" "plain_element ''namespaces''"
  "plain_element ''caffe2jobs''"
  by (simp_all add: plain_element_def GroupName_def GroupVersion_def)

lemma path_prefix: "job_client c \<Longrightarrow> rq_pathPrefix (NewRequest c verb) = rooted_path [''apis'', GroupName, GroupVersion]"
  by (simp add: NewRequest_def job_client_def path_Join_def path_Clean_def rooted_path_def GroupName_def GroupVersion_def)

text \<open>A request on jobs: refused, or sent to the path of the job (or of all jobs) of the namespace.\<close>

lemma URL_of_jobs:
  assumes "rq_pathPrefix r = rooted_path [''apis'', GroupName, GroupVersion]" and "addressable ns"
    and "rq_namespaceSet r" "rq_namespace r = ns" "rq_resource r = ''caffe2jobs''" "rq_subresource r = []"
    and "rq_resourceName r = [] \<or> addressable (rq_resourceName r)"
  shows "request_URL r = job_path ns (if rq_resourceName r = [] then [] else [rq_resourceName r])"
proof -
  have ns: "plain_element ns" "ns \<noteq> []"
    using assms(2) by (simp_all add: addressable_plain) (simp add: addressable_def)
  have name: "rq_resourceName r = [] \<or> plain_element (rq_resourceName r)"
    using assms(7) by (auto simp: addressable_plain)
  show ?thesis
    using ns name assms(1,3-6)
    by (auto simp: request_URL_def path_Join_rooted ToLower_jobs job_path_def Let_def)
qed

lemma job_request_ok:
  assumes "job_client c" and "addressable ns"
  shows "job_request c verb ns =
    (NewRequest c verb)\<lparr>rq_namespaceSet := True, rq_namespace := ns, rq_resource := ''caffe2jobs''\<rparr>"
  using assms by (simp add: job_request_def request_defs NewRequest_def addressable_def)

lemma job_request_refused:
  assumes "\<not> addressable ns" and "ns \<noteq> []"
  shows "rq_err (job_request c verb ns) \<noteq> None"
  using assms by (simp add: job_request_def request_defs NewRequest_def addressable_def)

text \<open>Once a request has failed, nothing that is chained to it brings it back.\<close>

lemma failed_stays:
  assumes "rq_err r = Some e"
  shows "request_Name name r = r" "request_VersionedParams ps r = r" "request_Body b r = r"
    "request_Resource res r = r" "request_Namespace ns r = r"
  using assms by (simp_all add: request_defs)

lemma request_Do_failed: "rq_err r = Some e \<Longrightarrow> request_Do c r w = (Inl e, w)"
  by (simp add: request_Do_def)

lemma result_simps [simp]:
  "into_result d (Inl e, w) = (Inl e, w)" "error_result (Inl e, w) = (Some e, w)"
  by (simp_all add: into_result_def error_result_def)

text \<open>
  A request by name: refused without a usable namespace and name, and not undone by what is chained to
  it; otherwise it goes to the path of that job.
\<close>

lemma Do_frozen:
  "rq_err (f r) = rq_err r \<Longrightarrow> rq_err r \<noteq> None \<Longrightarrow> \<exists>e. request_Do c (f r) w = (Inl e, w)"
  by (auto simp: request_Do_def)

lemma name_request_refused:
  assumes "\<not> (addressable ns \<and> addressable name)" and "verb = ''GET'' \<or> verb = ''PUT'' \<or> verb = ''DELETE''"
  shows "(\<exists>e. rq_err (request_Name name (job_request c verb ns)) = Some e) \<or>
    (rq_verb (request_Name name (job_request c verb ns)) = verb \<and>
     rq_namespaceSet (request_Name name (job_request c verb ns)) \<and>
     rq_resourceName (request_Name name (job_request c verb ns)) \<noteq> [] \<and>
     rq_namespace (request_Name name (job_request c verb ns)) = [])"
  using assms by (auto simp: job_request_def request_defs NewRequest_def addressable_def)

text \<open>What the methods chain after the name keeps the verb and the address, and any error.\<close>

definition keeps_address :: "(request \<Rightarrow> request) \<Rightarrow> bool" where
  "keeps_address f \<longleftrightarrow> (\<forall>r. (rq_err r \<noteq> None \<longrightarrow> f r = r) \<and> rq_verb (f r) = rq_verb r \<and>
     rq_namespaceSet (f r) = rq_namespaceSet r \<and> rq_namespace (f r) = rq_namespace r \<and>
     rq_resourceName (f r) = rq_resourceName r)"

lemma keeps_address_chain [simp]:
  "keeps_address (request_VersionedParams ps)" "keeps_address (request_Body b)"
  by (auto simp: keeps_address_def request_defs split: option.splits sum.splits)

lemma Do_refused:
  assumes "\<not> (addressable ns \<and> addressable name)" and "verb = ''GET'' \<or> verb = ''PUT'' \<or> verb = ''DELETE''"
    and "keeps_address f"
  shows "\<exists>e. request_Do c (f (request_Name name (job_request c verb ns))) w = (Inl e, w)"
proof -
  let ?r = "request_Name name (job_request c verb ns)"
  have k: "rq_err ?r \<noteq> None \<longrightarrow> f ?r = ?r" "rq_verb (f ?r) = rq_verb ?r" "rq_namespaceSet (f ?r) = rq_namespaceSet ?r"
    "rq_namespace (f ?r) = rq_namespace ?r" "rq_resourceName (f ?r) = rq_resourceName ?r"
    using assms(3) by (simp_all add: keeps_address_def)
  show ?thesis
  proof (cases "rq_err ?r")
    case (Some e)
    with k(1) show ?thesis by (simp add: request_Do_failed)
  next
    case None
    with name_request_refused [OF assms(1,2), of c] have
      "rq_verb ?r = verb" "rq_namespaceSet ?r" "rq_resourceName ?r \<noteq> []" "rq_namespace ?r = []" by simp_all
    with k assms(2) show ?thesis by (cases "rq_err (f ?r)") (auto simp: request_Do_def)
  qed
qed

lemma Do_sent:
  assumes "job_client c" and "addressable ns" and "addressable name"
  shows "request_Do c ((request_Name name (job_request c verb ns))\<lparr>rq_params := q, rq_body := b\<rparr>) w =
    cl_exchange c verb (job_path ns [name]) q b w"
proof -
  let ?r = "(request_Name name (job_request c verb ns))\<lparr>rq_params := q, rq_body := b\<rparr>"
  have r: "?r = (NewRequest c verb)\<lparr>rq_namespaceSet := True, rq_namespace := ns, rq_resource := ''caffe2jobs'',
      rq_resourceName := name, rq_params := q, rq_body := b\<rparr>"
    using assms by (simp add: job_request_ok request_defs addressable_def NewRequest_def)
  have name: "name \<noteq> []" "ns \<noteq> []" using assms(2,3) by (simp_all add: addressable_def)
  have new: "rq_err (NewRequest c verb) = None" "rq_verb (NewRequest c verb) = verb"
    "rq_subresource (NewRequest c verb) = []" by (simp_all add: NewRequest_def)
  have "request_URL ?r = job_path ns [name]"
    unfolding r using URL_of_jobs [of "(NewRequest c verb)\<lparr>rq_namespaceSet := True, rq_namespace := ns, rq_resource := ''caffe2jobs'',
      rq_resourceName := name, rq_params := q, rq_body := b\<rparr>" ns] assms name new by (simp add: path_prefix)
  then show ?thesis using name new unfolding r by (simp add: request_Do_def)
qed

lemma Do_sent_collection:
  assumes "job_client c" and "addressable ns"
  shows "request_Do c ((job_request c verb ns)\<lparr>rq_params := q, rq_body := b\<rparr>) w =
    cl_exchange c verb (job_path ns []) q b w"
proof -
  let ?r = "(NewRequest c verb)\<lparr>rq_namespaceSet := True, rq_namespace := ns, rq_resource := ''caffe2jobs'',
      rq_params := q, rq_body := b\<rparr>"
  have r: "(job_request c verb ns)\<lparr>rq_params := q, rq_body := b\<rparr> = ?r"
    using assms by (simp add: job_request_ok)
  have ns: "ns \<noteq> []" using assms(2) by (simp add: addressable_def)
  have new: "rq_err (NewRequest c verb) = None" "rq_verb (NewRequest c verb) = verb"
    "rq_subresource (NewRequest c verb) = []" "rq_resourceName (NewRequest c verb) = []"
    by (simp_all add: NewRequest_def)
  have "request_URL ?r = job_path ns []" using URL_of_jobs [of ?r ns] assms new by (simp add: path_prefix)
  then show ?thesis using ns new unfolding r by (simp add: request_Do_def)
qed

lemma job_path_inject:
  assumes "addressable ns" "addressable name" "addressable ns'" "addressable name'"
  shows "job_path ns [name] = job_path ns' [name'] \<longleftrightarrow> ns = ns' \<and> name = name'"
  using assms by (simp add: job_path_def rooted_path_inject addressable_plain)

lemma chained:
  assumes "rq_err r = None" and "rq_params r = []" and "rq_body r = None"
  shows "request_VersionedParams (Inr q) r = r\<lparr>rq_params := append_params q [], rq_body := None\<rparr>"
    "request_Body (map_option Inr b) r = r\<lparr>rq_params := [], rq_body := b\<rparr>"
  using assms by (simp_all add: request_defs split: option.split)

lemma fresh_request:
  assumes "addressable ns"
  shows "rq_err (job_request c verb ns) = None" "rq_params (job_request c verb ns) = []"
    "rq_body (job_request c verb ns) = None"
    "addressable name \<Longrightarrow> rq_err (request_Name name (job_request c verb ns)) = None"
    "addressable name \<Longrightarrow> rq_params (request_Name name (job_request c verb ns)) = []"
    "addressable name \<Longrightarrow> rq_body (request_Name name (job_request c verb ns)) = None"
  using assms by (simp_all add: job_request_def request_defs NewRequest_def addressable_def)

lemma Do_create_refused:
  assumes "\<not> addressable ns"
  shows "\<exists>e. request_Do c (request_Body b (job_request c ''POST'' ns)) w = (Inl e, w)"
proof (cases "ns = []")
  case True
  then have "rq_verb (request_Body b (job_request c ''POST'' ns)) = ''POST''"
    "rq_namespaceSet (request_Body b (job_request c ''POST'' ns))"
    "rq_namespace (request_Body b (job_request c ''POST'' ns)) = []"
    by (auto simp: job_request_def request_defs NewRequest_def split: option.splits sum.splits)
  then show ?thesis by (cases "rq_err (request_Body b (job_request c ''POST'' ns))") (simp_all add: request_Do_def)
next
  case False
  then obtain e where "rq_err (job_request c ''POST'' ns) = Some e" using job_request_refused [OF assms] by blast
  then show ?thesis by (simp add: failed_stays request_Do_failed)
qed

text \<open>A server that answers every request with its path and keeps the requests.\<close>

definition echo_client :: "(string \<times> string) list rest_client" where
  "echo_client =
     \<lparr>cl_basePath = ''/'', cl_versionedAPIPath = rooted_path [''apis'', GroupName, GroupVersion],
      cl_encode_get = (\<lambda>x. Inr []), cl_encode_list = (\<lambda>x. Inr []), cl_encode_job = (\<lambda>j. Inr (job_Name j)),
      cl_encode_delete = (\<lambda>x. Inr []), cl_decode_job = (\<lambda>s. Inr sample_job), cl_decode_list = (\<lambda>s. Inr []),
      cl_exchange = (\<lambda>verb path q b w. (Inr path, (verb, path) # w))\<rparr>"

section \<open>Properties\<close>

text \<open>
  C30. The typed client sends a call on a job to that job's own path or not at all. With a namespace and
  a name that are not empty, not dots and without slash or percent sign, \<open>Get\<close>, \<open>Update\<close> and \<open>Delete\<close> make
  one exchange on \<open>/apis/kubeflow.org/v1alpha1/namespaces/NS/caffe2jobs/NAME\<close>, \<open>Create\<close> one on the
  collection; otherwise the call fails and nothing is sent, so no name reaches another path.
\<close>

theorem job_calls_addressed:
  assumes "job_client c" and "cl_encode_get c options = Inr q" and "cl_encode_job c job = Inr body"
  shows "(if addressable ns \<and> addressable name
      then Jobs_Get c ns name options w = into_result (cl_decode_job c)
        (cl_exchange c ''GET'' (job_path ns [name]) (append_params q []) None w)
      else \<exists>e. Jobs_Get c ns name options w = (Inl e, w)) \<and>
    (if addressable ns \<and> addressable (job_Name job)
      then Jobs_Update c ns (Some job) w = map_prod Ret id (into_result (cl_decode_job c)
        (cl_exchange c ''PUT'' (job_path ns [job_Name job]) [] (Some body) w))
      else \<exists>e. Jobs_Update c ns (Some job) w = (Ret (Inl e), w)) \<and>
    (if addressable ns \<and> addressable name
      then Jobs_Delete c ns name None w = error_result (cl_exchange c ''DELETE'' (job_path ns [name]) [] None w)
      else \<exists>e. Jobs_Delete c ns name None w = (Some e, w)) \<and>
    (if addressable ns
      then Jobs_Create c ns (Some job) w = into_result (cl_decode_job c)
        (cl_exchange c ''POST'' (job_path ns []) [] (Some body) w)
      else \<exists>e. Jobs_Create c ns (Some job) w = (Inl e, w))"
proof (intro conjI)
  note enc = assms(2,3)
  have some: "Some (Inr b) = map_option Inr (Some b)" for b :: string by simp
  have none: "None = map_option Inr None" by simp
  show "if addressable ns \<and> addressable name
      then Jobs_Get c ns name options w = into_result (cl_decode_job c)
        (cl_exchange c ''GET'' (job_path ns [name]) (append_params q []) None w)
      else \<exists>e. Jobs_Get c ns name options w = (Inl e, w)"
    using Do_refused [of ns name "''GET''" "request_VersionedParams (cl_encode_get c options)" c w]
    by (auto simp: Jobs_Get_def enc chained fresh_request Do_sent [OF assms(1)])
  show "if addressable ns \<and> addressable (job_Name job)
      then Jobs_Update c ns (Some job) w = map_prod Ret id (into_result (cl_decode_job c)
        (cl_exchange c ''PUT'' (job_path ns [job_Name job]) [] (Some body) w))
      else \<exists>e. Jobs_Update c ns (Some job) w = (Ret (Inl e), w)"
    using Do_refused [of ns "job_Name job" "''PUT''" "request_Body (Some (cl_encode_job c job))" c w]
    by (auto simp: Jobs_Update_def enc chained(2) [of _ "Some body", simplified] fresh_request Do_sent [OF assms(1)])
  show "if addressable ns \<and> addressable name
      then Jobs_Delete c ns name None w = error_result (cl_exchange c ''DELETE'' (job_path ns [name]) [] None w)
      else \<exists>e. Jobs_Delete c ns name None w = (Some e, w)"
    using Do_refused [of ns name "''DELETE''" "request_Body None" c w]
    by (auto simp: Jobs_Delete_def chained(2) [of _ None, simplified] fresh_request Do_sent [OF assms(1)])
  show "if addressable ns
      then Jobs_Create c ns (Some job) w = into_result (cl_decode_job c)
        (cl_exchange c ''POST'' (job_path ns []) [] (Some body) w)
      else \<exists>e. Jobs_Create c ns (Some job) w = (Inl e, w)"
    using Do_create_refused [of ns c "Some (cl_encode_job c job)" w]
    by (auto simp: Jobs_Create_def enc chained(2) [of _ "Some body", simplified] fresh_request
        Do_sent_collection [OF assms(1)])
qed

theorem job_calls_addressed_witness:
  "Jobs_Get echo_client ''ns'' ''job'' [] [] =
      (Inr sample_job, [(''GET'', ''/apis/kubeflow.org/v1alpha1/namespaces/ns/caffe2jobs/job'')]) \<and>
   (\<exists>e. Jobs_Get echo_client ''ns'' ''../other'' [] [] = (Inl e, []))"
proof -
  have c: "job_client echo_client" "cl_encode_get echo_client [] = Inr []"
    "cl_encode_job echo_client sample_job = Inr (job_Name sample_job)"
    by (simp_all add: job_client_def echo_client_def)
  have a: "addressable ''ns''" "addressable ''job''" "\<not> addressable ''../other''"
    by (simp_all add: addressable_def IsValidPathSegmentName_def)
  have p: "job_path ''ns'' [''job''] = ''/apis/kubeflow.org/v1alpha1/namespaces/ns/caffe2jobs/job''"
    by (simp add: job_path_def rooted_path_def GroupName_def GroupVersion_def)
  have "Jobs_Get echo_client ''ns'' ''job'' [] [] =
      (Inr sample_job, [(''GET'', ''/apis/kubeflow.org/v1alpha1/namespaces/ns/caffe2jobs/job'')])"
    using job_calls_addressed [OF c, of "''ns''" "''job''" "[]"] a(1,2) p
    by (simp add: into_result_def) (simp add: echo_client_def)
  then show ?thesis using job_calls_addressed [OF c, of "''ns''" "''../other''" "[]"] a(3) by simp
qed

end
