(* ===== verification/SelectorText.thy ===== *)
theory SelectorText
  imports Selectors Utilities RestClient
begin

text \<open>
  Label selectors as text, in k8s.io/apimachinery/pkg/labels/selector.go: \<open>String\<close>, the lexer and the
  parser, and \<open>JobListOpt\<close> of pkg/util/k8sutil/k8sutil.go, which asks the API server for the jobs of a
  name with such a text. The lexer's text and position are the text that is left; \<open>read\<close> takes the
  end for a NUL byte, so a NUL byte is an end as well. The parser indexes its items without a check;
  here an index out of range is a panic, and it is proved that there is none.
\<close>

section \<open>Printing\<close>

definition operator_text :: "sel_operator \<Rightarrow> string" where
  "operator_text op =
     (case op of OpEquals \<Rightarrow> ''='' | OpDoubleEquals \<Rightarrow> ''=='' | OpNotEquals \<Rightarrow> ''!='' | OpIn \<Rightarrow> '' in ''
      | OpNotIn \<Rightarrow> '' notin '' | OpGreaterThan \<Rightarrow> ''>'' | OpLessThan \<Rightarrow> ''<'' | _ \<Rightarrow> [])"

definition Requirement_String :: "Requirement \<Rightarrow> string" where
  "Requirement_String r =
     (let op = rq_operator r;
          start = (if op = OpDoesNotExist then ''!'' else []) @ rq_key r @ operator_text op in
      if op = OpExists \<or> op = OpDoesNotExist then start
      else start @ (if op = OpIn \<or> op = OpNotIn then ''('' else []) @
        (if length (rq_strValues r) = 1 then hd (rq_strValues r) else join_with '','' (rq_strValues r)) @
        (if op = OpIn \<or> op = OpNotIn then '')'' else []))"

fun Selector_String :: "Selector \<Rightarrow> string" where
  "Selector_String NothingSelector = []"
| "Selector_String (InternalSelector rs) = join_with '','' (map Requirement_String rs)"

definition JobListOpt :: "string \<Rightarrow> ListOptions" where
  "JobListOpt clusterName =
     \<lparr>lo_LabelSelector = Selector_String (SelectorFromSet (LabelsForJob clusterName)), lo_FieldSelector = [],
      lo_Watch = False, lo_ResourceVersion = []\<rparr>"

section \<open>The lexer\<close>

datatype Token =
    ErrorToken | EndOfStringToken | ClosedParToken | CommaToken | DoesNotExistToken | DoubleEqualsToken | EqualsToken
  | GreaterThanToken | IdentifierToken | InToken | LessThanToken | NotEqualsToken | NotInToken | OpenParToken

definition string2token :: "(string \<times> Token) list" where
  "string2token =
     [('')'', ClosedParToken), ('','', CommaToken), (''!'', DoesNotExistToken), (''=='', DoubleEqualsToken),
      (''='', EqualsToken), (''>'', GreaterThanToken), (''in'', InToken), (''<'', LessThanToken),
      (''!='', NotEqualsToken), (''notin'', NotInToken), (''('', OpenParToken)]"

type_synonym item = "Token \<times> string"

definition isWhitespace :: "char \<Rightarrow> bool" where
  "isWhitespace ch \<longleftrightarrow> ch = CHR '' '' \<or> ch = CHR 0x09 \<or> ch = CHR 0x0D \<or> ch = CHR 0x0A"

definition isSpecialSymbol :: "char \<Rightarrow> bool" where
  "isSpecialSymbol ch \<longleftrightarrow> ch \<in> {CHR ''='', CHR ''!'', CHR ''('', CHR '')'', CHR '','', CHR ''>'', CHR ''<''}"

text \<open>The loop of \<open>scanIDOrKeyword\<close>: the buffer and the text left.\<close>

fun scan_id :: "string \<Rightarrow> string \<times> string" where
  "scan_id [] = ([], [])"
| "scan_id (ch # s) =
     (if ch = CHR 0x00 then ([], s)
      else if isSpecialSymbol ch \<or> isWhitespace ch then ([], ch # s)
      else case scan_id s of (buffer, rest) \<Rightarrow> (ch # buffer, rest))"

definition word_token :: "string \<Rightarrow> Token" where
  "word_token s = (case map_of string2token s of Some t \<Rightarrow> t | None \<Rightarrow> IdentifierToken)"

definition scanIDOrKeyword :: "string \<Rightarrow> item \<times> string" where
  "scanIDOrKeyword s = (case scan_id s of (buffer, rest) \<Rightarrow> ((word_token buffer, buffer), rest))"

text \<open>The loop of \<open>scanSpecialSymbol\<close>: the last item scanned, the buffer and the text left.\<close>

fun scan_special :: "string \<Rightarrow> item option \<Rightarrow> string \<Rightarrow> item option \<times> string \<times> string" where
  "scan_special buffer lastScanned [] = (lastScanned, buffer, [])"
| "scan_special buffer lastScanned (ch # s) =
     (if ch = CHR 0x00 then (lastScanned, buffer, s)
      else if isSpecialSymbol ch then
        (case map_of string2token (buffer @ [ch]) of
           Some token \<Rightarrow> scan_special (buffer @ [ch]) (Some (token, buffer @ [ch])) s
         | None \<Rightarrow>
             if lastScanned \<noteq> None then (lastScanned, buffer @ [ch], ch # s)
             else scan_special (buffer @ [ch]) None s)
      else (lastScanned, buffer, ch # s))"

definition scanSpecialSymbol :: "string \<Rightarrow> item \<times> string" where
  "scanSpecialSymbol s =
     (case scan_special [] None s of
        (Some item, buffer, rest) \<Rightarrow> (item, rest)
      | (None, buffer, rest) \<Rightarrow> ((ErrorToken, ''error expected: keyword found '' @ quoted buffer), rest))"

definition Lex :: "string \<Rightarrow> item \<times> string" where
  "Lex s =
     (case dropWhile isWhitespace s of
        [] \<Rightarrow> ((EndOfStringToken, []), [])
      | ch # s' \<Rightarrow>
          if ch = CHR 0x00 then ((EndOfStringToken, []), s')
          else if isSpecialSymbol ch then scanSpecialSymbol (ch # s')
          else scanIDOrKeyword (ch # s'))"

lemma scan_id_length: "length (snd (scan_id s)) \<le> length s"
  by (induction s rule: scan_id.induct) (auto split: prod.splits)

lemma scan_special_length: "length (snd (snd (scan_special buffer l s))) \<le> length s"
  by (induction buffer l s rule: scan_special.induct) (auto split: option.splits)

lemma single_symbol: "isSpecialSymbol ch \<Longrightarrow> \<exists>t. map_of string2token [ch] = Some t"
  by (auto simp: isSpecialSymbol_def string2token_def)

lemma Lex_shorter:
  assumes "Lex s = (item, rest)" and "fst item \<noteq> EndOfStringToken"
  shows "length rest < length s"
proof -
  obtain ch s' where s: "dropWhile isWhitespace s = ch # s'" "ch \<noteq> CHR 0x00"
    using assms by (auto simp: Lex_def split: list.splits if_splits)
  have "length (ch # s') \<le> length s" by (metis s(1) length_dropWhile_le)
  moreover have "length rest \<le> length s'"
  proof (cases "isSpecialSymbol ch")
    case True
    then obtain t where "map_of string2token [ch] = Some t" using single_symbol by blast
    then show ?thesis using assms s True scan_special_length [of "[ch]" "Some (t, [ch])" s']
      by (auto simp: Lex_def scanSpecialSymbol_def split: prod.splits option.splits)
  next
    case False
    moreover have "\<not> isWhitespace ch" using s(1) by (metis hd_dropWhile list.sel(1) list.distinct(1))
    ultimately show ?thesis using assms s scan_id_length [of s']
      by (auto simp: Lex_def scanIDOrKeyword_def split: prod.splits)
  qed
  ultimately show ?thesis by simp
qed

text \<open>\<open>scan\<close> reads items up to the end of the text.\<close>

function scan :: "string \<Rightarrow> item list" where
  "scan s = (case Lex s of (item, rest) \<Rightarrow> item # (if fst item = EndOfStringToken then [] else scan rest))"
  by auto
termination by (relation "measure length") (auto dest: Lex_shorter [OF sym])

declare scan.simps [simp del]

section \<open>The parser\<close>

text \<open>
  A part of the parser takes the items from the current position on and gives an error or a value with
  the items left; after an error the position does not matter.
\<close>

type_synonym 'a parse_result = "(go_error + 'a \<times> item list) outcome"

definition parse_bind :: "'a parse_result \<Rightarrow> ('a \<Rightarrow> item list \<Rightarrow> (go_error + 'b) outcome) \<Rightarrow> (go_error + 'b) outcome" where
  "parse_bind p f =
     (case p of Panic e \<Rightarrow> Panic e | Ret (Inl err) \<Rightarrow> Ret (Inl err) | Ret (Inr (x, items)) \<Rightarrow> f x items)"

definition parse_error :: "string \<Rightarrow> string \<Rightarrow> (go_error + 'a) outcome" where
  "parse_error msg lit = Ret (Inl (Errorf msg [lit] []))"

datatype ParserContext = KeyAndOperator | Values

fun in_context :: "ParserContext \<Rightarrow> item \<Rightarrow> item" where
  "in_context Values (InToken, lit) = (IdentifierToken, lit)"
| "in_context Values (NotInToken, lit) = (IdentifierToken, lit)"
| "in_context ctx item = item"

fun consume :: "ParserContext \<Rightarrow> item list \<Rightarrow> item parse_result" where
  "consume ctx [] = Panic SliceBounds"
| "consume ctx (item # items) = Ret (Inr (in_context ctx item, items))"

fun lookahead :: "ParserContext \<Rightarrow> item list \<Rightarrow> item parse_result" where
  "lookahead ctx [] = Panic SliceBounds"
| "lookahead ctx (item # items) = Ret (Inr (in_context ctx item, item # items))"

definition parseKeyAndInferOperator :: "item list \<Rightarrow> (string \<times> sel_operator option) parse_result" where
  "parseKeyAndInferOperator items =
     parse_bind (consume Values items) (\<lambda>(tok, literal) items1.
     parse_bind
       (if tok = DoesNotExistToken
        then parse_bind (consume Values items1) (\<lambda>(tok, literal) items. Ret (Inr ((Some OpDoesNotExist, tok, literal), items)))
        else Ret (Inr ((None, tok, literal), items1))) (\<lambda>(op, tok, literal) items2.
     if tok \<noteq> IdentifierToken then parse_error ''found '%s', expected: identifier'' literal
     else (case validateLabelKey literal of
             Some err \<Rightarrow> Ret (Inl err)
           | None \<Rightarrow>
               parse_bind (lookahead Values items2) (\<lambda>(t, _) items3.
                 Ret (Inr ((literal,
                   if (t = EndOfStringToken \<or> t = CommaToken) \<and> op \<noteq> Some OpDoesNotExist then Some OpExists else op),
                   items3))))))"

definition token_operator :: "Token \<Rightarrow> sel_operator option" where
  "token_operator tok =
     (case tok of InToken \<Rightarrow> Some OpIn | EqualsToken \<Rightarrow> Some OpEquals | DoubleEqualsToken \<Rightarrow> Some OpDoubleEquals
      | GreaterThanToken \<Rightarrow> Some OpGreaterThan | LessThanToken \<Rightarrow> Some OpLessThan | NotInToken \<Rightarrow> Some OpNotIn
      | NotEqualsToken \<Rightarrow> Some OpNotEquals | _ \<Rightarrow> None)"

definition parseOperator :: "item list \<Rightarrow> sel_operator parse_result" where
  "parseOperator items =
     parse_bind (consume KeyAndOperator items) (\<lambda>(tok, lit) items1.
       case token_operator tok of
         Some op \<Rightarrow> Ret (Inr (op, items1))
       | None \<Rightarrow> parse_error (''found '%s', expected: '=', '!=', '==', 'in', notin'' @ [CHR 0x27]) lit)"

text \<open>A set of values is a list without repetitions.\<close>

fun parseIdentifiersList :: "string list \<Rightarrow> item list \<Rightarrow> string list parse_result" where
  "parseIdentifiersList s [] = Panic SliceBounds"
| "parseIdentifiersList s (item # items) =
     (let (tok, lit) = in_context Values item in
      if tok = IdentifierToken then
        parse_bind (lookahead Values items) (\<lambda>(tok2, lit2) _.
          if tok2 = CommaToken then parseIdentifiersList (List.insert lit s) items
          else if tok2 = ClosedParToken then Ret (Inr (List.insert lit s, items))
          else parse_error (''found '%s', expected: ',' or ')'' @ [CHR 0x27]) lit2)
      else if tok = CommaToken then
        parse_bind (lookahead Values items) (\<lambda>(tok2, _) _.
          let s = (if s = [] then [[]] else s) in
          if tok2 = ClosedParToken then Ret (Inr (List.insert [] s, items))
          else if tok2 = CommaToken then parseIdentifiersList (List.insert [] s) (tl items)
          else parseIdentifiersList s items)
      else parse_error ''found '%s', expected: ',', or identifier'' lit)"

definition parseValues :: "item list \<Rightarrow> string list parse_result" where
  "parseValues items =
     parse_bind (consume Values items) (\<lambda>(tok, lit) items1.
     if tok \<noteq> OpenParToken then parse_error (''found '%s' expected: '('' @ [CHR 0x27]) lit
     else parse_bind (lookahead Values items1) (\<lambda>(tok, lit) _.
       if tok = IdentifierToken \<or> tok = CommaToken then
         parse_bind (parseIdentifiersList [] items1) (\<lambda>s items2.
         parse_bind (consume Values items2) (\<lambda>(tok, _) items3.
           if tok \<noteq> ClosedParToken then parse_error (''found '%s', expected: ')'' @ [CHR 0x27]) lit
           else Ret (Inr (s, items3))))
       else if tok = ClosedParToken then
         parse_bind (consume Values items1) (\<lambda>_ items2. Ret (Inr ([[]], items2)))
       else parse_error ''found '%s', expected: ',', ')' or identifier'' lit))"

definition parseExactValue :: "item list \<Rightarrow> string list parse_result" where
  "parseExactValue items =
     parse_bind (lookahead Values items) (\<lambda>(tok, _) _.
       if tok = EndOfStringToken \<or> tok = CommaToken then Ret (Inr ([[]], items))
       else parse_bind (consume Values items) (\<lambda>(tok, lit) items1.
         if tok = IdentifierToken then Ret (Inr ([lit], items1))
         else parse_error ''found '%s', expected: identifier'' lit))"

definition with_rest :: "go_error + 'a \<Rightarrow> item list \<Rightarrow> 'a parse_result" where
  "with_rest r items = Ret (case r of Inl err \<Rightarrow> Inl err | Inr x \<Rightarrow> Inr (x, items))"

definition parseRequirement :: "item list \<Rightarrow> Requirement parse_result" where
  "parseRequirement items =
     parse_bind (parseKeyAndInferOperator items) (\<lambda>(key, inferred) items1.
     case inferred of
       Some op \<Rightarrow> with_rest (NewRequirement key op []) items1
     | None \<Rightarrow>
         parse_bind (parseOperator items1) (\<lambda>op items2.
         parse_bind (if op = OpIn \<or> op = OpNotIn then parseValues items2 else parseExactValue items2) (\<lambda>values items3.
         with_rest (NewRequirement key op (sort values)) items3)))"

text \<open>How binding works, and that a part of the parser leaves no more items than it got.\<close>

lemma parse_bind_simps [simp]:
  "parse_bind (Panic e) f = Panic e" "parse_bind (Ret (Inl err)) f = Ret (Inl err)"
  "parse_bind (Ret (Inr (x, items))) f = f x items"
  by (simp_all add: parse_bind_def)

lemma parse_bind_Inr:
  "parse_bind p f = Ret (Inr y) \<longleftrightarrow> (\<exists>x items. p = Ret (Inr (x, items)) \<and> f x items = Ret (Inr y))"
  by (auto simp: parse_bind_def split: outcome.splits sum.splits)

lemma parse_bind_cong [fundef_cong]:
  "p = p' \<Longrightarrow> (\<And>x items. p' = Ret (Inr (x, items)) \<Longrightarrow> f x items = g x items) \<Longrightarrow> parse_bind p f = parse_bind p' g"
  by (auto simp: parse_bind_def split: outcome.splits sum.splits)

lemma parse_error_not_Inr [simp]: "parse_error msg lit \<noteq> Ret (Inr y)"
  by (simp add: parse_error_def)

lemma consume_length: "consume ctx items = Ret (Inr (item, rest)) \<Longrightarrow> length items = Suc (length rest)"
  by (cases items) auto

lemma lookahead_same: "lookahead ctx items = Ret (Inr (item, rest)) \<Longrightarrow> rest = items"
  by (cases items) auto

lemma with_rest_same: "with_rest r items = Ret (Inr (x, rest)) \<Longrightarrow> rest = items"
  by (auto simp: with_rest_def split: sum.splits)

lemmas parts_length = consume_length lookahead_same with_rest_same

lemma parseKeyAndInferOperator_length:
  "parseKeyAndInferOperator items = Ret (Inr (x, rest)) \<Longrightarrow> length rest \<le> length items"
  by (auto simp: parseKeyAndInferOperator_def parse_bind_Inr dest!: parts_length split: if_splits option.splits)

lemma parseOperator_length: "parseOperator items = Ret (Inr (op, rest)) \<Longrightarrow> length rest \<le> length items"
  by (auto simp: parseOperator_def parse_bind_Inr dest!: parts_length split: option.splits)

lemma parseIdentifiersList_length:
  "parseIdentifiersList s items = Ret (Inr (vs, rest)) \<Longrightarrow> length rest \<le> length items"
proof (induction s items arbitrary: vs rest rule: parseIdentifiersList.induct)
  case (2 s item items)
  obtain tok lit where item: "in_context Values item = (tok, lit)" by (cases "in_context Values item")
  have "length rest \<le> length items \<or> length rest \<le> length (tl items)"
    using 2 item by (auto simp: Let_def parse_bind_Inr split: if_splits)
  then show ?case by auto
qed simp

lemma parseValues_length: "parseValues items = Ret (Inr (vs, rest)) \<Longrightarrow> length rest \<le> length items"
  by (auto simp: parseValues_def parse_bind_Inr dest!: parts_length parseIdentifiersList_length split: if_splits)

lemma parseExactValue_length: "parseExactValue items = Ret (Inr (vs, rest)) \<Longrightarrow> length rest \<le> length items"
  by (auto simp: parseExactValue_def parse_bind_Inr dest!: parts_length split: if_splits)

lemma parseRequirement_length: "parseRequirement items = Ret (Inr (r, rest)) \<Longrightarrow> length rest \<le> length items"
  by (auto simp: parseRequirement_def parse_bind_Inr dest!: parseKeyAndInferOperator_length parseOperator_length
      parseValues_length parseExactValue_length parts_length split: if_splits option.splits)

text \<open>The loop of \<open>parse\<close>, on the requirements found so far.\<close>

definition unable_to_parse :: "'a parse_result \<Rightarrow> 'a parse_result" where
  "unable_to_parse p = (case p of Ret (Inl err) \<Rightarrow> Ret (Inl (Errorf ''unable to parse requirement: %v'' [] [err])) | _ \<Rightarrow> p)"

lemma unable_to_parse_Inr [simp]:
  "unable_to_parse p = Ret (Inr x) \<longleftrightarrow> p = Ret (Inr x)" "unable_to_parse (Ret (Inr x)) = Ret (Inr x)"
  by (auto simp: unable_to_parse_def split: outcome.splits sum.splits)

function parse_loop :: "Requirement list \<Rightarrow> item list \<Rightarrow> (go_error + Requirement list) outcome" where
  "parse_loop requirements items =
     parse_bind (lookahead Values items) (\<lambda>(tok, lit) _.
     if tok = IdentifierToken \<or> tok = DoesNotExistToken then
       parse_bind (unable_to_parse (parseRequirement items)) (\<lambda>r items1.
       parse_bind (consume Values items1) (\<lambda>next items2.
         case next of (t, l) \<Rightarrow>
         if t = EndOfStringToken then Ret (Inr (requirements @ [r]))
         else if t = CommaToken then
           parse_bind (lookahead Values items2) (\<lambda>(t2, l2) _.
             if t2 \<noteq> IdentifierToken \<and> t2 \<noteq> DoesNotExistToken
             then parse_error (''found '%s', expected: identifier after ','' @ [CHR 0x27]) l2
             else parse_loop (requirements @ [r]) items2)
         else parse_error (''found '%s', expected: ',' or 'end of string'' @ [CHR 0x27]) l))
     else if tok = EndOfStringToken then Ret (Inr requirements)
     else parse_error (''found '%s', expected: !, identifier, or 'end of string'' @ [CHR 0x27]) lit)"
  by pat_completeness auto
termination
  by (relation "measure (\<lambda>(requirements, items). length items)")
    (auto dest!: consume_length parseRequirement_length)

declare parse_loop.simps [simp del]

text \<open>
  \<open>sort.Sort\<close> inserts up to six requirements one by one, which keeps those of one key in order; longer
  lists may come out with the requirements of one key in another order.
\<close>

definition labels_Parse :: "string \<Rightarrow> (go_error + Selector) outcome" where
  "labels_Parse selector =
     (case parse_loop [] (scan selector) of
        Panic e \<Rightarrow> Panic e
      | Ret (Inl err) \<Rightarrow> Ret (Inl err)
      | Ret (Inr requirements) \<Rightarrow> Ret (Inr (InternalSelector (sort_key rq_key requirements))))"

section \<open>Lemmas: the parser does not run off its items\<close>

text \<open>The items of a text: the end comes once, as the last of them.\<close>

definition ended :: "item list \<Rightarrow> bool" where
  "ended items \<longleftrightarrow> items \<noteq> [] \<and> fst (last items) = EndOfStringToken \<and> EndOfStringToken \<notin> fst ` set (butlast items)"

lemma ended_simps [simp]:
  "\<not> ended []" "ended (item # items) \<longleftrightarrow> (if fst item = EndOfStringToken then items = [] else ended items)"
  by (auto simp: ended_def)

lemma in_context_end [simp]: "fst (in_context ctx item) = EndOfStringToken \<longleftrightarrow> fst item = EndOfStringToken"
  by (cases "(ctx, item)" rule: in_context.cases) simp_all

lemma scan_ended: "ended (scan s)"
proof (induction s rule: scan.induct)
  case (1 s)
  then show ?case by (subst scan.simps) (auto split: prod.split)
qed

text \<open>An outcome that is no panic and leaves an ended list.\<close>

definition fine :: "'a parse_result \<Rightarrow> bool" where
  "fine p \<longleftrightarrow> (case p of Panic _ \<Rightarrow> False | Ret (Inl _) \<Rightarrow> True | Ret (Inr (_, rest)) \<Rightarrow> ended rest)"

lemma fine_simps [simp]:
  "fine (Ret (Inl e))" "fine (Ret (Inr (x, rest))) = ended rest" "\<not> fine (Panic p)" "fine (parse_error msg lit)"
  by (simp_all add: fine_def parse_error_def)

lemma fine_bind:
  "fine p \<Longrightarrow> (\<And>x rest. p = Ret (Inr (x, rest)) \<Longrightarrow> ended rest \<Longrightarrow> fine (f x rest)) \<Longrightarrow> fine (parse_bind p f)"
  by (auto simp: fine_def parse_bind_def split: outcome.splits sum.splits)

lemma fine_consume:
  assumes "ended items"
    and "\<And>tok lit rest. tok \<noteq> EndOfStringToken \<longrightarrow> ended rest \<Longrightarrow> fine (f (tok, lit) rest)"
  shows "fine (parse_bind (consume ctx items) f)"
proof (cases items)
  case (Cons item rest)
  have "fst (in_context ctx item) \<noteq> EndOfStringToken \<longrightarrow> ended rest" using assms(1) Cons by simp
  with assms(2) [of "fst (in_context ctx item)" rest "snd (in_context ctx item)"] Cons show ?thesis by simp
qed (use assms(1) in simp)

lemma fine_lookahead:
  assumes "ended items"
    and "\<And>tok lit rest. consume ctx items = Ret (Inr ((tok, lit), rest)) \<Longrightarrow>
      tok \<noteq> EndOfStringToken \<longrightarrow> ended rest \<Longrightarrow> fine (f (tok, lit) items)"
  shows "fine (parse_bind (lookahead ctx items) f)"
proof (cases items)
  case (Cons item rest)
  have "fst (in_context ctx item) \<noteq> EndOfStringToken \<longrightarrow> ended rest" using assms(1) Cons by simp
  with assms(2) [of "fst (in_context ctx item)" "snd (in_context ctx item)" rest] Cons show ?thesis by simp
qed (use assms(1) in simp)

lemma fine_with_rest [simp]: "ended items \<Longrightarrow> fine (with_rest r items)"
  by (simp add: with_rest_def split: sum.split)

lemmas fine_intros = fine_consume fine_lookahead fine_bind

lemma parse_bind_assoc: "parse_bind (parse_bind p f) g = parse_bind p (\<lambda>x items. parse_bind (f x items) g)"
  by (auto simp: parse_bind_def split: outcome.split sum.split)

lemma parseKeyAndInferOperator_fine:
  assumes "ended items"
  shows "fine (parseKeyAndInferOperator items)"
proof -
  let ?key = "\<lambda>(op, tok, literal) items2.
     if tok \<noteq> IdentifierToken then parse_error ''found '%s', expected: identifier'' literal
     else (case validateLabelKey literal of
             Some err \<Rightarrow> Ret (Inl err)
           | None \<Rightarrow>
               parse_bind (lookahead Values items2) (\<lambda>(t, _) items3.
                 Ret (Inr ((literal,
                   if (t = EndOfStringToken \<or> t = CommaToken) \<and> op \<noteq> Some OpDoesNotExist then Some OpExists else op),
                   items3))))"
  have key: "fine (?key (op, tok, lit) rest)" if "tok \<noteq> EndOfStringToken \<longrightarrow> ended rest" for op tok lit rest
    using that by (auto intro!: fine_lookahead split: option.split)
  show ?thesis
    unfolding parseKeyAndInferOperator_def
  proof (rule fine_consume [OF assms], goal_cases)
    case (1 tok lit rest)
    show ?case
    proof (cases "tok = DoesNotExistToken")
      case True
      with 1 have "ended rest" by simp
      then obtain it its where rest: "rest = it # its" by (cases rest) auto
      obtain tok2 lit2 where it: "in_context Values it = (tok2, lit2)" by (cases "in_context Values it")
      have "tok2 \<noteq> EndOfStringToken \<longrightarrow> ended its"
        using \<open>ended rest\<close> rest it in_context_end [of Values it] by auto
      from key [OF this] show ?thesis by (simp add: True rest it)
    qed (use key [OF 1] in simp)
  qed
qed

lemma parseOperator_fine: "ended items \<Longrightarrow> fine (parseOperator items)"
  unfolding parseOperator_def
  by (erule fine_consume) (auto simp: token_operator_def split: option.split Token.splits)

lemma parseIdentifiersList_fine: "ended items \<Longrightarrow> fine (parseIdentifiersList s items)"
proof (induction s items rule: parseIdentifiersList.induct)
  case (2 s item items)
  obtain tok lit where item: "in_context Values item = (tok, lit)" by (cases "in_context Values item")
  have end_item: "tok = EndOfStringToken \<longleftrightarrow> fst item = EndOfStringToken" by (metis in_context_end item fst_conv)
  show ?case
  proof (cases "tok = IdentifierToken \<or> tok = CommaToken")
    case True
    then have "ended items" using 2(4) end_item by (auto split: if_splits)
    then obtain it its where items: "items = it # its" by (cases items) auto
    obtain tok2 lit2 where it: "in_context Values it = (tok2, lit2)" by (cases "in_context Values it")
    then have "tok2 = EndOfStringToken \<longleftrightarrow> fst it = EndOfStringToken" by (metis in_context_end fst_conv)
    with \<open>ended items\<close> items have "tok2 \<noteq> EndOfStringToken \<Longrightarrow> ended its" by (auto split: if_splits)
    with True item it items \<open>ended items\<close> 2(1-3) show ?thesis by (auto simp: Let_def)
  next
    case False
    with item show ?thesis by simp
  qed
qed simp

lemma closing_fine:
  "ended items \<Longrightarrow> fine (parse_bind (consume Values items) (\<lambda>(tok, _) items3.
     if tok \<noteq> ClosedParToken then parse_error msg lit else Ret (Inr (s, items3))))"
  by (erule fine_consume) auto

lemma parseValues_fine: "ended items \<Longrightarrow> fine (parseValues items)"
  unfolding parseValues_def
  by (erule fine_consume) (auto intro!: fine_lookahead fine_bind [OF parseIdentifiersList_fine] closing_fine)

lemma parseExactValue_fine:
  assumes "ended items"
  shows "fine (parseExactValue items)"
  unfolding parseExactValue_def
  by (rule fine_lookahead [OF assms]) (auto simp: assms)

lemma parseRequirement_fine: "ended items \<Longrightarrow> fine (parseRequirement items)"
  unfolding parseRequirement_def
  by (auto intro!: fine_bind [OF parseKeyAndInferOperator_fine] fine_bind [OF parseOperator_fine]
      fine_bind [where p = "if _ then _ else _"] parseValues_fine parseExactValue_fine split: option.split)

lemma unable_to_parse_fine: "fine p \<Longrightarrow> fine (unable_to_parse p)"
  by (auto simp: fine_def unable_to_parse_def split: outcome.splits sum.splits)

text \<open>Taking one item off an ended list.\<close>

lemma ended_item:
  assumes "ended items"
  obtains tok lit rest where "consume ctx items = Ret (Inr ((tok, lit), rest))"
    "lookahead ctx items = Ret (Inr ((tok, lit), items))" "tok \<noteq> EndOfStringToken \<longrightarrow> ended rest"
proof (cases items)
  case (Cons item rest)
  obtain tok lit where "in_context ctx item = (tok, lit)" by (cases "in_context ctx item")
  moreover from this have "tok \<noteq> EndOfStringToken \<longrightarrow> ended rest"
    using in_context_end [of ctx item] assms Cons by simp
  ultimately show thesis using that [of tok lit rest] Cons by simp
qed (use assms in simp)

lemma parse_loop_ends: "ended items \<Longrightarrow> \<exists>r. parse_loop requirements items = Ret r"
proof (induction requirements items rule: parse_loop.induct)
  case (1 requirements items)
  obtain tok lit where tok: "lookahead Values items = Ret (Inr ((tok, lit), items))"
    using ended_item [OF 1(2)] by metis
  show ?case
  proof (cases "tok = IdentifierToken \<or> tok = DoesNotExistToken")
    case start: True
    have "fine (unable_to_parse (parseRequirement items))" by (intro unable_to_parse_fine parseRequirement_fine 1(2))
    then consider err where "unable_to_parse (parseRequirement items) = Ret (Inl err)"
      | r items1 where "unable_to_parse (parseRequirement items) = Ret (Inr (r, items1))" "ended items1"
      by (auto simp: fine_def split: outcome.splits sum.splits)
    then show ?thesis
    proof cases
      case 1
      with tok start show ?thesis by (subst parse_loop.simps) auto
    next
      case r: 2
      obtain t l items2 where t: "consume Values items1 = Ret (Inr ((t, l), items2))" "t \<noteq> EndOfStringToken \<longrightarrow> ended items2"
        using ended_item [OF r(2)] by metis
      show ?thesis
      proof (cases "t = CommaToken")
        case comma: True
        then have "ended items2" using t(2) by simp
        then obtain t2 l2 where t2: "lookahead Values items2 = Ret (Inr ((t2, l2), items2))"
          using ended_item by metis
        from 1(1) [OF tok refl start r(1) t(1) refl _ comma t2 refl] \<open>ended items2\<close> comma tok start r t t2
        show ?thesis by (subst parse_loop.simps) (auto simp: parse_error_def)
      qed (use tok start r t in \<open>subst parse_loop.simps, auto simp: parse_error_def\<close>)
    qed
  qed (use tok in \<open>subst parse_loop.simps, auto simp: parse_error_def\<close>)
qed

section \<open>Lemmas: reading back what was printed\<close>

definition plain_char :: "char \<Rightarrow> bool" where
  "plain_char c \<longleftrightarrow> \<not> isSpecialSymbol c \<and> \<not> isWhitespace c \<and> c \<noteq> CHR 0x00"

abbreviation plain_word :: "string \<Rightarrow> bool" where
  "plain_word w \<equiv> list_all plain_char w"

text \<open>Where a word ends, and where a symbol does.\<close>

definition stops :: "string \<Rightarrow> bool" where
  "stops rest \<longleftrightarrow> rest = [] \<or> isSpecialSymbol (hd rest) \<or> isWhitespace (hd rest)"

definition stops_symbol :: "string \<Rightarrow> string \<Rightarrow> bool" where
  "stops_symbol buffer rest \<longleftrightarrow> rest = [] \<or>
     hd rest \<noteq> CHR 0x00 \<and> (isSpecialSymbol (hd rest) \<longrightarrow> map_of string2token (buffer @ [hd rest]) = None)"

lemma special_not_nul: "isSpecialSymbol c \<Longrightarrow> c \<noteq> CHR 0x00" "isWhitespace c \<Longrightarrow> c \<noteq> CHR 0x00"
  "isSpecialSymbol c \<Longrightarrow> \<not> isWhitespace c"
  by (auto simp: isSpecialSymbol_def isWhitespace_def)

lemma word_token_not_end [simp]: "word_token w \<noteq> EndOfStringToken"
  by (auto simp: word_token_def string2token_def)

lemma scan_id_word: "plain_word w \<Longrightarrow> stops rest \<Longrightarrow> scan_id (w @ rest) = (w, rest)"
proof (induction w)
  case Nil
  then show ?case by (cases rest) (auto simp: stops_def dest: special_not_nul)
qed (simp add: plain_char_def)

lemma scan_word:
  assumes "w \<noteq> []" and "plain_word w" and "stops rest"
  shows "scan (w @ rest) = (word_token w, w) # scan rest"
proof -
  obtain c w' where w: "w = c # w'" using assms(1) by (cases w) auto
  have "Lex (w @ rest) = ((word_token w, w), rest)"
    using assms(2) scan_id_word [OF assms(2,3)] by (simp add: w Lex_def scanIDOrKeyword_def plain_char_def)
  then show ?thesis by (subst scan.simps) simp
qed

lemma scan_space: "scan (CHR '' '' # rest) = scan rest"
  by (subst (1 2) scan.simps) (simp add: Lex_def isWhitespace_def)

lemma scan_end: "scan [] = [(EndOfStringToken, [])]"
  by (subst scan.simps) (simp add: Lex_def)

lemma scan_special_stop:
  "stops_symbol buffer rest \<Longrightarrow>
     \<exists>buffer'. scan_special buffer (Some item) rest = (Some item, buffer', rest)"
  by (cases rest) (auto simp: stops_symbol_def split: option.split)

lemma scan_symbol:
  assumes "isSpecialSymbol c" and "map_of string2token [c] = Some t" and "stops_symbol [c] rest"
  shows "scan (c # rest) = (t, [c]) # scan rest"
proof -
  obtain b where "scan_special [c] (Some (t, [c])) rest = (Some (t, [c]), b, rest)"
    using scan_special_stop [OF assms(3)] by blast
  then have "Lex (c # rest) = ((t, [c]), rest)"
    using assms(1,2) special_not_nul [of c] by (simp add: Lex_def scanSpecialSymbol_def)
  moreover have "t \<noteq> EndOfStringToken" using assms(2) by (auto simp: string2token_def split: if_splits)
  ultimately show ?thesis by (subst scan.simps) simp
qed

lemma scan_symbol2:
  assumes "isSpecialSymbol c" and "isSpecialSymbol d" and "map_of string2token [c, d] = Some t" and "stops_symbol [c, d] rest"
  shows "scan (c # d # rest) = (t, [c, d]) # scan rest"
proof -
  obtain t1 where t1: "map_of string2token [c] = Some t1" using single_symbol [OF assms(1)] by blast
  obtain b where "scan_special [c, d] (Some (t, [c, d])) rest = (Some (t, [c, d]), b, rest)"
    using scan_special_stop [OF assms(4)] by blast
  then have "Lex (c # d # rest) = ((t, [c, d]), rest)"
    using assms(1-3) t1 special_not_nul [of c] special_not_nul [of d] by (simp add: Lex_def scanSpecialSymbol_def)
  moreover have "t \<noteq> EndOfStringToken" using assms(3) by (auto simp: string2token_def split: if_splits)
  ultimately show ?thesis by (subst scan.simps) simp
qed

text \<open>The items of a value, of a list of values, of a requirement and of a selector.\<close>

definition value_items :: "string \<Rightarrow> item list" where
  "value_items v = (if v = [] then [] else [(word_token v, v)])"

fun values_items :: "string list \<Rightarrow> item list" where
  "values_items [] = []"
| "values_items [v] = value_items v"
| "values_items (v # w # vs) = value_items v @ (CommaToken, '','') # values_items (w # vs)"

definition operator_items :: "sel_operator \<Rightarrow> string list \<Rightarrow> item list" where
  "operator_items op vs =
     (case op of
        OpEquals \<Rightarrow> (EqualsToken, ''='') # values_items vs
      | OpDoubleEquals \<Rightarrow> (DoubleEqualsToken, ''=='') # values_items vs
      | OpNotEquals \<Rightarrow> (NotEqualsToken, ''!='') # values_items vs
      | OpGreaterThan \<Rightarrow> (GreaterThanToken, ''>'') # values_items vs
      | OpLessThan \<Rightarrow> (LessThanToken, ''<'') # values_items vs
      | OpIn \<Rightarrow> (InToken, ''in'') # (OpenParToken, ''('') # values_items vs @ [(ClosedParToken, '')'')]
      | OpNotIn \<Rightarrow> (NotInToken, ''notin'') # (OpenParToken, ''('') # values_items vs @ [(ClosedParToken, '')'')]
      | _ \<Rightarrow> [])"

definition requirement_items :: "Requirement \<Rightarrow> item list" where
  "requirement_items r =
     (if rq_operator r = OpDoesNotExist then [(DoesNotExistToken, ''!'')] else []) @
     (word_token (rq_key r), rq_key r) # operator_items (rq_operator r) (rq_strValues r)"

fun selector_items :: "Requirement list \<Rightarrow> item list" where
  "selector_items [] = [(EndOfStringToken, [])]"
| "selector_items [r] = requirement_items r @ [(EndOfStringToken, [])]"
| "selector_items (r # r' # rs) = requirement_items r @ (CommaToken, '','') # selector_items (r' # rs)"

text \<open>A requirement that \<open>NewRequirement\<close> makes, with its values as a set.\<close>

definition printable :: "Requirement \<Rightarrow> bool" where
  "printable r \<longleftrightarrow> NewRequirement (rq_key r) (rq_operator r) (rq_strValues r) = Inr r \<and> distinct (rq_strValues r)"

lemma qname_plain: "qname_ext_char c \<Longrightarrow> plain_char c"
  by (auto simp: plain_char_def isSpecialSymbol_def isWhitespace_def qname_ext_char_def qname_char_def char_class_defs)

lemma split_on_chars: "set s \<subseteq> insert c (\<Union>(set ` set (split_on c s)))"
proof (induction s)
  case (Cons x s)
  obtain p ps where "split_on c s = p # ps" by (cases "split_on c s") (use split_on.simps in auto)
  with Cons show ?case by auto
qed simp

lemma qualified_plain:
  assumes "IsQualifiedName k = []"
  shows "k \<noteq> [] \<and> plain_word k"
proof -
  have name: "qualifiedNameRegexp n" if "name_part_errors n = []" for n
    using that by (auto simp: name_part_errors_def split: if_splits)
  have part: "list_all qname_ext_char n" if "qualifiedNameRegexp n" for n
    using that by (simp add: qualifiedNameRegexp_def)
  have label: "c \<in> set p \<Longrightarrow> qname_ext_char c" if "dns1123SubdomainRegexp p" for p c
  proof -
    assume "c \<in> set p"
    then have "c = CHR ''.'' \<or> (\<exists>l \<in> set (split_on (CHR ''.'') p). c \<in> set l)" using split_on_chars [of p "CHR ''.''"] by auto
    then show "qname_ext_char c" using that
      by (auto simp: dns1123SubdomainRegexp_def dns1123LabelRegexp_def list_all_iff dns_char_def qname_ext_char_def qname_char_def)
  qed
  have ps: "c \<in> set p \<Longrightarrow> qname_ext_char c" if "p \<in> set (split_on (CHR ''/'') k)" for p c
    using assms that name part label
    by (auto simp: IsQualifiedName_def IsDNS1123Subdomain_def list_all_iff split: list.splits if_splits)
  have "plain_char c" if "c \<in> set k" for c
  proof (cases "c = CHR ''/''")
    case True
    then show ?thesis by (simp add: plain_char_def isSpecialSymbol_def isWhitespace_def)
  next
    case False
    with that split_on_chars [of k "CHR ''/''"] ps qname_plain show ?thesis by blast
  qed
  moreover have "k \<noteq> []" using assms by (auto simp: IsQualifiedName_def name_part_errors_def)
  ultimately show ?thesis by (simp add: list_all_iff)
qed

lemma label_value_plain: "IsValidLabelValue v = [] \<Longrightarrow> plain_word v"
  using qname_plain by (auto simp: IsValidLabelValue_ok labelValueRegexp_def qualifiedNameRegexp_def list_all_iff)

lemma first_error_None: "first_error f xs = None \<Longrightarrow> x \<in> set xs \<Longrightarrow> f x = None"
  by (induction xs) (auto split: option.splits)

lemma printable_words:
  assumes "printable r"
  shows "rq_key r \<noteq> []" "plain_word (rq_key r)" "list_all plain_word (rq_strValues r)" "sorted (rq_strValues r)"
    "validateLabelKey (rq_key r) = None"
proof -
  have new: "NewRequirement (rq_key r) (rq_operator r) (rq_strValues r) = Inr r" using assms by (simp add: printable_def)
  then show key: "validateLabelKey (rq_key r) = None" by (auto simp: NewRequirement_def split: option.splits)
  then have "IsQualifiedName (rq_key r) = []" by (simp add: validateLabelKey_def split: if_splits)
  from qualified_plain [OF this] show "rq_key r \<noteq> []" "plain_word (rq_key r)" by simp_all
  have errors: "first_error validateLabelValue (rq_strValues r) = None"
    using new by (auto simp: NewRequirement_def split: option.splits)
  have "plain_word v" if "v \<in> set (rq_strValues r)" for v
    using first_error_None [OF errors that] by (auto simp: validateLabelValue_def intro: label_value_plain split: if_splits)
  then show "list_all plain_word (rq_strValues r)" by (simp add: list_all_iff)
  have "r = \<lparr>rq_key = rq_key r, rq_operator = rq_operator r, rq_strValues = sort (rq_strValues r)\<rparr>"
    using new by (auto simp: NewRequirement_def split: option.splits)
  then have "rq_strValues r = sort (rq_strValues r)" by (metis Requirement.select_convs(3))
  then show "sorted (rq_strValues r)" by (metis sorted_sort)
qed

lemma printable_operator:
  assumes "printable r"
  shows "operator_error (rq_operator r) (rq_strValues r) = None"
  using assms by (auto simp: printable_def NewRequirement_def split: option.splits)

text \<open>Scanning values: a symbol stops before a word and before a separator.\<close>

definition separator :: "string \<Rightarrow> bool" where
  "separator rest \<longleftrightarrow> rest = [] \<or> hd rest = CHR '','' \<or> hd rest = CHR '')''"

lemma separator_stops: "separator rest \<Longrightarrow> stops rest"
  by (auto simp: separator_def stops_def isSpecialSymbol_def)

lemma symbol_before_word:
  assumes "plain_word v" and "separator rest"
    and "map_of string2token (buffer @ '','') = None" and "map_of string2token (buffer @ '')'') = None"
  shows "stops_symbol buffer (v @ rest)"
  using assms by (cases v) (auto simp: stops_symbol_def separator_def plain_char_def)

lemma scan_value: "plain_word v \<Longrightarrow> separator rest \<Longrightarrow> scan (v @ rest) = value_items v @ scan rest"
  by (auto simp: value_items_def scan_word separator_stops)

lemma token_pairs:
  "map_of string2token [c, CHR '',''] = None" "map_of string2token [c, CHR '')''] = None"
  "map_of string2token [c, d, CHR '',''] = None" "map_of string2token [c, d, CHR '')''] = None"
  by (simp_all add: string2token_def)

lemma single_tokens:
  "isSpecialSymbol (CHR '','')" "isSpecialSymbol (CHR ''('')" "isSpecialSymbol (CHR '')'')" "isSpecialSymbol (CHR ''!'')"
  "isSpecialSymbol (CHR ''='')" "isSpecialSymbol (CHR ''<'')" "isSpecialSymbol (CHR ''>'')"
  "map_of string2token '','' = Some CommaToken" "map_of string2token ''('' = Some OpenParToken"
  "map_of string2token '')'' = Some ClosedParToken" "map_of string2token ''!'' = Some DoesNotExistToken"
  "map_of string2token ''='' = Some EqualsToken" "map_of string2token ''<'' = Some LessThanToken"
  "map_of string2token ''>'' = Some GreaterThanToken" "map_of string2token ''=='' = Some DoubleEqualsToken"
  "map_of string2token ''!='' = Some NotEqualsToken"
  by (simp_all add: isSpecialSymbol_def string2token_def)

lemma stops_comma: "rest = [] \<or> hd rest \<noteq> CHR 0x00 \<Longrightarrow> stops_symbol '','' rest"
  "rest = [] \<or> hd rest \<noteq> CHR 0x00 \<Longrightarrow> stops_symbol '')'' rest"
  by (auto simp: stops_symbol_def string2token_def)

lemma values_split:
  assumes "separator rest" and "list_all plain_word vs"
  obtains v rest' where "join_with '','' vs @ rest = v @ rest'" "separator rest'" "plain_word v"
proof (cases vs)
  case (Cons v ws)
  then show thesis using that [of v rest] that [of v "'','' @ join_with '','' ws @ rest"] assms
    by (cases ws) (auto simp: separator_def)
qed (use that [of "[]" rest] assms in simp)

lemma join_values_head:
  assumes "list_all plain_word vs" and "separator rest"
  shows "join_with '','' vs @ rest = [] \<or> hd (join_with '','' vs @ rest) \<noteq> CHR 0x00"
proof -
  obtain v rest' where "join_with '','' vs @ rest = v @ rest'" "separator rest'" "plain_word v"
    using values_split [OF assms(2,1)] .
  then show ?thesis by (cases v) (auto simp: separator_def plain_char_def)
qed

lemma scan_values:
  "list_all plain_word vs \<Longrightarrow> separator rest \<Longrightarrow> scan (join_with '','' vs @ rest) = values_items vs @ scan rest"
proof (induction vs rule: values_items.induct)
  case (3 v w vs)
  let ?more = "join_with '','' (w # vs) @ rest"
  have "stops_symbol '','' ?more" using join_values_head [of "w # vs" rest] 3(2,3) by (intro stops_comma(1)) simp
  then have "scan (CHR '','' # ?more) = (CommaToken, '','') # scan ?more" by (intro scan_symbol single_tokens)
  moreover have "separator (CHR '','' # ?more)" by (simp add: separator_def)
  then have "scan (v @ CHR '','' # ?more) = value_items v @ scan (CHR '','' # ?more)" using 3(2) by (intro scan_value) simp
  ultimately show ?case using 3 by simp
qed (simp_all add: scan_value)

lemma symbol_before_values:
  assumes "list_all plain_word vs" and "separator rest"
    and "map_of string2token (buffer @ '','') = None" and "map_of string2token (buffer @ '')'') = None"
  shows "stops_symbol buffer (join_with '','' vs @ rest)"
proof -
  obtain v rest' where "join_with '','' vs @ rest = v @ rest'" "separator rest'" "plain_word v"
    using values_split [OF assms(2,1)] .
  with symbol_before_word [OF this(3,2) assms(3,4)] show ?thesis by simp
qed

lemma scan_parenthesised:
  assumes "list_all plain_word vs" and "rest = [] \<or> hd rest = CHR '',''"
  shows "scan (CHR ''('' # join_with '','' vs @ CHR '')'' # rest) =
    (OpenParToken, ''('') # values_items vs @ (ClosedParToken, '')'') # scan rest"
proof -
  have sep: "separator (CHR '')'' # rest)" by (simp add: separator_def)
  have "stops_symbol ''('' (join_with '','' vs @ CHR '')'' # rest)"
    by (rule symbol_before_values [OF assms(1) sep]) (simp_all add: string2token_def)
  then have "scan (CHR ''('' # join_with '','' vs @ CHR '')'' # rest) =
      (OpenParToken, ''('') # scan (join_with '','' vs @ CHR '')'' # rest)" by (intro scan_symbol single_tokens)
  also have "scan (join_with '','' vs @ CHR '')'' # rest) = values_items vs @ scan (CHR '')'' # rest)"
    by (rule scan_values [OF assms(1) sep])
  also have "scan (CHR '')'' # rest) = (ClosedParToken, '')'') # scan rest"
    using assms(2) by (intro scan_symbol single_tokens stops_comma) auto
  finally show ?thesis by simp
qed

lemma Requirement_String_values:
  "(if length vs = 1 then hd vs else join_with '','' vs) = join_with '','' vs"
  by (cases vs rule: values_items.cases) simp_all

lemma scan_operator:
  assumes "list_all plain_word vs" and "operator_error op vs = None" and "rest = [] \<or> hd rest = CHR '',''"
  shows "scan (operator_text op @
      (if op = OpExists \<or> op = OpDoesNotExist then []
       else (if op = OpIn \<or> op = OpNotIn then ''('' else []) @ join_with '','' vs @
         (if op = OpIn \<or> op = OpNotIn then '')'' else [])) @ rest) = operator_items op vs @ scan rest"
proof -
  have sep: "separator rest" using assms(3) by (auto simp: separator_def)
  let ?vals = "join_with '','' vs @ rest"
  have vals: "scan ?vals = values_items vs @ scan rest" by (rule scan_values [OF assms(1) sep])
  have one: "scan (c # ?vals) = (t, [c]) # values_items vs @ scan rest"
    if "isSpecialSymbol c" "map_of string2token [c] = Some t" for c t
    using scan_symbol [OF that symbol_before_values [OF assms(1) sep]] vals token_pairs by simp
  have two: "scan (c # d # ?vals) = (t, [c, d]) # values_items vs @ scan rest"
    if "isSpecialSymbol c" "isSpecialSymbol d" "map_of string2token [c, d] = Some t" for c d t
    using scan_symbol2 [OF that symbol_before_values [OF assms(1) sep]] vals token_pairs by simp
  have word: "scan (w @ CHR '' '' # s) = (word_token w, w) # scan s" if "w \<noteq> []" "plain_word w" for w s
    using scan_word [OF that, of "CHR '' '' # s"] by (simp add: stops_def isWhitespace_def scan_space)
  have set: "scan (CHR '' '' # w @ CHR '' '' # CHR ''('' # join_with '','' vs @ CHR '')'' # rest) =
      (word_token w, w) # (OpenParToken, ''('') # values_items vs @ (ClosedParToken, '')'') # scan rest"
    if "w \<noteq> []" "plain_word w" for w
    using word [OF that] scan_parenthesised [OF assms(1,3)] by (simp add: scan_space)
  have kw: "plain_word ''in''" "plain_word ''notin''" "word_token ''in'' = InToken" "word_token ''notin'' = NotInToken"
    by (simp_all add: plain_char_def isSpecialSymbol_def isWhitespace_def word_token_def string2token_def)
  show ?thesis
  proof (cases op)
    case OpIn
    then show ?thesis using set [of "''in''"] kw by (simp add: operator_text_def operator_items_def)
  next
    case OpNotIn
    then show ?thesis using set [of "''notin''"] kw by (simp add: operator_text_def operator_items_def)
  next
    case (OpOther x)
    then show ?thesis using assms(2) by (simp add: operator_error_def)
  qed (simp_all add: operator_text_def operator_items_def one two single_tokens)
qed

lemma operator_text_stops:
  assumes "rest = [] \<or> hd rest = CHR '',''" and "operator_error op vs = None"
  shows "stops (operator_text op @
      (if op = OpExists \<or> op = OpDoesNotExist then []
       else (if op = OpIn \<or> op = OpNotIn then ''('' else []) @ join_with '','' vs @
         (if op = OpIn \<or> op = OpNotIn then '')'' else [])) @ rest)"
  using assms by (cases op) (auto simp: operator_text_def stops_def isSpecialSymbol_def isWhitespace_def operator_error_def)

lemma scan_requirement:
  assumes "printable r" and "rest = [] \<or> hd rest = CHR '',''"
  shows "scan (Requirement_String r @ rest) = requirement_items r @ scan rest"
proof -
  note r = printable_words [OF assms(1)] and op = printable_operator [OF assms(1)]
  let ?op = "rq_operator r" and ?vs = "rq_strValues r"
  define tail where "tail = operator_text ?op @
      (if ?op = OpExists \<or> ?op = OpDoesNotExist then []
       else (if ?op = OpIn \<or> ?op = OpNotIn then ''('' else []) @ join_with '','' ?vs @
         (if ?op = OpIn \<or> ?op = OpNotIn then '')'' else [])) @ rest"
  have shape: "Requirement_String r @ rest = (if ?op = OpDoesNotExist then ''!'' else []) @ rq_key r @ tail"
    unfolding Requirement_String_def Let_def Requirement_String_values tail_def by simp
  have key: "scan (rq_key r @ tail) = (word_token (rq_key r), rq_key r) # operator_items ?op ?vs @ scan rest"
    using scan_word [OF r(1,2) operator_text_stops [OF assms(2) op]] scan_operator [OF r(3) op assms(2)]
    unfolding tail_def by simp
  have "stops_symbol ''!'' (rq_key r @ tail)"
    using r(1,2) by (cases "rq_key r") (auto simp: stops_symbol_def plain_char_def)
  then have "scan (CHR ''!'' # rq_key r @ tail) = (DoesNotExistToken, ''!'') # scan (rq_key r @ tail)"
    by (intro scan_symbol single_tokens)
  with key show ?thesis unfolding shape by (simp add: requirement_items_def)
qed

lemma Requirement_String_head:
  "printable r \<Longrightarrow> Requirement_String r @ rest \<noteq> [] \<and> hd (Requirement_String r @ rest) \<noteq> CHR 0x00"
  using printable_words(1,2) [of r]
  by (cases "rq_key r") (auto simp: Requirement_String_def Let_def plain_char_def hd_append)

lemma scan_selector:
  "list_all printable rs \<Longrightarrow> scan (join_with '','' (map Requirement_String rs)) = selector_items rs"
proof (induction rs rule: selector_items.induct)
  case (2 r)
  then show ?case using scan_requirement [of r "[]"] by (simp add: scan_end)
next
  case (3 r r' rs)
  let ?more = "join_with '','' (map Requirement_String (r' # rs))"
  obtain rest where "?more = Requirement_String r' @ rest" by (cases rs) auto
  then have "hd ?more \<noteq> CHR 0x00" using Requirement_String_head [of r' rest] 3(2) by simp
  then have "stops_symbol '','' ?more" by (intro stops_comma(1)) simp
  then have "scan (CHR '','' # ?more) = (CommaToken, '','') # scan ?more" by (intro scan_symbol single_tokens)
  moreover have "scan (Requirement_String r @ CHR '','' # ?more) = requirement_items r @ scan (CHR '','' # ?more)"
    using 3(2) by (intro scan_requirement) simp_all
  ultimately show ?case using 3 by simp
qed (simp add: scan_end)

text \<open>Parsing these items.\<close>

lemma word_in_values:
  assumes "w \<noteq> []" and "plain_word w"
  shows "in_context Values (word_token w, w) = (IdentifierToken, w)"
proof -
  have "word_token w \<in> {IdentifierToken, InToken, NotInToken}"
  proof (cases "map_of string2token w")
    case (Some t)
    from map_of_SomeD [OF this] assms(2) show ?thesis unfolding word_token_def Some
      by (simp add: string2token_def) (elim disjE; simp add: plain_char_def isSpecialSymbol_def)
  qed (simp add: word_token_def)
  then show ?thesis by auto
qed

text \<open>What may follow a requirement.\<close>

definition follows :: "item list \<Rightarrow> bool" where
  "follows items \<longleftrightarrow> (\<exists>tok lit rest. items = (tok, lit) # rest \<and> tok \<in> {CommaToken, EndOfStringToken})"

lemma follows_lookahead: "follows items \<Longrightarrow> \<exists>tok lit. lookahead Values items = Ret (Inr ((tok, lit), items)) \<and>
    tok \<in> {CommaToken, EndOfStringToken}"
  by (auto simp: follows_def)

lemma insert_distinct: "distinct s \<Longrightarrow> distinct (fold List.insert vs s) \<and> set (fold List.insert vs s) = set vs \<union> set s"
  by (induction vs arbitrary: s) auto

lemma sort_inserted:
  assumes "sorted vs" and "distinct vs" and "set vs = set ws \<union> set s" and "distinct s"
  shows "sort (fold List.insert ws s) = vs"
proof -
  have "distinct (sort (fold List.insert ws s))" "set (sort (fold List.insert ws s)) = set vs"
    using insert_distinct [OF assms(4), of ws] assms(3) by simp_all
  then show ?thesis using assms(1,2) by (intro sorted_distinct_set_unique) simp_all
qed

lemma parse_values_list:
  "vs \<noteq> [] \<Longrightarrow> list_all (\<lambda>v. v \<noteq> [] \<and> plain_word v) vs \<Longrightarrow>
   parseIdentifiersList s (values_items vs @ (ClosedParToken, '')'') # rest) =
     Ret (Inr (fold List.insert vs s, (ClosedParToken, '')'') # rest))"
proof (induction vs arbitrary: s rule: values_items.induct)
  case (3 v w vs)
  obtain more where more: "values_items (w # vs) = (word_token w, w) # more"
    using 3(3) by (cases vs) (auto simp: value_items_def)
  have ne: "List.insert v s \<noteq> []" by (metis in_set_insert list.distinct(1) list.set_intros(1) set_insert insert_not_empty set_empty)
  have "in_context Values (word_token v, v) = (IdentifierToken, v)" "in_context Values (word_token w, w) = (IdentifierToken, w)"
    using 3(3) by (simp_all add: word_in_values)
  with 3(1) [of "List.insert v s"] 3(3) ne show ?case by (simp add: value_items_def more Let_def)
qed (simp_all add: value_items_def word_in_values)

lemma parse_values:
  assumes "sorted vs" and "distinct vs" and "vs \<noteq> []" and "list_all plain_word vs"
  shows "\<exists>ws. parseValues ((OpenParToken, ''('') # values_items vs @ (ClosedParToken, '')'') # rest) = Ret (Inr (ws, rest)) \<and>
    sort ws = vs"
proof -
  obtain v ws where vs: "vs = v # ws" using assms(3) by (cases vs) auto
  have ne: "list_all (\<lambda>v. v \<noteq> [] \<and> plain_word v) ws"
  proof (rule list_all_iff [THEN iffD2], intro ballI conjI)
    fix w assume w: "w \<in> set ws"
    then have "v \<le> w" "w \<noteq> v" using assms(1,2) vs by auto
    then show "w \<noteq> []" by (cases v) auto
    show "plain_word w" using assms(4) vs w by (auto simp: list_all_iff)
  qed
  show ?thesis
  proof (cases "v = []")
    case True
    show ?thesis
    proof (cases ws)
      case Nil
      then show ?thesis using True vs by (simp add: parseValues_def value_items_def)
    next
      case (Cons w us)
      have items: "values_items vs @ (ClosedParToken, '')'') # rest =
          (CommaToken, '','') # values_items ws @ (ClosedParToken, '')'') # rest"
        using True vs Cons by (simp add: value_items_def)
      have "w \<noteq> []" "plain_word w" using ne Cons by simp_all
      then obtain more where "values_items ws = (word_token w, w) # more"
        using Cons by (cases us) (auto simp: value_items_def)
      with parse_values_list [of ws "[[]]" rest] ne Cons \<open>w \<noteq> []\<close> \<open>plain_word w\<close>
      have "parseIdentifiersList [] (values_items vs @ (ClosedParToken, '')'') # rest) =
          Ret (Inr (fold List.insert ws [[]], (ClosedParToken, '')'') # rest))"
        unfolding items by (simp add: word_in_values)
      moreover have "sort (fold List.insert ws [[]]) = vs"
        using assms(1,2) vs True by (intro sort_inserted) auto
      ultimately show ?thesis by (auto simp: parseValues_def items)
    qed
  next
    case False
    then have all: "list_all (\<lambda>v. v \<noteq> [] \<and> plain_word v) vs" using ne assms(4) vs by simp
    obtain more where items: "values_items vs = (word_token v, v) # more"
      using False vs by (cases ws) (auto simp: value_items_def)
    have "parseIdentifiersList [] (values_items vs @ (ClosedParToken, '')'') # rest) =
        Ret (Inr (fold List.insert vs [], (ClosedParToken, '')'') # rest))"
      using assms(3) all by (rule parse_values_list)
    moreover have "sort (fold List.insert vs []) = vs" using assms(1,2) by (intro sort_inserted) auto
    moreover have "plain_word v" using all vs by simp
    ultimately show ?thesis using False by (auto simp: parseValues_def items word_in_values)
  qed
qed

lemma parse_exact:
  assumes "plain_word v" and "follows rest"
  shows "parseExactValue (value_items v @ rest) = Ret (Inr ([v], rest))"
  using assms follows_lookahead [OF assms(2)]
  by (auto simp: parseExactValue_def value_items_def word_in_values)

text \<open>How many values an operator takes.\<close>

lemma operator_values:
  "operator_error OpEquals vs = None \<Longrightarrow> \<exists>v. vs = [v]" "operator_error OpDoubleEquals vs = None \<Longrightarrow> \<exists>v. vs = [v]"
  "operator_error OpNotEquals vs = None \<Longrightarrow> \<exists>v. vs = [v]" "operator_error OpGreaterThan vs = None \<Longrightarrow> \<exists>v. vs = [v]"
  "operator_error OpLessThan vs = None \<Longrightarrow> \<exists>v. vs = [v]" "operator_error OpIn vs = None \<Longrightarrow> vs \<noteq> []"
  "operator_error OpNotIn vs = None \<Longrightarrow> vs \<noteq> []" "operator_error OpExists vs = None \<Longrightarrow> vs = []"
  "operator_error OpDoesNotExist vs = None \<Longrightarrow> vs = []" "operator_error (OpOther x) vs \<noteq> None"
  by (auto simp: operator_error_def length_Suc_conv split: if_splits)

text \<open>A key with its operator, when a binary operator follows.\<close>

lemma parse_key:
  assumes "k \<noteq> []" and "plain_word k" and "validateLabelKey k = None" and "t \<notin> {CommaToken, EndOfStringToken}"
  shows "parseKeyAndInferOperator ((word_token k, k) # (t, l) # rest) = Ret (Inr ((k, None), (t, l) # rest))"
proof -
  obtain t' l' where t': "in_context Values (t, l) = (t', l')" by (cases "in_context Values (t, l)")
  moreover have "t' \<noteq> CommaToken \<and> t' \<noteq> EndOfStringToken" using assms(4) t' by (cases t) auto
  ultimately show ?thesis using assms by (simp add: parseKeyAndInferOperator_def word_in_values)
qed

lemma parse_binary:
  assumes "printable r" and "operator_items (rq_operator r) (rq_strValues r) @ rest = (t, l) # later"
    and "token_operator t = Some (rq_operator r)"
    and "\<exists>ws. (if rq_operator r = OpIn \<or> rq_operator r = OpNotIn then parseValues later else parseExactValue later) =
      Ret (Inr (ws, rest)) \<and> sort ws = rq_strValues r"
    and "rq_operator r \<noteq> OpDoesNotExist"
  shows "parseRequirement (requirement_items r @ rest) = Ret (Inr (r, rest))"
proof -
  note r = printable_words [OF assms(1)]
  have t: "t \<notin> {CommaToken, EndOfStringToken}" using assms(3) by (auto simp: token_operator_def)
  have items: "requirement_items r @ rest = (word_token (rq_key r), rq_key r) # (t, l) # later"
    using assms(2,5) by (simp add: requirement_items_def)
  have "parseOperator ((t, l) # later) = Ret (Inr (rq_operator r, later))"
    using assms(3) by (simp add: parseOperator_def)
  moreover have "NewRequirement (rq_key r) (rq_operator r) (rq_strValues r) = Inr r" using assms(1) by (simp add: printable_def)
  ultimately show ?thesis
    using parse_key [OF r(1,2,5) t] assms(4) by (auto simp: parseRequirement_def items with_rest_def)
qed

lemma parse_requirement:
  assumes "printable r" and "follows rest"
  shows "parseRequirement (requirement_items r @ rest) = Ret (Inr (r, rest))"
proof -
  note r = printable_words [OF assms(1)] and op = printable_operator [OF assms(1)]
  have new: "NewRequirement (rq_key r) (rq_operator r) (rq_strValues r) = Inr r" "distinct (rq_strValues r)"
    using assms(1) by (simp_all add: printable_def)
  have exact: "parseRequirement (requirement_items r @ rest) = Ret (Inr (r, rest))"
    if "rq_strValues r = [v]" "operator_items (rq_operator r) [v] = (t, l) # value_items v"
      "token_operator t = Some (rq_operator r)" "rq_operator r \<notin> {OpIn, OpNotIn, OpDoesNotExist}" for v t l
    by (rule parse_binary [OF assms(1), of _ t l "value_items v @ rest"]) (use that r parse_exact assms(2) in auto)
  have set: "parseRequirement (requirement_items r @ rest) = Ret (Inr (r, rest))"
    if ne: "rq_strValues r \<noteq> []" and set_op: "rq_operator r \<in> {OpIn, OpNotIn}"
  proof -
    obtain t l where "operator_items (rq_operator r) (rq_strValues r) @ rest =
        (t, l) # (OpenParToken, ''('') # values_items (rq_strValues r) @ (ClosedParToken, '')'') # rest"
      "token_operator t = Some (rq_operator r)"
      using set_op by (auto simp: operator_items_def token_operator_def)
    moreover note parse_values [OF r(4) new(2) ne r(3), of rest]
    ultimately show ?thesis using set_op by (intro parse_binary [OF assms(1)]) auto
  qed
  obtain tok lit where tok: "lookahead Values rest = Ret (Inr ((tok, lit), rest))" "tok \<in> {CommaToken, EndOfStringToken}"
    using follows_lookahead [OF assms(2)] by blast
  show ?thesis
  proof (cases "rq_operator r")
    case OpDoesNotExist
    with op operator_values(9) have "rq_strValues r = []" by auto
    with OpDoesNotExist new r tok show ?thesis
      by (simp add: requirement_items_def operator_items_def parseRequirement_def parseKeyAndInferOperator_def
          word_in_values with_rest_def)
  next
    case OpExists
    with op operator_values(8) have "rq_strValues r = []" by auto
    with OpExists new r tok show ?thesis
      by (auto simp: requirement_items_def operator_items_def parseRequirement_def parseKeyAndInferOperator_def
          word_in_values with_rest_def)
  next
    case (OpOther x)
    with op operator_values(10) show ?thesis by auto
  next
    case OpIn
    with op operator_values(6) set show ?thesis by auto
  next
    case OpNotIn
    with op operator_values(7) set show ?thesis by auto
  next
    case OpEquals
    with op operator_values(1) obtain v where "rq_strValues r = [v]" by metis
    with exact [of v EqualsToken] OpEquals show ?thesis by (simp add: operator_items_def token_operator_def)
  next
    case OpDoubleEquals
    with op operator_values(2) obtain v where "rq_strValues r = [v]" by metis
    with exact [of v DoubleEqualsToken] OpDoubleEquals show ?thesis by (simp add: operator_items_def token_operator_def)
  next
    case OpNotEquals
    with op operator_values(3) obtain v where "rq_strValues r = [v]" by metis
    with exact [of v NotEqualsToken] OpNotEquals show ?thesis by (simp add: operator_items_def token_operator_def)
  next
    case OpGreaterThan
    with op operator_values(4) obtain v where "rq_strValues r = [v]" by metis
    with exact [of v GreaterThanToken] OpGreaterThan show ?thesis by (simp add: operator_items_def token_operator_def)
  next
    case OpLessThan
    with op operator_values(5) obtain v where "rq_strValues r = [v]" by metis
    with exact [of v LessThanToken] OpLessThan show ?thesis by (simp add: operator_items_def token_operator_def)
  qed
qed

lemma requirement_starts:
  assumes "printable r"
  obtains tok lit later where "requirement_items r @ rest = (tok, lit) # later"
    "in_context Values (tok, lit) \<in> {(IdentifierToken, lit), (DoesNotExistToken, lit)}"
proof (cases "rq_operator r = OpDoesNotExist")
  case True
  then show thesis using that [of DoesNotExistToken "''!''"] by (simp add: requirement_items_def)
next
  case False
  then show thesis using that [of "word_token (rq_key r)" "rq_key r"] printable_words(1,2) [OF assms]
    by (simp add: requirement_items_def word_in_values)
qed

lemma parse_selector: "list_all printable rs \<Longrightarrow> parse_loop found (selector_items rs) = Ret (Inr (found @ rs))"
proof (induction rs arbitrary: found rule: selector_items.induct)
  case 1
  then show ?case by (subst parse_loop.simps) simp
next
  case (2 r)
  then have "parseRequirement (selector_items [r]) = Ret (Inr (r, [(EndOfStringToken, [])]))"
    using parse_requirement [of r "[(EndOfStringToken, [])]"] by (simp add: follows_def)
  moreover obtain tok lit later where "selector_items [r] = (tok, lit) # later"
    "in_context Values (tok, lit) \<in> {(IdentifierToken, lit), (DoesNotExistToken, lit)}"
    using requirement_starts [of r "[(EndOfStringToken, [])]"] 2 by auto
  ultimately show ?case by (subst parse_loop.simps) auto
next
  case (3 r r' rs)
  let ?rest = "(CommaToken, '','') # selector_items (r' # rs)"
  have "parseRequirement (selector_items (r # r' # rs)) = Ret (Inr (r, ?rest))"
    using parse_requirement [of r ?rest] 3(2) by (simp add: follows_def)
  moreover obtain tok lit later where "selector_items (r # r' # rs) = (tok, lit) # later"
    "in_context Values (tok, lit) \<in> {(IdentifierToken, lit), (DoesNotExistToken, lit)}"
    using requirement_starts [of r ?rest] 3(2) by auto
  moreover obtain rest' where rest': "selector_items (r' # rs) = requirement_items r' @ rest'" by (cases rs) auto
  moreover obtain tok2 lit2 later2 where "requirement_items r' @ rest' = (tok2, lit2) # later2"
    "in_context Values (tok2, lit2) \<in> {(IdentifierToken, lit2), (DoesNotExistToken, lit2)}"
    using requirement_starts [of r' rest'] 3(2) by auto
  moreover have "parse_loop (found @ [r]) (selector_items (r' # rs)) = Ret (Inr ((found @ [r]) @ r' # rs))"
    using 3 by simp
  ultimately show ?case by (subst parse_loop.simps) auto
qed

lemma parse_printed:
  "list_all printable rs \<Longrightarrow>
     labels_Parse (join_with '','' (map Requirement_String rs)) = Ret (Inr (InternalSelector (sort_key rq_key rs)))"
  by (simp add: labels_Parse_def scan_selector parse_selector)

lemma sort_key_all: "list_all P (sort_key f xs) = list_all P xs"
  by (simp add: list_all_iff)

lemma key_ok: "validateLabelKey ''caffe2_job'' = None"
  by code_simp

section \<open>Properties\<close>

text \<open>
  C31. A selector survives its text: parsing what \<open>String\<close> writes of a selector whose requirements
  \<open>NewRequirement\<close> accepts (every operator, sets of values without repetitions, empty values, keys and
  values that look like the keywords \<open>in\<close> and \<open>notin\<close>) gives the same requirements, sorted by key, and so
  a selector that matches the same labels.
\<close>

theorem selector_text_roundtrip:
  assumes "list_all printable rs"
  shows "labels_Parse (Selector_String (InternalSelector rs)) = Ret (Inr (InternalSelector (sort_key rq_key rs))) \<and>
    (\<forall>l. Selector_Matches (InternalSelector (sort_key rq_key rs)) l = Selector_Matches (InternalSelector rs) l)"
  using parse_printed [OF assms] by (simp add: sort_key_all)

theorem selector_text_roundtrip_witness:
  "labels_Parse ''x in (,in),!y,z=notin'' =
     Ret (Inr (InternalSelector
       [\<lparr>rq_key = ''x'', rq_operator = OpIn, rq_strValues = [[], ''in'']\<rparr>,
        \<lparr>rq_key = ''y'', rq_operator = OpDoesNotExist, rq_strValues = []\<rparr>,
        \<lparr>rq_key = ''z'', rq_operator = OpEquals, rq_strValues = [''notin'']\<rparr>]))"
proof -
  let ?rs = "[\<lparr>rq_key = ''x'', rq_operator = OpIn, rq_strValues = [[], ''in'']\<rparr>,
    \<lparr>rq_key = ''y'', rq_operator = OpDoesNotExist, rq_strValues = []\<rparr>,
    \<lparr>rq_key = ''z'', rq_operator = OpEquals, rq_strValues = [''notin'']\<rparr>]"
  have "list_all printable ?rs" by code_simp
  moreover have "Selector_String (InternalSelector ?rs) = ''x in (,in),!y,z=notin''" by code_simp
  moreover have "sort_key rq_key ?rs = ?rs" by code_simp
  ultimately show ?thesis using selector_text_roundtrip [of ?rs] by simp
qed

text \<open>
  The parser always answers: on any text, NUL bytes and unbalanced parentheses included, it ends
  with a selector or an error, and its unchecked accesses to the scanned items stay within them.
\<close>

theorem labels_Parse_total: "\<exists>r. labels_Parse selector = Ret r"
  using parse_loop_ends [OF scan_ended [of selector], of "[]"]
  by (auto simp: labels_Parse_def split: sum.split)

text \<open>
  What \<open>JobListOpt\<close> asks for. For a name that can be a label value, the server reads its text as a
  selector that matches exactly the labels with this job name and the operator's app label; for any
  other name, one of more than 63 characters for instance, the text is empty and selects everything.
\<close>

lemma JobListOpt_selects:
  "\<exists>sel. labels_Parse (lo_LabelSelector (JobListOpt clusterName)) = Ret (Inr sel) \<and>
    (\<forall>l. Selector_Matches sel l \<longleftrightarrow>
      (if IsValidLabelValue clusterName = []
       then map_of l ''caffe2_job'' = Some clusterName \<and> map_of l ''app'' = Some AppLabel
       else True))"
proof (cases "IsValidLabelValue clusterName = []")
  case True
  let ?job = "\<lparr>rq_key = ''caffe2_job'', rq_operator = OpEquals, rq_strValues = [clusterName]\<rparr>"
  let ?app = "\<lparr>rq_key = ''app'', rq_operator = OpEquals, rq_strValues = [AppLabel]\<rparr>"
  have key: "validateLabelKey ''caffe2_job'' = None" "validateLabelKey ''app'' = None" "validateLabelValue AppLabel = None"
    by code_simp+
  have new: "NewRequirement ''caffe2_job'' OpEquals [clusterName] = Inr ?job" "NewRequirement ''app'' OpEquals [AppLabel] = Inr ?app"
    using True key by (simp_all add: NewRequirement_def operator_error_def validateLabelValue_def)
  have "requirements_of_set (LabelsForJob clusterName) = Some [?job, ?app]"
    using new by (simp add: LabelsForJob_def)
  then have "lo_LabelSelector (JobListOpt clusterName) =
      join_with '','' (map Requirement_String (sort_key rq_key [?job, ?app]))"
    by (simp add: JobListOpt_def SelectorFromSet_def)
  moreover have "list_all printable (sort_key rq_key [?job, ?app])"
    using new by (simp add: sort_key_all printable_def)
  ultimately have "labels_Parse (lo_LabelSelector (JobListOpt clusterName)) =
      Ret (Inr (InternalSelector (sort_key rq_key (sort_key rq_key [?job, ?app]))))"
    by (simp only: parse_printed)
  moreover have "Selector_Matches (InternalSelector (sort_key rq_key (sort_key rq_key [?job, ?app]))) l \<longleftrightarrow>
      map_of l ''caffe2_job'' = Some clusterName \<and> map_of l ''app'' = Some AppLabel" for l
    by (auto simp: sort_key_all Requirement_Matches_def Set_Has_def Set_Get_def split: option.splits)
  ultimately show ?thesis unfolding if_P [OF True] by blast
next
  case False
  then have "NewRequirement ''caffe2_job'' OpEquals [clusterName] =
      Inl (Errorf ''invalid label value: %q: %s'' (clusterName # IsValidLabelValue clusterName) [])"
    using key_ok by (simp add: NewRequirement_def operator_error_def validateLabelValue_def)
  then have "lo_LabelSelector (JobListOpt clusterName) = []"
    by (simp add: JobListOpt_def SelectorFromSet_def LabelsForJob_def)
  moreover have "labels_Parse [] = Ret (Inr (InternalSelector []))" by code_simp
  ultimately show ?thesis unfolding if_not_P [OF False] by (auto intro: exI [of _ "InternalSelector []"])
qed

end
