(* ===== verification/ConfigGen.thy ===== *)
theory ConfigGen
  imports ApiTypes
begin

text \<open>
  pkg/controller/config.go: the names of the workers and the CAFFE2_CONFIG value every
  worker gets, with the part of \<open>encoding/json\<close> it needs (strings, with the escapes of
  \<open>json.Marshal\<close> and its treatment of invalid UTF-8, decimal integers, objects in field
  order); and \<open>genLabels\<close> of pkg/controller/controller.go.
\<close>

section \<open>JSON encoding\<close>

definition byte_in :: "nat \<Rightarrow> nat \<Rightarrow> char \<Rightarrow> bool" where
  "byte_in lo hi c \<longleftrightarrow> lo \<le> of_char c \<and> of_char c \<le> hi"

text \<open>
  \<open>utf8.DecodeRuneInString\<close>: the number of bytes of the rune that starts the string, 0 when
  the bytes are not valid UTF-8 (Go then consumes one byte).
\<close>

definition utf8_size :: "string \<Rightarrow> nat" where
  "utf8_size s =
     (case s of
        [] \<Rightarrow> 0
      | b # r \<Rightarrow>
          let cont = byte_in 128 191 in
          if byte_in 0 127 b then 1
          else if byte_in 194 223 b then (case r of c1 # _ \<Rightarrow> if cont c1 then 2 else 0 | _ \<Rightarrow> 0)
          else if byte_in 224 239 b then
            (case r of
               c1 # c2 # _ \<Rightarrow>
                 if (if byte_in 224 224 b then byte_in 160 191 c1
                     else if byte_in 237 237 b then byte_in 128 159 c1 else cont c1) \<and> cont c2
                 then 3 else 0
             | _ \<Rightarrow> 0)
          else if byte_in 240 244 b then
            (case r of
               c1 # c2 # c3 # _ \<Rightarrow>
                 if (if byte_in 240 240 b then byte_in 144 191 c1
                     else if byte_in 244 244 b then byte_in 128 143 c1 else cont c1) \<and> cont c2 \<and> cont c3
                 then 4 else 0
             | _ \<Rightarrow> 0)
          else 0)"

definition hex_digit :: "nat \<Rightarrow> char" where "hex_digit d = ''0123456789abcdef'' ! d"

definition backslash :: char where "backslash = char_of (92 :: nat)"
definition quote :: char where "quote = char_of (34 :: nat)"

text \<open>One ASCII byte: the safe ones as they are, with \<open><\<close>, \<open>>\<close> and \<open>&\<close> escaped.\<close>

definition json_ascii :: "char \<Rightarrow> string" where
  "json_ascii c =
     (let b = of_char c :: nat in
      if c = backslash \<or> c = quote then [backslash, c]
      else if b = 10 then [backslash, CHR ''n'']
      else if b = 13 then [backslash, CHR ''r'']
      else if b = 9 then [backslash, CHR ''t'']
      else if b < 32 \<or> c = CHR ''<'' \<or> c = CHR ''>'' \<or> c = CHR ''&''
        then [backslash] @ ''u00'' @ [hex_digit (b div 16), hex_digit (b mod 16)]
      else [c])"

text \<open>Go's loop over the runes of the string; U+2028 and U+2029 are the bytes E2 80 A8 and E2 80 A9.\<close>

function json_runes :: "string \<Rightarrow> string" where
  "json_runes [] = []"
| "json_runes (c # s) =
     (if byte_in 0 127 c then json_ascii c @ json_runes s
      else let n = utf8_size (c # s) in
        if n = 0 then [backslash] @ ''ufffd'' @ json_runes s
        else if take n (c # s) = [char_of (226::nat), char_of (128::nat), char_of (168::nat)]
          then [backslash] @ ''u2028'' @ json_runes (drop (n - 1) s)
        else if take n (c # s) = [char_of (226::nat), char_of (128::nat), char_of (169::nat)]
          then [backslash] @ ''u2029'' @ json_runes (drop (n - 1) s)
        else take n (c # s) @ json_runes (drop (n - 1) s))"
  by pat_completeness auto
termination
  by (relation "measure length") auto

definition json_string :: "string \<Rightarrow> string" where
  "json_string s = [quote] @ json_runes s @ [quote]"

definition json_array :: "string list \<Rightarrow> string" where
  "json_array xs = ''['' @ join_with '','' xs @ '']''"

definition json_object :: "(string \<times> string) list \<Rightarrow> string" where
  "json_object kvs = ''{'' @ join_with '','' (map (\<lambda>(k, v). json_string k @ '':'' @ v) kvs) @ ''}''"

section \<open>The configuration\<close>

type_synonym ClusterSpec = "(string \<times> string list) list"

record TaskSpec =
  ts_Type :: string
  ts_Index :: int

record Caffe2Config =
  cf_Cluster :: ClusterSpec
  cf_Task :: TaskSpec

definition Caffe2Port :: int where "Caffe2Port = 2222"

definition genGeneralName :: "string \<Rightarrow> string \<Rightarrow> string \<Rightarrow> string" where
  "genGeneralName jobKey rtype index =
     (let n = jobKey @ ''-'' @ rtype @ ''-'' @ index in replace_slash n)"

text \<open>\<open>for i := int32(0); i < *spec.Replicas; i++\<close>, with the counter at its width.\<close>

lemma sint_inc:
  fixes i n :: int32
  assumes "sint i < sint n"
  shows "sint (i + 1) = sint i + 1"
proof -
  have "sint n < 2 ^ 31" "- (2 ^ 31) \<le> sint i"
    using sint_lt [of n] sint_ge [of i] by simp_all
  with assms have "signed_take_bit 31 (sint i + 1) = sint i + 1"
    by (intro signed_take_bit_int_eq_self) auto
  then show ?thesis by (simp add: sint_word_ariths)
qed

function host_loop :: "string \<Rightarrow> string \<Rightarrow> int32 \<Rightarrow> int32 \<Rightarrow> string list" where
  "host_loop jobKey rtype i n =
     (if sint i < sint n
      then (genGeneralName jobKey rtype (itoa (sint i)) @ '':'' @ itoa Caffe2Port)
             # host_loop jobKey rtype (i + 1) n
      else [])"
  by pat_completeness auto
termination
  by (relation "measure (\<lambda>(_, _, i, n). nat (sint n - sint i))") (auto simp: sint_inc)

declare host_loop.simps [simp del]

text \<open>\<open>make([]string, 0, *spec.Replicas)\<close> panics on a negative count.\<close>

definition genClusterSpec :: "Caffe2Job \<Rightarrow> ClusterSpec outcome" where
  "genClusterSpec job =
     (let jobKey = MetaNamespaceKey (job_Meta job); rtype = ''worker'' in
      bind_outcome (deref (js_ReplicaSpecs (job_Spec job))) (\<lambda>spec.
        bind_outcome (deref (rs_Replicas spec)) (\<lambda>n.
          if sint n < 0 then Panic NegativeLength
          else Ret [(rtype, host_loop jobKey rtype 0 n)])))"

definition marshal_config :: "Caffe2Config \<Rightarrow> string" where
  "marshal_config c =
     json_object
       [(''cluster'', json_object (map (\<lambda>(k, hosts). (k, json_array (map json_string hosts))) (cf_Cluster c))),
        (''task'', json_object
           [(''type'', json_string (ts_Type (cf_Task c))), (''index'', itoa (ts_Index (cf_Task c)))])]"

definition genCaffe2ConfigJSONStr :: "Caffe2Job \<Rightarrow> string \<Rightarrow> string \<Rightarrow> string outcome" where
  "genCaffe2ConfigJSONStr job rtype index =
     (case parse_int 0 32 index of
        None \<Rightarrow> Ret []
      | Some i \<Rightarrow>
          bind_outcome (genClusterSpec job) (\<lambda>cluster.
            Ret (marshal_config \<lparr>cf_Cluster = cluster, cf_Task = \<lparr>ts_Type = rtype, ts_Index = i\<rparr>\<rparr>)))"

section \<open>Labels\<close>

definition genLabels :: "string \<Rightarrow> string \<Rightarrow> label_map" where
  "genLabels rid jobKey =
     [(''group_name'', GroupName), (''caffe2_job_key'', replace_slash jobKey), (''runtime_id'', rid)]"

lemma wf_genLabels [simp]: "wf_map (genLabels rid jobKey)"
  by (simp add: genLabels_def)

section \<open>Lemmas\<close>

lemma host_loop_upt:
  "host_loop jobKey rtype i n =
     map (\<lambda>k. genGeneralName jobKey rtype (itoa k) @ '':'' @ itoa Caffe2Port) [sint i..sint n - 1]"
proof (induction jobKey rtype i n rule: host_loop.induct)
  case (1 jobKey rtype i n)
  show ?case
  proof (cases "sint i < sint n")
    case True
    with 1 show ?thesis
      by (simp add: host_loop.simps [of jobKey rtype i n] sint_inc upto_rec1 [of "sint i"])
  next
    case False
    then show ?thesis by (simp add: host_loop.simps [of jobKey rtype i n])
  qed
qed

definition worker_host :: "ObjectMeta \<Rightarrow> int \<Rightarrow> string" where
  "worker_host meta k = replace_slash (MetaNamespaceKey meta) @ ''-worker-'' @ itoa k @ '':2222''"

lemma worker_host_general:
  "genGeneralName (MetaNamespaceKey meta) ''worker'' (itoa k) @ '':'' @ itoa Caffe2Port = worker_host meta k"
proof -
  have "itoa Caffe2Port = ''2222''" by code_simp
  moreover have "replace_slash (itoa k) = itoa k" by (rule replace_slash_id [OF itoa_no_slash])
  moreover have "replace_slash ''worker'' = ''worker''" "replace_slash ''-'' = ''-''" by code_simp+
  ultimately show ?thesis by (simp add: genGeneralName_def worker_host_def replace_slash_def)
qed

lemma worker_host_inject: "worker_host meta j = worker_host meta k \<longleftrightarrow> j = k"
  by (simp add: worker_host_def)

lemma genClusterSpec_Ret:
  assumes "js_ReplicaSpecs (job_Spec job) = Some spec" and "rs_Replicas spec = Some n" and "0 \<le> sint n"
  shows "genClusterSpec job = Ret [(''worker'', map (worker_host (job_Meta job)) [0..sint n - 1])]"
  using assms by (simp add: genClusterSpec_def Let_def host_loop_upt worker_host_general [symmetric] del: append.simps)

lemma marshal_config_not_Nil [simp]: "marshal_config c \<noteq> []"
  by (simp add: marshal_config_def json_object_def)

lemma genCaffe2ConfigJSONStr_ok:
  assumes "js_ReplicaSpecs (job_Spec job) = Some spec" and "rs_Replicas spec = Some n"
    and "0 \<le> i" and "i < sint n"
  shows "genCaffe2ConfigJSONStr job rtype (itoa i) =
      Ret (marshal_config
        \<lparr>cf_Cluster = [(''worker'', map (worker_host (job_Meta job)) [0..sint n - 1])],
         cf_Task = \<lparr>ts_Type = rtype, ts_Index = i\<rparr>\<rparr>)"
proof -
  have "sint n < 2 ^ 31" using sint_lt [of n] by simp
  with assms(3,4) have "parse_int 0 32 (itoa i) = Some i"
    by (intro parse_int_itoa) auto
  with assms show ?thesis
    by (simp add: genCaffe2ConfigJSONStr_def genClusterSpec_Ret)
qed

section \<open>Properties\<close>

text \<open>
  The cluster specification lists one host per replica, the \<open>i\<close>-th built from the job key
  and \<open>i\<close>; the hosts are pairwise different. A negative replica count panics.
\<close>

theorem genClusterSpec_hosts:
  assumes "js_ReplicaSpecs (job_Spec job) = Some spec" and "rs_Replicas spec = Some n"
  shows "if sint n < 0 then genClusterSpec job = Panic NegativeLength
    else \<exists>hosts. genClusterSpec job = Ret [(''worker'', hosts)] \<and> int (length hosts) = sint n \<and>
      distinct hosts \<and> (\<forall>i < length hosts. hosts ! i = worker_host (job_Meta job) (int i))"
proof (cases "sint n < 0")
  case True
  with assms show ?thesis by (simp add: genClusterSpec_def)
next
  case False
  then have "0 \<le> sint n" by simp
  then have "genClusterSpec job = Ret [(''worker'', map (worker_host (job_Meta job)) [0..sint n - 1])]"
    by (rule genClusterSpec_Ret [OF assms])
  with False show ?thesis
    by (auto simp: distinct_map inj_on_def worker_host_inject nth_upto)
qed

theorem genClusterSpec_hosts_witness:
  "\<exists>hosts. genClusterSpec sample_job = Ret [(''worker'', hosts)] \<and> length hosts = 2 \<and> distinct hosts"
proof -
  have "js_ReplicaSpecs (job_Spec sample_job) = Some sample_spec" "rs_Replicas sample_spec = Some 2"
    by (simp_all add: sample_job_defs)
  from genClusterSpec_hosts [OF this] show ?thesis by auto
qed


text \<open>
  For every index the reconciler hands it (a decimal numeral from 0 up to the number of
  replicas), the CAFFE2_CONFIG value is produced, is not the empty string the caller takes
  for failure, and carries that very index and all hosts.
\<close>

theorem genCaffe2Config_total:
  assumes "js_ReplicaSpecs (job_Spec job) = Some spec" and "rs_Replicas spec = Some n"
    and "0 \<le> i" and "i < sint n"
  shows "genCaffe2ConfigJSONStr job rtype (itoa i) =
      Ret (marshal_config
        \<lparr>cf_Cluster = [(''worker'', map (worker_host (job_Meta job)) [0..sint n - 1])],
         cf_Task = \<lparr>ts_Type = rtype, ts_Index = i\<rparr>\<rparr>) \<and>
    genCaffe2ConfigJSONStr job rtype (itoa i) \<noteq> Ret []"
  by (simp add: genCaffe2ConfigJSONStr_ok [OF assms])

theorem genCaffe2Config_total_witness: "genCaffe2ConfigJSONStr sample_job ''worker'' (itoa 1) \<noteq> Ret []"
proof -
  have "js_ReplicaSpecs (job_Spec sample_job) = Some sample_spec" "rs_Replicas sample_spec = Some 2"
    by (simp_all add: sample_job_defs)
  from genCaffe2Config_total [OF this, of 1 "''worker''"] show ?thesis by simp
qed


end
