(* ===== verification/PodControl.thy ===== *)
theory PodControl
  imports Selectors
begin

text \<open>
  The API server as the operator sees it, and pkg/controller/controller_utils.go: the pods
  and services it creates, deletes and patches there, with the events it records; and the
  fake service control used in tests. The server, the clock and the event recorder are not
  part of the repository: they are the record \<open>api\<close>, every one of whose operations takes the
  world and returns it changed.
\<close>

section \<open>The world\<close>

record Event =
  evt_Type :: string
  evt_Reason :: string
  evt_Format :: string
  evt_Args :: "string list"
  evt_Errors :: "go_error list"

record 'w api =
  api_now :: "'w \<Rightarrow> time \<times> 'w"
  api_create_pod :: "string \<Rightarrow> Pod \<Rightarrow> 'w \<Rightarrow> (go_error + Pod) \<times> 'w"
  api_delete_pod :: "string \<Rightarrow> string \<Rightarrow> 'w \<Rightarrow> go_error option \<times> 'w"
  api_patch_pod :: "string \<Rightarrow> string \<Rightarrow> string \<Rightarrow> 'w \<Rightarrow> go_error option \<times> 'w"
  api_create_service :: "string \<Rightarrow> Service \<Rightarrow> 'w \<Rightarrow> (go_error + Service) \<times> 'w"
  api_patch_service :: "string \<Rightarrow> string \<Rightarrow> string \<Rightarrow> 'w \<Rightarrow> go_error option \<times> 'w"
  api_get_job :: "string \<Rightarrow> string \<Rightarrow> 'w \<Rightarrow> (go_error + Caffe2Job) \<times> 'w"
  api_update_job :: "string \<Rightarrow> Caffe2Job \<Rightarrow> 'w \<Rightarrow> go_error option \<times> 'w"
  api_event :: "Event \<Rightarrow> 'w \<Rightarrow> 'w"

text \<open>
  One server, for the concrete runs: it accepts everything, knows no job and writes down what it is
  asked. Nothing about the operator rests on it.
\<close>

definition recording_api :: "string list api" where
  "recording_api = \<lparr>
     api_now = (\<lambda>w. (int (length w), w)),
     api_create_pod = (\<lambda>namespace pod w. (Inr pod, (''create pod in '' @ namespace) # w)),
     api_delete_pod = (\<lambda>namespace name w. (None, (''delete '' @ name) # w)),
     api_patch_pod = (\<lambda>namespace name data w. (None, (''patch '' @ name) # w)),
     api_create_service = (\<lambda>namespace service w. (Inr service, (''create service in '' @ namespace) # w)),
     api_patch_service = (\<lambda>namespace name data w. (None, (''patch '' @ name) # w)),
     api_get_job = (\<lambda>namespace name w. (Inl (StatusError ''NotFound'' name), (''get '' @ name) # w)),
     api_update_job = (\<lambda>namespace job w. (None, (''update '' @ job_Name job) # w)),
     api_event = (\<lambda>event w. (''event '' @ evt_Reason event) # w)\<rparr>"

section \<open>Pods from templates\<close>

definition getPodsLabelSet :: "PodTemplateSpec \<Rightarrow> label_map" where
  "getPodsLabelSet template = range_write [] (map_entries (om_Labels (pt_Meta template)))"

definition getPodsFinalizers :: "PodTemplateSpec \<Rightarrow> string list" where
  "getPodsFinalizers template = om_Finalizers (pt_Meta template)"

definition getPodsAnnotationSet :: "PodTemplateSpec \<Rightarrow> label_map" where
  "getPodsAnnotationSet template = range_write [] (map_entries (om_Annotations (pt_Meta template)))"

definition validatePodName :: "string \<Rightarrow> bool \<Rightarrow> string list outcome" where
  "validatePodName name prefix = NameIsDNSSubdomain name prefix"

definition getPodsPrefix :: "string \<Rightarrow> string outcome" where
  "getPodsPrefix controllerName =
     (let prefix = controllerName @ ''-'' in
      bind_outcome (validatePodName prefix True) (\<lambda>errs.
        Ret (if errs \<noteq> [] then controllerName else prefix)))"

definition validateControllerRef :: "OwnerReference option \<Rightarrow> go_error option" where
  "validateControllerRef controllerRef =
     (case controllerRef of
        None \<Rightarrow> Some (Errorf ''controllerRef is nil'' [] [])
      | Some r \<Rightarrow>
          if or_APIVersion r = [] then Some (Errorf ''controllerRef has empty APIVersion'' [] [])
          else if or_Kind r = [] then Some (Errorf ''controllerRef has empty Kind'' [] [])
          else if or_Controller r \<noteq> Some True then Some (Errorf ''controllerRef.Controller is not set to true'' [] [])
          else if or_BlockOwnerDeletion r \<noteq> Some True
            then Some (Errorf ''controllerRef.BlockOwnerDeletion is not set'' [] [])
          else None)"

text \<open>
  The parent object is given by what \<open>meta.Accessor\<close> finds in it: its metadata, or nothing,
  in which case the accessor fails.
\<close>

definition GetPodFromTemplate ::
  "PodTemplateSpec \<Rightarrow> ObjectMeta option \<Rightarrow> OwnerReference option \<Rightarrow> (go_error + Pod) outcome" where
  "GetPodFromTemplate template parentObject controllerRef =
     (let desiredLabels = getPodsLabelSet template;
          desiredFinalizers = getPodsFinalizers template;
          desiredAnnotations = getPodsAnnotationSet template in
      case parentObject of
        None \<Rightarrow> Ret (Inl (Errorf ''parentObject does not have ObjectMeta, %v'' [] []))
      | Some accessor \<Rightarrow>
          bind_outcome (getPodsPrefix (om_Name accessor)) (\<lambda>prefix.
            Ret (Inr \<lparr>pod_Meta = zero_ObjectMeta\<lparr>om_Labels := Some desiredLabels,
                        om_Annotations := Some desiredAnnotations,
                        om_GenerateName := prefix,
                        om_Finalizers := desiredFinalizers,
                        om_OwnerReferences :=
                          (case controllerRef of None \<Rightarrow> [] | Some r \<Rightarrow> [r])\<rparr>,
                      pod_Spec = pt_Spec template,
                      pod_Phase = []\<rparr>)))"

section \<open>RealPodControl\<close>

definition FailedCreatePodReason :: string where "FailedCreatePodReason = ''FailedCreate''"
definition SuccessfulCreatePodReason :: string where "SuccessfulCreatePodReason = ''SuccessfulCreate''"
definition FailedDeletePodReason :: string where "FailedDeletePodReason = ''FailedDelete''"
definition SuccessfulDeletePodReason :: string where "SuccessfulDeletePodReason = ''SuccessfulDelete''"
definition FailedCreateServiceReason :: string where "FailedCreateServiceReason = ''FailedCreateService''"
definition SuccessfulCreateServiceReason :: string where
  "SuccessfulCreateServiceReason = ''SuccessfulCreateService''"

definition warning_event :: "string \<Rightarrow> string \<Rightarrow> go_error \<Rightarrow> Event" where
  "warning_event reason fmt err =
     \<lparr>evt_Type = ''Warning'', evt_Reason = reason, evt_Format = fmt, evt_Args = [], evt_Errors = [err]\<rparr>"

definition normal_event :: "string \<Rightarrow> string \<Rightarrow> string \<Rightarrow> Event" where
  "normal_event reason fmt arg =
     \<lparr>evt_Type = ''Normal'', evt_Reason = reason, evt_Format = fmt, evt_Args = [arg], evt_Errors = []\<rparr>"

definition createPods ::
  "'w api \<Rightarrow> string \<Rightarrow> string \<Rightarrow> PodTemplateSpec \<Rightarrow> ObjectMeta option \<Rightarrow> OwnerReference option \<Rightarrow>
     ('w, go_error option) action" where
  "createPods api nodeName namespace template object controllerRef w =
     (case GetPodFromTemplate template object controllerRef of
        Panic p \<Rightarrow> (Panic p, w)
      | Ret (Inl err) \<Rightarrow> (Ret (Some err), w)
      | Ret (Inr pod0) \<Rightarrow>
          let pod = (if nodeName \<noteq> [] then pod0\<lparr>pod_Spec := (pod_Spec pod0)\<lparr>ps_NodeName := nodeName\<rparr>\<rparr> else pod0) in
          if Selector_Empty (SelectorFromValidatedSet (pod_labels pod))
            then (Ret (Some (Errorf ''unable to create pods, no labels'' [] [])), w)
          else
            (case api_create_pod api namespace pod w of
               (Inl err, w1) \<Rightarrow>
                 (Ret (Some err), api_event api (warning_event FailedCreatePodReason ''Error creating: %v'' err) w1)
             | (Inr newPod, w1) \<Rightarrow>
                 (case object of
                    None \<Rightarrow> (Ret None, w1)
                  | Some accessor \<Rightarrow>
                      (Ret None, api_event api
                         (normal_event SuccessfulCreatePodReason ''Created pod: %v'' (om_Name (pod_Meta newPod))) w1))))"

definition CreatePods ::
  "'w api \<Rightarrow> string \<Rightarrow> PodTemplateSpec \<Rightarrow> ObjectMeta option \<Rightarrow> ('w, go_error option) action" where
  "CreatePods api namespace template object w = createPods api [] namespace template object None w"

definition CreatePodsWithControllerRef ::
  "'w api \<Rightarrow> string \<Rightarrow> PodTemplateSpec \<Rightarrow> ObjectMeta option \<Rightarrow> OwnerReference option \<Rightarrow>
     ('w, go_error option) action" where
  "CreatePodsWithControllerRef api namespace template controllerObject controllerRef w =
     (case validateControllerRef controllerRef of
        Some err \<Rightarrow> (Ret (Some err), w)
      | None \<Rightarrow> createPods api [] namespace template controllerObject controllerRef w)"

definition CreatePodsOnNode ::
  "'w api \<Rightarrow> string \<Rightarrow> string \<Rightarrow> PodTemplateSpec \<Rightarrow> ObjectMeta option \<Rightarrow> OwnerReference option \<Rightarrow>
     ('w, go_error option) action" where
  "CreatePodsOnNode api nodeName namespace template object controllerRef w =
     (case validateControllerRef controllerRef of
        Some err \<Rightarrow> (Ret (Some err), w)
      | None \<Rightarrow> createPods api nodeName namespace template object controllerRef w)"

definition PatchPod :: "'w api \<Rightarrow> string \<Rightarrow> string \<Rightarrow> string \<Rightarrow> 'w \<Rightarrow> go_error option \<times> 'w" where
  "PatchPod api namespace name data w = api_patch_pod api namespace name data w"

definition DeletePod ::
  "'w api \<Rightarrow> string \<Rightarrow> string \<Rightarrow> ObjectMeta option \<Rightarrow> 'w \<Rightarrow> go_error option \<times> 'w" where
  "DeletePod api namespace podID object w =
     (case object of
        None \<Rightarrow> (Some (Errorf ''object does not have ObjectMeta, %v'' [] []), w)
      | Some accessor \<Rightarrow>
          (case api_delete_pod api namespace podID w of
             (Some err, w1) \<Rightarrow>
               (Some (Errorf ''unable to delete pods: %v'' [] [err]),
                api_event api (warning_event FailedDeletePodReason ''Error deleting: %v'' err) w1)
           | (None, w1) \<Rightarrow>
               (None, api_event api (normal_event SuccessfulDeletePodReason ''Deleted pod: %v'' podID) w1)))"

section \<open>RealServiceControl\<close>

definition PatchService :: "'w api \<Rightarrow> string \<Rightarrow> string \<Rightarrow> string \<Rightarrow> 'w \<Rightarrow> go_error option \<times> 'w" where
  "PatchService api namespace name data w = api_patch_service api namespace name data w"

definition createServices ::
  "'w api \<Rightarrow> string \<Rightarrow> Service \<Rightarrow> ObjectMeta option \<Rightarrow> OwnerReference option \<Rightarrow> 'w \<Rightarrow> go_error option \<times> 'w" where
  "createServices api namespace service object controllerRef w =
     (if Selector_Empty (SelectorFromValidatedSet (map_entries (om_Labels (svc_Meta service))))
      then (Some (Errorf ''unable to create Services, no labels'' [] []), w)
      else
        (case api_create_service api namespace service w of
           (Inl err, w1) \<Rightarrow>
             (Some (Errorf ''unable to create services: %v'' [] [err]),
              api_event api (warning_event FailedCreateServiceReason ''Error creating: %v'' err) w1)
         | (Inr newService, w1) \<Rightarrow>
             (case object of
                None \<Rightarrow> (None, w1)
              | Some accessor \<Rightarrow>
                  (None, api_event api (normal_event SuccessfulCreateServiceReason ''Created service: %v''
                     (om_Name (svc_Meta newService))) w1))))"

definition CreateServices ::
  "'w api \<Rightarrow> string \<Rightarrow> Service \<Rightarrow> ObjectMeta option \<Rightarrow> 'w \<Rightarrow> go_error option \<times> 'w" where
  "CreateServices api namespace service object w = createServices api namespace service object None w"

definition CreateServicesWithControllerRef ::
  "'w api \<Rightarrow> string \<Rightarrow> Service \<Rightarrow> ObjectMeta option \<Rightarrow> OwnerReference option \<Rightarrow> 'w \<Rightarrow> go_error option \<times> 'w" where
  "CreateServicesWithControllerRef api namespace service controllerObject controllerRef w =
     (case validateControllerRef controllerRef of
        Some err \<Rightarrow> (Some err, w)
      | None \<Rightarrow> createServices api namespace service controllerObject controllerRef w)"

section \<open>FakeServiceControl\<close>

text \<open>Every method holds the lock throughout, so it is one step on the struct.\<close>

record FakeServiceControl =
  fs_Templates :: "Service list"
  fs_ControllerRefs :: "OwnerReference list"
  fs_DeletePodName :: "string list"
  fs_Patches :: "string list"
  fs_Err :: "go_error option"
  fs_CreateLimit :: int
  fs_CreateCallCount :: int

definition Fake_PatchService :: "string \<Rightarrow> FakeServiceControl \<Rightarrow> go_error option \<times> FakeServiceControl" where
  "Fake_PatchService data f =
     (let f1 = f\<lparr>fs_Patches := fs_Patches f @ [data]\<rparr> in (fs_Err f1, f1))"

definition Fake_limit_error :: "FakeServiceControl \<Rightarrow> go_error" where
  "Fake_limit_error f =
     Errorf ''Not creating service, limit %d already reached (create call %d)''
       [itoa (fs_CreateLimit f), itoa (fs_CreateCallCount f)] []"

definition Fake_CreateServices :: "Service \<Rightarrow> FakeServiceControl \<Rightarrow> go_error option \<times> FakeServiceControl" where
  "Fake_CreateServices service f =
     (let f1 = f\<lparr>fs_CreateCallCount := fs_CreateCallCount f + 1\<rparr> in
      if fs_CreateLimit f1 \<noteq> 0 \<and> fs_CreateLimit f1 < fs_CreateCallCount f1 then (Some (Fake_limit_error f1), f1)
      else let f2 = f1\<lparr>fs_Templates := fs_Templates f1 @ [service]\<rparr> in (fs_Err f2, f2))"

definition Fake_CreateServicesWithControllerRef ::
  "Service \<Rightarrow> OwnerReference option \<Rightarrow> FakeServiceControl \<Rightarrow> go_error option outcome \<times> FakeServiceControl" where
  "Fake_CreateServicesWithControllerRef service controllerRef f =
     (let f1 = f\<lparr>fs_CreateCallCount := fs_CreateCallCount f + 1\<rparr> in
      if fs_CreateLimit f1 \<noteq> 0 \<and> fs_CreateLimit f1 < fs_CreateCallCount f1 then (Ret (Some (Fake_limit_error f1)), f1)
      else let f2 = f1\<lparr>fs_Templates := fs_Templates f1 @ [service]\<rparr> in
        (case controllerRef of
           None \<Rightarrow> (Panic NilDeref, f2)
         | Some r \<Rightarrow> let f3 = f2\<lparr>fs_ControllerRefs := fs_ControllerRefs f2 @ [r]\<rparr> in (Ret (fs_Err f3), f3)))"

section \<open>Lemmas\<close>

lemma maskTrailingDash_dash:
  "name \<noteq> [] \<Longrightarrow> maskTrailingDash (name @ ''-'') = Ret (butlast name @ ''a'')"
  by (cases name rule: rev_cases) (simp_all add: maskTrailingDash_def)

lemma dns1123SubdomainRegexp_last:
  assumes "dns1123SubdomainRegexp (s @ [x])"
  shows "dns1123SubdomainRegexp (s @ ''a'')"
proof -
  let ?parts = "split_on (CHR ''.'') s"
  have x: "x \<noteq> CHR ''.''"
    using assms by (auto simp: dns1123SubdomainRegexp_def split_on_snoc dns1123LabelRegexp_def)
  then have parts: "list_all dns1123LabelRegexp (butlast ?parts)"
    and "dns1123LabelRegexp (last ?parts @ [x])"
    using assms by (simp_all add: dns1123SubdomainRegexp_def split_on_snoc)
  moreover have "dns_char (CHR ''a'')" by code_simp
  ultimately have "dns1123LabelRegexp (last ?parts @ ''a'')"
    by (cases "last ?parts") (auto simp: dns1123LabelRegexp_def)
  with parts show ?thesis by (simp add: dns1123SubdomainRegexp_def split_on_snoc)
qed

lemma getPodsPrefix_named:
  assumes "name \<noteq> []"
  shows "getPodsPrefix name =
    Ret (if IsDNS1123Subdomain (butlast name @ ''a'') = [] then name @ ''-'' else name)"
  using assms
  by (simp add: getPodsPrefix_def Let_def validatePodName_def NameIsDNSSubdomain_def maskTrailingDash_dash)

lemma validateControllerRef_None:
  "validateControllerRef r = None \<longleftrightarrow>
     (\<exists>ref. r = Some ref \<and> or_APIVersion ref \<noteq> [] \<and> or_Kind ref \<noteq> [] \<and>
        or_Controller ref = Some True \<and> or_BlockOwnerDeletion ref = Some True)"
  by (auto simp: validateControllerRef_def split: option.splits)

text \<open>The pod a template becomes, for an owner that has a name.\<close>

lemma GetPodFromTemplate_pod:
  assumes "om_Name owner \<noteq> []" and "or_Controller r = Some True"
  obtains pod where "GetPodFromTemplate template (Some owner) (Some r) = Ret (Inr pod)"
    "pod_Spec pod = pt_Spec template" "pod_labels pod = getPodsLabelSet template"
    "om_Finalizers (pod_Meta pod) = om_Finalizers (pt_Meta template)"
    "GetControllerOf (pod_Meta pod) = Some r" "om_DeletionTimestamp (pod_Meta pod) = None"
proof -
  obtain prefix where "getPodsPrefix (om_Name owner) = Ret prefix"
    using getPodsPrefix_named [OF assms(1)] by blast
  then show thesis
    using assms(2) that
    by (simp add: GetPodFromTemplate_def Let_def getPodsFinalizers_def GetControllerOf_def
        zero_ObjectMeta_def)
qed

section \<open>The contract of PodControlInterface\<close>

text \<open>
  What \<open>createNewPod\<close> relies on: a bad controller reference is refused before anything is
  done, and otherwise the pod made from the template is sent to the server, once, whose error is
  the result; an event is recorded either way.
\<close>

locale pod_control =
  fixes create :: "string \<Rightarrow> PodTemplateSpec \<Rightarrow> ObjectMeta option \<Rightarrow> OwnerReference option \<Rightarrow>
      ('w, go_error option) action"
    and server :: "string \<Rightarrow> Pod \<Rightarrow> 'w \<Rightarrow> (go_error + Pod) \<times> 'w"
    and record_event :: "Event \<Rightarrow> 'w \<Rightarrow> 'w"
  assumes refuses: "validateControllerRef r = Some e \<Longrightarrow> create namespace template owner r w = (Ret (Some e), w)"
    and sends: "validateControllerRef r = None \<Longrightarrow>
        GetPodFromTemplate template (Some accessor) r = Ret (Inr pod) \<Longrightarrow> pod_labels pod \<noteq> [] \<Longrightarrow>
        \<exists>event. create namespace template (Some accessor) r w =
          (Ret (case fst (server namespace pod w) of Inl e \<Rightarrow> Some e | Inr _ \<Rightarrow> None),
           record_event event (snd (server namespace pod w)))"
begin

lemma creates_owned_pod:
  assumes "validateControllerRef (Some r) = None" and "om_Name owner \<noteq> []"
    and "map_entries (om_Labels (pt_Meta template)) \<noteq> []"
  obtains pod event where
    "create namespace template (Some owner) (Some r) w =
      (Ret (case fst (server namespace pod w) of Inl e \<Rightarrow> Some e | Inr _ \<Rightarrow> None),
       record_event event (snd (server namespace pod w)))"
    "pod_Spec pod = pt_Spec template" "pod_labels pod = getPodsLabelSet template"
    "GetControllerOf (pod_Meta pod) = Some r" "om_DeletionTimestamp (pod_Meta pod) = None"
proof -
  have "or_Controller r = Some True" using assms(1) by (simp add: validateControllerRef_None)
  then obtain pod where p: "GetPodFromTemplate template (Some owner) (Some r) = Ret (Inr pod)"
    "pod_Spec pod = pt_Spec template" "pod_labels pod = getPodsLabelSet template"
    "GetControllerOf (pod_Meta pod) = Some r" "om_DeletionTimestamp (pod_Meta pod) = None"
    using GetPodFromTemplate_pod [OF assms(2), of r template] by metis
  have "pod_labels pod \<noteq> []" using assms(3) by (simp add: p(3) getPodsLabelSet_def)
  from sends [OF assms(1) p(1) this] p(2-) that show thesis by metis
qed

end

interpretation real_pods: pod_control "CreatePodsWithControllerRef api" "api_create_pod api" "api_event api"
  for api
  by unfold_locales
    (auto simp: CreatePodsWithControllerRef_def createPods_def split: sum.splits prod.splits)

definition sample_ref :: OwnerReference where
  "sample_ref = \<lparr>or_APIVersion = ''v1'', or_Kind = ''Caffe2Job'', or_Name = ''job'', or_UID = ''u1'',
     or_Controller = Some True, or_BlockOwnerDeletion = Some True\<rparr>"

section \<open>Properties\<close>

text \<open>
  Pod names: for an owner whose name is a DNS-1123 subdomain the generated names start with
  that name and a dash; every other non-empty name is handled too (the name itself is the prefix
  if the masked one is refused). The empty name panics, in the slice that masks the dash.
\<close>

theorem getPodsPrefix_total:
  "getPodsPrefix name =
    (if name = [] then Panic SliceBounds
     else if IsDNS1123Subdomain name = [] then Ret (name @ ''-'')
     else Ret (if IsDNS1123Subdomain (butlast name @ ''a'') = [] then name @ ''-'' else name))"
proof (cases name rule: rev_cases)
  case Nil
  then show ?thesis
    by (simp add: getPodsPrefix_def validatePodName_def NameIsDNSSubdomain_def maskTrailingDash_def)
next
  case (snoc s x)
  then have "IsDNS1123Subdomain name = [] \<Longrightarrow> IsDNS1123Subdomain (butlast name @ ''a'') = []"
    using dns1123SubdomainRegexp_last [of s x] by (simp add: IsDNS1123Subdomain_def split: if_splits)
  with snoc show ?thesis by (simp add: getPodsPrefix_named)
qed

text \<open>
  \<open>CreatePodsWithControllerRef\<close> with a complete reference, a named owner and a labelled
  template sends one pod to the server: the template's spec and labels, the reference as its
  controller; the server's error is returned as it is. An incomplete reference is refused and
  the world is left alone.
\<close>

theorem CreatePodsWithControllerRef_sends:
  assumes "om_Name owner \<noteq> []" and "map_entries (om_Labels (pt_Meta template)) \<noteq> []"
    and "wf_map (map_entries (om_Labels (pt_Meta template)))"
  shows "case validateControllerRef (Some r) of
      Some e \<Rightarrow> CreatePodsWithControllerRef api namespace template (Some owner) (Some r) w = (Ret (Some e), w)
    | None \<Rightarrow> \<exists>pod event.
        CreatePodsWithControllerRef api namespace template (Some owner) (Some r) w =
          (Ret (case fst (api_create_pod api namespace pod w) of Inl e \<Rightarrow> Some e | Inr _ \<Rightarrow> None),
           api_event api event (snd (api_create_pod api namespace pod w))) \<and>
        pod_Spec pod = pt_Spec template \<and>
        map_of (pod_labels pod) = map_of (map_entries (om_Labels (pt_Meta template))) \<and>
        GetControllerOf (pod_Meta pod) = Some r"
proof (cases "validateControllerRef (Some r)")
  case None
  from real_pods.creates_owned_pod [OF None assms(1,2), of api namespace w] None show ?thesis
    using map_of_range_write [OF assms(3), of "[]"] by (simp add: getPodsLabelSet_def) metis
qed (simp add: real_pods.refuses)

theorem CreatePodsWithControllerRef_sends_witness:
  "\<exists>pod event. CreatePodsWithControllerRef recording_api ''ns'' sample_template (Some (job_Meta sample_job))
      (Some sample_ref) [] = (Ret None, api_event recording_api event (snd (api_create_pod recording_api ''ns'' pod []))) \<and>
    GetControllerOf (pod_Meta pod) = Some sample_ref"
proof -
  have "om_Name (job_Meta sample_job) \<noteq> []" "map_entries (om_Labels (pt_Meta sample_template)) \<noteq> []"
    "wf_map (map_entries (om_Labels (pt_Meta sample_template)))" "validateControllerRef (Some sample_ref) = None"
    by (simp_all add: sample_job_defs sample_ref_def validateControllerRef_def)
  with CreatePodsWithControllerRef_sends [OF this(1-3), where r = sample_ref and api = recording_api
      and namespace = "''ns''" and w = "[]"] show ?thesis
    by (auto simp: recording_api_def)
qed


end
