(* ===== verification/RefManager.thy ===== *)
theory RefManager
  imports PodControl "HOL-Library.Sublist"
begin

text \<open>
  pkg/controller/controller_ref_manager.go: claiming, adopting and releasing the pods (or
  services) of a controller. The manager keeps the result of \<open>CanAdoptFunc\<close> once it was asked
  (\<open>sync.Once\<close>), next to the world; as an object it is a record that carries this from call to call. The two managers, for pods and for services, promise the
  same of their \<open>adopt\<close> and \<open>release\<close>; that contract is the locale \<open>ref_manager\<close>, in which
  claiming a list of objects is verified once and then interpreted for both.
\<close>

section \<open>Asking once whether adoption is allowed\<close>

text \<open>The world, and \<open>canAdoptErr\<close> once \<open>canAdoptOnce\<close> has fired.\<close>

type_synonym 'w mstate = "'w \<times> go_error option option"

type_synonym 'w can_adopt = "('w \<Rightarrow> go_error option \<times> 'w) option"

definition CanAdopt :: "'w can_adopt \<Rightarrow> 'w mstate \<Rightarrow> go_error option \<times> 'w mstate" where
  "CanAdopt canAdoptFunc s =
     (case s of (w, once) \<Rightarrow>
        (case once of
           Some err \<Rightarrow> (err, (w, once))
         | None \<Rightarrow>
             (case canAdoptFunc of
                None \<Rightarrow> (None, (w, Some None))
              | Some f \<Rightarrow> let (err, w') = f w in (err, (w', Some err)))))"

text \<open>\<open>getObject\<close> gives the metadata of the fresh object, or its error.\<close>

definition RecheckDeletionTimestamp ::
  "('w \<Rightarrow> (go_error + ObjectMeta) \<times> 'w) \<Rightarrow> 'w \<Rightarrow> go_error option \<times> 'w" where
  "RecheckDeletionTimestamp getObject w =
     (case getObject w of
        (Inl err, w') \<Rightarrow> (Some (Errorf ''can't recheck DeletionTimestamp: %v'' [] [err]), w')
      | (Inr obj, w') \<Rightarrow>
          if om_DeletionTimestamp obj \<noteq> None
            then (Some (Errorf ''%v/%v has just been deleted at %v'' [om_Namespace obj, om_Name obj] []), w')
          else (None, w'))"

section \<open>Claiming one object\<close>

definition ClaimObject ::
  "ObjectMeta \<Rightarrow> ObjectMeta \<Rightarrow> bool \<Rightarrow> ('s \<Rightarrow> go_error option \<times> 's) \<Rightarrow> ('s \<Rightarrow> go_error option \<times> 's) \<Rightarrow>
     's \<Rightarrow> (bool \<times> go_error option) \<times> 's" where
  "ClaimObject controller obj matches adopt release s =
     (case GetControllerOf obj of
        Some controllerRef \<Rightarrow>
          if or_UID controllerRef \<noteq> om_UID controller then ((False, None), s)
          else if matches then ((True, None), s)
          else if om_DeletionTimestamp controller \<noteq> None then ((False, None), s)
          else (case release s of
                  (Some err, s') \<Rightarrow>
                    if IsNotFound (Some err) then ((False, None), s') else ((False, Some err), s')
                | (None, s') \<Rightarrow> ((False, None), s'))
      | None \<Rightarrow>
          if om_DeletionTimestamp controller \<noteq> None \<or> \<not> matches then ((False, None), s)
          else if om_DeletionTimestamp obj \<noteq> None then ((False, None), s)
          else (case adopt s of
                  (Some err, s') \<Rightarrow>
                    if IsNotFound (Some err) then ((False, None), s') else ((False, Some err), s')
                | (None, s') \<Rightarrow> ((True, None), s')))"

text \<open>The loop shared by \<open>ClaimPods\<close> and \<open>ClaimServices\<close>: the claimed objects and the errors.\<close>

fun claim_loop ::
  "('o \<Rightarrow> 's \<Rightarrow> (bool \<times> go_error option) \<times> 's) \<Rightarrow> 'o list \<Rightarrow> 's \<Rightarrow> ('o list \<times> go_error list) \<times> 's" where
  "claim_loop claim [] s = (([], []), s)"
| "claim_loop claim (x # xs) s =
     (case claim x s of
        ((ok, Some err), s1) \<Rightarrow>
          (case claim_loop claim xs s1 of ((claimed, errlist), s2) \<Rightarrow> ((claimed, err # errlist), s2))
      | ((ok, None), s1) \<Rightarrow>
          (case claim_loop claim xs s1 of
             ((claimed, errlist), s2) \<Rightarrow> ((if ok then x # claimed else claimed, errlist), s2)))"

text \<open>\<open>for _, obj := range objs { m.ClaimObject(obj, match, adopt, release) }\<close>\<close>

definition claim_with ::
  "ObjectMeta \<Rightarrow> ('o \<Rightarrow> ObjectMeta) \<Rightarrow> ('o \<Rightarrow> bool) \<Rightarrow> ('o \<Rightarrow> 's \<Rightarrow> go_error option \<times> 's) \<Rightarrow>
     ('o \<Rightarrow> 's \<Rightarrow> go_error option \<times> 's) \<Rightarrow> 'o list \<Rightarrow> 's \<Rightarrow> ('o list \<times> go_error list) \<times> 's" where
  "claim_with controller meta matches adopt release xs s =
     claim_loop (\<lambda>x. ClaimObject controller (meta x) (matches x) (adopt x) (release x)) xs s"

section \<open>Pods\<close>

definition add_controller_patch :: "GroupVersionKind \<Rightarrow> ObjectMeta \<Rightarrow> string \<Rightarrow> string" where
  "add_controller_patch kind controller uid =
     ''{\"metadata\":{\"ownerReferences\":[{\"apiVersion\":\"'' @ GroupVersion_String kind @
     ''\",\"kind\":\"'' @ gvk_Kind kind @ ''\",\"name\":\"'' @ om_Name controller @
     ''\",\"uid\":\"'' @ om_UID controller @
     ''\",\"controller\":true,\"blockOwnerDeletion\":true}],\"uid\":\"'' @ uid @ ''\"}}''"

definition delete_owner_patch :: "ObjectMeta \<Rightarrow> string \<Rightarrow> string" where
  "delete_owner_patch controller uid =
     ''{\"metadata\":{\"ownerReferences\":[{\"$patch\":\"delete\",\"uid\":\"'' @ om_UID controller @
     ''\"}],\"uid\":\"'' @ uid @ ''\"}}''"

definition lift_patch :: "('w \<Rightarrow> go_error option \<times> 'w) \<Rightarrow> 'w mstate \<Rightarrow> go_error option \<times> 'w mstate" where
  "lift_patch p s = (case s of (w, once) \<Rightarrow> (case p w of (err, w') \<Rightarrow> (err, (w', once))))"

definition AdoptPod ::
  "'w api \<Rightarrow> GroupVersionKind \<Rightarrow> ObjectMeta \<Rightarrow> 'w can_adopt \<Rightarrow> Pod \<Rightarrow> 'w mstate \<Rightarrow> go_error option \<times> 'w mstate" where
  "AdoptPod api kind controller canAdopt pod s =
     (case CanAdopt canAdopt s of
        (Some err, s') \<Rightarrow>
          (Some (Errorf ''can't adopt Pod %v/%v (%v): %v''
             [om_Namespace (pod_Meta pod), om_Name (pod_Meta pod), om_UID (pod_Meta pod)] [err]), s')
      | (None, s') \<Rightarrow>
          lift_patch (PatchPod api (om_Namespace (pod_Meta pod)) (om_Name (pod_Meta pod))
            (add_controller_patch kind controller (om_UID (pod_Meta pod)))) s')"

definition ReleasePod ::
  "'w api \<Rightarrow> ObjectMeta \<Rightarrow> Pod \<Rightarrow> 'w mstate \<Rightarrow> go_error option \<times> 'w mstate" where
  "ReleasePod api controller pod s =
     (case lift_patch (PatchPod api (om_Namespace (pod_Meta pod)) (om_Name (pod_Meta pod))
             (delete_owner_patch controller (om_UID (pod_Meta pod)))) s of
        (err, s') \<Rightarrow>
          if IsNotFound err then (None, s') else if IsInvalid err then (None, s') else (err, s'))"

definition pod_match :: "Selector \<Rightarrow> (Pod \<Rightarrow> bool) list \<Rightarrow> Pod \<Rightarrow> bool" where
  "pod_match selector filters pod =
     (Selector_Matches selector (pod_labels pod) \<and> list_all (\<lambda>f. f pod) filters)"

definition ClaimPods ::
  "'w api \<Rightarrow> GroupVersionKind \<Rightarrow> ObjectMeta \<Rightarrow> Selector \<Rightarrow> 'w can_adopt \<Rightarrow> Pod list \<Rightarrow> (Pod \<Rightarrow> bool) list \<Rightarrow>
     'w mstate \<Rightarrow> (Pod list \<times> go_error option) \<times> 'w mstate" where
  "ClaimPods api kind controller selector canAdopt pods filters s =
     (case claim_with controller pod_Meta
             (pod_match selector filters)
             (AdoptPod api kind controller canAdopt) (ReleasePod api controller) pods s of
      ((claimed, errlist), s') \<Rightarrow> ((claimed, NewAggregate errlist), s'))"

section \<open>Services\<close>

definition AdoptService ::
  "'w api \<Rightarrow> GroupVersionKind \<Rightarrow> ObjectMeta \<Rightarrow> 'w can_adopt \<Rightarrow> Service \<Rightarrow> 'w mstate \<Rightarrow> go_error option \<times> 'w mstate" where
  "AdoptService api kind controller canAdopt service s =
     (case CanAdopt canAdopt s of
        (Some err, s') \<Rightarrow>
          (Some (Errorf ''can't adopt Service %v/%v (%v): %v''
             [om_Namespace (svc_Meta service), om_Name (svc_Meta service), om_UID (svc_Meta service)] [err]), s')
      | (None, s') \<Rightarrow>
          lift_patch (PatchService api (om_Namespace (svc_Meta service)) (om_Name (svc_Meta service))
            (add_controller_patch kind controller (om_UID (svc_Meta service)))) s')"

definition ReleaseService ::
  "'w api \<Rightarrow> ObjectMeta \<Rightarrow> Service \<Rightarrow> 'w mstate \<Rightarrow> go_error option \<times> 'w mstate" where
  "ReleaseService api controller service s =
     (case lift_patch (PatchService api (om_Namespace (svc_Meta service)) (om_Name (svc_Meta service))
             (delete_owner_patch controller (om_UID (svc_Meta service)))) s of
        (err, s') \<Rightarrow>
          if IsNotFound err then (None, s') else if IsInvalid err then (None, s') else (err, s'))"

definition service_match :: "Selector \<Rightarrow> (Service \<Rightarrow> bool) list \<Rightarrow> Service \<Rightarrow> bool" where
  "service_match selector filters service =
     (Selector_Matches selector (map_entries (om_Labels (svc_Meta service))) \<and>
      list_all (\<lambda>f. f service) filters)"

definition ClaimServices ::
  "'w api \<Rightarrow> GroupVersionKind \<Rightarrow> ObjectMeta \<Rightarrow> Selector \<Rightarrow> 'w can_adopt \<Rightarrow> Service list \<Rightarrow> (Service \<Rightarrow> bool) list \<Rightarrow>
     'w mstate \<Rightarrow> (Service list \<times> go_error option) \<times> 'w mstate" where
  "ClaimServices api kind controller selector canAdopt services filters s =
     (case claim_with controller svc_Meta
             (service_match selector filters)
             (AdoptService api kind controller canAdopt) (ReleaseService api controller) services s of
      ((claimed, errlist), s') \<Rightarrow> ((claimed, NewAggregate errlist), s'))"

section \<open>The managers as objects\<close>

text \<open>
  The embedded \<open>BaseControllerRefManager\<close>, with \<open>canAdoptErr\<close> once \<open>canAdoptOnce\<close> has fired, and the two managers.
  Their methods are the functions above on the fields.
\<close>

record 'w BaseControllerRefManager =
  rm_Controller :: ObjectMeta
  rm_Selector :: Selector
  rm_canAdopt :: "go_error option option"
  rm_CanAdoptFunc :: "'w can_adopt"

record 'w PodControllerRefManager = "'w BaseControllerRefManager" +
  pm_controllerKind :: GroupVersionKind
  pm_podControl :: "'w api"

record 'w ServiceControllerRefManager = "'w BaseControllerRefManager" +
  sm_controllerKind :: GroupVersionKind
  sm_serviceControl :: "'w api"

definition NewPodControllerRefManager ::
  "'w api \<Rightarrow> ObjectMeta \<Rightarrow> Selector \<Rightarrow> GroupVersionKind \<Rightarrow> 'w can_adopt \<Rightarrow> 'w PodControllerRefManager" where
  "NewPodControllerRefManager podControl controller selector kind canAdopt =
     \<lparr>rm_Controller = controller, rm_Selector = selector, rm_canAdopt = None, rm_CanAdoptFunc = canAdopt,
      pm_controllerKind = kind, pm_podControl = podControl\<rparr>"

definition NewServiceControllerRefManager ::
  "'w api \<Rightarrow> ObjectMeta \<Rightarrow> Selector \<Rightarrow> GroupVersionKind \<Rightarrow> 'w can_adopt \<Rightarrow> 'w ServiceControllerRefManager" where
  "NewServiceControllerRefManager serviceControl controller selector kind canAdopt =
     \<lparr>rm_Controller = controller, rm_Selector = selector, rm_canAdopt = None, rm_CanAdoptFunc = canAdopt,
      sm_controllerKind = kind, sm_serviceControl = serviceControl\<rparr>"

definition manager_ClaimPods ::
  "'w PodControllerRefManager \<Rightarrow> Pod list \<Rightarrow> (Pod \<Rightarrow> bool) list \<Rightarrow> 'w \<Rightarrow>
     (Pod list \<times> go_error option) \<times> 'w PodControllerRefManager \<times> 'w" where
  "manager_ClaimPods m pods filters w =
     (case ClaimPods (pm_podControl m) (pm_controllerKind m) (rm_Controller m) (rm_Selector m) (rm_CanAdoptFunc m)
             pods filters (w, rm_canAdopt m) of
        (r, (w', once)) \<Rightarrow> (r, m\<lparr>rm_canAdopt := once\<rparr>, w'))"

definition manager_ClaimServices ::
  "'w ServiceControllerRefManager \<Rightarrow> Service list \<Rightarrow> (Service \<Rightarrow> bool) list \<Rightarrow> 'w \<Rightarrow>
     (Service list \<times> go_error option) \<times> 'w ServiceControllerRefManager \<times> 'w" where
  "manager_ClaimServices m services filters w =
     (case ClaimServices (sm_serviceControl m) (sm_controllerKind m) (rm_Controller m) (rm_Selector m) (rm_CanAdoptFunc m)
             services filters (w, rm_canAdopt m) of
        (r, (w', once)) \<Rightarrow> (r, m\<lparr>rm_canAdopt := once\<rparr>, w'))"

section \<open>What may be claimed\<close>

text \<open>
  Owned by the controller and still matching; claimable at all; and settled: nothing has to be
  adopted or released.
\<close>

definition owned_match :: "ObjectMeta \<Rightarrow> ObjectMeta \<Rightarrow> bool \<Rightarrow> bool" where
  "owned_match controller obj matches \<longleftrightarrow>
     matches \<and> (\<exists>r. GetControllerOf obj = Some r \<and> or_UID r = om_UID controller)"

definition may_claim :: "ObjectMeta \<Rightarrow> ObjectMeta \<Rightarrow> bool \<Rightarrow> bool" where
  "may_claim controller obj matches \<longleftrightarrow>
     owned_match controller obj matches \<or>
     matches \<and> GetControllerOf obj = None \<and> om_DeletionTimestamp controller = None \<and>
       om_DeletionTimestamp obj = None"

definition settled :: "ObjectMeta \<Rightarrow> ObjectMeta \<Rightarrow> bool \<Rightarrow> bool" where
  "settled controller obj matches \<longleftrightarrow>
     (case GetControllerOf obj of
        Some r \<Rightarrow> or_UID r \<noteq> om_UID controller \<or> matches \<or> om_DeletionTimestamp controller \<noteq> None
      | None \<Rightarrow> om_DeletionTimestamp controller \<noteq> None \<or> \<not> matches \<or> om_DeletionTimestamp obj \<noteq> None)"

lemma settled_deleted: "om_DeletionTimestamp controller \<noteq> None \<Longrightarrow> settled controller obj m"
  by (simp add: settled_def split: option.splits)

lemma ClaimObject_settled:
  "settled c obj m \<Longrightarrow> ClaimObject c obj m adopt release s = ((owned_match c obj m, None), s)"
  by (auto simp: settled_def ClaimObject_def owned_match_def split: option.splits)

lemma ClaimObject_True:
  "ClaimObject c obj m adopt release s = ((True, err), s') \<Longrightarrow> may_claim c obj m \<and> err = None"
  by (auto simp: ClaimObject_def may_claim_def owned_match_def split: option.splits prod.splits if_splits)

lemma ClaimObject_moves:
  assumes "ClaimObject c obj m adopt release s = (r, s')"
  shows "s' = s \<or> s' = snd (adopt s) \<or> s' = snd (release s)"
  using assms by (auto simp: ClaimObject_def split: option.splits prod.splits if_splits)

lemma ClaimObject_adopted:
  assumes "ClaimObject c obj m adopt release s = ((True, err), s')" and "\<not> owned_match c obj m"
  shows "adopt s = (None, s')"
  using assms by (auto simp: ClaimObject_def owned_match_def split: option.splits prod.splits if_splits)

lemma claim_loop_Cons:
  assumes "claim x s = ((ok, err), s1)" and "claim_loop claim xs s1 = ((claimed, errlist), s2)"
  shows "claim_loop claim (x # xs) s =
    ((if err = None \<and> ok then x # claimed else claimed,
      (case err of None \<Rightarrow> errlist | Some e \<Rightarrow> e # errlist)), s2)"
  using assms by (simp split: option.splits)

lemma claim_loop_invariant:
  assumes "P s"
    and "\<And>x s r s'. x \<in> set xs \<Longrightarrow> P s \<Longrightarrow> claim x s = (r, s') \<Longrightarrow> P s'"
  shows "P (snd (claim_loop claim xs s))"
  using assms
proof (induction xs arbitrary: s)
  case (Cons x xs)
  obtain ok err s1 where one: "claim x s = ((ok, err), s1)" by (metis prod.exhaust)
  obtain claimed errlist s2 where rest: "claim_loop claim xs s1 = ((claimed, errlist), s2)"
    by (metis prod.exhaust)
  have "P s1" using Cons.prems(1) Cons.prems(2) [OF _ _ one] by simp
  then have "P (snd (claim_loop claim xs s1))"
    using Cons.IH Cons.prems(2) by (metis list.set_intros(2))
  then show ?case unfolding claim_loop_Cons [OF one rest] by (simp add: rest)
qed simp

text \<open>Whatever happens, the claimed objects lie between the owned and the claimable ones.\<close>

lemma ClaimObject_owned:
  "owned_match c obj m \<Longrightarrow> ClaimObject c obj m adopt release s = ((True, None), s)"
  by (auto simp: owned_match_def ClaimObject_def)

lemma claim_with_ConsE:
  assumes "claim_with c meta m adopt release (x # xs) s = ((claimed, errlist), s')"
  obtains ok err s1 claimed' errlist' where
    "ClaimObject c (meta x) (m x) (adopt x) (release x) s = ((ok, err), s1)"
    "claim_with c meta m adopt release xs s1 = ((claimed', errlist'), s')"
    "claimed = (if err = None \<and> ok then x # claimed' else claimed')"
    "errlist = (case err of None \<Rightarrow> errlist' | Some e \<Rightarrow> e # errlist')"
proof -
  let ?claim = "\<lambda>x. ClaimObject c (meta x) (m x) (adopt x) (release x)"
  obtain ok err s1 where one: "?claim x s = ((ok, err), s1)" by (metis prod.exhaust)
  obtain claimed' errlist' s2 where rest: "claim_loop ?claim xs s1 = ((claimed', errlist'), s2)"
    by (metis prod.exhaust)
  show thesis
    using that [OF one, of claimed' errlist'] rest assms
      claim_loop_Cons [where claim = ?claim, OF one rest]
    by (simp add: claim_with_def)
qed

lemma claim_with_owned_subseq:
  assumes "claim_with c meta m adopt release xs s = ((claimed, errlist), s')"
  shows "subseq (filter (\<lambda>x. owned_match c (meta x) (m x)) xs) claimed"
  using assms
proof (induction xs arbitrary: claimed errlist s)
  case (Cons x xs)
  from Cons.prems obtain ok err s1 claimed' errlist' where
    one: "ClaimObject c (meta x) (m x) (adopt x) (release x) s = ((ok, err), s1)"
    and rest: "claim_with c meta m adopt release xs s1 = ((claimed', errlist'), s')"
    and c: "claimed = (if err = None \<and> ok then x # claimed' else claimed')"
    by (rule claim_with_ConsE)
  have "owned_match c (meta x) (m x) \<Longrightarrow> err = None \<and> ok"
    using one by (simp add: ClaimObject_owned)
  then show ?case using Cons.IH [OF rest] by (auto simp: c)
qed (simp add: claim_with_def)

lemma claim_with_subseq_claimable:
  assumes "claim_with c meta m adopt release xs s = ((claimed, errlist), s')"
  shows "subseq claimed (filter (\<lambda>x. may_claim c (meta x) (m x)) xs)"
  using assms
proof (induction xs arbitrary: claimed errlist s)
  case (Cons x xs)
  from Cons.prems obtain ok err s1 claimed' errlist' where
    one: "ClaimObject c (meta x) (m x) (adopt x) (release x) s = ((ok, err), s1)"
    and rest: "claim_with c meta m adopt release xs s1 = ((claimed', errlist'), s')"
    and c: "claimed = (if err = None \<and> ok then x # claimed' else claimed')"
    by (rule claim_with_ConsE)
  have "ok \<Longrightarrow> may_claim c (meta x) (m x)" using one ClaimObject_True by (metis (full_types))
  then show ?case using Cons.IH [OF rest] by (auto simp: c)
qed (simp add: claim_with_def)

lemma claim_with_settled:
  assumes "\<forall>x \<in> set xs. settled c (meta x) (m x)"
  shows "claim_with c meta m adopt release xs s =
    ((filter (\<lambda>x. owned_match c (meta x) (m x)) xs, []), s)"
  using assms unfolding claim_with_def
  by (induction xs) (auto simp: ClaimObject_settled)

lemma lift_patch_simps [simp]:
  "snd (snd (lift_patch p s)) = snd s" "fst (snd (lift_patch p s)) = snd (p (fst s))"
  by (cases s; simp add: lift_patch_def split: prod.splits)+

lemma CanAdopt_answered: "snd s = Some err \<Longrightarrow> CanAdopt f s = (err, s)"
  by (cases s) (simp add: CanAdopt_def)

lemma CanAdopt_first:
  "snd s = None \<Longrightarrow> CanAdopt f s =
    (case f of None \<Rightarrow> (None, (fst s, Some None))
     | Some g \<Rightarrow> (fst (g (fst s)), (snd (g (fst s)), Some (fst (g (fst s))))))"
  by (cases s) (simp add: CanAdopt_def Let_def split: option.splits prod.splits)

lemma CanAdopt_answer: "snd (snd (CanAdopt f s)) = Some (fst (CanAdopt f s))"
  by (auto simp: CanAdopt_def Let_def split: option.splits prod.splits)

section \<open>The contract of a reference manager\<close>

text \<open>
  What \<open>ClaimPods\<close> and \<open>ClaimServices\<close> need of adopting and releasing: an adoption first asks
  \<open>CanAdopt\<close>; if that is refused it fails, with an error that is not "not found", and touches
  nothing else; otherwise it is a patch, and so is a release.
\<close>

locale ref_manager =
  fixes controller :: ObjectMeta
    and canAdopt :: "'w can_adopt"
    and meta :: "'o \<Rightarrow> ObjectMeta"
    and matches :: "'o \<Rightarrow> bool"
    and patch :: "'o \<Rightarrow> string \<Rightarrow> 'w \<Rightarrow> go_error option \<times> 'w"
    and adopt :: "'o \<Rightarrow> 'w mstate \<Rightarrow> go_error option \<times> 'w mstate"
    and release :: "'o \<Rightarrow> 'w mstate \<Rightarrow> go_error option \<times> 'w mstate"
  assumes adopt_denied:
      "CanAdopt canAdopt s = (Some e, s') \<Longrightarrow> \<exists>e'. adopt x s = (Some e', s') \<and> \<not> IsNotFound (Some e')"
    and adopt_allowed:
      "CanAdopt canAdopt s = (None, s') \<Longrightarrow> \<exists>data. adopt x s = lift_patch (patch x data) s'"
    and release_patch:
      "\<exists>data. snd (release x s) = snd (lift_patch (patch x data) s)"
begin

lemma release_keeps_answer: "snd (snd (release x s)) = snd s"
  using release_patch [of x s] by auto

lemma adopt_keeps_answer:
  assumes "snd s = Some err"
  shows "snd (snd (adopt x s)) = Some err"
proof -
  have "CanAdopt canAdopt s = (err, s)" by (rule CanAdopt_answered [OF assms])
  then show ?thesis using adopt_denied [of s _ s x] adopt_allowed [of s s x] assms
    by (cases err) auto
qed

lemma claim_keeps_answer:
  assumes "snd s = Some err"
  shows "snd (snd (claim_with controller meta matches adopt release xs s)) = Some err"
  unfolding claim_with_def
proof (rule claim_loop_invariant)
  show "snd s = Some err" by (rule assms)
  show "snd s' = Some err"
    if "snd s = Some err" "ClaimObject controller (meta x) (matches x) (adopt x) (release x) s = (r, s')"
    for x s r s'
    using ClaimObject_moves [OF that(2)] that(1) adopt_keeps_answer release_keeps_answer by metis
qed

lemma adopted_means_allowed:
  assumes "adopt x s = (None, s')"
  shows "snd s' = Some None"
proof -
  obtain r s1 where r: "CanAdopt canAdopt s = (r, s1)" by (metis prod.exhaust)
  then have "r = None" using adopt_denied [of s _ s1 x] assms by (cases r) auto
  with r adopt_allowed obtain data where "adopt x s = lift_patch (patch x data) s1" by blast
  moreover have "snd s1 = Some None" using CanAdopt_answer [of canAdopt s] r \<open>r = None\<close> by simp
  ultimately show ?thesis using assms by (metis lift_patch_simps(1) snd_conv)
qed

lemma denied_claims_owned:
  assumes "claim_with controller meta matches adopt release xs s = ((claimed, errlist), s')"
    and "snd s' \<noteq> Some None"
  shows "claimed = filter (\<lambda>x. owned_match controller (meta x) (matches x)) xs"
  using assms
proof (induction xs arbitrary: s claimed errlist)
  case (Cons x xs)
  from Cons.prems(1) obtain ok err s1 claimed' errlist' where
    one: "ClaimObject controller (meta x) (matches x) (adopt x) (release x) s = ((ok, err), s1)"
    and rest: "claim_with controller meta matches adopt release xs s1 = ((claimed', errlist'), s')"
    and c: "claimed = (if err = None \<and> ok then x # claimed' else claimed')"
    by (rule claim_with_ConsE)
  have "snd s1 \<noteq> Some None"
    using claim_keeps_answer [of s1 None xs] rest Cons.prems(2) by auto
  then have "adopt x s \<noteq> (None, s1)" using adopted_means_allowed by blast
  then have "owned_match controller (meta x) (matches x)" if ok
    using ClaimObject_adopted [of controller "meta x" "matches x" "adopt x" "release x" s err s1]
      one that by auto
  moreover have "owned_match controller (meta x) (matches x) \<Longrightarrow> err = None \<and> ok"
    using one by (simp add: ClaimObject_owned)
  ultimately show ?case using Cons.IH [OF rest Cons.prems(2)] c by auto
qed (simp add: claim_with_def)

lemma adopt_answers:
  "snd (snd (adopt x s)) = Some (fst (CanAdopt canAdopt s))"
proof -
  obtain r s1 where r: "CanAdopt canAdopt s = (r, s1)" by (metis prod.exhaust)
  with CanAdopt_answer [of canAdopt s] have "snd s1 = Some r" by simp
  then show ?thesis using adopt_denied [of s _ s1 x] adopt_allowed [of s s1 x] r by (cases r) auto
qed

text \<open>A recheck that always refuses never ends in the answer that allows adoption.\<close>

lemma never_allowed:
  assumes "canAdopt = Some f" and "\<And>w. fst (f w) \<noteq> None" and "snd s \<noteq> Some None"
  shows "snd (snd (claim_with controller meta matches adopt release xs s)) \<noteq> Some None"
  unfolding claim_with_def
proof (rule claim_loop_invariant)
  show "snd s \<noteq> Some None" by (rule assms)
  have "fst (CanAdopt canAdopt s) \<noteq> None" if "snd s \<noteq> Some None" for s
    using that assms(1,2)
    by (cases "snd s") (auto simp: CanAdopt_first CanAdopt_answered)
  then show "snd s' \<noteq> Some None"
    if "snd s \<noteq> Some None" "ClaimObject controller (meta x) (matches x) (adopt x) (release x) s = (r, s')"
    for x s r s'
    using ClaimObject_moves [OF that(2)] that(1) adopt_answers release_keeps_answer by (metis option.inject)
qed

text \<open>
  \<open>CanAdoptFunc\<close> is called at most once: what a counter of its calls can grow by, when a call
  counts one and a patch counts nothing.
\<close>

lemma asked_at_most_once:
  fixes calls :: "'w \<Rightarrow> nat"
  assumes "\<And>f w. canAdopt = Some f \<Longrightarrow> calls (snd (f w)) \<le> calls w + 1"
    and quiet: "\<And>x data w. calls (snd (patch x data w)) = calls w"
  shows "calls (fst (snd (claim_with controller meta matches adopt release xs (w, None)))) \<le> calls w + 1"
proof -
  let ?P = "\<lambda>s. calls (fst s) \<le> calls w + (if snd s = None then 0 else 1)"
  have ask: "?P (snd (CanAdopt canAdopt s))" if "?P s" for s
  proof (cases "snd s")
    case None
    then show ?thesis using that assms(1) [of _ "fst s"]
      by (cases canAdopt) (auto simp: CanAdopt_first le_Suc_eq intro: order_trans)
  qed (use that in \<open>simp add: CanAdopt_answered\<close>)
  have patch: "?P (snd (lift_patch (patch x data) s))" if "?P s" for x data s
    using that quiet [of x data] by simp
  have adopt: "?P (snd (adopt x s))" if "?P s" for x s
  proof -
    obtain r s1 where r: "CanAdopt canAdopt s = (r, s1)" by (metis prod.exhaust)
    have P1: "?P s1" using ask [OF that] r by simp
    show ?thesis
    proof (cases r)
      case None
      with r adopt_allowed obtain data where "adopt x s = lift_patch (patch x data) s1" by blast
      then show ?thesis using patch [OF P1] by simp
    next
      case (Some e)
      then have "snd (adopt x s) = s1" using adopt_denied [of s e s1 x] r by auto
      with P1 show ?thesis by simp
    qed
  qed
  have release: "?P (snd (release x s))" if "?P s" for x s
    using release_patch [of x s] patch [OF that] by metis
  have "?P (snd (claim_with controller meta matches adopt release xs (w, None)))"
    unfolding claim_with_def
  proof (rule claim_loop_invariant)
    show "?P s'"
      if "?P s" "ClaimObject controller (meta x) (matches x) (adopt x) (release x) s = (r, s')" for x s r s'
      using ClaimObject_moves [OF that(2)] that(1) adopt [OF that(1)] release [OF that(1)] by metis
  qed simp
  then show ?thesis by (auto split: if_splits)
qed

end

text \<open>Both managers fulfil the contract.\<close>

lemma ReleasePod_patch:
  "snd (ReleasePod api controller pod s) =
    snd (lift_patch (PatchPod api (om_Namespace (pod_Meta pod)) (om_Name (pod_Meta pod))
      (delete_owner_patch controller (om_UID (pod_Meta pod)))) s)"
  by (simp add: ReleasePod_def split: prod.splits)

lemma ReleaseService_patch:
  "snd (ReleaseService api controller service s) =
    snd (lift_patch (PatchService api (om_Namespace (svc_Meta service)) (om_Name (svc_Meta service))
      (delete_owner_patch controller (om_UID (svc_Meta service)))) s)"
  by (simp add: ReleaseService_def split: prod.splits)

interpretation pods: ref_manager controller canAdopt pod_Meta "pod_match selector filters"
  "\<lambda>pod. PatchPod api (om_Namespace (pod_Meta pod)) (om_Name (pod_Meta pod))"
  "AdoptPod api kind controller canAdopt" "ReleasePod api controller"
  for controller canAdopt selector filters api kind
proof unfold_locales
  show "\<exists>data. snd (ReleasePod api controller x s) =
      snd (lift_patch (PatchPod api (om_Namespace (pod_Meta x)) (om_Name (pod_Meta x)) data) s)" for x s
    using ReleasePod_patch by blast
qed (auto simp: AdoptPod_def)

interpretation services: ref_manager controller canAdopt svc_Meta "service_match selector filters"
  "\<lambda>service. PatchService api (om_Namespace (svc_Meta service)) (om_Name (svc_Meta service))"
  "AdoptService api kind controller canAdopt" "ReleaseService api controller"
  for controller canAdopt selector filters api kind
proof unfold_locales
  show "\<exists>data. snd (ReleaseService api controller x s) =
      snd (lift_patch (PatchService api (om_Namespace (svc_Meta x)) (om_Name (svc_Meta x)) data) s)" for x s
    using ReleaseService_patch by blast
qed (auto simp: AdoptService_def)

lemma ClaimPods_run:
  assumes "ClaimPods api kind controller selector canAdopt pods filters s = ((claimed, err), s')"
  obtains errlist where "claim_with controller pod_Meta (pod_match selector filters)
      (AdoptPod api kind controller canAdopt) (ReleasePod api controller) pods s = ((claimed, errlist), s')"
    and "err = NewAggregate errlist"
  using assms by (auto simp: ClaimPods_def split: prod.splits)

lemma ClaimPods_world:
  "snd (ClaimPods api kind controller selector canAdopt pods filters s) =
    snd (claim_with controller pod_Meta (pod_match selector filters)
      (AdoptPod api kind controller canAdopt) (ReleasePod api controller) pods s)"
  by (simp add: ClaimPods_def split: prod.splits)

text \<open>An owner, a pod of its own, an orphan, and a recheck that refuses, for the concrete runs.\<close>

definition sample_owner :: ObjectMeta where
  "sample_owner = zero_ObjectMeta\<lparr>om_Name := ''job'', om_UID := ''u1''\<rparr>"

definition sample_orphan :: Pod where
  "sample_orphan = \<lparr>pod_Meta = zero_ObjectMeta\<lparr>om_Name := ''p1'', om_UID := ''u2''\<rparr>,
     pod_Spec = \<lparr>ps_Containers = [], ps_RestartPolicy = [], ps_NodeName = [], ps_Rest = []\<rparr>, pod_Phase = []\<rparr>"

definition sample_owned :: Pod where
  "sample_owned = sample_orphan\<lparr>pod_Meta := (pod_Meta sample_orphan)\<lparr>om_OwnerReferences :=
     [\<lparr>or_APIVersion = ''v1'', or_Kind = ''Caffe2Job'', or_Name = ''job'', or_UID = ''u1'',
       or_Controller = Some True, or_BlockOwnerDeletion = Some True\<rparr>]\<rparr>\<rparr>"

definition refusing_recheck :: "string list \<Rightarrow> go_error option \<times> string list" where
  "refusing_recheck w = (Some (Errorf ''gone'' [] []), ''recheck'' # w)"

lemmas sample_defs = sample_owner_def sample_orphan_def sample_owned_def recording_api_def
  refusing_recheck_def zero_ObjectMeta_def

lemma sample_adoption:
  "ClaimPods recording_api controllerKind sample_owner Everything None [sample_owned, sample_orphan] [] ([], None) =
    (([sample_owned, sample_orphan], None), ([''patch p1''], Some None))"
  by code_simp

lemma sample_refusal:
  "ClaimPods recording_api controllerKind sample_owner Everything (Some refusing_recheck)
      [sample_orphan, sample_owned, sample_orphan] [] ([], None) =
    (([sample_owned], NewAggregate (replicate 2
        (Errorf ''can't adopt Pod %v/%v (%v): %v'' [[], ''p1'', ''u2''] [Errorf ''gone'' [] []]))),
     ([''recheck''], Some (Some (Errorf ''gone'' [] []))))"
  by code_simp

section \<open>Properties\<close>

text \<open>
  C18. Whatever the API server answers, the pods that \<open>ClaimPods\<close> returns contain, in order, every
  pod the controller already owns and that matches, and nothing but pods it may claim: those, and
  orphans that match, neither they nor the controller being deleted.
\<close>

theorem ClaimPods_sandwich:
  assumes "ClaimPods api kind controller selector canAdopt pods filters s = ((claimed, err), s')"
  shows "subseq (filter (\<lambda>pod. owned_match controller (pod_Meta pod) (pod_match selector filters pod)) pods) claimed \<and>
    subseq claimed (filter (\<lambda>pod. may_claim controller (pod_Meta pod) (pod_match selector filters pod)) pods)"
proof -
  obtain errlist where run: "claim_with controller pod_Meta (pod_match selector filters)
      (AdoptPod api kind controller canAdopt) (ReleasePod api controller) pods s = ((claimed, errlist), s')"
    by (rule ClaimPods_run [OF assms])
  show ?thesis using claim_with_owned_subseq [OF run] claim_with_subseq_claimable [OF run] ..
qed

theorem ClaimPods_sandwich_witness:
  "subseq (filter (\<lambda>pod. owned_match sample_owner (pod_Meta pod) (pod_match Everything [] pod))
      [sample_owned, sample_orphan]) [sample_owned, sample_orphan]"
  using ClaimPods_sandwich [OF sample_adoption] by blast

text \<open>
  When no pod needs adopting or releasing, \<open>ClaimPods\<close> calls nothing (neither the API server
  nor \<open>CanAdoptFunc\<close>), reports no error and returns exactly the matching pods the controller owns.
\<close>

theorem ClaimPods_settled:
  assumes "\<forall>pod \<in> set pods. settled controller (pod_Meta pod) (pod_match selector filters pod)"
  shows "ClaimPods api kind controller selector canAdopt pods filters s =
    ((filter (\<lambda>pod. owned_match controller (pod_Meta pod) (pod_match selector filters pod)) pods, None), s)"
  by (simp add: ClaimPods_def claim_with_settled [OF assms] NewAggregate_def)

theorem ClaimPods_settled_witness:
  "ClaimPods recording_api controllerKind sample_owner Everything (Some refusing_recheck)
      [sample_owned, sample_owned] [] ([], None) = (([sample_owned, sample_owned], None), ([], None))"
proof -
  have "settled sample_owner (pod_Meta sample_owned) (pod_match Everything [] sample_owned)"
    and "owned_match sample_owner (pod_Meta sample_owned) (pod_match Everything [] sample_owned)"
    by (simp_all add: settled_def owned_match_def pod_match_def Everything_def GetControllerOf_def sample_defs)
  then show ?thesis by (subst ClaimPods_settled) simp_all
qed

text \<open>
  The recheck before adoption is done at most once for a list of pods, however many of them are
  orphans: a counter of its calls that patches leave alone grows by at most one.
\<close>

theorem ClaimPods_asks_once:
  fixes calls :: "'w \<Rightarrow> nat"
  assumes "\<And>w. calls (snd (recheck w)) = calls w + 1"
    and "\<And>namespace name data w. calls (snd (api_patch_pod api namespace name data w)) = calls w"
  shows "calls (fst (snd (ClaimPods api kind controller selector (Some recheck) pods filters (w, None)))) \<le> calls w + 1"
proof -
  have "calls (fst (snd (claim_with controller pod_Meta (pod_match selector filters)
      (AdoptPod api kind controller (Some recheck)) (ReleasePod api controller) pods (w, None)))) \<le> calls w + 1"
    by (rule pods.asked_at_most_once) (auto simp: assms PatchPod_def)
  then show ?thesis by (simp add: ClaimPods_world)
qed

theorem ClaimPods_asks_once_witness:
  "let calls = (\<lambda>w. length (filter (\<lambda>entry. entry = ''recheck'') w)) in
   calls (fst (snd (ClaimPods recording_api controllerKind sample_owner Everything
     (Some refusing_recheck) [sample_orphan, sample_orphan] [] ([], None)))) \<le> 1"
  using ClaimPods_asks_once [where calls = "\<lambda>w. length (filter (\<lambda>entry. entry = ''recheck'') w)"
      and recheck = refusing_recheck and api = recording_api and w = "[]" and kind = controllerKind
      and controller = sample_owner and selector = Everything and filters = "[]"
      and pods = "[sample_orphan, sample_orphan]"]
  by (simp add: refusing_recheck_def recording_api_def Let_def)

text \<open>
  C32. Unless the recheck has allowed adoption, no orphan is claimed: when it refused, or was not
  reached, the result is exactly the matching pods the controller owned already, also those that
  come after the refusal.
\<close>

theorem ClaimPods_denied:
  assumes "ClaimPods api kind controller selector canAdopt pods filters s = ((claimed, err), s')"
    and "snd s' \<noteq> Some None"
  shows "claimed = filter (\<lambda>pod. owned_match controller (pod_Meta pod) (pod_match selector filters pod)) pods"
  by (rule ClaimPods_run [OF assms(1)]) (rule pods.denied_claims_owned [OF _ assms(2)])

theorem ClaimPods_denied_witness:
  "[sample_owned] = filter (\<lambda>pod. owned_match sample_owner (pod_Meta pod) (pod_match Everything [] pod))
     [sample_orphan, sample_owned, sample_orphan]"
  by (rule ClaimPods_denied [OF sample_refusal]) simp

end
