(* ===== verification/PodReconcile.thy ===== *)
theory PodReconcile
  imports RefManager JobStatus ConfigGen
begin

text \<open>
  pkg/controller/controller_pod.go: finding the pods of a job, creating the missing ones and
  counting the others; with \<open>genOwnerReference\<close> of controller.go. The informer's store of pods is
  the argument \<open>podLister\<close>: the pods of a namespace, or the error of the listing. The job is
  changed in place by the code, so every operation returns the job as it leaves it.
\<close>

section \<open>Sorting the pods by index\<close>

definition caffe2ReplicaTypeLabel :: string where "caffe2ReplicaTypeLabel = ''caffe2_replica_type''"
definition caffe2ReplicaIndexLabel :: string where "caffe2ReplicaIndexLabel = ''caffe2_replica_index''"

definition filterPodsForCaffe2ReplicaType :: "Pod list \<Rightarrow> string \<Rightarrow> Pod list" where
  "filterPodsForCaffe2ReplicaType pods caffe2ReplicaType =
     filter (\<lambda>pod.
       case LabelSelectorAsSelector (Some \<lparr>lb_MatchLabels = [(caffe2ReplicaTypeLabel, caffe2ReplicaType)],
                                          lb_MatchExpressions = []\<rparr>) of
         Inl err \<Rightarrow> False
       | Inr selector \<Rightarrow> Selector_Matches selector (pod_labels pod)) pods"

text \<open>The body of the loop of \<open>getPodSlices\<close>.\<close>

definition place_pod :: "int \<Rightarrow> Pod list list \<Rightarrow> Pod \<Rightarrow> Pod list list" where
  "place_pod replicas podSlices pod =
     (case map_of (pod_labels pod) caffe2ReplicaIndexLabel of
        None \<Rightarrow> podSlices
      | Some value \<Rightarrow>
          (case atoi value of
             None \<Rightarrow> podSlices
           | Some index \<Rightarrow>
               if index < 0 \<or> replicas \<le> index then podSlices
               else podSlices[nat index := podSlices ! nat index @ [pod]]))"

definition getPodSlices :: "Pod list \<Rightarrow> int \<Rightarrow> Pod list list outcome" where
  "getPodSlices pods replicas =
     (if replicas < 0 then Panic NegativeLength
      else Ret (foldl (place_pod replicas) (replicate (nat replicas) []) pods))"

section \<open>Creating a pod\<close>

definition genOwnerReference :: "Caffe2Job \<Rightarrow> OwnerReference" where
  "genOwnerReference job =
     \<lparr>or_APIVersion = GroupVersion_String groupVersionKind, or_Kind = gvk_Kind groupVersionKind,
      or_Name = job_Name job, or_UID = job_UID job,
      or_Controller = Some True, or_BlockOwnerDeletion = Some True\<rparr>"

definition env_var :: "string \<Rightarrow> string \<Rightarrow> EnvVar" where
  "env_var name value = \<lparr>ev_Name = name, ev_Value = value, ev_ValueFrom = None\<rparr>"

definition add_env :: "EnvVar list \<Rightarrow> Container \<Rightarrow> Container" where
  "add_env vars c = c\<lparr>ct_Env := ct_Env c @ vars\<rparr>"

definition worker_env :: "Caffe2Job \<Rightarrow> Caffe2BackendSpec \<Rightarrow> string \<Rightarrow> int32 \<Rightarrow> EnvVar list" where
  "worker_env job backend index replicas =
     [env_var ''REDIS_HOST'' (be_RedisHost backend),
      env_var ''REDIS_PORT'' (itoa (sint (be_RedisPort backend))),
      env_var ''NFS_PATH'' (be_NFSPath backend),
      env_var ''SHARD_ID'' index,
      env_var ''NUM_SHARDS'' (itoa (sint replicas)),
      env_var ''RUN_ID'' (js_RuntimeID (job_Spec job))]"

text \<open>The loop over the containers reads the backend and the replica count once it has a container.\<close>

definition add_worker_env ::
  "Caffe2Job \<Rightarrow> Caffe2ReplicaSpec \<Rightarrow> string \<Rightarrow> Container list \<Rightarrow> Container list outcome" where
  "add_worker_env job spec index cs =
     (if cs = [] then Ret []
      else bind_outcome (deref (js_Backend (job_Spec job))) (\<lambda>backend.
             bind_outcome (deref (rs_Replicas spec)) (\<lambda>replicas.
               Ret (map (add_env (worker_env job backend index replicas)) cs))))"

definition worker_labels :: "Caffe2Job \<Rightarrow> string \<Rightarrow> string \<Rightarrow> label_map" where
  "worker_labels job rt index =
     AList.update caffe2ReplicaIndexLabel index
       (AList.update caffe2ReplicaTypeLabel rt
         (genLabels (js_RuntimeID (job_Spec job)) (MetaNamespaceKey (job_Meta job))))"

text \<open>
  The template of the new pod; \<open>None\<close> when the CAFFE2_CONFIG value is empty and the code gives
  up. A nil \<open>Template\<close> makes \<open>DeepCopy\<close> return nil, which the code then reads through.
\<close>

definition worker_template ::
  "Caffe2Job \<Rightarrow> string \<Rightarrow> string \<Rightarrow> Caffe2ReplicaSpec \<Rightarrow> PodTemplateSpec option outcome" where
  "worker_template job rt index spec =
     bind_outcome (deref (rs_Template spec)) (\<lambda>template.
       let labels = range_write (map_entries (om_Labels (pt_Meta template))) (worker_labels job rt index) in
       bind_outcome (add_worker_env job spec index (ps_Containers (pt_Spec template))) (\<lambda>cs.
         bind_outcome (genCaffe2ConfigJSONStr job rt index) (\<lambda>config.
           if config = [] then Ret None
           else Ret (Some
             \<lparr>pt_Meta = (pt_Meta template)\<lparr>om_Labels := Some labels\<rparr>,
              pt_Spec = (pt_Spec template)\<lparr>ps_Containers := map (add_env [env_var ''CAFFE2_CONFIG'' config]) cs\<rparr>\<rparr>))))"

definition createNewPod ::
  "'w api \<Rightarrow> Caffe2Job \<Rightarrow> string \<Rightarrow> string \<Rightarrow> Caffe2ReplicaSpec \<Rightarrow> ('w, go_error option) action" where
  "createNewPod api job rt index spec w =
     (case worker_template job rt index spec of
        Panic p \<Rightarrow> (Panic p, w)
      | Ret None \<Rightarrow> (Ret None, w)
      | Ret (Some podTemplate) \<Rightarrow>
          (case CreatePodsWithControllerRef api (job_Namespace job) podTemplate (Some (job_Meta job))
                  (Some (genOwnerReference job)) w of
             (Panic p, w1) \<Rightarrow> (Panic p, w1)
           | (Ret err, w1) \<Rightarrow>
               if err \<noteq> None \<and> IsTimeout err then (Ret None, w1)
               else if err \<noteq> None then (Ret err, w1) else (Ret None, w1)))"

section \<open>Reconciling\<close>

text \<open>\<open>for index, podSlice := range podSlices\<close>\<close>

fun reconcile_slices ::
  "'w api \<Rightarrow> string \<Rightarrow> Caffe2ReplicaSpec \<Rightarrow> int \<Rightarrow> Pod list list \<Rightarrow> Caffe2Job \<Rightarrow>
     ('w, Caffe2Job \<times> go_error option) action" where
  "reconcile_slices api rt spec index [] job w = (Ret (job, None), w)"
| "reconcile_slices api rt spec index (podSlice # podSlices) job w =
     (if 1 < length podSlice then reconcile_slices api rt spec (index + 1) podSlices job w
      else if length podSlice = 0 then
        (case createNewPod api job rt (itoa index) spec w of
           (Panic p, w1) \<Rightarrow> (Panic p, w1)
         | (Ret (Some err), w1) \<Rightarrow> (Ret (job, Some err), w1)
         | (Ret None, w1) \<Rightarrow>
             (case increaseCaffe2JobReplicaStatusesActive job of
                Panic p \<Rightarrow> (Panic p, w1)
              | Ret job1 \<Rightarrow> reconcile_slices api rt spec (index + 1) podSlices job1 w1))
      else
        (case updateCaffe2JobReplicaStatuses job (hd podSlice) of
           Panic p \<Rightarrow> (Panic p, w)
         | Ret job1 \<Rightarrow> reconcile_slices api rt spec (index + 1) podSlices job1 w))"

definition reconcilePods ::
  "'w api \<Rightarrow> Caffe2Job \<Rightarrow> Pod list \<Rightarrow> Caffe2ReplicaSpec option \<Rightarrow>
     ('w, Caffe2Job \<times> go_error option) action" where
  "reconcilePods api job pods spec w =
     (let rt = ''worker''; pods1 = filterPodsForCaffe2ReplicaType pods rt in
      case bind_outcome (deref spec) (\<lambda>spec1.
             bind_outcome (deref (rs_Replicas spec1)) (\<lambda>n.
               bind_outcome (getPodSlices pods1 (sint n)) (\<lambda>podSlices. Ret (spec1, sint n, podSlices)))) of
        Panic p \<Rightarrow> (Panic p, w)
      | Ret (spec1, replicas, podSlices) \<Rightarrow>
          (case reconcile_slices api rt spec1 0 podSlices (initializeCaffe2ReplicaStatuses job) w of
             (Panic p, w1) \<Rightarrow> (Panic p, w1)
           | (Ret (job1, Some err), w1) \<Rightarrow> (Ret (job1, Some err), w1)
           | (Ret (job1, None), w1) \<Rightarrow> updateStatus (api_now api) job1 replicas w1))"

section \<open>The pods of a job\<close>

text \<open>\<open>getObject\<close> of the recheck: the fresh job, unless another one has taken its name.\<close>

definition fresh_job :: "'w api \<Rightarrow> Caffe2Job \<Rightarrow> 'w \<Rightarrow> (go_error + ObjectMeta) \<times> 'w" where
  "fresh_job api job w =
     (case api_get_job api (job_Namespace job) (job_Name job) w of
        (Inl err, w1) \<Rightarrow> (Inl err, w1)
      | (Inr fresh, w1) \<Rightarrow>
          if job_UID fresh \<noteq> job_UID job
            then (Inl (Errorf ''original Caffe2Job %v/%v is gone: got uid %v, wanted %v''
                    [job_Namespace job, job_Name job, job_UID fresh, job_UID job] []), w1)
          else (Inr (job_Meta fresh), w1))"

definition job_selector :: "Caffe2Job \<Rightarrow> go_error + Selector" where
  "job_selector job =
     LabelSelectorAsSelector (Some
       \<lparr>lb_MatchLabels = genLabels (js_RuntimeID (job_Spec job)) (MetaNamespaceKey (job_Meta job)),
        lb_MatchExpressions = []\<rparr>)"

definition getPodsForCaffe2Job ::
  "'w api \<Rightarrow> (string \<Rightarrow> go_error + Pod list) \<Rightarrow> Caffe2Job \<Rightarrow> 'w \<Rightarrow> (Pod list \<times> go_error option) \<times> 'w" where
  "getPodsForCaffe2Job api podLister job w =
     (case job_selector job of
        Inl err \<Rightarrow> (([], Some (Errorf ''couldn't convert Job selector: %v'' [] [err])), w)
      | Inr selector \<Rightarrow>
          (case podLister (job_Namespace job) of
             Inl err \<Rightarrow> (([], Some err), w)
           | Inr pods \<Rightarrow>
               (let canAdoptFunc = RecheckDeletionTimestamp (fresh_job api job);
                    cm = NewPodControllerRefManager api (job_Meta job) selector controllerKind (Some canAdoptFunc) in
                case manager_ClaimPods cm pods [] w of (r, _, w1) \<Rightarrow> (r, w1))))"

section \<open>Lemmas: slices\<close>

definition replica_index :: "Pod \<Rightarrow> int option" where
  "replica_index pod = Option.bind (map_of (pod_labels pod) caffe2ReplicaIndexLabel) atoi"

definition slot :: "Pod list \<Rightarrow> nat \<Rightarrow> Pod list" where
  "slot pods i = filter (\<lambda>pod. replica_index pod = Some (int i)) pods"

lemma slot_simps [simp]:
  "slot [] i = []" "slot (pods @ pods') i = slot pods i @ slot pods' i"
  by (simp_all add: slot_def)

lemma length_place_pod: "length (place_pod n slices pod) = length slices"
  by (simp add: place_pod_def split: option.splits)

lemma nth_place_pod:
  assumes "length slices = nat n" and "i < nat n"
  shows "place_pod n slices pod ! i = slices ! i @ slot [pod] i"
proof (cases "replica_index pod")
  case None
  then show ?thesis by (auto simp: place_pod_def slot_def replica_index_def split: option.splits bind_splits)
next
  case (Some k)
  then obtain v where v: "map_of (pod_labels pod) caffe2ReplicaIndexLabel = Some v" "atoi v = Some k"
    by (auto simp: replica_index_def split: bind_splits)
  show ?thesis
  proof (cases "k < 0 \<or> n \<le> k")
    case True
    with assms(2) have "k \<noteq> int i" by auto
    with True Some v show ?thesis by (simp add: place_pod_def slot_def)
  next
    case False
    then have "nat k = i \<longleftrightarrow> k = int i" by auto
    with False Some v assms show ?thesis by (simp add: place_pod_def slot_def nth_list_update)
  qed
qed

lemma place_pod_slot:
  "length slices = nat n \<Longrightarrow>
     place_pod n slices pod = map (\<lambda>i. slices ! i @ slot [pod] i) [0..<nat n]"
  by (rule nth_equalityI) (simp_all add: length_place_pod nth_place_pod)

lemma foldl_place_pod:
  "length slices = nat n \<Longrightarrow>
     foldl (place_pod n) slices pods = map (\<lambda>i. slices ! i @ slot pods i) [0..<nat n]"
proof (induction pods arbitrary: slices)
  case Nil
  then show ?case by (auto intro: nth_equalityI)
next
  case (Cons pod pods)
  then show ?case by (simp add: place_pod_slot slot_def)
qed

lemma getPodSlices_slots:
  "0 \<le> n \<Longrightarrow> getPodSlices pods n = Ret (map (slot pods) [0..<nat n])"
  by (simp add: getPodSlices_def foldl_place_pod)

lemma label_ok_type: "label_ok (caffe2ReplicaTypeLabel, ''worker'')"
  by (simp add: label_ok_def caffe2ReplicaTypeLabel_def label_syntax_defs split_on_absent)

lemma filterPods_type:
  assumes "label_ok (caffe2ReplicaTypeLabel, rt)"
  shows "filterPodsForCaffe2ReplicaType pods rt =
     filter (\<lambda>pod. map_of (pod_labels pod) caffe2ReplicaTypeLabel = Some rt) pods"
proof (cases "LabelSelectorAsSelector (Some
    \<lparr>lb_MatchLabels = [(caffe2ReplicaTypeLabel, rt)], lb_MatchExpressions = []\<rparr>)")
  case (Inl e)
  with assms LabelSelectorAsSelector_labels [of "[(caffe2ReplicaTypeLabel, rt)]"] show ?thesis by simp
next
  case (Inr sel)
  with LabelSelectorAsSelector_labels [of "[(caffe2ReplicaTypeLabel, rt)]"] show ?thesis
    by (simp add: filterPodsForCaffe2ReplicaType_def holds_label_def)
qed

lemmas filterPods_worker = filterPods_type [OF label_ok_type]

section \<open>Lemmas: creating a pod\<close>

text \<open>What \<open>reconcilePods\<close> needs of a job to run through: everything it reads is there.\<close>

definition ready_job :: "Caffe2Job \<Rightarrow> Caffe2ReplicaSpec \<Rightarrow> int32 \<Rightarrow> bool" where
  "ready_job job spec n \<longleftrightarrow>
     js_ReplicaSpecs (job_Spec job) = Some spec \<and> rs_Replicas spec = Some n \<and> 0 \<le> sint n \<and>
     js_Backend (job_Spec job) \<noteq> None \<and> job_Name job \<noteq> [] \<and>
     (\<exists>template. rs_Template spec = Some template \<and> wf_map (map_entries (om_Labels (pt_Meta template))))"

lemma validate_genOwnerReference [simp]: "validateControllerRef (Some (genOwnerReference job)) = None"
  by (simp add: validateControllerRef_None genOwnerReference_def gvk_defs)

lemma worker_labels_map:
  "map_of (worker_labels job rt index) =
     (map_of (genLabels (js_RuntimeID (job_Spec job)) (MetaNamespaceKey (job_Meta job))))
       (caffe2ReplicaTypeLabel \<mapsto> rt, caffe2ReplicaIndexLabel \<mapsto> index)"
  by (simp add: worker_labels_def AList.update_conv')

lemma wf_worker_labels: "wf_map (worker_labels job rt index)"
  by (simp add: worker_labels_def distinct_update)

lemma worker_labels_job:
  "map_of (genLabels (js_RuntimeID (job_Spec job)) (MetaNamespaceKey (job_Meta job)))
     \<subseteq>\<^sub>m map_of (worker_labels job rt index)"
  by (auto simp: worker_labels_map map_le_def genLabels_def caffe2ReplicaTypeLabel_def
      caffe2ReplicaIndexLabel_def)

lemma worker_template_ready:
  assumes "ready_job job spec n" and "0 \<le> i" and "i < sint n"
  obtains template where "worker_template job rt (itoa i) spec = Ret (Some template)"
    "map_of (map_entries (om_Labels (pt_Meta template))) ++ map_of (worker_labels job rt (itoa i)) =
       map_of (map_entries (om_Labels (pt_Meta template)))"
    "map_entries (om_Labels (pt_Meta template)) \<noteq> []"
    "wf_map (map_entries (om_Labels (pt_Meta template)))"
proof -
  obtain t b where t: "rs_Template spec = Some t" "wf_map (map_entries (om_Labels (pt_Meta t)))"
    and b: "js_Backend (job_Spec job) = Some b" "rs_Replicas spec = Some n"
    using assms(1) by (auto simp: ready_job_def)
  obtain cs where cs: "add_worker_env job spec (itoa i) (ps_Containers (pt_Spec t)) = Ret cs"
    using b by (cases "ps_Containers (pt_Spec t) = []") (simp_all add: add_worker_env_def)
  obtain config where c: "genCaffe2ConfigJSONStr job rt (itoa i) = Ret config" "config \<noteq> []"
    using genCaffe2ConfigJSONStr_ok [of job spec n i rt] assms by (auto simp: ready_job_def)
  let ?labels = "range_write (map_entries (om_Labels (pt_Meta t))) (worker_labels job rt (itoa i))"
  have "?labels \<noteq> []" by (simp add: worker_labels_def genLabels_def)
  moreover have "map_of ?labels ++ map_of (worker_labels job rt (itoa i)) = map_of ?labels"
    by (simp add: map_of_range_write wf_worker_labels map_add_subsumed1 map_add_assoc [symmetric]
        del: map_add_assoc)
  moreover have "wf_map ?labels" by (rule wf_range_write [OF t(2)])
  ultimately show thesis
    using that t(1) cs c by (simp add: worker_template_def Let_def)
qed

lemma createNewPod_ready:
  assumes "ready_job job spec n" and "0 \<le> i" and "i < sint n"
  obtains pod event where
    "createNewPod api job rt (itoa i) spec w =
      (Ret (case fst (api_create_pod api (job_Namespace job) pod w) of
              Inl e \<Rightarrow> if IsTimeout (Some e) then None else Some e | Inr _ \<Rightarrow> None),
       api_event api event (snd (api_create_pod api (job_Namespace job) pod w)))"
    "map_of (worker_labels job rt (itoa i)) \<subseteq>\<^sub>m map_of (pod_labels pod)"
    "GetControllerOf (pod_Meta pod) = Some (genOwnerReference job)"
proof -
  obtain t where t: "worker_template job rt (itoa i) spec = Ret (Some t)"
    "map_of (map_entries (om_Labels (pt_Meta t))) ++ map_of (worker_labels job rt (itoa i)) =
       map_of (map_entries (om_Labels (pt_Meta t)))"
    "map_entries (om_Labels (pt_Meta t)) \<noteq> []" "wf_map (map_entries (om_Labels (pt_Meta t)))"
    by (rule worker_template_ready [OF assms])
  have named: "om_Name (job_Meta job) \<noteq> []" using assms(1) by (simp add: ready_job_def)
  obtain pod event where p:
    "CreatePodsWithControllerRef api (job_Namespace job) t (Some (job_Meta job))
        (Some (genOwnerReference job)) w =
      (Ret (case fst (api_create_pod api (job_Namespace job) pod w) of Inl e \<Rightarrow> Some e | Inr _ \<Rightarrow> None),
       api_event api event (snd (api_create_pod api (job_Namespace job) pod w)))"
    "pod_labels pod = getPodsLabelSet t" "GetControllerOf (pod_Meta pod) = Some (genOwnerReference job)"
    by (rule real_pods.creates_owned_pod [OF validate_genOwnerReference named t(3)])
  have "map_of (pod_labels pod) = map_of (map_entries (om_Labels (pt_Meta t)))"
    by (simp add: p(2) getPodsLabelSet_def map_of_range_write t(4))
  then have "map_of (worker_labels job rt (itoa i)) \<subseteq>\<^sub>m map_of (pod_labels pod)"
    using t(2) by (metis map_le_map_add)
  with p show thesis
    by (intro that [of pod event]) (auto simp: createNewPod_def t(1) split: sum.splits)
qed

text \<open>A pod that carries the labels of index \<open>i\<close> is found again at that index.\<close>

lemma worker_labels_found:
  assumes "map_of (worker_labels job ''worker'' (itoa i)) \<subseteq>\<^sub>m map_of (pod_labels pod)"
    and "0 \<le> i" and "i < 2 ^ 31"
  shows "replica_index pod = Some i"
    and "map_of (pod_labels pod) caffe2ReplicaTypeLabel = Some ''worker''"
    and "job_selector job = Inr sel \<Longrightarrow> Selector_Matches sel (pod_labels pod)"
proof -
  have index: "map_of (pod_labels pod) caffe2ReplicaIndexLabel = Some (itoa i)"
    using assms(1) by (rule map_le_Some) (simp add: worker_labels_map)
  show "replica_index pod = Some i"
    using assms(2,3) by (simp add: replica_index_def index atoi_itoa)
  show "map_of (pod_labels pod) caffe2ReplicaTypeLabel = Some ''worker''"
    using assms(1) by (rule map_le_Some)
      (simp add: worker_labels_map caffe2ReplicaTypeLabel_def caffe2ReplicaIndexLabel_def)
  show "Selector_Matches sel (pod_labels pod)" if "job_selector job = Inr sel"
  proof -
    have "Selector_Matches sel (pod_labels pod) \<longleftrightarrow> list_all (holds_label (pod_labels pod))
        (genLabels (js_RuntimeID (job_Spec job)) (MetaNamespaceKey (job_Meta job)))"
      using that LabelSelectorAsSelector_labels
        [of "genLabels (js_RuntimeID (job_Spec job)) (MetaNamespaceKey (job_Meta job))"]
      by (simp add: job_selector_def)
    also have "\<dots>"
      unfolding SelectorFromValidatedSet_Matches [symmetric]
      by (rule vset.select_map_le [OF vset.select_refl])
        (simp_all add: map_le_trans [OF worker_labels_job assms(1)])
    finally show ?thesis .
  qed
qed

section \<open>Lemmas: counting and creating\<close>

text \<open>What the pods of one index count as: a missing pod is counted as active, several as nothing.\<close>

fun slot_active :: "Pod list \<Rightarrow> bool" where
  "slot_active [] = True"
| "slot_active [pod] = (pod_Phase pod = PodRunning \<or> pod_Phase pod = PodPending)"
| "slot_active _ = False"

fun slot_in_phase :: "string \<Rightarrow> Pod list \<Rightarrow> bool" where
  "slot_in_phase phase [pod] = (pod_Phase pod = phase)"
| "slot_in_phase phase _ = False"

definition tally :: "Pod list list \<Rightarrow> Caffe2ReplicaStatus \<Rightarrow> Caffe2ReplicaStatus" where
  "tally slices rs =
     \<lparr>st_Active = st_Active rs + of_nat (length (filter slot_active slices)),
      st_Succeeded = st_Succeeded rs + of_nat (length (filter (slot_in_phase PodSucceeded) slices)),
      st_Failed = st_Failed rs + of_nat (length (filter (slot_in_phase PodFailed) slices))\<rparr>"

definition with_replica_statuses :: "Caffe2Job \<Rightarrow> Caffe2ReplicaStatus \<Rightarrow> Caffe2Job" where
  "with_replica_statuses job rs = set_status job (\<lambda>s. s\<lparr>ss_ReplicaStatuses := Some rs\<rparr>)"

lemma with_replica_statuses_simps [simp]:
  "job_Meta (with_replica_statuses job rs) = job_Meta job"
  "job_Spec (with_replica_statuses job rs) = job_Spec job"
  "ss_ReplicaStatuses (job_Status (with_replica_statuses job rs)) = Some rs"
  "ss_Conditions (job_Status (with_replica_statuses job rs)) = ss_Conditions (job_Status job)"
  "ss_StartTime (job_Status (with_replica_statuses job rs)) = ss_StartTime (job_Status job)"
  "ss_CompletionTime (job_Status (with_replica_statuses job rs)) = ss_CompletionTime (job_Status job)"
  "with_replica_statuses (with_replica_statuses job rs) rs' = with_replica_statuses job rs'"
  "shown (job_Status (with_replica_statuses job rs)) = shown (job_Status job)"
  "one_per_type (job_Status (with_replica_statuses job rs)) = one_per_type (job_Status job)"
  by (simp_all add: with_replica_statuses_def set_status_def)

lemma bump_with: "bump f (with_replica_statuses job rs) = Ret (with_replica_statuses job (f rs))"
  by (simp add: bump_Some with_replica_statuses_def set_status_def)

lemma initialize_with:
  "initializeCaffe2ReplicaStatuses job = with_replica_statuses job \<lparr>st_Active = 0, st_Succeeded = 0, st_Failed = 0\<rparr>"
  by (simp add: initializeCaffe2ReplicaStatuses_def with_replica_statuses_def)

lemma increase_with:
  "increaseCaffe2JobReplicaStatusesActive (with_replica_statuses job rs) =
     Ret (with_replica_statuses job (rs\<lparr>st_Active := st_Active rs + 1\<rparr>))"
  by (simp add: increaseCaffe2JobReplicaStatusesActive_def bump_with)

lemma tally_Cons:
  "tally [] rs = rs"
  "tally ([] # slices) rs = tally slices (rs\<lparr>st_Active := st_Active rs + 1\<rparr>)"
  "1 < length s \<Longrightarrow> tally (s # slices) rs = tally slices rs"
  by (cases s rule: slot_active.cases; simp add: tally_def add.assoc)+

lemma update_with:
  "\<exists>rs'. updateCaffe2JobReplicaStatuses (with_replica_statuses job rs) pod = Ret (with_replica_statuses job rs') \<and>
     (\<forall>slices. tally slices rs' = tally ([pod] # slices) rs)"
proof -
  consider "pod_Phase pod = PodRunning \<or> pod_Phase pod = PodPending" | "pod_Phase pod = PodSucceeded"
    | "pod_Phase pod = PodFailed" | "pod_Phase pod \<notin> {PodRunning, PodPending, PodSucceeded, PodFailed}"
    by blast
  then show ?thesis
    by cases (auto simp: updateCaffe2JobReplicaStatuses_def bump_with tally_def)
qed

lemma reads_no_status [simp]:
  "worker_labels (with_replica_statuses job rs) = worker_labels job"
  "worker_env (with_replica_statuses job rs) = worker_env job"
  "genClusterSpec (with_replica_statuses job rs) = genClusterSpec job"
  "genOwnerReference (with_replica_statuses job rs) = genOwnerReference job"
  by (simp_all add: worker_labels_def worker_env_def genClusterSpec_def genOwnerReference_def fun_eq_iff)

lemma worker_template_status [simp]:
  "worker_template (with_replica_statuses job rs) = worker_template job"
proof -
  have "add_worker_env (with_replica_statuses job rs) = add_worker_env job"
    by (intro ext) (simp only: add_worker_env_def reads_no_status with_replica_statuses_simps)
  moreover have "genCaffe2ConfigJSONStr (with_replica_statuses job rs) = genCaffe2ConfigJSONStr job"
    by (intro ext) (simp only: genCaffe2ConfigJSONStr_def reads_no_status)
  ultimately show ?thesis
    by (intro ext) (simp only: worker_template_def reads_no_status)
qed

lemma createNewPod_status [simp]:
  "createNewPod api (with_replica_statuses job rs) rt index spec = createNewPod api job rt index spec"
  by (intro ext) (simp only: createNewPod_def reads_no_status worker_template_status with_replica_statuses_simps)

lemma ready_job_status [simp]: "ready_job (with_replica_statuses job rs) = ready_job job"
  by (simp add: ready_job_def fun_eq_iff)

text \<open>A server that refuses no pod.\<close>

definition accepts_pods :: "'w api \<Rightarrow> bool" where
  "accepts_pods api \<longleftrightarrow> (\<forall>namespace pod w. \<exists>p. fst (api_create_pod api namespace pod w) = Inr p)"

text \<open>The loop, whatever the API server does: it does not panic, and counts every index it passes.\<close>

lemma reconcile_slices_result:
  assumes "ready_job job spec n" and "0 \<le> i" and "i + int (length slices) \<le> sint n"
  shows "\<exists>rs' err w'. reconcile_slices api rt spec i slices (with_replica_statuses job rs) w =
      (Ret (with_replica_statuses job rs', err), w') \<and> (err = None \<longrightarrow> rs' = tally slices rs) \<and>
      (accepts_pods api \<longrightarrow> err = None)"
  using assms(2,3)
proof (induction slices arbitrary: i rs w)
  case Nil
  then show ?case by (auto simp: tally_Cons)
next
  case (Cons s slices)
  have next_i: "0 \<le> i + 1" "i + 1 + int (length slices) \<le> sint n" and i: "0 \<le> i" "i < sint n"
    using Cons.prems by simp_all
  note IH = Cons.IH [OF next_i]
  show ?case
  proof (cases s rule: slot_active.cases)
    case 1
    obtain pod event where create: "createNewPod api job rt (itoa i) spec w =
      (Ret (case fst (api_create_pod api (job_Namespace job) pod w) of
              Inl e \<Rightarrow> if IsTimeout (Some e) then None else Some e | Inr _ \<Rightarrow> None),
       api_event api event (snd (api_create_pod api (job_Namespace job) pod w)))"
      by (rule createNewPod_ready [OF assms(1) i])
    have accepted: "accepts_pods api \<Longrightarrow> fst (api_create_pod api (job_Namespace job) pod w) \<noteq> Inl e" for e
      by (metis accepts_pods_def sum.distinct(1))
    show ?thesis
      using 1 create IH [of "rs\<lparr>st_Active := st_Active rs + 1\<rparr>"] accepted
      by (cases "fst (api_create_pod api (job_Namespace job) pod w)") (auto simp: increase_with tally_Cons)
  next
    case (2 pod)
    obtain rs' where "updateCaffe2JobReplicaStatuses (with_replica_statuses job rs) pod =
        Ret (with_replica_statuses job rs')" "\<forall>slices. tally slices rs' = tally ([pod] # slices) rs"
      using update_with by blast
    with 2 IH [of rs' w] show ?thesis by simp
  next
    case (3 p q ps)
    with IH [of rs w] show ?thesis by (simp add: tally_Cons)
  qed
qed

text \<open>
  An API server that stores what it is sent: \<open>pods_of\<close> reads the pods created so far out of the
  world. A created pod keeps the labels and the controller it was sent with, a refused one leaves
  nothing behind, no request times out, and events and the clock create no pods.
\<close>

definition stores_pods :: "'w api \<Rightarrow> ('w \<Rightarrow> Pod list) \<Rightarrow> bool" where
  "stores_pods api pods_of \<longleftrightarrow>
     (\<forall>namespace pod w.
        case api_create_pod api namespace pod w of
          (Inr p, w') \<Rightarrow> pods_of w' = pods_of w @ [p] \<and> pod_labels p = pod_labels pod \<and>
             GetControllerOf (pod_Meta p) = GetControllerOf (pod_Meta pod)
        | (Inl e, w') \<Rightarrow> pods_of w' = pods_of w \<and> \<not> IsTimeout (Some e)) \<and>
     (\<forall>event w. pods_of (api_event api event w) = pods_of w) \<and>
     (\<forall>w. pods_of (snd (api_now api w)) = pods_of w)"

text \<open>A pod that the operator made for index \<open>i\<close> of the job, and the indices that have none.\<close>

definition made_for :: "Caffe2Job \<Rightarrow> int \<Rightarrow> Pod \<Rightarrow> bool" where
  "made_for job i pod \<longleftrightarrow>
     map_of (worker_labels job ''worker'' (itoa i)) \<subseteq>\<^sub>m map_of (pod_labels pod) \<and>
     GetControllerOf (pod_Meta pod) = Some (genOwnerReference job)"

fun missing_from :: "int \<Rightarrow> Pod list list \<Rightarrow> int list" where
  "missing_from i [] = []"
| "missing_from i (s # slices) = (if s = [] then i # missing_from (i + 1) slices else missing_from (i + 1) slices)"

lemma made_for_status [simp]: "made_for (with_replica_statuses job rs) = made_for job"
  by (intro ext) (simp only: made_for_def reads_no_status)

lemma createNewPod_stores:
  assumes "stores_pods api pods_of" and "ready_job job spec n" and "0 \<le> i" and "i < sint n"
    and "createNewPod api job ''worker'' (itoa i) spec w = (Ret err, w')"
  shows "if err = None then \<exists>p. pods_of w' = pods_of w @ [p] \<and> made_for job i p else pods_of w' = pods_of w"
proof -
  obtain pod event where create: "createNewPod api job ''worker'' (itoa i) spec w =
      (Ret (case fst (api_create_pod api (job_Namespace job) pod w) of
              Inl e \<Rightarrow> if IsTimeout (Some e) then None else Some e | Inr _ \<Rightarrow> None),
       api_event api event (snd (api_create_pod api (job_Namespace job) pod w)))"
    and made: "made_for job i pod"
    by (rule createNewPod_ready [OF assms(2-4), of api "''worker''" w]) (simp add: made_for_def)
  obtain r w1 where r: "api_create_pod api (job_Namespace job) pod w = (r, w1)" by (metis prod.exhaust)
  have w': "pods_of w' = pods_of w1" and err: "err = (case r of
      Inl e \<Rightarrow> if IsTimeout (Some e) then None else Some e | Inr _ \<Rightarrow> None)"
    using create assms(1,5) r by (auto simp: stores_pods_def)
  have "case r of Inr p \<Rightarrow> pods_of w1 = pods_of w @ [p] \<and> pod_labels p = pod_labels pod \<and>
             GetControllerOf (pod_Meta p) = GetControllerOf (pod_Meta pod)
        | Inl e \<Rightarrow> pods_of w1 = pods_of w \<and> \<not> IsTimeout (Some e)"
    using assms(1) r unfolding stores_pods_def by (metis (no_types, lifting) case_prod_conv)
  then show ?thesis using made by (cases r) (auto simp: w' err made_for_def)
qed

lemma reconcile_slices_stores:
  assumes "stores_pods api pods_of" and "ready_job job spec n"
    and "0 \<le> i" and "i + int (length slices) \<le> sint n"
    and "reconcile_slices api ''worker'' spec i slices (with_replica_statuses job rs) w = (Ret (job', err), w')"
  shows "\<exists>new is. pods_of w' = pods_of w @ new \<and> list_all2 (made_for job) is new \<and>
    prefix is (missing_from i slices) \<and> (err = None \<longrightarrow> is = missing_from i slices)"
  using assms(3-5)
proof (induction slices arbitrary: i rs w)
  case Nil
  then show ?case by (intro exI [of _ "[]"]) simp
next
  case (Cons s slices)
  have next_i: "0 \<le> i + 1" "i + 1 + int (length slices) \<le> sint n" and i: "0 \<le> i" "i < sint n"
    using Cons.prems by simp_all
  note IH = Cons.IH [OF next_i]
  note run = Cons.prems(3)
  show ?case
  proof (cases s rule: slot_active.cases)
    case 1
    obtain r w1 where create: "createNewPod api job ''worker'' (itoa i) spec w = (Ret r, w1)"
      by (rule createNewPod_ready [OF assms(2) i, of api "''worker''" w]) blast
    note stored = createNewPod_stores [OF assms(1,2) i create]
    show ?thesis
    proof (cases r)
      case None
      from run 1 create None have
        "reconcile_slices api ''worker'' spec (i + 1) slices
           (with_replica_statuses job (rs\<lparr>st_Active := st_Active rs + 1\<rparr>)) w1 = (Ret (job', err), w')"
        by (simp add: increase_with)
      from IH [OF this] obtain new "is" where rest: "pods_of w' = pods_of w1 @ new"
        "list_all2 (made_for job) is new" "prefix is (missing_from (i + 1) slices)"
        "err = None \<longrightarrow> is = missing_from (i + 1) slices" by blast
      from stored None obtain p where "pods_of w1 = pods_of w @ [p]" "made_for job i p" by auto
      with rest 1 show ?thesis by (intro exI [of _ "p # new"] exI [of _ "i # is"]) simp
    next
      case (Some e)
      with run 1 create stored show ?thesis by (intro exI [of _ "[]"]) auto
    qed
  next
    case (2 pod)
    obtain rs' where "updateCaffe2JobReplicaStatuses (with_replica_statuses job rs) pod =
        Ret (with_replica_statuses job rs')"
      using update_with by blast
    with 2 run IH [of rs' w] show ?thesis by simp
  next
    case (3 p q ps)
    with run IH [of rs w] show ?thesis by simp
  qed
qed

lemma missing_from_slots:
  "missing_from (int a) (map f [a..<b]) = map int (filter (\<lambda>i. f i = []) [a..<b])"
proof (induction "b - a" arbitrary: a)
  case (Suc d)
  then have "[a..<b] = a # [Suc a..<b]" and "d = b - Suc a" by (simp_all add: upt_conv_Cons)
  with Suc.hyps(1) [of "Suc a"] show ?case by (simp add: add.commute)
qed simp

section \<open>Lemmas: the whole step\<close>

definition worker_slots :: "Pod list \<Rightarrow> int32 \<Rightarrow> Pod list list" where
  "worker_slots pods n = map (slot (filterPodsForCaffe2ReplicaType pods ''worker'')) [0..<nat (sint n)]"

lemma length_worker_slots: "0 \<le> sint n \<Longrightarrow> int (length (worker_slots pods n)) = sint n"
  by (simp add: worker_slots_def)

lemma sint_count:
  fixes n :: int32
  assumes "0 \<le> sint n"
  shows "sint (of_nat (length (filter P (worker_slots pods n))) :: int32) =
    int (length (filter P (worker_slots pods n)))"
proof -
  have "int (length (filter P (worker_slots pods n))) \<le> sint n"
    using length_filter_le [of P "worker_slots pods n"] length_worker_slots [OF assms, of pods] by linarith
  also have "sint n < 2 ^ 31" using sint_lt [of n] by simp
  finally have "signed_take_bit 31 (int (length (filter P (worker_slots pods n)))) =
      int (length (filter P (worker_slots pods n)))"
    by (intro signed_take_bit_int_eq_self) auto
  then show ?thesis by (simp add: signed_of_nat)
qed

definition zero_statuses :: Caffe2ReplicaStatus where
  "zero_statuses = \<lparr>st_Active = 0, st_Succeeded = 0, st_Failed = 0\<rparr>"

lemma reconcilePods_steps:
  assumes "ready_job job spec n"
  shows "reconcilePods api job pods (Some spec) w =
    (case reconcile_slices api ''worker'' spec 0 (worker_slots pods n)
            (with_replica_statuses job zero_statuses) w of
       (Panic p, w1) \<Rightarrow> (Panic p, w1)
     | (Ret (job1, Some err), w1) \<Rightarrow> (Ret (job1, Some err), w1)
     | (Ret (job1, None), w1) \<Rightarrow> updateStatus (api_now api) job1 (sint n) w1)"
  using assms
  by (simp add: reconcilePods_def ready_job_def getPodSlices_slots worker_slots_def initialize_with
      zero_statuses_def Let_def)

lemma reconcilePods_slices:
  assumes "ready_job job spec n"
  obtains rs err w1 where
    "reconcile_slices api ''worker'' spec 0 (worker_slots pods n) (with_replica_statuses job zero_statuses) w =
       (Ret (with_replica_statuses job rs, err), w1)"
    "err = None \<longrightarrow> rs = tally (worker_slots pods n) zero_statuses" "accepts_pods api \<longrightarrow> err = None"
  using reconcile_slices_result [OF assms, of 0 "worker_slots pods n" api "''worker''" zero_statuses w]
    length_worker_slots [of n pods] assms
  by (auto simp: ready_job_def)

lemma all_filter_length: "int (length (filter P xs)) = int (length xs) \<longleftrightarrow> (\<forall>x \<in> set xs. P x)"
proof -
  have "length (filter P xs) = length xs \<longleftrightarrow> (\<forall>x \<in> set xs. P x)"
    by (metis filter_True length_filter_less less_irrefl)
  then show ?thesis by simp
qed

lemma some_filter_length: "0 < int (length (filter P xs)) \<longleftrightarrow> (\<exists>x \<in> set xs. P x)"
  by (auto simp: filter_empty_conv)

lemma reconcilePods_accepted:
  assumes "ready_job job spec n" and "accepts_pods api"
  shows "\<exists>job' w'. reconcilePods api job pods (Some spec) w = (Ret (job', None), w')"
proof -
  obtain rs w1 where "reconcile_slices api ''worker'' spec 0 (worker_slots pods n)
      (with_replica_statuses job zero_statuses) w = (Ret (with_replica_statuses job rs, None), w1)"
    using reconcilePods_slices [OF assms(1), of api pods w] assms(2) by metis
  then show ?thesis
    using updateStatus_shown [of "with_replica_statuses job rs" rs "api_now api" "sint n" w1]
    by (auto simp: reconcilePods_steps [OF assms(1)])
qed

definition missing_indices :: "Pod list \<Rightarrow> int32 \<Rightarrow> int list" where
  "missing_indices pods n =
     map int (filter (\<lambda>i. slot (filterPodsForCaffe2ReplicaType pods ''worker'') i = []) [0..<nat (sint n)])"

lemma reconcilePods_stores:
  assumes "stores_pods api pods_of" and "ready_job job spec n"
    and "reconcilePods api job pods (Some spec) w = (Ret (job', err), w')"
  shows "\<exists>new is. pods_of w' = pods_of w @ new \<and> list_all2 (made_for job) is new \<and>
    prefix is (missing_indices pods n) \<and> (err = None \<longrightarrow> is = missing_indices pods n)"
proof -
  obtain rs err1 w1 where run:
    "reconcile_slices api ''worker'' spec 0 (worker_slots pods n) (with_replica_statuses job zero_statuses) w =
       (Ret (with_replica_statuses job rs, err1), w1)"
    by (rule reconcilePods_slices [OF assms(2)])
  have "0 \<le> sint n" using assms(2) by (simp add: ready_job_def)
  then have len: "0 + int (length (worker_slots pods n)) \<le> sint n" using length_worker_slots by simp
  have missing: "missing_from 0 (worker_slots pods n) = missing_indices pods n"
    using missing_from_slots [of 0] by (simp add: worker_slots_def missing_indices_def)
  obtain new "is" where new: "pods_of w1 = pods_of w @ new" "list_all2 (made_for job) is new"
    "prefix is (missing_indices pods n)" "err1 = None \<longrightarrow> is = missing_indices pods n"
    using reconcile_slices_stores [OF assms(1,2) order_refl len run] by (auto simp: missing)
  have clock: "\<And>w. pods_of (snd (api_now api w)) = pods_of w"
    using assms(1) by (simp add: stores_pods_def)
  have "pods_of w' = pods_of w1 \<and> (err = None \<longrightarrow> err1 = None)"
  proof (cases err1)
    case None
    with assms(3) run have "updateStatus (api_now api) (with_replica_statuses job rs) (sint n) w1 = (Ret (job', err), w')"
      by (simp add: reconcilePods_steps [OF assms(2)])
    with None updateStatus_world [of pods_of "api_now api", OF clock] show ?thesis by (metis snd_conv)
  qed (use assms(3) run in \<open>auto simp: reconcilePods_steps [OF assms(2)]\<close>)
  with new show ?thesis by auto
qed

lemma missing_indices_meta:
  assumes "map pod_Meta pods = map pod_Meta pods'"
  shows "missing_indices pods n = missing_indices pods' n"
proof -
  have mem: "slot (filterPodsForCaffe2ReplicaType ps ''worker'') i = [] \<longleftrightarrow>
      (\<forall>m \<in> set (map pod_Meta ps). map_of (map_entries (om_Labels m)) caffe2ReplicaTypeLabel = Some ''worker'' \<longrightarrow>
        Option.bind (map_of (map_entries (om_Labels m)) caffe2ReplicaIndexLabel) atoi \<noteq> Some (int i))" for ps i
    by (simp add: filterPods_worker slot_def replica_index_def filter_empty_conv)
  show ?thesis unfolding missing_indices_def mem assms ..
qed

text \<open>Pods made for all missing indices leave none missing.\<close>

lemma made_for_fills:
  assumes "list_all2 (made_for job) (missing_indices pods n) new"
  shows "missing_indices (pods @ new) n = []"
proof -
  have "slot (filterPodsForCaffe2ReplicaType (pods @ new) ''worker'') i \<noteq> []" if i: "i < nat (sint n)" for i
  proof (cases "slot (filterPodsForCaffe2ReplicaType pods ''worker'') i = []")
    case True
    with i have "int i \<in> set (missing_indices pods n)" by (simp add: missing_indices_def)
    then obtain p where p: "p \<in> set new" "made_for job (int i) p"
      using assms by (metis list_all2_conv_all_nth in_set_conv_nth)
    have "int i < 2 ^ 31" using i sint_lt [of n] by simp
    from worker_labels_found [OF _ _ this, of job p] p(2)
    have "replica_index p = Some (int i)" "map_of (pod_labels p) caffe2ReplicaTypeLabel = Some ''worker''"
      by (simp_all add: made_for_def)
    with p(1) show ?thesis by (auto simp: filterPods_worker slot_def filter_empty_conv)
  qed (simp add: filterPods_worker)
  then show ?thesis by (simp add: missing_indices_def filter_empty_conv)
qed

lemma reconcilePods_shown:
  assumes "ready_job job spec n"
  shows "\<exists>job' err w'. reconcilePods api job pods (Some spec) w = (Ret (job', err), w') \<and>
    job_Meta job' = job_Meta job \<and> job_Spec job' = job_Spec job \<and>
    (if err = None then
      (\<forall>t. shown (job_Status job') t =
        (if t = Caffe2JobRunning \<and> (\<exists>s \<in> set (worker_slots pods n). slot_active s)
           then Some (ConditionTrue, caffe2JobRunningReason)
         else if t = Caffe2JobSucceeded \<and> (\<forall>s \<in> set (worker_slots pods n). slot_in_phase PodSucceeded s)
           then Some (ConditionTrue, caffe2JobSucceededReason)
         else if t = Caffe2JobFailed \<and> (\<exists>s \<in> set (worker_slots pods n). slot_in_phase PodFailed s)
           then Some (ConditionTrue, caffe2JobFailedReason)
         else shown (job_Status job) t))
     else ss_Conditions (job_Status job') = ss_Conditions (job_Status job) \<and>
       ss_StartTime (job_Status job') = ss_StartTime (job_Status job) \<and>
       ss_CompletionTime (job_Status job') = ss_CompletionTime (job_Status job))"
proof -
  have n: "0 \<le> sint n" using assms by (simp add: ready_job_def)
  let ?slots = "worker_slots pods n"
  obtain rs err w1 where run: "reconcile_slices api ''worker'' spec 0 ?slots
      (with_replica_statuses job zero_statuses) w = (Ret (with_replica_statuses job rs, err), w1)"
    and rs: "err = None \<longrightarrow> rs = tally ?slots zero_statuses"
    by (rule reconcilePods_slices [OF assms])
  show ?thesis
  proof (cases err)
    case (Some e)
    with run show ?thesis by (simp add: reconcilePods_steps [OF assms])
  next
    case None
    let ?job = "with_replica_statuses job (tally ?slots zero_statuses)"
    have counts: "sint (st_Active (tally ?slots zero_statuses)) = int (length (filter slot_active ?slots))"
      "sint (st_Succeeded (tally ?slots zero_statuses)) = int (length (filter (slot_in_phase PodSucceeded) ?slots))"
      "sint (st_Failed (tally ?slots zero_statuses)) = int (length (filter (slot_in_phase PodFailed) ?slots))"
      by (simp_all add: tally_def zero_statuses_def sint_count [OF n])
    have eq: "reconcilePods api job pods (Some spec) w = updateStatus (api_now api) ?job (sint n) w1"
      using run rs None by (simp add: reconcilePods_steps [OF assms])
    have all: "int (length (filter (slot_in_phase PodSucceeded) ?slots)) = sint n \<longleftrightarrow>
        (\<forall>s \<in> set ?slots. slot_in_phase PodSucceeded s)"
      using all_filter_length [of "slot_in_phase PodSucceeded" ?slots] length_worker_slots [OF n, of pods] by simp
    obtain job' w' where upd: "updateStatus (api_now api) ?job (sint n) w1 = (Ret (job', None), w')"
      "job_Meta job' = job_Meta job" "job_Spec job' = job_Spec job"
      and shown: "\<forall>t. shown (job_Status job') t =
        (if t = Caffe2JobRunning \<and> (\<exists>s \<in> set ?slots. slot_active s)
           then Some (ConditionTrue, caffe2JobRunningReason)
         else if t = Caffe2JobSucceeded \<and> (\<forall>s \<in> set ?slots. slot_in_phase PodSucceeded s)
           then Some (ConditionTrue, caffe2JobSucceededReason)
         else if t = Caffe2JobFailed \<and> (\<exists>s \<in> set ?slots. slot_in_phase PodFailed s)
           then Some (ConditionTrue, caffe2JobFailedReason)
         else shown (job_Status job) t)"
      using updateStatus_shown [of ?job, OF with_replica_statuses_simps(3), of "api_now api" "sint n" w1]
      unfolding counts some_filter_length all with_replica_statuses_simps
      by (elim exE conjE) (rule that; assumption)
    show ?thesis
      unfolding eq using upd shown by (intro exI [of _ job'] exI [of _ None] exI [of _ w']) simp
  qed
qed

text \<open>A server that stores every pod, for the concrete runs; the world is its list of pods.\<close>

definition store_api :: "Pod list api" where
  "store_api = \<lparr>
     api_now = (\<lambda>w. (int (length w), w)),
     api_create_pod = (\<lambda>namespace pod w. (Inr pod, w @ [pod])),
     api_delete_pod = (\<lambda>namespace name w. (None, w)),
     api_patch_pod = (\<lambda>namespace name data w. (None, w)),
     api_create_service = (\<lambda>namespace service w. (Inr service, w)),
     api_patch_service = (\<lambda>namespace name data w. (None, w)),
     api_get_job = (\<lambda>namespace name w. (Inl (StatusError ''NotFound'' name), w)),
     api_update_job = (\<lambda>namespace job w. (None, w)),
     api_event = (\<lambda>event w. w)\<rparr>"

lemma store_api_laws: "stores_pods store_api (\<lambda>w. w)" "accepts_pods store_api"
  by (simp_all add: stores_pods_def accepts_pods_def store_api_def)

lemma sample_ready: "ready_job sample_job sample_spec 2"
  by (simp add: ready_job_def sample_job_defs)

lemma sample_selector: "\<exists>selector. job_selector sample_job = Inr selector"
proof -
  have "list_all label_ok (genLabels (js_RuntimeID (job_Spec sample_job)) (MetaNamespaceKey (job_Meta sample_job)))"
    by (simp add: genLabels_def label_ok_def label_syntax_defs GroupName_def MetaNamespaceKey_def
        replace_slash_def sample_job_defs)
  then show ?thesis
    using LabelSelectorAsSelector_labels
      [of "genLabels (js_RuntimeID (job_Spec sample_job)) (MetaNamespaceKey (job_Meta sample_job))"]
    by (auto simp: job_selector_def split: sum.splits)
qed

text \<open>The same job with a name that is too long for a label.\<close>

definition long_job :: Caffe2Job where
  "long_job = sample_job\<lparr>job_Meta := (job_Meta sample_job)\<lparr>om_Name := replicate 70 (CHR ''a'')\<rparr>\<rparr>"

section \<open>Properties\<close>

text \<open>
  C35. \<open>getPodSlices\<close> gives one slice per replica: the \<open>i\<close>-th holds, in their order, exactly the pods
  whose index label reads as \<open>i\<close>; pods without the label, with an unreadable or an out-of-range one
  are in none. A negative number of replicas panics.
\<close>

theorem getPodSlices_by_index:
  "getPodSlices pods replicas =
    (if replicas < 0 then Panic NegativeLength
     else Ret (map (\<lambda>i. filter (\<lambda>pod. Option.bind (map_of (pod_labels pod) caffe2ReplicaIndexLabel) atoi
                                   = Some (int i)) pods) [0..<nat replicas]))"
  using getPodSlices_slots [of replicas pods]
  by (auto simp: getPodSlices_def slot_def replica_index_def)

text \<open>
  C4. The pod that \<open>createNewPod\<close> sends for index \<open>i\<close> is the job's own in every sense the next
  reconciliation asks about: it is controlled by the job and matches its selector (so it is claimed
  without any request), it passes the worker filter, and its index label reads as \<open>i\<close>. The server's
  error is returned, except that a timeout counts as success.
\<close>

theorem createNewPod_found_again:
  assumes "ready_job job spec n" and "0 \<le> i" and "i < sint n" and "job_selector job = Inr selector"
  shows "\<exists>pod event. createNewPod api job ''worker'' (itoa i) spec w =
      (Ret (case fst (api_create_pod api (job_Namespace job) pod w) of
              Inl e \<Rightarrow> if IsTimeout (Some e) then None else Some e | Inr _ \<Rightarrow> None),
       api_event api event (snd (api_create_pod api (job_Namespace job) pod w))) \<and>
    owned_match (job_Meta job) (pod_Meta pod) (pod_match selector [] pod) \<and>
    filterPodsForCaffe2ReplicaType [pod] ''worker'' = [pod] \<and> replica_index pod = Some i"
proof -
  have bound: "i < 2 ^ 31" using assms(3) sint_lt [of n] by simp
  obtain pod event where pod: "createNewPod api job ''worker'' (itoa i) spec w =
      (Ret (case fst (api_create_pod api (job_Namespace job) pod w) of
              Inl e \<Rightarrow> if IsTimeout (Some e) then None else Some e | Inr _ \<Rightarrow> None),
       api_event api event (snd (api_create_pod api (job_Namespace job) pod w)))"
    "map_of (worker_labels job ''worker'' (itoa i)) \<subseteq>\<^sub>m map_of (pod_labels pod)"
    "GetControllerOf (pod_Meta pod) = Some (genOwnerReference job)"
    by (rule createNewPod_ready [OF assms(1-3)])
  note found = worker_labels_found [OF pod(2) assms(2) bound]
  have "owned_match (job_Meta job) (pod_Meta pod) (pod_match selector [] pod)"
    using found(3) [OF assms(4)] pod(3) by (simp add: owned_match_def pod_match_def genOwnerReference_def)
  with pod(1) found(1,2) show ?thesis by (auto simp: filterPods_worker)
qed

theorem createNewPod_found_again_witness:
  "\<exists>selector pod event. job_selector sample_job = Inr selector \<and>
    createNewPod store_api sample_job ''worker'' (itoa 1) sample_spec [] =
      (Ret None, api_event store_api event [pod]) \<and>
    owned_match (job_Meta sample_job) (pod_Meta pod) (pod_match selector [] pod) \<and> replica_index pod = Some 1"
proof -
  obtain selector where sel: "job_selector sample_job = Inr selector" using sample_selector by blast
  have "(1 :: int) < sint (2 :: int32)" by simp
  from createNewPod_found_again [OF sample_ready _ this sel, of store_api "[]"] sel show ?thesis
    by (auto simp: store_api_def)
qed


text \<open>
  C1. Reconciling the pods of a complete job never panics and leaves metadata and spec alone. If
  it reports no error, the conditions follow from the pods: Running is set when some index has no
  pod yet or a single pod that is pending or running, Succeeded when every index has exactly one
  pod and it succeeded (two pods for an index are enough to prevent it), Failed when some index has
  a single pod that failed; nothing else changes. If it reports an error, no condition and no time
  changes.
\<close>

theorem reconcilePods_conditions:
  assumes "ready_job job spec n"
  shows "\<exists>job' err w'. reconcilePods api job pods (Some spec) w = (Ret (job', err), w') \<and>
    job_Meta job' = job_Meta job \<and> job_Spec job' = job_Spec job \<and>
    (if err = None then
      (\<forall>t. shown (job_Status job') t =
        (if t = Caffe2JobRunning \<and> (\<exists>s \<in> set (worker_slots pods n). slot_active s)
           then Some (ConditionTrue, caffe2JobRunningReason)
         else if t = Caffe2JobSucceeded \<and> (\<forall>s \<in> set (worker_slots pods n). slot_in_phase PodSucceeded s)
           then Some (ConditionTrue, caffe2JobSucceededReason)
         else if t = Caffe2JobFailed \<and> (\<exists>s \<in> set (worker_slots pods n). slot_in_phase PodFailed s)
           then Some (ConditionTrue, caffe2JobFailedReason)
         else shown (job_Status job) t))
     else ss_Conditions (job_Status job') = ss_Conditions (job_Status job) \<and>
       ss_StartTime (job_Status job') = ss_StartTime (job_Status job) \<and>
       ss_CompletionTime (job_Status job') = ss_CompletionTime (job_Status job))"
  by (rule reconcilePods_shown [OF assms])

theorem reconcilePods_conditions_witness:
  "\<exists>job' w'. reconcilePods store_api sample_job [] (Some sample_spec) [] = (Ret (job', None), w') \<and>
    shown (job_Status job') Caffe2JobRunning = Some (ConditionTrue, caffe2JobRunningReason) \<and>
    shown (job_Status job') Caffe2JobSucceeded = None"
proof -
  obtain job' w' where run: "reconcilePods store_api sample_job [] (Some sample_spec) [] = (Ret (job', None), w')"
    using reconcilePods_accepted [OF sample_ready store_api_laws(2)] by blast
  have "worker_slots [] (2 :: int32) = [[], []]"
    by (simp add: worker_slots_def filterPodsForCaffe2ReplicaType_def upt_rec)
  moreover have "shown (job_Status sample_job) Caffe2JobSucceeded = None"
    by (simp add: sample_job_defs shown_def getCondition_def)
  ultimately show ?thesis
    using reconcilePods_conditions [OF sample_ready, of store_api "[]" "[]"] run by auto
qed


text \<open>
  C3. With a server that stores what it is sent, a reconciliation creates pods for indices without
  a worker pod only, in ascending order and one for each; if it reports no error, for every such
  index. Each of them is made for its index.
\<close>

theorem reconcilePods_creates_missing:
  assumes "stores_pods api pods_of" and "ready_job job spec n"
    and "reconcilePods api job pods (Some spec) w = (Ret (job', err), w')"
  shows "\<exists>new is. pods_of w' = pods_of w @ new \<and> list_all2 (made_for job) is new \<and>
    prefix is (missing_indices pods n) \<and> (err = None \<longrightarrow> is = missing_indices pods n)"
  by (rule reconcilePods_stores [OF assms])

theorem reconcilePods_creates_missing_witness:
  "\<exists>job' new. reconcilePods store_api sample_job [] (Some sample_spec) [] = (Ret (job', None), new) \<and>
    list_all2 (made_for sample_job) [0, 1] new"
proof -
  obtain job' w' where run: "reconcilePods store_api sample_job [] (Some sample_spec) [] = (Ret (job', None), w')"
    using reconcilePods_accepted [OF sample_ready store_api_laws(2)] by blast
  have "missing_indices [] (2 :: int32) = [0, 1]"
    by (simp add: missing_indices_def filterPodsForCaffe2ReplicaType_def upt_rec)
  with reconcilePods_creates_missing [OF store_api_laws(1) sample_ready run] run show ?thesis by auto
qed





text \<open>
  The job key with its slash replaced, and the runtime id, are label values: when one of them
  is not a valid one (the key of a job may well be longer than 63 characters) every lookup of the
  job's pods fails at once, before the pods are listed, and nothing is sent to the server.
\<close>

theorem getPodsForCaffe2Job_unselectable:
  assumes "IsValidLabelValue (replace_slash (MetaNamespaceKey (job_Meta job))) \<noteq> [] \<or>
    IsValidLabelValue (js_RuntimeID (job_Spec job)) \<noteq> []"
  shows "\<exists>e. getPodsForCaffe2Job api podLister job w =
    (([], Some (Errorf ''couldn't convert Job selector: %v'' [] [e])), w)"
proof -
  have "\<not> list_all label_ok (genLabels (js_RuntimeID (job_Spec job)) (MetaNamespaceKey (job_Meta job)))"
    using assms by (auto simp: genLabels_def label_ok_def)
  then obtain e where "job_selector job = Inl e"
    using LabelSelectorAsSelector_labels
      [of "genLabels (js_RuntimeID (job_Spec job)) (MetaNamespaceKey (job_Meta job))"]
    by (auto simp: job_selector_def split: sum.splits)
  then show ?thesis by (simp add: getPodsForCaffe2Job_def)
qed

theorem getPodsForCaffe2Job_unselectable_witness:
  "\<exists>e. getPodsForCaffe2Job store_api (\<lambda>ns. Inr []) long_job [] = (([], Some e), [])"
proof -
  have "63 < length (replace_slash (MetaNamespaceKey (job_Meta long_job)))"
    by (simp add: long_job_def MetaNamespaceKey_def)
  then have "IsValidLabelValue (replace_slash (MetaNamespaceKey (job_Meta long_job))) \<noteq> []"
    by (simp add: IsValidLabelValue_def)
  with getPodsForCaffe2Job_unselectable [of long_job store_api "\<lambda>ns. Inr []" "[]"] show ?thesis by blast
qed


text \<open>
  C19. A job that the server no longer knows, that was replaced by another of the same name, or that
  is being deleted there adopts no pod, even if the cached copy looks alive: the pods found are
  those it controls already.
\<close>

theorem getPodsForCaffe2Job_stale:
  assumes "\<And>w. case fst (api_get_job api (job_Namespace job) (job_Name job) w) of
      Inl e \<Rightarrow> True
    | Inr fresh \<Rightarrow> job_UID fresh \<noteq> job_UID job \<or> om_DeletionTimestamp (job_Meta fresh) \<noteq> None"
    and "job_selector job = Inr selector" and "podLister (job_Namespace job) = Inr pods"
  shows "fst (fst (getPodsForCaffe2Job api podLister job w)) =
    filter (\<lambda>pod. owned_match (job_Meta job) (pod_Meta pod) (pod_match selector [] pod)) pods"
proof -
  let ?recheck = "RecheckDeletionTimestamp (fresh_job api job)"
  have refuses: "fst (?recheck w) \<noteq> None" for w
    using assms(1) [of w]
    by (auto simp: RecheckDeletionTimestamp_def fresh_job_def split: prod.splits sum.splits)
  obtain claimed err w1 once where run: "ClaimPods api controllerKind (job_Meta job) selector
      (Some ?recheck) pods [] (w, None) = ((claimed, err), (w1, once))"
    by (metis prod.exhaust)
  obtain errlist where claim: "claim_with (job_Meta job) pod_Meta (pod_match selector [])
      (AdoptPod api controllerKind (job_Meta job) (Some ?recheck)) (ReleasePod api (job_Meta job)) pods (w, None)
        = ((claimed, errlist), (w1, once))"
    by (rule ClaimPods_run [OF run])
  have "once \<noteq> Some None"
    using pods.never_allowed [OF refl, of ?recheck "(w, None)"] refuses claim by (metis option.distinct(1) snd_conv)
  then have "claimed = filter (\<lambda>pod. owned_match (job_Meta job) (pod_Meta pod) (pod_match selector [] pod)) pods"
    using pods.denied_claims_owned [OF claim] by simp
  with run assms(2,3) show ?thesis
    by (simp add: getPodsForCaffe2Job_def manager_ClaimPods_def NewPodControllerRefManager_def)
qed

theorem getPodsForCaffe2Job_stale_witness:
  "fst (fst (getPodsForCaffe2Job recording_api (\<lambda>ns. Inr [sample_orphan]) sample_job [])) = []"
proof -
  obtain selector where sel: "job_selector sample_job = Inr selector" using sample_selector by blast
  have "\<not> owned_match (job_Meta sample_job) (pod_Meta sample_orphan) (pod_match selector [] sample_orphan)"
    by (simp add: owned_match_def GetControllerOf_def sample_defs)
  then show ?thesis
    by (subst getPodsForCaffe2Job_stale [OF _ sel refl]) (simp_all add: recording_api_def)
qed


end
