(* ===== verification/WorkQueue.thy ===== *)
theory WorkQueue
  imports Prelude
begin

text \<open>
  The work queue of k8s.io/client-go/util/workqueue/queue.go, through which every change of a job
  reaches a worker. Each method holds the lock of the queue throughout, so it is one step on the
  state; \<open>Get\<close> waits, which is the value \<open>None\<close>. The contract of such a queue (an item is handed
  out to one worker at a time, and an item added meanwhile is not forgotten) is the locale
  \<open>dedup_queue\<close>; workers that share the queue are the step relation \<open>pool_step\<close>.
\<close>

section \<open>Operations\<close>

record 'a work_queue =
  wq_queue :: "'a list"
  wq_dirty :: "'a set"
  wq_processing :: "'a set"
  wq_shuttingDown :: bool

definition NewQueue :: "'a work_queue" where
  "NewQueue = \<lparr>wq_queue = [], wq_dirty = {}, wq_processing = {}, wq_shuttingDown = False\<rparr>"

definition Add :: "'a \<Rightarrow> 'a work_queue \<Rightarrow> 'a work_queue" where
  "Add item q =
     (if wq_shuttingDown q then q
      else if item \<in> wq_dirty q then q
      else let q1 = q\<lparr>wq_dirty := insert item (wq_dirty q)\<rparr> in
        if item \<in> wq_processing q1 then q1
        else q1\<lparr>wq_queue := wq_queue q1 @ [item]\<rparr>)"

definition Len :: "'a work_queue \<Rightarrow> nat" where
  "Len q = length (wq_queue q)"

text \<open>\<open>Some (None, q)\<close> is the shutdown answer.\<close>

definition Get :: "'a work_queue \<Rightarrow> ('a option \<times> 'a work_queue) option" where
  "Get q =
     (case wq_queue q of
        [] \<Rightarrow> if wq_shuttingDown q then Some (None, q) else None
      | item # rest \<Rightarrow>
          Some (Some item, q\<lparr>wq_queue := rest, wq_processing := insert item (wq_processing q),
                             wq_dirty := wq_dirty q - {item}\<rparr>))"

definition Done :: "'a \<Rightarrow> 'a work_queue \<Rightarrow> 'a work_queue" where
  "Done item q =
     (let q1 = q\<lparr>wq_processing := wq_processing q - {item}\<rparr> in
      if item \<in> wq_dirty q1 then q1\<lparr>wq_queue := wq_queue q1 @ [item]\<rparr> else q1)"

definition ShutDown :: "'a work_queue \<Rightarrow> 'a work_queue" where
  "ShutDown q = q\<lparr>wq_shuttingDown := True\<rparr>"

definition ShuttingDown :: "'a work_queue \<Rightarrow> bool" where
  "ShuttingDown q = wq_shuttingDown q"

lemmas queue_defs = NewQueue_def Add_def Len_def Get_def Done_def ShutDown_def ShuttingDown_def

section \<open>The invariant\<close>

text \<open>
  The comment on the type asks that every element of the queue is dirty and not being processed;
  the converse holds as well, and nothing is queued twice.
\<close>

definition queue_inv :: "'a work_queue \<Rightarrow> bool" where
  "queue_inv q \<longleftrightarrow> distinct (wq_queue q) \<and> set (wq_queue q) = wq_dirty q - wq_processing q"

lemma queue_inv_New: "queue_inv NewQueue"
  by (simp add: queue_inv_def NewQueue_def)

lemma queue_inv_Add: "queue_inv q \<Longrightarrow> queue_inv (Add x q)"
  by (auto simp: queue_inv_def Add_def Let_def)

lemma queue_inv_Get: "queue_inv q \<Longrightarrow> Get q = Some (r, q') \<Longrightarrow> queue_inv q'"
  by (auto simp: queue_inv_def Get_def split: list.splits if_splits)

lemma queue_inv_Done: "queue_inv q \<Longrightarrow> x \<in> wq_processing q \<Longrightarrow> queue_inv (Done x q)"
  by (auto simp: queue_inv_def Done_def Let_def)

lemma queue_inv_ShutDown: "queue_inv q \<Longrightarrow> queue_inv (ShutDown q)"
  by (simp add: queue_inv_def ShutDown_def)

lemma Get_Some_item:
  "Get q = Some (Some x, q') \<longleftrightarrow>
     (\<exists>rest. wq_queue q = x # rest \<and>
        q' = q\<lparr>wq_queue := rest, wq_processing := insert x (wq_processing q), wq_dirty := wq_dirty q - {x}\<rparr>)"
  by (auto simp: Get_def split: list.splits)

section \<open>The contract\<close>

text \<open>
  A set of items that want attention, a set of items that have it. An added item is pending until
  it is handed out; an item is handed out only while nobody has it; being done gives it back.
\<close>

locale dedup_queue =
  fixes ok :: "'s \<Rightarrow> bool"
    and pending :: "'s \<Rightarrow> 'a set"
    and busy :: "'s \<Rightarrow> 'a set"
    and closed :: "'s \<Rightarrow> bool"
    and add :: "'a \<Rightarrow> 's \<Rightarrow> 's"
    and get :: "'s \<Rightarrow> ('a option \<times> 's) option"
    and give_back :: "'a \<Rightarrow> 's \<Rightarrow> 's"
  assumes add_ok: "ok s \<Longrightarrow> ok (add x s)"
    and add_pending: "ok s \<Longrightarrow> pending (add x s) = (if closed s then pending s else insert x (pending s))"
    and add_busy: "ok s \<Longrightarrow> busy (add x s) = busy s"
    and get_item: "ok s \<Longrightarrow> get s = Some (Some x, s') \<Longrightarrow>
        ok s' \<and> x \<in> pending s \<and> x \<notin> busy s \<and> pending s' = pending s - {x} \<and> busy s' = insert x (busy s)"
    and get_quit: "ok s \<Longrightarrow> get s = Some (None, s') \<Longrightarrow> s' = s \<and> closed s \<and> pending s \<subseteq> busy s"
    and get_waits: "ok s \<Longrightarrow> get s = None \<Longrightarrow> \<not> closed s \<and> pending s \<subseteq> busy s"
    and give_back_ok: "ok s \<Longrightarrow> x \<in> busy s \<Longrightarrow>
        ok (give_back x s) \<and> pending (give_back x s) = pending s \<and> busy (give_back x s) = busy s - {x}"
begin

text \<open>What a worker that holds items cannot be given again, however much is added meanwhile.\<close>

lemma adds_keep_busy: "ok s \<Longrightarrow> ok (foldr add xs s) \<and> busy (foldr add xs s) = busy s"
  by (induction xs) (simp_all add: add_ok add_busy)

lemma held_not_given:
  assumes "ok s" and "x \<in> busy s" and "get (foldr add xs s) = Some (Some y, s')"
  shows "y \<noteq> x"
  using adds_keep_busy [OF assms(1), of xs] get_item [OF _ assms(3)] assms(2) by auto

text \<open>An item added while it is being processed is pending again once it is given back.\<close>

lemma added_while_busy:
  assumes "ok s" and "x \<in> busy s" and "\<not> closed s"
  shows "x \<in> pending (give_back x (add x s)) - busy (give_back x (add x s))"
proof -
  have s: "ok (add x s)" "x \<in> busy (add x s)" "x \<in> pending (add x s)"
    using assms by (simp_all add: add_ok add_busy add_pending)
  with give_back_ok [OF s(1,2)] show ?thesis by simp
qed

text \<open>A queue with something to hand out neither waits nor quits.\<close>

lemma progress: "ok s \<Longrightarrow> \<not> pending s \<subseteq> busy s \<Longrightarrow> \<exists>x s'. get s = Some (Some x, s')"
proof -
  assume s: "ok s" "\<not> pending s \<subseteq> busy s"
  then have "get s \<noteq> None" using get_waits by blast
  then obtain r s' where r: "get s = Some (r, s')" by (metis not_Some_eq surj_pair)
  have "r \<noteq> None"
  proof
    assume "r = None"
    with r get_quit [OF s(1), of s'] s(2) show False by simp
  qed
  with r show ?thesis by blast
qed

end

interpretation wq: dedup_queue queue_inv wq_dirty wq_processing wq_shuttingDown Add Get Done
proof
  show "queue_inv (Add x s)" if "queue_inv s" for s :: "'a work_queue" and x
    by (rule queue_inv_Add [OF that])
  show "wq_dirty (Add x s) = (if wq_shuttingDown s then wq_dirty s else insert x (wq_dirty s))"
    for s :: "'a work_queue" and x
    by (auto simp: Add_def Let_def)
  show "wq_processing (Add x s) = wq_processing s" for s :: "'a work_queue" and x
    by (simp add: Add_def Let_def)
  show "queue_inv s' \<and> x \<in> wq_dirty s \<and> x \<notin> wq_processing s \<and> wq_dirty s' = wq_dirty s - {x} \<and>
      wq_processing s' = insert x (wq_processing s)"
    if "queue_inv s" "Get s = Some (Some x, s')" for s s' :: "'a work_queue" and x
    using that queue_inv_Get [OF that] by (auto simp: Get_Some_item queue_inv_def)
  show "s' = s \<and> wq_shuttingDown s \<and> wq_dirty s \<subseteq> wq_processing s"
    if "queue_inv s" "Get s = Some (None, s')" for s s' :: "'a work_queue"
    using that by (auto simp: Get_def queue_inv_def split: list.splits if_splits)
  show "\<not> wq_shuttingDown s \<and> wq_dirty s \<subseteq> wq_processing s"
    if "queue_inv s" "Get s = None" for s :: "'a work_queue"
    using that by (auto simp: Get_def queue_inv_def split: list.splits if_splits)
  show "queue_inv (Done x s) \<and> wq_dirty (Done x s) = wq_dirty s \<and> wq_processing (Done x s) = wq_processing s - {x}"
    if "queue_inv s" "x \<in> wq_processing s" for s :: "'a work_queue" and x
    using queue_inv_Done [OF that] by (simp add: Done_def Let_def)
qed

section \<open>Workers that share a queue\<close>

text \<open>
  The workers of \<open>Run\<close>: worker \<open>i\<close> holds the item its \<open>Get\<close> returned until it calls \<open>Done\<close>; anybody
  may add items or shut the queue down at any time. \<open>pl_owed\<close> is a ghost: the items somebody added
  to the open queue since they were last handed out.
\<close>

record 'a pool =
  pl_queue :: "'a work_queue"
  pl_holds :: "nat \<Rightarrow> 'a option"
  pl_owed :: "'a set"

inductive pool_step :: "'a pool \<Rightarrow> 'a pool \<Rightarrow> bool" where
  step_add: "pool_step p (p\<lparr>pl_queue := Add x (pl_queue p),
      pl_owed := (if ShuttingDown (pl_queue p) then pl_owed p else insert x (pl_owed p))\<rparr>)"
| step_get: "pl_holds p i = None \<Longrightarrow> Get (pl_queue p) = Some (Some x, q) \<Longrightarrow>
    pool_step p (p\<lparr>pl_queue := q, pl_holds := (pl_holds p)(i := Some x), pl_owed := pl_owed p - {x}\<rparr>)"
| step_done: "pl_holds p i = Some x \<Longrightarrow>
    pool_step p (p\<lparr>pl_queue := Done x (pl_queue p), pl_holds := (pl_holds p)(i := None)\<rparr>)"
| step_shutdown: "pool_step p (p\<lparr>pl_queue := ShutDown (pl_queue p)\<rparr>)"

definition initial_pool :: "'a pool" where
  "initial_pool = \<lparr>pl_queue = NewQueue, pl_holds = (\<lambda>_. None), pl_owed = {}\<rparr>"

inductive reachable_pool :: "'a pool \<Rightarrow> bool" where
  start: "reachable_pool initial_pool"
| "step": "reachable_pool p \<Longrightarrow> pool_step p p' \<Longrightarrow> reachable_pool p'"

text \<open>Nobody holds what two workers hold: kept by taking a fresh item and by giving one back.\<close>

definition exclusive :: "(nat \<Rightarrow> 'a option) \<Rightarrow> bool" where
  "exclusive m \<longleftrightarrow> (\<forall>i j x. m i = Some x \<longrightarrow> m j = Some x \<longrightarrow> i = j)"

definition pool_inv :: "'a pool \<Rightarrow> bool" where
  "pool_inv p \<longleftrightarrow> queue_inv (pl_queue p) \<and> wq_processing (pl_queue p) = ran (pl_holds p) \<and>
     exclusive (pl_holds p) \<and> pl_owed p = wq_dirty (pl_queue p)"

lemma ran_release:
  assumes "m i = Some x" and only: "\<And>j. m j = Some x \<Longrightarrow> j = i"
  shows "ran (m(i := None)) = ran m - {x}"
proof (intro set_eqI iffI)
  fix y assume "y \<in> ran (m(i := None))"
  then obtain j where "j \<noteq> i" "m j = Some y" by (auto simp: ran_def split: if_splits)
  moreover from this only have "y \<noteq> x" by blast
  ultimately show "y \<in> ran m - {x}" by (auto intro: ranI)
next
  fix y assume "y \<in> ran m - {x}"
  then obtain j where j: "m j = Some y" "y \<noteq> x" by (auto simp: ran_def)
  with assms(1) have "j \<noteq> i" by auto
  with j(1) have "(m(i := None)) j = Some y" by simp
  then show "y \<in> ran (m(i := None))" by (rule ranI)
qed

lemma exclusive_take: "exclusive m \<Longrightarrow> x \<notin> ran m \<Longrightarrow> exclusive (m(i := Some x))"
  unfolding exclusive_def by (metis fun_upd_apply option.inject ranI)

lemma exclusive_release: "exclusive m \<Longrightarrow> exclusive (m(i := None))"
  unfolding exclusive_def by (metis fun_upd_apply option.distinct(1))

lemma exclusive_ran: "exclusive m \<Longrightarrow> m i = Some x \<Longrightarrow> ran (m(i := None)) = ran m - {x}"
  by (rule ran_release) (auto simp: exclusive_def)

lemma pool_invI:
  "queue_inv (pl_queue p) \<Longrightarrow> wq_processing (pl_queue p) = ran (pl_holds p) \<Longrightarrow> exclusive (pl_holds p) \<Longrightarrow>
     pl_owed p = wq_dirty (pl_queue p) \<Longrightarrow> pool_inv p"
  by (simp add: pool_inv_def)

lemma pool_invD:
  assumes "pool_inv p"
  shows "queue_inv (pl_queue p)" "wq_processing (pl_queue p) = ran (pl_holds p)"
    "exclusive (pl_holds p)" "pl_owed p = wq_dirty (pl_queue p)"
  using assms by (simp_all add: pool_inv_def)

lemma pool_inv_step:
  assumes "pool_step p p'" and "pool_inv p"
  shows "pool_inv p'"
  using assms(1)
proof cases
  case (step_add x)
  note inv = pool_invD [OF assms(2)]
  show ?thesis unfolding step_add
    by (rule pool_invI) (simp_all add: inv wq.add_ok wq.add_busy wq.add_pending ShuttingDown_def)
next
  case (step_get i x q)
  note inv = pool_invD [OF assms(2)]
  note item = wq.get_item [OF inv(1) step_get(3)]
  have "x \<notin> ran (pl_holds p)" using item inv(2) by simp
  then have "exclusive ((pl_holds p)(i := Some x))" by (rule exclusive_take [OF inv(3)])
  moreover have "ran ((pl_holds p)(i := Some x)) = insert x (ran (pl_holds p))"
    using step_get(2) by (simp add: ran_map_upd)
  ultimately show ?thesis unfolding step_get(1)
    by (intro pool_invI) (simp_all add: item inv(2,4))
next
  case (step_done i x)
  note inv = pool_invD [OF assms(2)]
  have "x \<in> ran (pl_holds p)" using step_done(2) by (auto simp: ran_def)
  then have "x \<in> wq_processing (pl_queue p)" using inv(2) by simp
  note returned = wq.give_back_ok [OF inv(1) this]
  have "ran ((pl_holds p)(i := None)) = ran (pl_holds p) - {x}"
    using inv(3) step_done(2) by (rule exclusive_ran)
  then show ?thesis unfolding step_done(1)
    by (intro pool_invI) (simp_all add: returned inv(2,4) exclusive_release [OF inv(3)])
next
  case step_shutdown
  note inv = pool_invD [OF assms(2)]
  show ?thesis unfolding step_shutdown
    by (rule pool_invI) (simp_all add: queue_inv_ShutDown inv(1,3), simp_all add: ShutDown_def inv(2,4))
qed

lemma pool_inv_reachable: "reachable_pool p \<Longrightarrow> pool_inv p"
proof (induction rule: reachable_pool.induct)
  case start
  then show ?case by (intro pool_invI) (simp_all add: initial_pool_def queue_inv_New, simp_all add: NewQueue_def exclusive_def)
qed (rule pool_inv_step)

section \<open>Order\<close>

text \<open>A sequence of calls, with the items that were handed out and the queue afterwards.\<close>

datatype 'a call = CallAdd 'a | CallGet | CallDone 'a | CallShutDown

fun do_call :: "'a call \<Rightarrow> 'a work_queue \<Rightarrow> 'a list \<times> 'a work_queue" where
  "do_call (CallAdd x) q = ([], Add x q)"
| "do_call CallGet q = (case Get q of Some (Some x, q') \<Rightarrow> ([x], q') | _ \<Rightarrow> ([], q))"
| "do_call (CallDone x) q = ([], Done x q)"
| "do_call CallShutDown q = ([], ShutDown q)"

fun run_calls :: "'a call list \<Rightarrow> 'a work_queue \<Rightarrow> 'a list \<times> 'a work_queue" where
  "run_calls [] q = ([], q)"
| "run_calls (c # calls) q =
     (case do_call c q of (given1, q1) \<Rightarrow>
        (case run_calls calls q1 of (given2, q2) \<Rightarrow> (given1 @ given2, q2)))"

lemma appends:
  "\<exists>new. wq_queue (Add x q) = wq_queue q @ new" "\<exists>new. wq_queue (Done x q) = wq_queue q @ new"
  "wq_queue (ShutDown q) = wq_queue q"
  by (auto simp: Add_def Done_def ShutDown_def Let_def)

lemma do_call_order:
  "\<exists>new. fst (do_call c q) @ wq_queue (snd (do_call c q)) = wq_queue q @ new"
proof (cases c)
  case CallGet
  then show ?thesis by (auto simp: Get_def split: list.splits option.splits)
qed (simp_all add: appends)

lemma run_calls_order:
  "run_calls calls q = (given, q') \<Longrightarrow> \<exists>new. given @ wq_queue q' = wq_queue q @ new"
proof (induction calls arbitrary: q given)
  case (Cons c calls)
  obtain g1 q1 where one: "do_call c q = (g1, q1)" by (metis prod.exhaust)
  obtain g2 where rest: "run_calls calls q1 = (g2, q')" and given: "given = g1 @ g2"
    using Cons.prems one by (auto split: prod.splits)
  obtain new1 where "g1 @ wq_queue q1 = wq_queue q @ new1"
    using do_call_order [of c q] one by auto
  moreover obtain new2 where "g2 @ wq_queue q' = wq_queue q1 @ new2" using Cons.IH [OF rest] by blast
  ultimately show ?case using given by (metis append.assoc)
qed simp

text \<open>A pool in which the item 7 was added, taken by worker 0 and added again.\<close>

definition sample_pool :: "nat pool" where
  "sample_pool = \<lparr>pl_queue = \<lparr>wq_queue = [], wq_dirty = {7}, wq_processing = {7}, wq_shuttingDown = False\<rparr>,
     pl_holds = (\<lambda>_. None)(0 := Some 7), pl_owed = {7}\<rparr>"

lemma sample_pool_reachable: "reachable_pool sample_pool"
proof -
  let ?added = "initial_pool\<lparr>pl_queue := Add 7 NewQueue, pl_owed := {7 :: nat}\<rparr>"
  let ?q = "\<lparr>wq_queue = [], wq_dirty = {}, wq_processing = {7 :: nat}, wq_shuttingDown = False\<rparr>"
  let ?taken = "\<lparr>pl_queue = ?q, pl_holds = (\<lambda>_. None)(0 := Some 7), pl_owed = {}\<rparr>"
  have "pool_step initial_pool ?added"
    using step_add [of initial_pool 7] by (simp add: initial_pool_def queue_defs)
  then have "reachable_pool ?added" by (rule reachable_pool.step [OF reachable_pool.start])
  moreover have "pool_step ?added ?taken"
    using step_get [of ?added 0 7 ?q] by (simp add: initial_pool_def queue_defs Let_def)
  ultimately have "reachable_pool ?taken" by (rule reachable_pool.step)
  moreover have "pool_step ?taken sample_pool"
    using step_add [of ?taken 7] by (simp add: sample_pool_def queue_defs Let_def)
  ultimately show ?thesis by (rule reachable_pool.step)
qed

section \<open>Properties\<close>

text \<open>
  C6. Workers that share the queue never hold the same item at the same time, whatever is added,
  handed out, given back and shut down in whatever order: a job is never synchronised by two
  workers at once.
\<close>

theorem workers_exclusive:
  assumes "reachable_pool p" and "pl_holds p i = Some x" and "pl_holds p j = Some x"
  shows "i = j"
  using pool_invD(3) [OF pool_inv_reachable [OF assms(1)]] assms(2,3) by (simp add: exclusive_def)

theorem workers_exclusive_witness: "pl_holds sample_pool 0 = Some 7 \<and> pl_holds sample_pool 1 \<noteq> Some 7"
proof -
  have "pl_holds sample_pool 0 = Some 7" by (simp add: sample_pool_def)
  with workers_exclusive [OF sample_pool_reachable this, of 1] show ?thesis by auto
qed


text \<open>
  C7. No addition is lost: an item somebody added to the open queue since it was last handed out is
  waiting in the queue, or a worker has it and its \<open>Done\<close> will put it back there; and the queue is
  never reported empty while such an item waits.
\<close>

theorem additions_not_lost:
  assumes "reachable_pool p" and "x \<in> pl_owed p"
  shows "x \<in> set (wq_queue (pl_queue p)) \<and> (\<exists>y q. Get (pl_queue p) = Some (Some y, q)) \<or>
    (\<exists>i. pl_holds p i = Some x \<and> x \<in> set (wq_queue (Done x (pl_queue p))))"
proof -
  note inv = pool_invD [OF pool_inv_reachable [OF assms(1)]]
  have dirty: "x \<in> wq_dirty (pl_queue p)" using assms(2) inv(4) by simp
  show ?thesis
  proof (cases "x \<in> wq_processing (pl_queue p)")
    case True
    then obtain i where "pl_holds p i = Some x" using inv(2) by (auto simp: ran_def)
    with dirty show ?thesis by (auto simp: Done_def Let_def)
  next
    case False
    with dirty have "x \<in> set (wq_queue (pl_queue p))" using inv(1) by (simp add: queue_inv_def)
    moreover from dirty False have "\<exists>y q. Get (pl_queue p) = Some (Some y, q)"
      by (intro wq.progress [OF inv(1)]) blast
    ultimately show ?thesis by blast
  qed
qed

theorem additions_not_lost_witness:
  "\<exists>i. pl_holds sample_pool i = Some 7 \<and> 7 \<in> set (wq_queue (Done 7 (pl_queue sample_pool)))"
proof -
  have "7 \<in> pl_owed sample_pool" "7 \<notin> set (wq_queue (pl_queue sample_pool))" by (simp_all add: sample_pool_def)
  with additions_not_lost [OF sample_pool_reachable this(1)] show ?thesis by blast
qed


text \<open>
  The queue is first in, first out: the items handed out by any sequence of calls, followed by
  those still queued, are the items queued at first followed by what was appended. So an item at
  position \<open>k\<close> is handed out by the \<open>k+1\<close>-st successful \<open>Get\<close>, whatever is added in between.
\<close>

theorem queue_fifo:
  assumes "run_calls calls q = (given, q')" and "k < length (wq_queue q)" and "k < length given"
  shows "given ! k = wq_queue q ! k"
  using run_calls_order [OF assms(1)] assms(2,3) by (metis nth_append)

theorem queue_fifo_witness:
  "fst (run_calls [CallGet, CallAdd 4, CallGet] (Add 2 (Add (3 :: nat) NewQueue))) ! 1 = 2"
proof -
  let ?calls = "[CallGet, CallAdd 4, CallGet]" and ?q = "Add 2 (Add (3 :: nat) NewQueue)"
  have "1 < length (wq_queue ?q)" "1 < length (fst (run_calls ?calls ?q))" "wq_queue ?q ! 1 = 2"
    by (simp_all add: queue_defs Let_def)
  with queue_fifo [OF prod.collapse [symmetric] this(1,2)] show ?thesis by simp
qed


end
