(* ===== verification/RateLimiter.thy ===== *)
theory RateLimiter
  imports Prelude
begin

text \<open>
  How long a job waits before it is looked at again: the limiters of
  k8s.io/client-go/util/workqueue/default_rate_limiters.go and the token bucket of
  github.com/juju/ratelimit they use. Durations are nanoseconds. Counters and times are Go's 64-bit
  integers; they are unbounded here, since it takes 2^63 failures or 292 years to overflow them.
  The one place where the code computes out of range, the exponential backoff, is in floating
  point and is modelled exactly. The bookkeeping every limiter promises is the locale \<open>rate_limiter\<close>.
\<close>

section \<open>Floating point\<close>

text \<open>
  The values \<open>float64(base) * math.Pow(2, float64(exp))\<close> takes: a 53-bit integer times a power of
  two, exact below 2^1024, or one of the special values.
\<close>

datatype float64 = Finite int | PosInf | NegInf | NaN

fun bit_len :: "nat \<Rightarrow> nat" where
  "bit_len n = (if n = 0 then 0 else Suc (bit_len (n div 2)))"

declare bit_len.simps [simp del]

text \<open>Conversion of an \<open>int64\<close>: 53 bits, rounding to nearest and ties to even.\<close>

definition round53 :: "nat \<Rightarrow> nat" where
  "round53 n =
     (let e = bit_len n - 53; q = n div 2 ^ e; r = n mod 2 ^ e in
      if e = 0 then n
      else if 2 ^ e < 2 * r \<or> 2 ^ e = 2 * r \<and> odd q then (q + 1) * 2 ^ e else q * 2 ^ e)"

definition float_of_int64 :: "int \<Rightarrow> int" where
  "float_of_int64 i = sgn i * int (round53 (nat \<bar>i\<bar>))"

definition times_pow2 :: "int \<Rightarrow> nat \<Rightarrow> float64" where
  "times_pow2 b n =
     (if 1024 \<le> n then (if b = 0 then NaN else if 0 < b then PosInf else NegInf)
      else if 2 ^ 1024 \<le> b * 2 ^ n then PosInf
      else if b * 2 ^ n \<le> - (2 ^ 1024) then NegInf
      else Finite (b * 2 ^ n))"

text \<open>\<open>backoff > math.MaxInt64\<close>: the constant becomes the float 2^63.\<close>

fun above_MaxInt64 :: "float64 \<Rightarrow> bool" where
  "above_MaxInt64 (Finite x) = (2 ^ 63 < x)"
| "above_MaxInt64 PosInf = True"
| "above_MaxInt64 _ = False"

text \<open>\<open>time.Duration(backoff)\<close>: amd64 gives the least integer for what does not fit.\<close>

fun to_duration :: "float64 \<Rightarrow> int" where
  "to_duration (Finite x) = (if - (2 ^ 63) \<le> x \<and> x < 2 ^ 63 then x else - (2 ^ 63))"
| "to_duration _ = - (2 ^ 63)"

section \<open>Per-item limiters\<close>

type_synonym 'a failures = "'a \<rightharpoonup> int"

definition failures_of :: "'a failures \<Rightarrow> 'a \<Rightarrow> int" where
  "failures_of m item = (case m item of None \<Rightarrow> 0 | Some n \<Rightarrow> n)"

record 'a exp_limiter =
  xl_failures :: "'a failures"
  xl_baseDelay :: int
  xl_maxDelay :: int

definition NewItemExponentialFailureRateLimiter :: "int \<Rightarrow> int \<Rightarrow> 'a exp_limiter" where
  "NewItemExponentialFailureRateLimiter baseDelay maxDelay =
     \<lparr>xl_failures = Map.empty, xl_baseDelay = baseDelay, xl_maxDelay = maxDelay\<rparr>"

definition Exp_When :: "'a \<Rightarrow> 'a exp_limiter \<Rightarrow> int \<times> 'a exp_limiter" where
  "Exp_When item r =
     (let exp = failures_of (xl_failures r) item;
          r' = r\<lparr>xl_failures := (xl_failures r)(item \<mapsto> failures_of (xl_failures r) item + 1)\<rparr>;
          backoff = times_pow2 (float_of_int64 (xl_baseDelay r)) (nat exp) in
      if above_MaxInt64 backoff then (xl_maxDelay r, r')
      else let calculated = to_duration backoff in
        if xl_maxDelay r < calculated then (xl_maxDelay r, r') else (calculated, r'))"

definition Exp_NumRequeues :: "'a \<Rightarrow> 'a exp_limiter \<Rightarrow> int" where
  "Exp_NumRequeues item r = failures_of (xl_failures r) item"

definition Exp_Forget :: "'a \<Rightarrow> 'a exp_limiter \<Rightarrow> 'a exp_limiter" where
  "Exp_Forget item r = r\<lparr>xl_failures := (xl_failures r)(item := None)\<rparr>"

record 'a fast_slow_limiter =
  fl_failures :: "'a failures"
  fl_maxFastAttempts :: int
  fl_fastDelay :: int
  fl_slowDelay :: int

definition FastSlow_When :: "'a \<Rightarrow> 'a fast_slow_limiter \<Rightarrow> int \<times> 'a fast_slow_limiter" where
  "FastSlow_When item r =
     (let r' = r\<lparr>fl_failures := (fl_failures r)(item \<mapsto> failures_of (fl_failures r) item + 1)\<rparr> in
      if failures_of (fl_failures r') item \<le> fl_maxFastAttempts r' then (fl_fastDelay r', r')
      else (fl_slowDelay r', r'))"

definition FastSlow_NumRequeues :: "'a \<Rightarrow> 'a fast_slow_limiter \<Rightarrow> int" where
  "FastSlow_NumRequeues item r = failures_of (fl_failures r) item"

definition FastSlow_Forget :: "'a \<Rightarrow> 'a fast_slow_limiter \<Rightarrow> 'a fast_slow_limiter" where
  "FastSlow_Forget item r = r\<lparr>fl_failures := (fl_failures r)(item := None)\<rparr>"

section \<open>The token bucket\<close>

record bucket =
  tb_startTime :: int
  tb_capacity :: int
  tb_quantum :: int
  tb_fillInterval :: int
  tb_avail :: int
  tb_availTick :: int

text \<open>Its panics are explicit ones, on arguments that are not positive.\<close>

definition NewBucketWithQuantumAndClock :: "int \<Rightarrow> int \<Rightarrow> int \<Rightarrow> int \<Rightarrow> bucket option" where
  "NewBucketWithQuantumAndClock fillInterval capacity quantum now =
     (if fillInterval \<le> 0 \<or> capacity \<le> 0 \<or> quantum \<le> 0 then None
      else Some \<lparr>tb_startTime = now, tb_capacity = capacity, tb_quantum = quantum,
                 tb_fillInterval = fillInterval, tb_avail = capacity, tb_availTick = 0\<rparr>)"

text \<open>Go's integer division truncates.\<close>

definition go_div :: "int \<Rightarrow> int \<Rightarrow> int" where
  "go_div a b = sgn a * sgn b * (\<bar>a\<bar> div \<bar>b\<bar>)"

definition adjust :: "int \<Rightarrow> bucket \<Rightarrow> int \<times> bucket" where
  "adjust now tb =
     (let currentTick = go_div (now - tb_startTime tb) (tb_fillInterval tb) in
      if tb_capacity tb \<le> tb_avail tb then (currentTick, tb)
      else let avail = tb_avail tb + (currentTick - tb_availTick tb) * tb_quantum tb;
               avail' = (if tb_capacity tb < avail then tb_capacity tb else avail) in
        (currentTick, tb\<lparr>tb_avail := avail', tb_availTick := currentTick\<rparr>))"

definition take_tokens :: "int \<Rightarrow> int \<Rightarrow> int \<Rightarrow> bucket \<Rightarrow> (int \<times> bool) \<times> bucket" where
  "take_tokens now count maxWait tb =
     (if count \<le> 0 then ((0, True), tb)
      else let (currentTick, tb1) = adjust now tb; avail = tb_avail tb1 - count in
        if 0 \<le> avail then ((0, True), tb1\<lparr>tb_avail := avail\<rparr>)
        else let endTick = currentTick + go_div (- avail + tb_quantum tb1 - 1) (tb_quantum tb1);
                 endTime = tb_startTime tb1 + endTick * tb_fillInterval tb1;
                 waitTime = endTime - now in
          if maxWait < waitTime then ((0, False), tb1)
          else ((waitTime, True), tb1\<lparr>tb_avail := avail\<rparr>))"

definition takeAvailable :: "int \<Rightarrow> int \<Rightarrow> bucket \<Rightarrow> int \<times> bucket" where
  "takeAvailable now count tb =
     (if count \<le> 0 then (0, tb)
      else let (_, tb1) = adjust now tb in
        if tb_avail tb1 \<le> 0 then (0, tb1)
        else let count' = (if tb_avail tb1 < count then tb_avail tb1 else count) in
          (count', tb1\<lparr>tb_avail := tb_avail tb1 - count'\<rparr>))"

definition available :: "int \<Rightarrow> bucket \<Rightarrow> int \<times> bucket" where
  "available now tb = (let (_, tb1) = adjust now tb in (tb_avail tb1, tb1))"

definition infinityDuration :: int where "infinityDuration = 2 ^ 63 - 1"

definition Take :: "int \<Rightarrow> int \<Rightarrow> bucket \<Rightarrow> int \<times> bucket" where
  "Take now count tb = (let ((d, _), tb1) = take_tokens now count infinityDuration tb in (d, tb1))"

section \<open>The default limiter\<close>

text \<open>
  A limiter as the interface value the code passes around: its three methods on the shared state of
  all limiters. \<open>When\<close> also reads the clock.
\<close>

record ('a, 's) limiter =
  lm_When :: "'a \<Rightarrow> int \<Rightarrow> 's \<Rightarrow> int \<times> 's"
  lm_Forget :: "'a \<Rightarrow> 's \<Rightarrow> 's"
  lm_NumRequeues :: "'a \<Rightarrow> 's \<Rightarrow> int"

fun max_when :: "('a, 's) limiter list \<Rightarrow> 'a \<Rightarrow> int \<Rightarrow> int \<Rightarrow> 's \<Rightarrow> int \<times> 's" where
  "max_when [] item now ret s = (ret, s)"
| "max_when (limiter # limiters) item now ret s =
     (let (curr, s') = lm_When limiter item now s in
      max_when limiters item now (if ret < curr then curr else ret) s')"

definition MaxOf_When :: "('a, 's) limiter list \<Rightarrow> 'a \<Rightarrow> int \<Rightarrow> 's \<Rightarrow> int \<times> 's" where
  "MaxOf_When limiters item now s = max_when limiters item now 0 s"

definition MaxOf_NumRequeues :: "('a, 's) limiter list \<Rightarrow> 'a \<Rightarrow> 's \<Rightarrow> int" where
  "MaxOf_NumRequeues limiters item s =
     foldl (\<lambda>ret limiter. let curr = lm_NumRequeues limiter item s in if ret < curr then curr else ret) 0 limiters"

definition MaxOf_Forget :: "('a, 's) limiter list \<Rightarrow> 'a \<Rightarrow> 's \<Rightarrow> 's" where
  "MaxOf_Forget limiters item s = foldl (\<lambda>s limiter. lm_Forget limiter item s) s limiters"

definition exp_part :: "('a, 'a exp_limiter \<times> 'b) limiter" where
  "exp_part =
     \<lparr>lm_When = (\<lambda>item now (r, b). let (d, r') = Exp_When item r in (d, (r', b))),
      lm_Forget = (\<lambda>item (r, b). (Exp_Forget item r, b)),
      lm_NumRequeues = (\<lambda>item (r, b). Exp_NumRequeues item r)\<rparr>"

text \<open>\<open>BucketRateLimiter\<close>: it takes one token and does not know its items.\<close>

definition bucket_part :: "('a, 'r \<times> bucket) limiter" where
  "bucket_part =
     \<lparr>lm_When = (\<lambda>item now (r, b). let (d, b') = Take now 1 b in (d, (r, b'))),
      lm_Forget = (\<lambda>item s. s),
      lm_NumRequeues = (\<lambda>item s. 0)\<rparr>"

text \<open>
  \<open>DefaultControllerRateLimiter\<close>. \<open>NewBucketWithRate(10, 100)\<close> settles on its first candidate,
  quantum 1 every 1e9 * 1 / 10 ns, whose rate is exactly 10.
\<close>

type_synonym 'a default_state = "'a exp_limiter \<times> bucket"

definition default_limiters :: "('a, 'a default_state) limiter list" where
  "default_limiters = [exp_part, bucket_part]"

definition DefaultControllerRateLimiter :: "int \<Rightarrow> 'a default_state option" where
  "DefaultControllerRateLimiter now =
     (case NewBucketWithQuantumAndClock 100000000 100 1 now of
        None \<Rightarrow> None
      | Some b \<Rightarrow> Some (NewItemExponentialFailureRateLimiter 5000000 1000000000000, b))"

section \<open>Lemmas: backoff\<close>

lemma failures_of_simps [simp]:
  "failures_of (m(x \<mapsto> n)) y = (if y = x then n else failures_of m y)"
  "failures_of (m(x := None)) y = (if y = x then 0 else failures_of m y)"
  by (simp_all add: failures_of_def)

lemma bit_len_le: "n < 2 ^ k \<Longrightarrow> bit_len n \<le> k"
proof (induction n arbitrary: k rule: bit_len.induct)
  case (1 n)
  show ?case
  proof (cases "n = 0")
    case False
    with 1(2) have "0 < k" by (cases k) auto
    then obtain j where k: "k = Suc j" by (cases k) auto
    then have "n div 2 < 2 ^ j" using 1(2) by auto
    with 1(1) [OF False] k show ?thesis by (subst bit_len.simps) simp
  qed (simp add: bit_len.simps)
qed

lemma float_of_int64_exact: "0 \<le> i \<Longrightarrow> i < 2 ^ 53 \<Longrightarrow> float_of_int64 i = i"
proof -
  assume i: "0 \<le> i" "i < 2 ^ 53"
  then have "nat \<bar>i\<bar> < 2 ^ 53" by (simp add: nat_less_iff)
  then have "bit_len (nat \<bar>i\<bar>) \<le> 53" by (rule bit_len_le)
  with i show ?thesis by (simp add: float_of_int64_def round53_def Let_def sgn_if)
qed

lemma pow2_grows: "0 < (b :: int) \<Longrightarrow> m \<le> n \<Longrightarrow> b * 2 ^ m \<le> b * 2 ^ n"
  by (simp add: power_increasing)

lemma times_pow2_positive:
  assumes "0 < b"
  shows "if b * 2 ^ n \<le> 2 ^ 63 then times_pow2 b n = Finite (b * 2 ^ n)
    else above_MaxInt64 (times_pow2 b n)"
proof (cases "b * 2 ^ n \<le> 2 ^ 63")
  case True
  have "\<not> 1024 \<le> n"
  proof
    assume "1024 \<le> n"
    then have "b * 2 ^ 1024 \<le> b * 2 ^ n" by (rule pow2_grows [OF assms])
    moreover have "2 ^ 1024 \<le> b * 2 ^ 1024" using assms by simp
    moreover have "(2 :: int) ^ 63 < 2 ^ 1024" by (rule power_strict_increasing) simp_all
    ultimately show False using True by linarith
  qed
  moreover have "(2 :: int) ^ 63 < 2 ^ 1024" by (rule power_strict_increasing) simp_all
  moreover have "0 < b * 2 ^ n" using assms by simp
  ultimately show ?thesis using True by (simp add: times_pow2_def)
next
  case False
  moreover have "0 < b * 2 ^ n" using assms by simp
  ultimately show ?thesis using assms by (auto simp: times_pow2_def)
qed

definition exp_ok :: "'a exp_limiter \<Rightarrow> bool" where
  "exp_ok r \<longleftrightarrow> (\<forall>x. 0 \<le> failures_of (xl_failures r) x)"

lemma Exp_When_state:
  "snd (Exp_When x r) = r\<lparr>xl_failures := (xl_failures r)(x \<mapsto> failures_of (xl_failures r) x + 1)\<rparr>"
  by (simp add: Exp_When_def Let_def)

lemma Exp_When_min:
  assumes "0 < xl_baseDelay r" and "xl_baseDelay r < 2 ^ 53" and "xl_maxDelay r < 2 ^ 63"
    and "xl_baseDelay r * 2 ^ nat (Exp_NumRequeues x r) \<noteq> 2 ^ 63"
  shows "fst (Exp_When x r) = min (xl_baseDelay r * 2 ^ nat (Exp_NumRequeues x r)) (xl_maxDelay r)"
proof -
  let ?v = "xl_baseDelay r * 2 ^ nat (failures_of (xl_failures r) x)"
  have f: "float_of_int64 (xl_baseDelay r) = xl_baseDelay r" using assms by (simp add: float_of_int64_exact)
  note t = times_pow2_positive [OF assms(1), of "nat (failures_of (xl_failures r) x)"]
  have pos: "0 < ?v" using assms(1) by simp
  show ?thesis
  proof (cases "?v \<le> 2 ^ 63")
    case True
    with assms(4) have "?v < 2 ^ 63" by (simp add: Exp_NumRequeues_def)
    with True t pos show ?thesis by (simp add: Exp_When_def Exp_NumRequeues_def Let_def f min_def)
  next
    case False
    with t assms(3) show ?thesis by (simp add: Exp_When_def Exp_NumRequeues_def Let_def f min_def)
  qed
qed

section \<open>The contract\<close>

text \<open>
  A limiter counts, per item, how often it was asked to delay the item since it was last told to
  forget it, and asking about one item does not change the count of another.
\<close>

locale rate_limiter =
  fixes ok :: "'s \<Rightarrow> bool"
    and when_ready :: "'a \<Rightarrow> int \<Rightarrow> 's \<Rightarrow> int \<times> 's"
    and forget :: "'a \<Rightarrow> 's \<Rightarrow> 's"
    and requeues :: "'a \<Rightarrow> 's \<Rightarrow> int"
  assumes when_ok: "ok s \<Longrightarrow> ok (snd (when_ready x now s))"
    and when_counts: "ok s \<Longrightarrow>
        requeues y (snd (when_ready x now s)) = (if y = x then requeues x s + 1 else requeues y s)"
    and forget_ok: "ok s \<Longrightarrow> ok (forget x s)"
    and forget_clears: "ok s \<Longrightarrow> requeues y (forget x s) = (if y = x then 0 else requeues y s)"
begin

text \<open>\<open>Some now\<close> asks about the item at a time, \<open>None\<close> forgets it.\<close>

fun after_uses :: "('a \<times> int option) list \<Rightarrow> 's \<Rightarrow> 's" where
  "after_uses [] s = s"
| "after_uses ((x, None) # uses) s = after_uses uses (forget x s)"
| "after_uses ((x, Some now) # uses) s = after_uses uses (snd (when_ready x now s))"

lemma after_uses_ok: "ok s \<Longrightarrow> ok (after_uses uses s)"
  by (induction uses s rule: after_uses.induct) (simp_all add: when_ok forget_ok)

lemma requeues_since_forget:
  "ok s \<Longrightarrow> (x, None) \<notin> set uses \<Longrightarrow>
     requeues x (after_uses uses s) = requeues x s + int (length (filter (\<lambda>use. fst use = x) uses))"
  by (induction uses s rule: after_uses.induct)
    (auto simp: when_ok forget_ok when_counts forget_clears)

lemma forget_then_uses:
  "ok s \<Longrightarrow> (x, None) \<notin> set uses \<Longrightarrow>
     requeues x (after_uses uses (forget x s)) = int (length (filter (\<lambda>use. fst use = x) uses))"
  by (simp add: requeues_since_forget forget_ok forget_clears)

end

interpretation exponential: rate_limiter exp_ok "\<lambda>x now. Exp_When x" Exp_Forget Exp_NumRequeues
  by unfold_locales (auto simp: exp_ok_def Exp_When_state Exp_Forget_def Exp_NumRequeues_def)

interpretation fast_slow: rate_limiter "\<lambda>_. True" "\<lambda>x now. FastSlow_When x" FastSlow_Forget FastSlow_NumRequeues
  by unfold_locales (auto simp: FastSlow_When_def FastSlow_Forget_def FastSlow_NumRequeues_def Let_def)

lemma default_When:
  "MaxOf_When default_limiters x now (r, b) =
    (let (d1, r') = Exp_When x r; (d2, b') = Take now 1 b in (max 0 (max d1 d2), (r', b')))"
  by (auto simp: MaxOf_When_def default_limiters_def exp_part_def bucket_part_def Let_def max_def
      split: prod.splits)

lemma Exp_When_delays:
  "xl_baseDelay (snd (Exp_When x r)) = xl_baseDelay r" "xl_maxDelay (snd (Exp_When x r)) = xl_maxDelay r"
  by (simp_all add: Exp_When_state)

lemma default_Num:
  "exp_ok r \<Longrightarrow> MaxOf_NumRequeues default_limiters x (r, b) = Exp_NumRequeues x r"
  by (auto simp: MaxOf_NumRequeues_def default_limiters_def exp_part_def bucket_part_def Let_def
      Exp_NumRequeues_def exp_ok_def intro: antisym)

lemma default_Forget: "MaxOf_Forget default_limiters x (r, b) = (Exp_Forget x r, b)"
  by (simp add: MaxOf_Forget_def default_limiters_def exp_part_def bucket_part_def)

interpretation default: rate_limiter "\<lambda>(r, b). exp_ok r" "MaxOf_When default_limiters"
  "MaxOf_Forget default_limiters" "MaxOf_NumRequeues default_limiters"
proof unfold_locales
  fix s :: "'a default_state" and x y :: 'a and now :: int
  obtain r b where s: "s = (r, b)" by (cases s)
  assume "case s of (r, b) \<Rightarrow> exp_ok r"
  then have r: "exp_ok r" by (simp add: s)
  obtain d1 r' where e: "Exp_When x r = (d1, r')" by (metis prod.exhaust)
  obtain d2 b' where t: "Take now 1 b = (d2, b')" by (metis prod.exhaust)
  have r': "exp_ok r'" using exponential.when_ok [OF r] e by (metis snd_conv)
  show "case snd (MaxOf_When default_limiters x now s) of (r, b) \<Rightarrow> exp_ok r"
    by (simp add: s default_When e t r')
  show "MaxOf_NumRequeues default_limiters y (snd (MaxOf_When default_limiters x now s)) =
      (if y = x then MaxOf_NumRequeues default_limiters x s + 1 else MaxOf_NumRequeues default_limiters y s)"
    using exponential.when_counts [OF r, of y x] by (simp add: s default_When e t default_Num r r')
  show "case MaxOf_Forget default_limiters x s of (r, b) \<Rightarrow> exp_ok r"
    by (simp add: s default_Forget exponential.forget_ok [OF r])
  show "MaxOf_NumRequeues default_limiters y (MaxOf_Forget default_limiters x s) =
      (if y = x then 0 else MaxOf_NumRequeues default_limiters y s)"
    using exponential.forget_clears [OF r, of y x]
    by (simp add: s default_Forget default_Num r exponential.forget_ok [OF r])
qed

lemma default_delays:
  "xl_baseDelay (fst (default.after_uses uses s)) = xl_baseDelay (fst s) \<and>
   xl_maxDelay (fst (default.after_uses uses s)) = xl_maxDelay (fst s)"
proof (induction uses s rule: default.after_uses.induct)
  case (2 x uses s)
  then show ?case by (cases s) (simp add: default_Forget Exp_Forget_def)
next
  case (3 x now uses s)
  obtain r b where "s = (r, b)" by (cases s)
  then have "xl_baseDelay (fst (snd (MaxOf_When default_limiters x now s))) = xl_baseDelay r \<and>
      xl_maxDelay (fst (snd (MaxOf_When default_limiters x now s))) = xl_maxDelay r"
    using Exp_When_delays [of x r]
    by (cases "Exp_When x r"; cases "Take now 1 b") (simp add: default_When)
  with 3 \<open>s = (r, b)\<close> show ?case by simp
qed simp

section \<open>Lemmas: tokens\<close>

definition tick :: "int \<Rightarrow> bucket \<Rightarrow> int" where
  "tick now tb = (now - tb_startTime tb) div tb_fillInterval tb"

text \<open>A bucket in use: its constants are positive, and it was last adjusted in the past.\<close>

definition bucket_ok :: "int \<Rightarrow> bucket \<Rightarrow> bool" where
  "bucket_ok now tb \<longleftrightarrow> 0 < tb_quantum tb \<and> 0 < tb_fillInterval tb \<and> 0 < tb_capacity tb \<and>
     tb_startTime tb \<le> now \<and> tb_availTick tb \<le> tick now tb"

lemma go_div_nonneg: "0 \<le> a \<Longrightarrow> 0 < b \<Longrightarrow> go_div a b = a div b"
  by (cases "a = 0") (simp_all add: go_div_def sgn_if)

lemma adjust_ok:
  assumes "bucket_ok now tb"
  shows "adjust now tb =
    (if tb_capacity tb \<le> tb_avail tb then (tick now tb, tb)
     else (tick now tb, tb\<lparr>tb_avail := min (tb_capacity tb) (tb_avail tb + (tick now tb - tb_availTick tb) * tb_quantum tb),
                           tb_availTick := tick now tb\<rparr>))"
  using assms by (simp add: adjust_def Let_def bucket_ok_def go_div_nonneg tick_def min_def)

lemma round_up:
  fixes m q :: int
  assumes "0 < q"
  shows "m \<le> (m + q - 1) div q * q"
proof -
  have "(m + q - 1) div q * q + (m + q - 1) mod q = m + q - 1" by simp
  moreover have "(m + q - 1) mod q < q" using assms by simp
  ultimately show ?thesis by linarith
qed

lemma tick_mono: "0 < tb_fillInterval tb \<Longrightarrow> s \<le> t \<Longrightarrow> tick s tb \<le> tick t tb"
  by (simp add: tick_def zdiv_mono1)

lemma tick_reached:
  "0 < tb_fillInterval tb \<Longrightarrow> tb_startTime tb + e * tb_fillInterval tb \<le> t \<Longrightarrow> e \<le> tick t tb"
  unfolding tick_def by (metis add.commute le_diff_eq nonzero_mult_div_cancel_right order_less_irrefl zdiv_mono1)

lemma tick_end:
  assumes "0 < tb_fillInterval tb" and "tick t tb < e"
  shows "t < tb_startTime tb + e * tb_fillInterval tb"
proof (rule ccontr)
  assume "\<not> ?thesis"
  then have "e \<le> tick t tb" using tick_reached [OF assms(1)] by simp
  with assms(2) show False by simp
qed

text \<open>What is available later: the balance and the tokens of the ticks since, up to the capacity.\<close>

lemma available_nonneg:
  assumes "bucket_ok later tb"
    and "0 \<le> tb_avail tb + (tick later tb - tb_availTick tb) * tb_quantum tb"
  shows "0 \<le> fst (available later tb)"
  using assms by (simp add: available_def adjust_ok bucket_ok_def)

lemma adjust_frame:
  assumes "bucket_ok now tb"
  shows "fst (adjust now tb) = tick now tb" "tb_quantum (snd (adjust now tb)) = tb_quantum tb"
    "tb_startTime (snd (adjust now tb)) = tb_startTime tb" "tb_capacity (snd (adjust now tb)) = tb_capacity tb"
    "tb_fillInterval (snd (adjust now tb)) = tb_fillInterval tb" "tb_availTick (snd (adjust now tb)) \<le> tick now tb"
  using assms by (auto simp: adjust_ok [OF assms] bucket_ok_def)

text \<open>A balance is covered once enough ticks have passed since the bucket was adjusted.\<close>

lemma covered_later:
  assumes "bucket_ok now tb" and "now \<le> later" and "tick now tb + k \<le> tick later tb"
    and "0 \<le> k" and "- a \<le> k * tb_quantum tb"
  shows "0 \<le> fst (available later ((snd (adjust now tb))\<lparr>tb_avail := a\<rparr>))"
proof (rule available_nonneg)
  let ?tb = "(snd (adjust now tb))\<lparr>tb_avail := a\<rparr>"
  note f = adjust_frame [OF assms(1)]
  have t: "tick later ?tb = tick later tb" by (simp add: tick_def f)
  then show "bucket_ok later ?tb" using assms f by (simp add: bucket_ok_def)
  have "k * tb_quantum tb \<le> (tick later tb - tb_availTick ?tb) * tb_quantum tb"
    using assms(1,3) f(6) by (intro mult_right_mono) (simp_all add: bucket_ok_def)
  with assms(5) show "0 \<le> tb_avail ?tb + (tick later ?tb - tb_availTick ?tb) * tb_quantum ?tb"
    unfolding t by (simp add: f(2))
qed

text \<open>What \<open>take\<close> answers when the balance covers the request, and when the caller has to wait.\<close>

definition wait_end :: "int \<Rightarrow> int \<Rightarrow> bucket \<Rightarrow> int" where
  "wait_end now k tb = tb_startTime tb + (tick now tb + k) * tb_fillInterval tb"

lemma take_tokens_cases:
  assumes "bucket_ok now tb" and "0 < count"
  defines "a \<equiv> tb_avail (snd (adjust now tb)) - count"
    and "k \<equiv> (- (tb_avail (snd (adjust now tb)) - count) + tb_quantum tb - 1) div tb_quantum tb"
  shows "take_tokens now count maxWait tb =
    (if 0 \<le> a then ((0, True), (snd (adjust now tb))\<lparr>tb_avail := a\<rparr>)
     else if maxWait < wait_end now k tb - now then ((0, False), snd (adjust now tb))
     else ((wait_end now k tb - now, True), (snd (adjust now tb))\<lparr>tb_avail := a\<rparr>))"
    and "a < 0 \<Longrightarrow> 1 \<le> k"
proof -
  have q: "0 < tb_quantum tb" using assms(1) by (simp add: bucket_ok_def)
  show "take_tokens now count maxWait tb =
    (if 0 \<le> a then ((0, True), (snd (adjust now tb))\<lparr>tb_avail := a\<rparr>)
     else if maxWait < wait_end now k tb - now then ((0, False), snd (adjust now tb))
     else ((wait_end now k tb - now, True), (snd (adjust now tb))\<lparr>tb_avail := a\<rparr>))"
    using assms(2) q adjust_frame [OF assms(1)] unfolding a_def k_def
    by (cases "adjust now tb") (auto simp: take_tokens_def Let_def go_div_nonneg wait_end_def)
  show "a < 0 \<Longrightarrow> 1 \<le> k"
    using q unfolding a_def k_def by (simp add: pos_imp_zdiv_pos_iff int_one_le_iff_zero_less)
qed

lemma bucket_ok_New:
  "NewBucketWithQuantumAndClock fillInterval capacity quantum now = Some tb \<Longrightarrow> bucket_ok now tb"
  by (auto simp: NewBucketWithQuantumAndClock_def bucket_ok_def tick_def split: if_splits)

text \<open>A full bucket of three tokens, one every 100 ns.\<close>

definition sample_bucket :: bucket where
  "sample_bucket = \<lparr>tb_startTime = 0, tb_capacity = 3, tb_quantum = 1, tb_fillInterval = 100,
     tb_avail = 3, tb_availTick = 0\<rparr>"

section \<open>Properties\<close>

text \<open>
  The delay of the exponential limiter doubles with every failure of the item and is capped by
  the maximum: for a positive base below 2^53 it is the smaller of \<open>base * 2^failures\<close> and the
  maximum, unless that product is exactly 2^63; and the failure is counted for this item only.
\<close>

theorem Exp_When_delay:
  assumes "0 < xl_baseDelay r" and "xl_baseDelay r < 2 ^ 53" and "xl_maxDelay r < 2 ^ 63"
    and "xl_baseDelay r * 2 ^ nat (Exp_NumRequeues x r) \<noteq> 2 ^ 63"
  shows "fst (Exp_When x r) = min (xl_baseDelay r * 2 ^ nat (Exp_NumRequeues x r)) (xl_maxDelay r) \<and>
    Exp_NumRequeues y (snd (Exp_When x r)) = Exp_NumRequeues y r + (if y = x then 1 else 0)"
  using Exp_When_min [OF assms] by (simp add: Exp_When_state Exp_NumRequeues_def)

theorem Exp_When_delay_witness:
  "fst (Exp_When (0 :: nat) \<lparr>xl_failures = [0 \<mapsto> 3], xl_baseDelay = 5000000, xl_maxDelay = 1000000000000\<rparr>) = 40000000"
  using Exp_When_delay
    [where r = "\<lparr>xl_failures = [0 \<mapsto> 3], xl_baseDelay = 5000000, xl_maxDelay = 1000000000000\<rparr>" and x = "0 :: nat" and y = 0]
  by (simp add: Exp_NumRequeues_def failures_of_def)


text \<open>
  When \<open>base * 2^failures\<close> is exactly 2^63 the check against \<open>math.MaxInt64\<close>, which is 2^63 as a
  float, lets it through, the conversion overflows, and the delay is the least integer: the item
  is retried at once.
\<close>

theorem Exp_When_overflow:
  assumes "0 < xl_baseDelay r" and "xl_baseDelay r < 2 ^ 53" and "0 \<le> xl_maxDelay r"
    and "xl_baseDelay r * 2 ^ nat (Exp_NumRequeues x r) = 2 ^ 63"
  shows "fst (Exp_When x r) = - (2 ^ 63)"
proof -
  have f: "float_of_int64 (xl_baseDelay r) = xl_baseDelay r"
    using assms(1,2) by (simp add: float_of_int64_exact)
  have v: "xl_baseDelay r * 2 ^ nat (failures_of (xl_failures r) x) = 2 ^ 63"
    using assms(4) by (simp add: Exp_NumRequeues_def)
  have "times_pow2 (xl_baseDelay r) (nat (failures_of (xl_failures r) x)) = Finite (2 ^ 63)"
    using times_pow2_positive [OF assms(1), of "nat (failures_of (xl_failures r) x)"] unfolding v by simp
  with assms(3) show ?thesis by (simp add: Exp_When_def Let_def f)
qed

theorem Exp_When_overflow_witness:
  "fst (Exp_When (0 :: nat) \<lparr>xl_failures = [0 \<mapsto> 63], xl_baseDelay = 1, xl_maxDelay = 1000\<rparr>) = - (2 ^ 63)"
  using Exp_When_overflow
    [where r = "\<lparr>xl_failures = [0 \<mapsto> 63], xl_baseDelay = 1, xl_maxDelay = 1000\<rparr>" and x = "0 :: nat"]
  by (simp add: Exp_NumRequeues_def failures_of_def)


text \<open>
  C38. The controller's limiter, whatever it was asked about other items in between: the number of
  requeues of an item is the number of times it was delayed since it was last forgotten, and the
  next delay is at least 5 ms doubled that often, or 1000 s if that is less.
\<close>

theorem default_limiter_backoff:
  fixes r :: "'a exp_limiter"
  assumes "exp_ok r" and "xl_baseDelay r = 5000000" and "xl_maxDelay r = 1000000000000"
    and "(x, None) \<notin> set uses"
  shows "let s = default.after_uses uses (MaxOf_Forget default_limiters x (r, b));
             n = length (filter (\<lambda>use. fst use = x) uses)
    in MaxOf_NumRequeues default_limiters x s = int n \<and>
       min (5000000 * 2 ^ n) 1000000000000 \<le> fst (MaxOf_When default_limiters x now s)"
proof -
  let ?n = "length (filter (\<lambda>use. fst use = x) uses)"
  obtain r' b' where s: "default.after_uses uses (MaxOf_Forget default_limiters x (r, b)) = (r', b')"
    by (metis prod.exhaust)
  have ok: "exp_ok r'"
    using default.after_uses_ok [OF default.forget_ok, of "(r, b)" uses x] assms(1) s by simp
  have count: "MaxOf_NumRequeues default_limiters x (r', b') = int ?n"
    using default.forget_then_uses [of "(r, b)" x uses] assms(1,4) s by simp
  have delays: "xl_baseDelay r' = 5000000" "xl_maxDelay r' = 1000000000000"
    using default_delays [of uses "MaxOf_Forget default_limiters x (r, b)"] assms(2,3) s
    by (simp_all add: default_Forget Exp_Forget_def)
  have "(5000000 :: int) * 2 ^ ?n \<noteq> 2 ^ 63"
  proof
    assume eq: "(5000000 :: int) * 2 ^ ?n = 2 ^ 63"
    have "(5 :: int) dvd 5000000 * 2 ^ ?n" by (rule dvd_mult2) simp
    then have "(5 :: int) dvd 2 ^ 63" unfolding eq .
    then show False by simp
  qed
  with delays count have "fst (Exp_When x r') = min (5000000 * 2 ^ ?n) 1000000000000"
    by (subst Exp_When_min) (simp_all add: default_Num [OF ok])
  then show ?thesis
    by (cases "Exp_When x r'"; cases "Take now 1 b'") (auto simp: s count default_When Let_def)
qed

theorem default_limiter_backoff_witness:
  "min (5000000 * 2 ^ 2) 1000000000000 \<le> fst (MaxOf_When default_limiters (0 :: nat) 9
     (default.after_uses [(0, Some 5), (1, None), (0, Some 6)]
       (MaxOf_Forget default_limiters 0 (NewItemExponentialFailureRateLimiter 5000000 1000000000000, sample_bucket))))"
proof -
  let ?r = "NewItemExponentialFailureRateLimiter 5000000 1000000000000 :: nat exp_limiter"
  have "exp_ok ?r" "xl_baseDelay ?r = 5000000" "xl_maxDelay ?r = 1000000000000"
    "(0, None) \<notin> set [(0 :: nat, Some (5 :: int)), (1, None), (0, Some 6)]"
    by (simp_all add: NewItemExponentialFailureRateLimiter_def exp_ok_def failures_of_def)
  from default_limiter_backoff [OF this, of sample_bucket 9] show ?thesis by (simp add: Let_def numeral_2_eq_2)
qed





text \<open>
  A bucket that stayed full long enough serves twice its capacity at one instant: \<open>adjust\<close>
  returns early on a full bucket without moving \<open>availTick\<close>, so the ticks spent full are
  credited once tokens are taken.
\<close>

theorem bucket_double_burst:
  assumes "bucket_ok now tb" and "tb_avail tb = tb_capacity tb"
    and "tb_capacity tb \<le> (tick now tb - tb_availTick tb) * tb_quantum tb"
  shows "\<exists>tb1 tb2. Take now (tb_capacity tb) tb = (0, tb1) \<and> Take now (tb_capacity tb) tb1 = (0, tb2)"
proof -
  have pos: "0 < tb_capacity tb" using assms(1) by (simp add: bucket_ok_def)
  let ?tb1 = "tb\<lparr>tb_avail := 0\<rparr>"
  have first: "Take now (tb_capacity tb) tb = (0, ?tb1)"
    using pos by (simp add: Take_def take_tokens_def adjust_ok [OF assms(1)] assms(2))
  have "bucket_ok now ?tb1" using assms(1) by (simp add: bucket_ok_def tick_def)
  moreover have "tick now ?tb1 = tick now tb" by (simp add: tick_def)
  ultimately have "adjust now ?tb1 = (tick now tb, ?tb1\<lparr>tb_avail := tb_capacity tb, tb_availTick := tick now tb\<rparr>)"
    using pos assms(3) by (simp add: adjust_ok)
  then have "fst (Take now (tb_capacity tb) ?tb1) = 0"
    using pos by (simp add: Take_def take_tokens_def)
  with first show ?thesis by (metis prod.collapse)
qed

theorem bucket_double_burst_witness:
  "\<exists>tb1 tb2. Take 300 3 sample_bucket = (0, tb1) \<and> Take 300 3 tb1 = (0, tb2)"
proof -
  have "bucket_ok 300 sample_bucket" "tb_avail sample_bucket = tb_capacity sample_bucket"
    "tb_capacity sample_bucket \<le> (tick 300 sample_bucket - tb_availTick sample_bucket) * tb_quantum sample_bucket"
    by (simp_all add: bucket_ok_def sample_bucket_def tick_def)
  from bucket_double_burst [OF this] show ?thesis by (simp add: sample_bucket_def)
qed


end
