(* ===== verification/Controller.thy ===== *)
theory Controller
  imports PodReconcile Defaults WorkQueue RateLimiter
begin

text \<open>
  pkg/controller/controller.go and the event handlers of controller_pod.go: what happens to a
  notification of an informer, how the key of a job gets into the work queue, and how a worker
  takes it out and synchronises the job. The lister of pkg/client/listers hands out pointers into
  the informer's cache and the code writes through them, so the jobs live in a heap: the cache maps
  keys to addresses, and a notification carries an address. The workers' and handlers' accesses to
  one object are taken one after the other.
\<close>

section \<open>State\<close>

type_synonym job_ptr = nat

text \<open>
  \<open>cn_waiting\<close> are the entries \<open>AddAfter\<close> has sent to the loop of the delaying queue, which adds each
  to the work queue when its time has come.
\<close>

record 'w controller =
  cn_heap :: "job_ptr \<Rightarrow> Caffe2Job"
  cn_jobs :: "string \<rightharpoonup> job_ptr"
  cn_pods :: "string \<Rightarrow> go_error + Pod list"
  cn_queue :: "string work_queue"
  cn_waiting :: "(string \<times> time) list"
  cn_limiter :: "string default_state"
  cn_world :: 'w

text \<open>What an informer notifies about; \<open>DeletedFinalStateUnknown\<close> is a tombstone with its key.\<close>

datatype notified = JobPtr job_ptr | PodPtr Pod | DeletedFinalStateUnknown string

section \<open>Looking up and queueing\<close>

definition Lister_Get :: "'w controller \<Rightarrow> string \<Rightarrow> string \<Rightarrow> go_error + job_ptr" where
  "Lister_Get c ns name =
     (case cn_jobs c (ns @ ''/'' @ name) of
        None \<Rightarrow> Inl (StatusError ''NotFound'' name)
      | Some p \<Rightarrow> Inr p)"

definition keyFunc :: "'w controller \<Rightarrow> notified \<Rightarrow> string" where
  "keyFunc c obj =
     (case obj of
        DeletedFinalStateUnknown key \<Rightarrow> key
      | JobPtr p \<Rightarrow> MetaNamespaceKey (job_Meta (cn_heap c p))
      | PodPtr pod \<Rightarrow> MetaNamespaceKey (pod_Meta pod))"

definition AddAfter :: "'w api \<Rightarrow> string \<Rightarrow> int \<Rightarrow> 'w controller \<Rightarrow> 'w controller" where
  "AddAfter api item duration c =
     (if ShuttingDown (cn_queue c) then c
      else if duration \<le> 0 then c\<lparr>cn_queue := Add item (cn_queue c)\<rparr>
      else let (now, w) = api_now api (cn_world c) in
        c\<lparr>cn_waiting := cn_waiting c @ [(item, now + duration)], cn_world := w\<rparr>)"

definition AddRateLimited :: "'w api \<Rightarrow> string \<Rightarrow> 'w controller \<Rightarrow> 'w controller" where
  "AddRateLimited api item c =
     (let (now, w) = api_now api (cn_world c);
          (duration, l) = MaxOf_When default_limiters item now (cn_limiter c) in
      AddAfter api item duration (c\<lparr>cn_limiter := l, cn_world := w\<rparr>))"

definition Forget :: "string \<Rightarrow> 'w controller \<Rightarrow> 'w controller" where
  "Forget item c = c\<lparr>cn_limiter := MaxOf_Forget default_limiters item (cn_limiter c)\<rparr>"

definition enqueueController :: "'w api \<Rightarrow> notified \<Rightarrow> 'w controller \<Rightarrow> 'w controller" where
  "enqueueController api obj c = AddRateLimited api (keyFunc c obj) c"

section \<open>Synchronising a job\<close>

definition updateCaffe2JobStatus :: "'w api \<Rightarrow> Caffe2Job \<Rightarrow> 'w \<Rightarrow> go_error option \<times> 'w" where
  "updateCaffe2JobStatus api job w = api_update_job api (job_Namespace job) job w"

definition reconcileCaffe2Jobs ::
  "'w api \<Rightarrow> job_ptr \<Rightarrow> 'w controller \<Rightarrow> go_error option outcome \<times> 'w controller" where
  "reconcileCaffe2Jobs api p c =
     (case getPodsForCaffe2Job api (cn_pods c) (cn_heap c p) (cn_world c) of
        ((pods, Some err), w) \<Rightarrow> (Ret (Some err), c\<lparr>cn_world := w\<rparr>)
      | ((pods, None), w) \<Rightarrow>
          (case reconcilePods api (cn_heap c p) pods (js_ReplicaSpecs (job_Spec (cn_heap c p))) w of
             (Panic e, w1) \<Rightarrow> (Panic e, c\<lparr>cn_world := w1\<rparr>)
           | (Ret (job, Some err), w1) \<Rightarrow>
               (Ret (Some err), c\<lparr>cn_heap := (cn_heap c)(p := job), cn_world := w1\<rparr>)
           | (Ret (job, None), w1) \<Rightarrow>
               (case updateCaffe2JobStatus api job w1 of
                  (err, w2) \<Rightarrow> (Ret err, c\<lparr>cn_heap := (cn_heap c)(p := job), cn_world := w2\<rparr>))))"

definition syncCaffe2Job ::
  "'w api \<Rightarrow> string \<Rightarrow> 'w controller \<Rightarrow> (bool \<times> go_error option) outcome \<times> 'w controller" where
  "syncCaffe2Job api key c =
     (case SplitMetaNamespaceKey key of
        Inl err \<Rightarrow> (Ret (False, Some err), c)
      | Inr (ns, name) \<Rightarrow>
          if length ns = 0 \<or> length name = 0
            then (Ret (False, Some (Errorf ''invalid job key %q: either namespace or name is missing'' [key] [])), c)
          else
            (case Lister_Get c ns name of
               Inl err \<Rightarrow>
                 if IsNotFound (Some err) then (Ret (True, None), c) else (Ret (False, Some err), c)
             | Inr p \<Rightarrow>
                 if om_DeletionTimestamp (job_Meta (cn_heap c p)) = None then
                   (case reconcileCaffe2Jobs api p c of
                      (Panic e, c1) \<Rightarrow> (Panic e, c1)
                    | (Ret (Some err), c1) \<Rightarrow> (Ret (False, Some err), c1)
                    | (Ret None, c1) \<Rightarrow> (Ret (True, None), c1))
                 else (Ret (True, None), c)))"

text \<open>
  One round of a worker: \<open>None\<close> while \<open>Get\<close> waits; otherwise whether the worker goes on. \<open>Done\<close> is
  deferred, so it comes last, also when the handler panics.
\<close>

definition finish :: "string \<Rightarrow> 'w controller \<Rightarrow> 'w controller" where
  "finish key c = c\<lparr>cn_queue := Done key (cn_queue c)\<rparr>"

definition processNextWorkItem :: "'w api \<Rightarrow> 'w controller \<Rightarrow> (bool outcome \<times> 'w controller) option" where
  "processNextWorkItem api c =
     (case Get (cn_queue c) of
        None \<Rightarrow> None
      | Some (None, q) \<Rightarrow> Some (Ret False, c\<lparr>cn_queue := q\<rparr>)
      | Some (Some key, q) \<Rightarrow>
          Some (case syncCaffe2Job api key (c\<lparr>cn_queue := q\<rparr>) of
                  (Panic e, c1) \<Rightarrow> (Panic e, finish key c1)
                | (Ret (forget, None), c1) \<Rightarrow>
                    (Ret True, finish key (if forget then Forget key c1 else c1))
                | (Ret (forget, Some err), c1) \<Rightarrow> (Ret True, finish key (AddRateLimited api key c1))))"

section \<open>Notifications\<close>

text \<open>
  \<open>scheme.Scheme.Default(job)\<close> and the created condition change the object in the cache; then its
  key is queued.
\<close>

definition addCaffe2Job :: "'w api \<Rightarrow> notified \<Rightarrow> 'w controller \<Rightarrow> unit outcome \<times> 'w controller" where
  "addCaffe2Job api obj c =
     (case obj of
        JobPtr p \<Rightarrow>
          let msg = ''Caffe2Job '' @ job_Name (cn_heap c p) @ '' is created.'' in
          (case SetObjectDefaults_Caffe2Job (api_now api) (cn_heap c p) (cn_world c) of
             (Panic e, w) \<Rightarrow> (Panic e, c\<lparr>cn_world := w\<rparr>)
           | (Ret job, w) \<Rightarrow>
               (case updateCaffe2JobConditions (api_now api) job Caffe2JobCreated caffe2JobCreatedReason msg w of
                  (job1, Some err, w1) \<Rightarrow> (Ret (), c\<lparr>cn_heap := (cn_heap c)(p := job1), cn_world := w1\<rparr>)
                | (job1, None, w1) \<Rightarrow>
                    (Ret (), enqueueController api obj
                       (c\<lparr>cn_heap := (cn_heap c)(p := job1), cn_world := w1\<rparr>))))
      | _ \<Rightarrow> (Panic TypeAssertion, c))"

definition updateCaffe2Job ::
  "'w api \<Rightarrow> notified \<Rightarrow> notified \<Rightarrow> 'w controller \<Rightarrow> unit outcome \<times> 'w controller" where
  "updateCaffe2Job api old cur c =
     (case old of JobPtr _ \<Rightarrow> (Ret (), enqueueController api cur c) | _ \<Rightarrow> (Panic TypeAssertion, c))"

definition resolveControllerRef :: "'w controller \<Rightarrow> string \<Rightarrow> OwnerReference \<Rightarrow> job_ptr option" where
  "resolveControllerRef c namespace controllerRef =
     (if or_Kind controllerRef \<noteq> gvk_Kind controllerKind then None
      else (case Lister_Get c namespace (or_Name controllerRef) of
              Inl err \<Rightarrow> None
            | Inr p \<Rightarrow> if job_UID (cn_heap c p) \<noteq> or_UID controllerRef then None else Some p))"

definition addPod :: "'w api \<Rightarrow> notified \<Rightarrow> 'w controller \<Rightarrow> unit outcome \<times> 'w controller" where
  "addPod api obj c =
     (case obj of
        PodPtr pod \<Rightarrow>
          if om_DeletionTimestamp (pod_Meta pod) \<noteq> None then (Ret (), c)
          else (case GetControllerOf (pod_Meta pod) of
                  None \<Rightarrow> (Ret (), c)
                | Some controllerRef \<Rightarrow>
                    (case resolveControllerRef c (om_Namespace (pod_Meta pod)) controllerRef of
                       None \<Rightarrow> (Ret (), c)
                     | Some p \<Rightarrow>
                         if map_of (pod_labels pod) caffe2ReplicaTypeLabel = None then (Ret (), c)
                         else (Ret (), enqueueController api (JobPtr p) c)))
      | _ \<Rightarrow> (Panic TypeAssertion, c))"

definition updatePod :: "notified \<Rightarrow> notified \<Rightarrow> 'w controller \<Rightarrow> unit outcome \<times> 'w controller" where
  "updatePod old cur c = (Ret (), c)"

definition deletePod :: "notified \<Rightarrow> 'w controller \<Rightarrow> unit outcome \<times> 'w controller" where
  "deletePod obj c = (Ret (), c)"

text \<open>\<open>cache.FilteringResourceEventHandler\<close> around \<open>cache.ResourceEventHandlerFuncs\<close>.\<close>

record 'w handler =
  hn_filter :: "notified \<Rightarrow> bool"
  hn_add :: "notified \<Rightarrow> 'w controller \<Rightarrow> unit outcome \<times> 'w controller"
  hn_update :: "notified \<Rightarrow> notified \<Rightarrow> 'w controller \<Rightarrow> unit outcome \<times> 'w controller"
  hn_delete :: "notified \<Rightarrow> 'w controller \<Rightarrow> unit outcome \<times> 'w controller"

definition OnAdd :: "'w handler \<Rightarrow> notified \<Rightarrow> 'w controller \<Rightarrow> unit outcome \<times> 'w controller" where
  "OnAdd r obj c = (if \<not> hn_filter r obj then (Ret (), c) else hn_add r obj c)"

definition OnUpdate :: "'w handler \<Rightarrow> notified \<Rightarrow> notified \<Rightarrow> 'w controller \<Rightarrow> unit outcome \<times> 'w controller" where
  "OnUpdate r oldObj newObj c =
     (let newer = hn_filter r newObj; older = hn_filter r oldObj in
      if newer \<and> older then hn_update r oldObj newObj c
      else if newer \<and> \<not> older then hn_add r newObj c
      else if \<not> newer \<and> older then hn_delete r oldObj c
      else (Ret (), c))"

definition OnDelete :: "'w handler \<Rightarrow> notified \<Rightarrow> 'w controller \<Rightarrow> unit outcome \<times> 'w controller" where
  "OnDelete r obj c = (if \<not> hn_filter r obj then (Ret (), c) else hn_delete r obj c)"

definition job_filter :: "notified \<Rightarrow> bool" where
  "job_filter obj = (case obj of JobPtr _ \<Rightarrow> True | _ \<Rightarrow> False)"

definition pod_filter :: "notified \<Rightarrow> bool" where
  "pod_filter obj =
     (case obj of
        PodPtr pod \<Rightarrow>
          if map_of (pod_labels pod) ''caffe2_job_key'' = None then False
          else pod_Phase pod = PodRunning \<or> pod_Phase pod = PodSucceeded \<or> pod_Phase pod = PodFailed
      | _ \<Rightarrow> False)"

definition job_handler :: "'w api \<Rightarrow> 'w handler" where
  "job_handler api =
     \<lparr>hn_filter = job_filter, hn_add = addCaffe2Job api, hn_update = updateCaffe2Job api,
      hn_delete = (\<lambda>obj c. (Ret (), enqueueController api obj c))\<rparr>"

definition pod_handler :: "'w api \<Rightarrow> 'w handler" where
  "pod_handler api =
     \<lparr>hn_filter = pod_filter, hn_add = addPod api, hn_update = updatePod, hn_delete = deletePod\<rparr>"

section \<open>Lemmas: queueing\<close>

text \<open>
  The bookkeeping is in order; a key will be handed to a worker again: it is in the queue, or with
  the delaying loop, or it is held now and \<open>Done\<close> will queue it.
\<close>

definition books_ok :: "'w controller \<Rightarrow> bool" where
  "books_ok c \<longleftrightarrow> queue_inv (cn_queue c) \<and> exp_ok (fst (cn_limiter c))"

definition scheduled :: "string \<Rightarrow> 'w controller \<Rightarrow> bool" where
  "scheduled key c \<longleftrightarrow> key \<in> wq_dirty (cn_queue c) \<or> key \<in> fst ` set (cn_waiting c)"

definition requeues :: "string \<Rightarrow> 'w controller \<Rightarrow> int" where
  "requeues key c = MaxOf_NumRequeues default_limiters key (cn_limiter c)"

lemma books_ok_limiter: "books_ok c \<Longrightarrow> (case cn_limiter c of (r, b) \<Rightarrow> exp_ok r)"
  by (cases "cn_limiter c") (simp add: books_ok_def)

lemma AddAfter_frame [frame_simps]:
  "cn_heap (AddAfter api x d c) = cn_heap c" "cn_jobs (AddAfter api x d c) = cn_jobs c"
  "cn_pods (AddAfter api x d c) = cn_pods c" "cn_limiter (AddAfter api x d c) = cn_limiter c"
  "wq_processing (cn_queue (AddAfter api x d c)) = wq_processing (cn_queue c)"
  "ShuttingDown (cn_queue (AddAfter api x d c)) = ShuttingDown (cn_queue c)"
  by (auto simp: AddAfter_def Add_def Let_def ShuttingDown_def split: prod.splits)

lemma AddAfter_scheduled:
  "queue_inv (cn_queue c) \<Longrightarrow> queue_inv (cn_queue (AddAfter api x d c))"
  "scheduled y c \<Longrightarrow> scheduled y (AddAfter api x d c)"
  "\<not> ShuttingDown (cn_queue c) \<Longrightarrow> scheduled x (AddAfter api x d c)"
  by (auto simp: AddAfter_def scheduled_def ShuttingDown_def queue_inv_Add split: prod.splits)
    (auto simp: Add_def Let_def)

lemma AddRateLimited_AddAfter:
  "\<exists>d now w. AddRateLimited api x c =
    AddAfter api x d (c\<lparr>cn_limiter := snd (MaxOf_When default_limiters x now (cn_limiter c)), cn_world := w\<rparr>)"
  by (auto simp: AddRateLimited_def Let_def case_prod_beta)

lemma AddRateLimited_frame [frame_simps]:
  "cn_heap (AddRateLimited api x c) = cn_heap c" "cn_jobs (AddRateLimited api x c) = cn_jobs c"
  "cn_pods (AddRateLimited api x c) = cn_pods c"
  "wq_processing (cn_queue (AddRateLimited api x c)) = wq_processing (cn_queue c)"
  "ShuttingDown (cn_queue (AddRateLimited api x c)) = ShuttingDown (cn_queue c)"
  using AddRateLimited_AddAfter [of api x c] by (auto simp: frame_simps)

lemma AddRateLimited_schedules:
  assumes "books_ok c"
  shows "books_ok (AddRateLimited api x c)"
    and "scheduled y c \<Longrightarrow> scheduled y (AddRateLimited api x c)"
    and "\<not> ShuttingDown (cn_queue c) \<Longrightarrow> scheduled x (AddRateLimited api x c)"
    and "requeues y (AddRateLimited api x c) = requeues y c + (if y = x then 1 else 0)"
proof -
  obtain d now w where eq: "AddRateLimited api x c =
    AddAfter api x d (c\<lparr>cn_limiter := snd (MaxOf_When default_limiters x now (cn_limiter c)), cn_world := w\<rparr>)"
    using AddRateLimited_AddAfter [of api x c] by blast
  let ?c = "c\<lparr>cn_limiter := snd (MaxOf_When default_limiters x now (cn_limiter c)), cn_world := w\<rparr>"
  note lim = books_ok_limiter [OF assms]
  have "exp_ok (fst (snd (MaxOf_When default_limiters x now (cn_limiter c))))"
    using default.when_ok [OF lim, of x now] by (simp add: case_prod_beta)
  then show "books_ok (AddRateLimited api x c)"
    unfolding eq using AddAfter_scheduled(1) [of ?c api x d] assms
    by (simp add: books_ok_def frame_simps)
  show "scheduled y c \<Longrightarrow> scheduled y (AddRateLimited api x c)"
    unfolding eq by (rule AddAfter_scheduled(2)) (simp add: scheduled_def)
  show "\<not> ShuttingDown (cn_queue c) \<Longrightarrow> scheduled x (AddRateLimited api x c)"
    unfolding eq by (rule AddAfter_scheduled(3)) simp
  show "requeues y (AddRateLimited api x c) = requeues y c + (if y = x then 1 else 0)"
    unfolding eq using default.when_counts [OF lim, of y x now] by (simp add: requeues_def frame_simps)
qed

lemma Forget_books:
  assumes "books_ok c"
  shows "books_ok (Forget x c)" and "requeues y (Forget x c) = (if y = x then 0 else requeues y c)"
    and "scheduled y (Forget x c) = scheduled y c" and "cn_queue (Forget x c) = cn_queue c"
proof -
  note lim = books_ok_limiter [OF assms]
  show "books_ok (Forget x c)"
    using default.forget_ok [OF lim, of x] assms by (simp add: books_ok_def Forget_def case_prod_beta)
  show "requeues y (Forget x c) = (if y = x then 0 else requeues y c)"
    using default.forget_clears [OF lim, of y x] by (simp add: requeues_def Forget_def)
qed (simp_all add: scheduled_def Forget_def)

section \<open>Lemmas: synchronising\<close>

text \<open>A synchronisation writes to the object it was given and to the world, and to nothing else.\<close>

definition same_books :: "'w controller \<Rightarrow> 'w controller \<Rightarrow> bool" where
  "same_books c c' \<longleftrightarrow> cn_queue c' = cn_queue c \<and> cn_waiting c' = cn_waiting c \<and>
     cn_limiter c' = cn_limiter c \<and> cn_jobs c' = cn_jobs c \<and> cn_pods c' = cn_pods c"

lemma reconcileCaffe2Jobs_frame:
  "reconcileCaffe2Jobs api p c = (r, c') \<Longrightarrow> same_books c c' \<and> (\<forall>q. q \<noteq> p \<longrightarrow> cn_heap c' q = cn_heap c q)"
  by (auto simp: reconcileCaffe2Jobs_def same_books_def
      split: prod.splits option.splits outcome.splits)

lemma syncCaffe2Job_frame:
  assumes "syncCaffe2Job api key c = (r, c')"
  shows "same_books c c'"
proof -
  have "c' = c \<or> (\<exists>p r'. reconcileCaffe2Jobs api p c = (r', c'))"
    using assms by (auto simp: syncCaffe2Job_def split: sum.splits prod.splits if_splits option.splits outcome.splits)
  then show ?thesis using reconcileCaffe2Jobs_frame [of api _ c _ c'] by (auto simp: same_books_def)
qed

lemma finish_books:
  assumes "books_ok c" and "key \<in> wq_processing (cn_queue c)"
  shows "books_ok (finish key c)" and "scheduled y (finish key c) = scheduled y c"
    and "requeues y (finish key c) = requeues y c"
    and "wq_processing (cn_queue (finish key c)) = wq_processing (cn_queue c) - {key}"
  using wq.give_back_ok [of "cn_queue c" key] assms
  by (simp_all add: books_ok_def finish_def scheduled_def requeues_def)

text \<open>What a round of a worker amounts to, once \<open>Get\<close> has handed out a key.\<close>

lemma round_books:
  assumes "books_ok c" and "Get (cn_queue c) = Some (Some key, q)"
    and "syncCaffe2Job api key (c\<lparr>cn_queue := q\<rparr>) = (r, c1)"
  shows "books_ok c1" and "key \<in> wq_processing (cn_queue c1)"
    and "requeues y c1 = requeues y c" and "ShuttingDown (cn_queue c1) = ShuttingDown (cn_queue c)"
proof -
  have inv: "queue_inv (cn_queue c)" using assms(1) by (simp add: books_ok_def)
  note item = wq.get_item [OF inv assms(2)]
  note same = syncCaffe2Job_frame [OF assms(3), unfolded same_books_def, simplified]
  show "books_ok c1" using same item assms(1) by (simp add: books_ok_def)
  show "key \<in> wq_processing (cn_queue c1)" using same item by simp
  show "requeues y c1 = requeues y c" using same by (simp add: requeues_def)
  show "ShuttingDown (cn_queue c1) = ShuttingDown (cn_queue c)"
    using same assms(2) by (auto simp: Get_Some_item ShuttingDown_def)
qed

lemma found_job:
  assumes "CHR ''/'' \<notin> set (om_Namespace m)" and "CHR ''/'' \<notin> set (om_Name m)"
    and "om_Namespace m \<noteq> []" and "om_Name m \<noteq> []" and "cn_jobs c (MetaNamespaceKey m) = Some p"
  shows "syncCaffe2Job api (MetaNamespaceKey m) c =
    (if om_DeletionTimestamp (job_Meta (cn_heap c p)) = None then
       (case reconcileCaffe2Jobs api p c of
          (Panic e, c1) \<Rightarrow> (Panic e, c1)
        | (Ret (Some err), c1) \<Rightarrow> (Ret (False, Some err), c1)
        | (Ret None, c1) \<Rightarrow> (Ret (True, None), c1))
     else (Ret (True, None), c))"
  using assms Split_MetaNamespaceKey [OF assms(1,2)]
  by (simp add: syncCaffe2Job_def Lister_Get_def MetaNamespaceKey_def)

text \<open>A complete job is synchronised without a panic, and its metadata, spec and conditions stay.\<close>

lemma reconcileCaffe2Jobs_ready:
  assumes "ready_job (cn_heap c p) spec n"
  obtains err c' where "reconcileCaffe2Jobs api p c = (Ret err, c')"
    "job_Meta (cn_heap c' p) = job_Meta (cn_heap c p)" "job_Spec (cn_heap c' p) = job_Spec (cn_heap c p)"
    "dom (shown (job_Status (cn_heap c p))) \<subseteq> dom (shown (job_Status (cn_heap c' p)))"
proof -
  let ?job = "cn_heap c p"
  obtain pods gerr w where get: "getPodsForCaffe2Job api (cn_pods c) ?job (cn_world c) = ((pods, gerr), w)"
    by (metis prod.exhaust)
  have spec: "js_ReplicaSpecs (job_Spec ?job) = Some spec" using assms by (simp add: ready_job_def)
  show thesis
  proof (cases gerr)
    case (Some e)
    with get have "reconcileCaffe2Jobs api p c = (Ret (Some e), c\<lparr>cn_world := w\<rparr>)"
      by (simp add: reconcileCaffe2Jobs_def)
    then show thesis by (rule that) simp_all
  next
    case None
    obtain job err w1 where rec: "reconcilePods api ?job pods (Some spec) w = (Ret (job, err), w1)"
      and job: "job_Meta job = job_Meta ?job" "job_Spec job = job_Spec ?job"
      and cond: "if err = None then
        (\<forall>t. shown (job_Status job) t =
          (if t = Caffe2JobRunning \<and> (\<exists>s \<in> set (worker_slots pods n). slot_active s)
             then Some (ConditionTrue, caffe2JobRunningReason)
           else if t = Caffe2JobSucceeded \<and> (\<forall>s \<in> set (worker_slots pods n). slot_in_phase PodSucceeded s)
             then Some (ConditionTrue, caffe2JobSucceededReason)
           else if t = Caffe2JobFailed \<and> (\<exists>s \<in> set (worker_slots pods n). slot_in_phase PodFailed s)
             then Some (ConditionTrue, caffe2JobFailedReason)
           else shown (job_Status ?job) t))
       else ss_Conditions (job_Status job) = ss_Conditions (job_Status ?job) \<and>
         ss_StartTime (job_Status job) = ss_StartTime (job_Status ?job) \<and>
         ss_CompletionTime (job_Status job) = ss_CompletionTime (job_Status ?job)"
      using reconcilePods_shown [OF assms, of api pods w] by (elim exE conjE) (rule that; assumption)
    have dom: "dom (shown (job_Status ?job)) \<subseteq> dom (shown (job_Status job))"
    proof (cases err)
      case None
      with cond show ?thesis by (auto simp: dom_def)
    next
      case (Some e)
      with cond have "shown (job_Status job) = shown (job_Status ?job)"
        by (simp add: shown_def getCondition_def fun_eq_iff)
      then show ?thesis by simp
    qed
    obtain r c' where eq: "reconcileCaffe2Jobs api p c = (Ret r, c')" and "cn_heap c' p = job"
      using get None spec rec
      by (cases err; cases "updateCaffe2JobStatus api job w1") (auto simp: reconcileCaffe2Jobs_def)
    with job dom show thesis by (intro that [OF eq]) simp_all
  qed
qed

text \<open>A controller whose cache holds one job, and whose queue holds a malformed key.\<close>

definition sample_controller :: "Caffe2Job \<Rightarrow> Pod list controller" where
  "sample_controller job = \<lparr>cn_heap = (\<lambda>_. job), cn_jobs = [''ns/job'' \<mapsto> 0], cn_pods = (\<lambda>_. Inr []),
     cn_queue = Add ''a/b/c'' NewQueue, cn_waiting = [],
     cn_limiter = (NewItemExponentialFailureRateLimiter 5000000 1000000000000, sample_bucket),
     cn_world = []\<rparr>"

lemma sample_books: "books_ok (sample_controller job)"
  by (simp add: books_ok_def sample_controller_def queue_inv_Add queue_inv_New
      NewItemExponentialFailureRateLimiter_def exp_ok_def failures_of_def)

lemma sample_key: "keyFunc (sample_controller sample_job) (JobPtr 0) = ''ns/job''"
  by (simp add: keyFunc_def sample_controller_def MetaNamespaceKey_def sample_job_defs)

section \<open>Properties\<close>




text \<open>
  The key a job was queued under leads \<open>syncCaffe2Job\<close> back to that job: with a namespace, the
  object it reconciles is the cached one, unless it is being deleted, which needs nothing. Without
  a namespace every synchronisation fails.
\<close>

theorem syncCaffe2Job_of_keyFunc:
  assumes "CHR ''/'' \<notin> set (job_Namespace (cn_heap c p))" and "CHR ''/'' \<notin> set (job_Name (cn_heap c p))"
    and "job_Name (cn_heap c p) \<noteq> []" and "cn_jobs c (keyFunc c (JobPtr p)) = Some p"
  shows "syncCaffe2Job api (keyFunc c (JobPtr p)) c =
    (if job_Namespace (cn_heap c p) = [] then
       (Ret (False, Some (Errorf ''invalid job key %q: either namespace or name is missing''
          [keyFunc c (JobPtr p)] [])), c)
     else if om_DeletionTimestamp (job_Meta (cn_heap c p)) \<noteq> None then (Ret (True, None), c)
     else (case reconcileCaffe2Jobs api p c of
             (Panic e, c1) \<Rightarrow> (Panic e, c1)
           | (Ret (Some err), c1) \<Rightarrow> (Ret (False, Some err), c1)
           | (Ret None, c1) \<Rightarrow> (Ret (True, None), c1)))"
proof (cases "job_Namespace (cn_heap c p) = []")
  case True
  with Split_MetaNamespaceKey [OF assms(1,2)] show ?thesis
    by (simp add: syncCaffe2Job_def keyFunc_def)
next
  case False
  with found_job [OF assms(1,2) False assms(3), of c p api] assms(4) show ?thesis
    by (simp add: keyFunc_def)
qed

theorem syncCaffe2Job_of_keyFunc_witness:
  "let job = sample_job\<lparr>job_Meta := (job_Meta sample_job)\<lparr>om_DeletionTimestamp := Some 5\<rparr>\<rparr>;
       c = sample_controller job
   in syncCaffe2Job store_api (keyFunc c (JobPtr 0)) c = (Ret (True, None), c)"
proof -
  let ?job = "sample_job\<lparr>job_Meta := (job_Meta sample_job)\<lparr>om_DeletionTimestamp := Some 5\<rparr>\<rparr>"
  have "CHR ''/'' \<notin> set (job_Namespace (cn_heap (sample_controller ?job) 0))"
    "CHR ''/'' \<notin> set (job_Name (cn_heap (sample_controller ?job) 0))"
    "job_Name (cn_heap (sample_controller ?job) 0) \<noteq> []"
    "cn_jobs (sample_controller ?job) (keyFunc (sample_controller ?job) (JobPtr 0)) = Some 0"
    by (simp_all add: sample_controller_def keyFunc_def MetaNamespaceKey_def sample_job_defs)
  from syncCaffe2Job_of_keyFunc [OF this, of store_api] show ?thesis
    by (simp add: Let_def sample_controller_def sample_job_defs)
qed


text \<open>
  C20. A cached, complete job is synchronised without a panic. Its metadata and spec are left alone,
  and no condition it ever had is taken away: once Running, Succeeded or Failed was recorded, it
  stays.
\<close>

theorem syncCaffe2Job_complete:
  assumes "ready_job (cn_heap c p) spec n"
    and "CHR ''/'' \<notin> set (job_Namespace (cn_heap c p))" and "CHR ''/'' \<notin> set (job_Name (cn_heap c p))"
    and "job_Namespace (cn_heap c p) \<noteq> []" and "cn_jobs c (keyFunc c (JobPtr p)) = Some p"
  shows "\<exists>r c'. syncCaffe2Job api (keyFunc c (JobPtr p)) c = (Ret r, c') \<and>
    job_Meta (cn_heap c' p) = job_Meta (cn_heap c p) \<and> job_Spec (cn_heap c' p) = job_Spec (cn_heap c p) \<and>
    dom (shown (job_Status (cn_heap c p))) \<subseteq> dom (shown (job_Status (cn_heap c' p)))"
proof -
  have name: "job_Name (cn_heap c p) \<noteq> []" using assms(1) by (simp add: ready_job_def)
  note found = found_job [OF assms(2,3,4) name, of c p api]
  obtain err c' where "reconcileCaffe2Jobs api p c = (Ret err, c')"
    "job_Meta (cn_heap c' p) = job_Meta (cn_heap c p)" "job_Spec (cn_heap c' p) = job_Spec (cn_heap c p)"
    "dom (shown (job_Status (cn_heap c p))) \<subseteq> dom (shown (job_Status (cn_heap c' p)))"
    by (rule reconcileCaffe2Jobs_ready [OF assms(1)])
  with found assms(5) show ?thesis
    by (cases err; cases "om_DeletionTimestamp (job_Meta (cn_heap c p))") (auto simp: keyFunc_def)
qed

theorem syncCaffe2Job_complete_witness:
  "\<exists>r c'. syncCaffe2Job store_api ''ns/job'' (sample_controller sample_job) = (Ret r, c') \<and>
    job_Spec (cn_heap c' 0) = job_Spec sample_job"
proof -
  let ?c = "sample_controller sample_job"
  have heap: "cn_heap ?c 0 = sample_job" by (simp add: sample_controller_def)
  have "ready_job (cn_heap ?c 0) sample_spec 2" unfolding heap by (rule sample_ready)
  moreover have "CHR ''/'' \<notin> set (job_Namespace (cn_heap ?c 0))" "CHR ''/'' \<notin> set (job_Name (cn_heap ?c 0))"
    "job_Namespace (cn_heap ?c 0) \<noteq> []" "cn_jobs ?c (keyFunc ?c (JobPtr 0)) = Some 0"
    unfolding heap sample_key by (simp_all add: sample_job_defs sample_controller_def)
  ultimately show ?thesis
    using syncCaffe2Job_complete [of ?c 0 sample_spec 2 store_api] unfolding sample_key heap by blast
qed


text \<open>
  C21. A new job, as the informer reports it: if it names its replicas, the cached object is completed
  with the defaults, gets the Created condition, and its key is scheduled; with a template, a name
  and a count that is not negative it is then a complete job. If it does not, the handler panics.
\<close>

theorem addCaffe2Job_prepares:
  assumes "books_ok c"
  shows "case js_ReplicaSpecs (job_Spec (cn_heap c p)) of
      None \<Rightarrow> fst (OnAdd (job_handler api) (JobPtr p) c) = Panic NilDeref
    | Some r \<Rightarrow> \<exists>c'. OnAdd (job_handler api) (JobPtr p) c = (Ret (), c') \<and>
        defaulted (job_Spec (cn_heap c' p)) \<and>
        shown (job_Status (cn_heap c' p)) Caffe2JobCreated = Some (ConditionTrue, caffe2JobCreatedReason) \<and>
        books_ok c' \<and> (\<not> ShuttingDown (cn_queue c) \<longrightarrow> scheduled (keyFunc c (JobPtr p)) c') \<and>
        (\<forall>template. rs_Template r = Some template \<and> wf_map (map_entries (om_Labels (pt_Meta template))) \<and>
           job_Name (cn_heap c p) \<noteq> [] \<and> (\<forall>n. rs_Replicas r = Some n \<longrightarrow> 0 \<le> sint n) \<longrightarrow>
           (\<exists>spec n. ready_job (cn_heap c' p) spec n))"
proof (cases "js_ReplicaSpecs (job_Spec (cn_heap c p))")
  case None
  then show ?thesis
    by (simp add: OnAdd_def job_handler_def job_filter_def addCaffe2Job_def SetObjectDefaults_Caffe2Job_def
        SetDefaults_cases)
next
  case (Some r)
  obtain job w where d: "SetDefaults_Caffe2Job (api_now api) (cn_heap c p) (cn_world c) = (Ret job, w)"
    using Some by (auto simp: SetDefaults_cases Let_def)
  obtain job1 err w1 where u: "updateCaffe2JobConditions (api_now api) job Caffe2JobCreated
      caffe2JobCreatedReason (''Caffe2Job '' @ job_Name (cn_heap c p) @ '' is created.'') w = (job1, err, w1)"
    by (metis prod_cases3)
  note f = updateConditions_facts [OF u]
  from d obtain meta: "job_Meta job = job_Meta (cn_heap c p)" and
    specs: "js_ReplicaSpecs (job_Spec job) = Some (default_Replicas (default_RestartPolicy r))" and
    backend: "js_Backend (job_Spec job) \<noteq> None"
    by (rule SetDefaults_Ret) (use Some in auto)
  let ?c = "c\<lparr>cn_heap := (cn_heap c)(p := job1), cn_world := w1\<rparr>"
  have key: "keyFunc ?c (JobPtr p) = keyFunc c (JobPtr p)" by (simp add: keyFunc_def f(2) meta)
  have c': "OnAdd (job_handler api) (JobPtr p) c = (Ret (), enqueueController api (JobPtr p) ?c)"
    using d u f(1)
    by (simp add: OnAdd_def job_handler_def job_filter_def addCaffe2Job_def SetObjectDefaults_Caffe2Job_def Let_def)
  have books: "books_ok ?c" using assms by (simp add: books_ok_def)
  note a = AddRateLimited_schedules [OF books, where x = "keyFunc c (JobPtr p)" and api = api]
  have heap: "cn_heap (enqueueController api (JobPtr p) ?c) p = job1"
    by (simp add: enqueueController_def frame_simps)
  have "defaulted (job_Spec job1)" using SetDefaults_defaulted [OF d] f(3) by simp
  moreover have "\<exists>spec n. ready_job job1 spec n"
    if "rs_Template r = Some t" "wf_map (map_entries (om_Labels (pt_Meta t)))" "job_Name (cn_heap c p) \<noteq> []"
      "\<forall>n. rs_Replicas r = Some n \<longrightarrow> 0 \<le> sint n" for t
    using that specs backend
    by (intro exI [of _ "default_Replicas (default_RestartPolicy r)"])
      (auto simp: ready_job_def f(2,3) meta default_RestartPolicy_def split: option.splits)
  moreover have "shown (job_Status job1) Caffe2JobCreated = Some (ConditionTrue, caffe2JobCreatedReason)"
    by (simp add: f(4))
  ultimately show ?thesis
    using Some c' heap a(1,3) key by (auto simp: enqueueController_def)
qed

theorem addCaffe2Job_prepares_witness:
  "\<exists>c'. OnAdd (job_handler store_api) (JobPtr 0) (sample_controller bare_job) = (Ret (), c') \<and>
    defaulted (job_Spec (cn_heap c' 0)) \<and> (\<exists>spec n. ready_job (cn_heap c' 0) spec n)"
proof -
  let ?c = "sample_controller bare_job"
  have bare: "js_ReplicaSpecs (job_Spec (cn_heap ?c 0)) = Some sample_spec" "rs_Template sample_spec = Some sample_template"
    "wf_map (map_entries (om_Labels (pt_Meta sample_template)))" "job_Name (cn_heap ?c 0) \<noteq> []"
    "\<forall>n. rs_Replicas sample_spec = Some n \<longrightarrow> 0 \<le> sint n"
    by (simp_all add: sample_controller_def sample_job_defs)
  obtain c' where "OnAdd (job_handler store_api) (JobPtr 0) ?c = (Ret (), c')" "defaulted (job_Spec (cn_heap c' 0))"
    "\<forall>template. rs_Template sample_spec = Some template \<and> wf_map (map_entries (om_Labels (pt_Meta template))) \<and>
       job_Name (cn_heap ?c 0) \<noteq> [] \<and> (\<forall>n. rs_Replicas sample_spec = Some n \<longrightarrow> 0 \<le> sint n) \<longrightarrow>
       (\<exists>spec n. ready_job (cn_heap c' 0) spec n)"
    using addCaffe2Job_prepares [OF sample_books [of bare_job], where p = 0 and api = store_api] unfolding bare(1) option.case by blast
  then show ?thesis using bare(2-5) by blast
qed


text \<open>
  Pods and the queue: a pod's update reaches the queue only when the pod starts passing the
  filter (it left Pending) and a cached job of the right kind, name and UID controls it. A pod that
  was running already and now succeeds or fails, and any deletion of a pod, changes nothing.
\<close>

theorem pod_events:
  "snd (OnDelete (pod_handler api) obj c) = c \<and>
   (if pod_filter (PodPtr old) then OnUpdate (pod_handler api) (PodPtr old) (PodPtr cur) c = (Ret (), c)
    else OnUpdate (pod_handler api) (PodPtr old) (PodPtr cur) c =
      (Ret (),
       case GetControllerOf (pod_Meta cur) of
         Some r \<Rightarrow>
           (case cn_jobs c (om_Namespace (pod_Meta cur) @ ''/'' @ or_Name r) of
              Some p \<Rightarrow>
                if pod_filter (PodPtr cur) \<and> om_DeletionTimestamp (pod_Meta cur) = None \<and>
                   or_Kind r = ''Caffe2Job'' \<and> job_UID (cn_heap c p) = or_UID r \<and>
                   map_of (pod_labels cur) caffe2ReplicaTypeLabel \<noteq> None
                then enqueueController api (JobPtr p) c else c
            | None \<Rightarrow> c)
       | None \<Rightarrow> c))"
  by (auto simp: OnDelete_def OnUpdate_def pod_handler_def updatePod_def deletePod_def addPod_def Let_def
      resolveControllerRef_def Lister_Get_def controllerKind_def split: option.splits)

end
