(* ===== verification/ControllerRun.thy ===== *)
theory ControllerRun
  imports Controller
begin

text \<open>
  \<open>Run\<close> of pkg/controller/controller.go with the goroutines it starts: the two informers, and the
  workers, each of which is \<open>wait.Until(c.runWorker, time.Second, stopCh)\<close> of apimachinery's util/wait.
  The goroutines and the environment take turns, one step each (a round of a worker is one step); the
  scheduler is free, so the steps are a relation. A panic ends the process, since \<open>HandleCrash\<close>
  raises it again.
\<close>

section \<open>State\<close>

text \<open>Where \<open>Run\<close> is, and where a worker is inside \<open>wait.Until\<close>.\<close>

datatype run_pc = AtStart | WaitJobs | WaitPods | Spawning nat | AwaitStop | Returned "go_error option"

datatype worker_pc = AtLoop | InRunWorker | AwaitTimer | WorkerGone

record 'w run_state =
  rn_pc :: run_pc
  rn_controller :: "'w controller"
  rn_caffe2JobSynced :: bool
  rn_podListerSynced :: bool
  rn_stopped :: bool
  rn_workers :: "worker_pc list"
  rn_crashed :: "panic option"

text \<open>What \<open>New\<close> makes, of the parts that change later: empty caches, an empty queue, the default limiter.\<close>

definition New :: "(job_ptr \<Rightarrow> Caffe2Job) \<Rightarrow> 'w \<Rightarrow> string default_state \<Rightarrow> 'w controller" where
  "New heap w limiter =
     \<lparr>cn_heap = heap, cn_jobs = Map.empty, cn_pods = (\<lambda>_. Inr []), cn_queue = NewQueue, cn_waiting = [],
      cn_limiter = limiter, cn_world = w\<rparr>"

definition run_init :: "'w controller \<Rightarrow> 'w run_state" where
  "run_init c =
     \<lparr>rn_pc = AtStart, rn_controller = c, rn_caffe2JobSynced = False, rn_podListerSynced = False,
      rn_stopped = False, rn_workers = [], rn_crashed = None\<rparr>"

section \<open>Steps\<close>

text \<open>
  \<open>Run\<close> itself. \<open>WaitForCacheSync\<close> polls once more when the stop channel closes, so it fails only on a
  cache that is not synced then. Returning runs the deferred \<open>workQueue.ShutDown\<close>.
\<close>

definition return_with :: "go_error option \<Rightarrow> 'w run_state \<Rightarrow> 'w run_state" where
  "return_with err s =
     s\<lparr>rn_pc := Returned err, rn_controller := (rn_controller s)\<lparr>cn_queue := ShutDown (cn_queue (rn_controller s))\<rparr>\<rparr>"

inductive control_step :: "nat \<Rightarrow> 'w run_state \<Rightarrow> 'w run_state \<Rightarrow> bool" for threadiness where
  start_informers: "rn_crashed s = None \<Longrightarrow> rn_pc s = AtStart \<Longrightarrow> control_step threadiness s (s\<lparr>rn_pc := WaitJobs\<rparr>)"
| jobs_synced: "rn_crashed s = None \<Longrightarrow> rn_pc s = WaitJobs \<Longrightarrow> rn_caffe2JobSynced s \<Longrightarrow>
    control_step threadiness s (s\<lparr>rn_pc := WaitPods\<rparr>)"
| jobs_failed: "rn_crashed s = None \<Longrightarrow> rn_pc s = WaitJobs \<Longrightarrow> rn_stopped s \<Longrightarrow> \<not> rn_caffe2JobSynced s \<Longrightarrow>
    control_step threadiness s (return_with (Some (Errorf ''failed to wait for caches to sync'' [] [])) s)"
| pods_synced: "rn_crashed s = None \<Longrightarrow> rn_pc s = WaitPods \<Longrightarrow> rn_podListerSynced s \<Longrightarrow>
    control_step threadiness s (s\<lparr>rn_pc := Spawning 0\<rparr>)"
| pods_failed: "rn_crashed s = None \<Longrightarrow> rn_pc s = WaitPods \<Longrightarrow> rn_stopped s \<Longrightarrow> \<not> rn_podListerSynced s \<Longrightarrow>
    control_step threadiness s (return_with (Some (Errorf ''failed to wait for pod caches to sync'' [] [])) s)"
| spawn: "rn_crashed s = None \<Longrightarrow> rn_pc s = Spawning i \<Longrightarrow> i < threadiness \<Longrightarrow>
    control_step threadiness s (s\<lparr>rn_pc := Spawning (Suc i), rn_workers := rn_workers s @ [AtLoop]\<rparr>)"
| spawned: "rn_crashed s = None \<Longrightarrow> rn_pc s = Spawning i \<Longrightarrow> threadiness \<le> i \<Longrightarrow>
    control_step threadiness s (s\<lparr>rn_pc := AwaitStop\<rparr>)"
| stop_seen: "rn_crashed s = None \<Longrightarrow> rn_pc s = AwaitStop \<Longrightarrow> rn_stopped s \<Longrightarrow>
    control_step threadiness s (return_with None s)"

text \<open>A worker: the loop of \<open>wait.Until\<close> around \<open>for c.processNextWorkItem() {}\<close>.\<close>

definition at_worker :: "nat \<Rightarrow> worker_pc \<Rightarrow> 'w run_state \<Rightarrow> bool" where
  "at_worker i pc s \<longleftrightarrow> rn_crashed s = None \<and> i < length (rn_workers s) \<and> rn_workers s ! i = pc"

definition move_worker :: "nat \<Rightarrow> worker_pc \<Rightarrow> 'w run_state \<Rightarrow> 'w run_state" where
  "move_worker i pc s = s\<lparr>rn_workers := (rn_workers s)[i := pc]\<rparr>"

inductive worker_step :: "'w api \<Rightarrow> 'w run_state \<Rightarrow> 'w run_state \<Rightarrow> bool" for api where
  loop_stop: "at_worker i AtLoop s \<Longrightarrow> rn_stopped s \<Longrightarrow> worker_step api s (move_worker i WorkerGone s)"
| loop_go: "at_worker i AtLoop s \<Longrightarrow> \<not> rn_stopped s \<Longrightarrow> worker_step api s (move_worker i InRunWorker s)"
| round: "at_worker i InRunWorker s \<Longrightarrow> processNextWorkItem api (rn_controller s) = Some (Ret True, c) \<Longrightarrow>
    worker_step api s (s\<lparr>rn_controller := c\<rparr>)"
| leave: "at_worker i InRunWorker s \<Longrightarrow> processNextWorkItem api (rn_controller s) = Some (Ret False, c) \<Longrightarrow>
    worker_step api s (move_worker i AwaitTimer (s\<lparr>rn_controller := c\<rparr>))"
| crash: "at_worker i InRunWorker s \<Longrightarrow> processNextWorkItem api (rn_controller s) = Some (Panic p, c) \<Longrightarrow>
    worker_step api s (s\<lparr>rn_controller := c, rn_crashed := Some p\<rparr>)"
| timer: "at_worker i AwaitTimer s \<Longrightarrow> worker_step api s (move_worker i AtLoop s)"
| timer_stop: "at_worker i AwaitTimer s \<Longrightarrow> rn_stopped s \<Longrightarrow> worker_step api s (move_worker i WorkerGone s)"

text \<open>
  The environment: the leader election closes the stop channel; an informer, once started, updates its
  cache, reports that it is synced, or notifies its handlers; the loop of the delaying queue adds an
  item that has waited.
\<close>

datatype notification = NotifyAdd notified | NotifyUpdate notified notified | NotifyDelete notified

fun notify :: "'w handler \<Rightarrow> notification \<Rightarrow> 'w controller \<Rightarrow> unit outcome \<times> 'w controller" where
  "notify h (NotifyAdd obj) c = OnAdd h obj c"
| "notify h (NotifyUpdate old new) c = OnUpdate h old new c"
| "notify h (NotifyDelete obj) c = OnDelete h obj c"

inductive env_step :: "'w api \<Rightarrow> 'w run_state \<Rightarrow> 'w run_state \<Rightarrow> bool" for api where
  stop: "env_step api s (s\<lparr>rn_stopped := True\<rparr>)"
| jobs_listed: "rn_pc s \<noteq> AtStart \<Longrightarrow> env_step api s (s\<lparr>rn_caffe2JobSynced := True\<rparr>)"
| pods_listed: "rn_pc s \<noteq> AtStart \<Longrightarrow> env_step api s (s\<lparr>rn_podListerSynced := True\<rparr>)"
| job_cached: "rn_pc s \<noteq> AtStart \<Longrightarrow>
    env_step api s (s\<lparr>rn_controller := (rn_controller s)\<lparr>cn_heap := heap, cn_jobs := jobs\<rparr>\<rparr>)"
| pods_cached: "rn_pc s \<noteq> AtStart \<Longrightarrow> env_step api s (s\<lparr>rn_controller := (rn_controller s)\<lparr>cn_pods := pods\<rparr>\<rparr>)"
| notified: "rn_crashed s = None \<Longrightarrow> rn_pc s \<noteq> AtStart \<Longrightarrow> h \<in> {job_handler api, pod_handler api} \<Longrightarrow>
    notify h e (rn_controller s) = (Ret u, c) \<Longrightarrow> env_step api s (s\<lparr>rn_controller := c\<rparr>)"
| notify_crash: "rn_crashed s = None \<Longrightarrow> rn_pc s \<noteq> AtStart \<Longrightarrow> h \<in> {job_handler api, pod_handler api} \<Longrightarrow>
    notify h e (rn_controller s) = (Panic p, c) \<Longrightarrow> env_step api s (s\<lparr>rn_controller := c, rn_crashed := Some p\<rparr>)"
| delay_over: "cn_waiting (rn_controller s) = before @ (item, due) # after \<Longrightarrow>
    env_step api s (s\<lparr>rn_controller := (rn_controller s)\<lparr>cn_waiting := before @ after,
      cn_queue := Add item (cn_queue (rn_controller s))\<rparr>\<rparr>)"
| world_moves: "env_step api s (s\<lparr>rn_controller := (rn_controller s)\<lparr>cn_world := w\<rparr>\<rparr>)"

inductive run_reachable :: "'w api \<Rightarrow> nat \<Rightarrow> 'w controller \<Rightarrow> 'w run_state \<Rightarrow> bool" for api threadiness c0 where
  init: "run_reachable api threadiness c0 (run_init c0)"
| control: "run_reachable api threadiness c0 s \<Longrightarrow> control_step threadiness s s' \<Longrightarrow> run_reachable api threadiness c0 s'"
| worker: "run_reachable api threadiness c0 s \<Longrightarrow> worker_step api s s' \<Longrightarrow> run_reachable api threadiness c0 s'"
| env: "run_reachable api threadiness c0 s \<Longrightarrow> env_step api s s' \<Longrightarrow> run_reachable api threadiness c0 s'"

section \<open>Lemmas\<close>

lemma return_with_sel [simp]:
  "rn_pc (return_with err s) = Returned err" "rn_workers (return_with err s) = rn_workers s"
  "rn_stopped (return_with err s) = rn_stopped s" "rn_crashed (return_with err s) = rn_crashed s"
  "rn_caffe2JobSynced (return_with err s) = rn_caffe2JobSynced s"
  "rn_podListerSynced (return_with err s) = rn_podListerSynced s"
  "rn_controller (return_with err s) = (rn_controller s)\<lparr>cn_queue := ShutDown (cn_queue (rn_controller s))\<rparr>"
  by (simp_all add: return_with_def)

lemma move_worker_sel [simp]:
  "rn_pc (move_worker i pc s) = rn_pc s" "length (rn_workers (move_worker i pc s)) = length (rn_workers s)"
  "rn_stopped (move_worker i pc s) = rn_stopped s" "rn_crashed (move_worker i pc s) = rn_crashed s"
  "rn_caffe2JobSynced (move_worker i pc s) = rn_caffe2JobSynced s"
  "rn_podListerSynced (move_worker i pc s) = rn_podListerSynced s"
  "rn_controller (move_worker i pc s) = rn_controller s"
  by (simp_all add: move_worker_def)

lemma at_worker_nonempty: "at_worker i pc s \<Longrightarrow> rn_workers s \<noteq> []"
  by (auto simp: at_worker_def)

text \<open>What a round and a notification do to the queue's shutdown flag, and to a queue that is shut down.\<close>

lemma shutting_AddRateLimited:
  "ShuttingDown (cn_queue c) \<Longrightarrow> cn_queue (AddRateLimited api key c) = cn_queue c"
  by (simp add: AddRateLimited_def AddAfter_def case_prod_beta)

lemma round_shutdown:
  "processNextWorkItem api c = Some (r, c') \<Longrightarrow> ShuttingDown (cn_queue c') = ShuttingDown (cn_queue c)"
proof -
  have finish: "ShuttingDown (cn_queue (finish key c)) = ShuttingDown (cn_queue c)" for key and c :: "'a controller"
    by (simp add: finish_def Done_def ShuttingDown_def Let_def)
  have get: "Get q = Some (x, q') \<Longrightarrow> ShuttingDown q' = ShuttingDown q" for x and q q' :: "string work_queue"
    by (auto simp: Get_def ShuttingDown_def split: list.splits if_splits)
  have sync: "syncCaffe2Job api key c = (x, c') \<Longrightarrow> ShuttingDown (cn_queue c') = ShuttingDown (cn_queue c)" for key x c c'
    using syncCaffe2Job_frame [of api key c x c'] by (simp add: same_books_def)
  show "processNextWorkItem api c = Some (r, c') \<Longrightarrow> ShuttingDown (cn_queue c') = ShuttingDown (cn_queue c)"
    by (auto simp: processNextWorkItem_def finish frame_simps Forget_def dest!: get sync
        split: option.splits prod.splits outcome.splits if_splits)
qed

lemma round_drains:
  assumes "ShuttingDown (cn_queue c)" and "processNextWorkItem api c = Some (r, c')"
  shows "if r = Ret False then wq_queue (cn_queue c) = []
    else length (wq_queue (cn_queue c)) = Suc (length (wq_queue (cn_queue c')))"
proof (cases "wq_queue (cn_queue c)")
  case Nil
  then show ?thesis using assms by (simp add: processNextWorkItem_def Get_def ShuttingDown_def)
next
  case (Cons key rest)
  let ?q = "(cn_queue c)\<lparr>wq_queue := rest, wq_processing := insert key (wq_processing (cn_queue c)),
    wq_dirty := wq_dirty (cn_queue c) - {key}\<rparr>"
  have get: "Get (cn_queue c) = Some (Some key, ?q)" using Cons by (simp add: Get_def)
  obtain x c1 where sync: "syncCaffe2Job api key (c\<lparr>cn_queue := ?q\<rparr>) = (x, c1)" by (metis surj_pair)
  have q: "cn_queue c1 = ?q" using syncCaffe2Job_frame [OF sync] by (simp add: same_books_def)
  moreover have "wq_queue (cn_queue (finish key c2)) = rest" if "cn_queue c2 = ?q" for c2 :: "'a controller"
    using that by (simp add: finish_def Done_def Let_def)
  moreover have "cn_queue (AddRateLimited api key c1) = cn_queue c1"
    using q assms(1) by (intro shutting_AddRateLimited) (simp add: ShuttingDown_def)
  ultimately show ?thesis using assms(2) get sync Cons
    by (auto simp: processNextWorkItem_def Forget_def split: outcome.splits prod.splits option.splits)
qed

lemma round_enabled: "ShuttingDown (cn_queue c) \<Longrightarrow> \<exists>r c'. processNextWorkItem api c = Some (r, c')"
  by (cases "wq_queue (cn_queue c)")
    (auto simp: processNextWorkItem_def Get_def ShuttingDown_def split: outcome.splits prod.splits option.splits)

lemma notify_shutdown:
  assumes "notify h e c = (r, c')" and "h \<in> {job_handler api, pod_handler api}"
  shows "ShuttingDown (cn_queue c') = ShuttingDown (cn_queue c)"
proof -
  have add: "addCaffe2Job api obj c = (r, c') \<Longrightarrow> ShuttingDown (cn_queue c') = ShuttingDown (cn_queue c)" for obj r c c'
    by (auto simp: addCaffe2Job_def enqueueController_def frame_simps Let_def
        split: notified.splits prod.splits outcome.splits option.splits)
  have pod: "addPod api obj c = (r, c') \<Longrightarrow> ShuttingDown (cn_queue c') = ShuttingDown (cn_queue c)" for obj r c c'
    by (auto simp: addPod_def enqueueController_def frame_simps split: notified.splits option.splits if_splits)
  show ?thesis using assms
    by (cases e) (auto simp: job_handler_def pod_handler_def OnAdd_def OnUpdate_def OnDelete_def Let_def
        updateCaffe2Job_def updatePod_def deletePod_def enqueueController_def frame_simps
        dest!: add pod split: if_splits notified.splits)
qed

text \<open>The invariant of \<open>Run\<close>.\<close>

definition run_ok :: "nat \<Rightarrow> 'w run_state \<Rightarrow> bool" where
  "run_ok threadiness s \<longleftrightarrow>
     (case rn_pc s of
        AtStart \<Rightarrow> rn_workers s = [] \<and> \<not> ShuttingDown (cn_queue (rn_controller s))
      | WaitJobs \<Rightarrow> rn_workers s = [] \<and> \<not> ShuttingDown (cn_queue (rn_controller s))
      | WaitPods \<Rightarrow> rn_workers s = [] \<and> rn_caffe2JobSynced s \<and> \<not> ShuttingDown (cn_queue (rn_controller s))
      | Spawning i \<Rightarrow> length (rn_workers s) = i \<and> i \<le> threadiness \<and> rn_caffe2JobSynced s \<and> rn_podListerSynced s \<and>
          \<not> ShuttingDown (cn_queue (rn_controller s))
      | AwaitStop \<Rightarrow> length (rn_workers s) = threadiness \<and> rn_caffe2JobSynced s \<and> rn_podListerSynced s \<and>
          \<not> ShuttingDown (cn_queue (rn_controller s))
      | Returned err \<Rightarrow> rn_stopped s \<and> ShuttingDown (cn_queue (rn_controller s)) \<and>
          (case err of None \<Rightarrow> length (rn_workers s) = threadiness \<and> rn_caffe2JobSynced s \<and> rn_podListerSynced s
           | Some e \<Rightarrow> rn_workers s = []))"

lemma run_ok_init: "\<not> ShuttingDown (cn_queue c0) \<Longrightarrow> run_ok threadiness (run_init c0)"
  by (simp add: run_ok_def run_init_def)

lemma run_ok_control: "control_step threadiness s s' \<Longrightarrow> run_ok threadiness s \<Longrightarrow> run_ok threadiness s'"
  by (induction rule: control_step.induct) (auto simp: run_ok_def ShuttingDown_def ShutDown_def)

lemma run_ok_same:
  assumes "run_ok threadiness s" and "rn_pc s' = rn_pc s" and "length (rn_workers s') = length (rn_workers s)"
    and "rn_stopped s \<longrightarrow> rn_stopped s'" and "rn_caffe2JobSynced s \<longrightarrow> rn_caffe2JobSynced s'"
    and "rn_podListerSynced s \<longrightarrow> rn_podListerSynced s'"
    and "ShuttingDown (cn_queue (rn_controller s')) = ShuttingDown (cn_queue (rn_controller s))"
  shows "run_ok threadiness s'"
proof -
  have "rn_workers s' = [] \<longleftrightarrow> rn_workers s = []" using assms(3) by (metis length_0_conv)
  with assms show ?thesis by (auto simp: run_ok_def split: run_pc.splits option.splits)
qed

lemma run_ok_worker: "worker_step api s s' \<Longrightarrow> run_ok threadiness s \<Longrightarrow> run_ok threadiness s'"
  by (induction rule: worker_step.induct) (erule run_ok_same; simp add: round_shutdown)+

lemma run_ok_env: "env_step api s s' \<Longrightarrow> run_ok threadiness s \<Longrightarrow> run_ok threadiness s'"
  by (induction rule: env_step.induct)
    (erule run_ok_same; simp add: notify_shutdown; simp add: Add_def ShuttingDown_def Let_def)+

lemma reachable_ok:
  assumes "run_reachable api threadiness c0 s" and "\<not> ShuttingDown (cn_queue c0)"
  shows "run_ok threadiness s"
  using assms by (induction rule: run_reachable.induct)
    (blast intro: run_ok_init run_ok_control run_ok_worker run_ok_env)+

text \<open>How far \<open>Run\<close> is from returning, and the workers from being gone.\<close>

definition control_left :: "nat \<Rightarrow> 'w run_state \<Rightarrow> nat" where
  "control_left threadiness s =
     (case rn_pc s of AtStart \<Rightarrow> threadiness + 5 | WaitJobs \<Rightarrow> threadiness + 4 | WaitPods \<Rightarrow> threadiness + 3
      | Spawning i \<Rightarrow> threadiness - i + 2 | AwaitStop \<Rightarrow> 1 | Returned err \<Rightarrow> 0)"

fun worker_left :: "worker_pc \<Rightarrow> nat" where
  "worker_left AtLoop = 1" | "worker_left InRunWorker = 3" | "worker_left AwaitTimer = 2" | "worker_left WorkerGone = 0"

definition drain_left :: "'w run_state \<Rightarrow> nat" where
  "drain_left s = (if rn_crashed s \<noteq> None then 0
     else Suc (sum_list (map worker_left (rn_workers s)) + length (wq_queue (cn_queue (rn_controller s)))))"

lemma control_step_left: "control_step threadiness s s' \<Longrightarrow> control_left threadiness s' < control_left threadiness s"
  by (induction rule: control_step.induct) (auto simp: control_left_def)

lemma control_step_enabled:
  assumes "rn_stopped s" and "rn_crashed s = None" and "\<And>err. rn_pc s \<noteq> Returned err"
  shows "\<exists>s'. control_step threadiness s s'"
proof (cases "rn_pc s")
  case (Spawning i)
  then show ?thesis using assms(2) by (cases "i < threadiness") (auto simp: not_less intro: control_step.intros)
next
  case WaitJobs
  then show ?thesis using assms by (cases "rn_caffe2JobSynced s") (auto intro: control_step.intros)
next
  case WaitPods
  then show ?thesis using assms by (cases "rn_podListerSynced s") (auto intro: control_step.intros)
qed (use assms in \<open>auto intro: control_step.intros\<close>)

lemma control_keeps: "control_step threadiness s s' \<Longrightarrow> rn_stopped s' = rn_stopped s \<and> rn_crashed s' = rn_crashed s"
  by (induction rule: control_step.induct) auto

lemma sum_list_update_less:
  "i < length xs \<Longrightarrow> f y < f (xs ! i) \<Longrightarrow> sum_list (map f (xs[i := y])) < (sum_list (map f xs) :: nat)"
  by (induction xs arbitrary: i) (auto split: nat.splits)

lemma worker_move_left:
  "at_worker i pc s \<Longrightarrow> worker_left pc' < worker_left pc \<Longrightarrow> drain_left (move_worker i pc' s) < drain_left s"
  using sum_list_update_less [of i "rn_workers s" worker_left pc']
  by (auto simp: drain_left_def at_worker_def move_worker_def)

lemma worker_step_left:
  assumes "worker_step api s s'" and "rn_stopped s" and "ShuttingDown (cn_queue (rn_controller s))"
  shows "drain_left s' < drain_left s \<and> rn_stopped s' \<and> ShuttingDown (cn_queue (rn_controller s'))"
  using assms
proof (induction rule: worker_step.induct)
  case (round i s c)
  from round_drains [OF round(4,2)] round_shutdown [OF round(2)] round(1,3,4) show ?case
    by (simp add: drain_left_def at_worker_def)
next
  case (leave i s c)
  have c: "wq_queue (cn_queue (rn_controller s)) = []" "ShuttingDown (cn_queue c)"
    using round_drains [OF leave(4,2)] round_shutdown [OF leave(2)] leave(4) by simp_all
  have "wq_queue (cn_queue c) = []"
    using leave(2) c(1) leave(4) by (auto simp: processNextWorkItem_def Get_def ShuttingDown_def)
  with c(1) have "drain_left (s\<lparr>rn_controller := c\<rparr>) = drain_left s" by (simp add: drain_left_def)
  moreover have "at_worker i InRunWorker (s\<lparr>rn_controller := c\<rparr>)" using leave(1) by (simp add: at_worker_def)
  ultimately show ?case using worker_move_left [of i InRunWorker "s\<lparr>rn_controller := c\<rparr>" AwaitTimer] leave(3) c(2) by simp
next
  case (crash i s p c)
  then show ?case using round_shutdown [OF crash(2)] by (auto simp: drain_left_def at_worker_def)
qed (auto simp: worker_move_left)

lemma worker_step_enabled:
  assumes "rn_stopped s" and "ShuttingDown (cn_queue (rn_controller s))" and "rn_crashed s = None"
    and "pc \<in> set (rn_workers s)" and "pc \<noteq> WorkerGone"
  shows "\<exists>s'. worker_step api s s'"
proof -
  obtain i where i: "at_worker i pc s" using assms(3,4) by (auto simp: at_worker_def in_set_conv_nth)
  show ?thesis
  proof (cases pc)
    case InRunWorker
    obtain r c where step: "processNextWorkItem api (rn_controller s) = Some (r, c)"
      using round_enabled [OF assms(2)] by blast
    show ?thesis
    proof (cases r)
      case (Ret b)
      then show ?thesis using i InRunWorker step by (cases b) (auto intro: worker_step.intros)
    qed (use i InRunWorker step in \<open>auto intro: worker_step.intros\<close>)
  qed (use i assms in \<open>auto intro: worker_step.intros\<close>)
qed

text \<open>A run up to the first worker.\<close>

lemma first_worker:
  "run_reachable api 1 c0 ((run_init c0)\<lparr>rn_pc := Spawning 1, rn_caffe2JobSynced := True,
     rn_podListerSynced := True, rn_workers := [AtLoop]\<rparr>)"
proof -
  let ?r = "run_reachable api 1 c0"
  let ?a = "(run_init c0)\<lparr>rn_pc := WaitJobs, rn_caffe2JobSynced := True, rn_podListerSynced := True\<rparr>"
  have "?r ((run_init c0)\<lparr>rn_pc := WaitJobs\<rparr>)"
    by (rule run_reachable.control [OF run_reachable.init]) (rule control_step.start_informers; simp add: run_init_def)
  from run_reachable.env [OF this env_step.jobs_listed]
  have "?r ((run_init c0)\<lparr>rn_pc := WaitJobs, rn_caffe2JobSynced := True\<rparr>)" by simp
  from run_reachable.env [OF this env_step.pods_listed] have "?r ?a" by simp
  from run_reachable.control [OF this control_step.jobs_synced] have "?r (?a\<lparr>rn_pc := WaitPods\<rparr>)"
    by (simp add: run_init_def)
  from run_reachable.control [OF this control_step.pods_synced] have "?r (?a\<lparr>rn_pc := Spawning 0\<rparr>)"
    by (simp add: run_init_def)
  from run_reachable.control [OF this control_step.spawn [of _ 0]]
  show ?thesis by (simp add: run_init_def)
qed

section \<open>Properties\<close>

text \<open>
  C8. Nothing is synchronised before both caches are: in every reachable state of \<open>Run\<close>, whatever the
  informers, the workers and the delaying queue have done, there are at most as many workers as asked
  for and none unless the caches of jobs and pods have been filled; and \<open>Run\<close> returns, with the work queue
  shut down, only after a stop, with an error only if it started no worker.
\<close>

theorem Run_waits_for_caches:
  assumes "run_reachable api threadiness c0 s" and "\<not> ShuttingDown (cn_queue c0)"
  shows "length (rn_workers s) \<le> threadiness \<and>
    (rn_workers s \<noteq> [] \<longrightarrow> rn_caffe2JobSynced s \<and> rn_podListerSynced s) \<and>
    (ShuttingDown (cn_queue (rn_controller s)) \<longleftrightarrow> (\<exists>err. rn_pc s = Returned err)) \<and>
    (\<forall>err. rn_pc s = Returned err \<longrightarrow> rn_stopped s \<and> (if err = None then length (rn_workers s) = threadiness
       else rn_workers s = []))"
  using reachable_ok [OF assms]
  by (auto simp: run_ok_def split: run_pc.splits option.splits)

theorem Run_waits_for_caches_witness:
  "\<exists>s. run_reachable store_api 1 (sample_controller sample_job) s \<and> rn_workers s = [AtLoop] \<and>
     rn_caffe2JobSynced s \<and> rn_podListerSynced s \<and> rn_pc s = Spawning 1"
proof -
  let ?c = "sample_controller sample_job"
  have "\<not> ShuttingDown (cn_queue ?c)" by (simp add: sample_controller_def queue_defs Let_def)
  from Run_waits_for_caches [OF first_worker [of store_api] this] first_worker [of store_api ?c]
  show ?thesis by (intro exI) auto
qed

text \<open>
  C9. A stop ends everything. From any state with the stop channel closed, \<open>Run\<close> takes at most
  \<open>threadiness + 5\<close> more steps of its own and is never stuck before it has returned (or the process has
  crashed); and once it has returned, the workers take a bounded number of steps and are never stuck
  before all of them are gone: they empty the queue, and none sleeps or waits for ever.
\<close>

theorem stop_ends_Run:
  assumes "rn_stopped s"
  shows "((control_step threadiness ^^ n) s s' \<longrightarrow> n \<le> threadiness + 5 \<and>
      (rn_crashed s' = None \<and> (\<forall>err. rn_pc s' \<noteq> Returned err) \<longrightarrow> (\<exists>s''. control_step threadiness s' s''))) \<and>
    (ShuttingDown (cn_queue (rn_controller s)) \<and> (worker_step api ^^ n) s s' \<longrightarrow>
      n \<le> Suc (3 * length (rn_workers s) + length (wq_queue (cn_queue (rn_controller s)))) \<and>
      (rn_crashed s' = None \<and> \<not> set (rn_workers s') \<subseteq> {WorkerGone} \<longrightarrow> (\<exists>s''. worker_step api s' s'')))"
proof (intro conjI impI)
  have keeps: "(control_step threadiness ^^ n) s s' \<Longrightarrow>
      control_left threadiness s' + n \<le> control_left threadiness s \<and> rn_stopped s'" for s' n
  proof (induction n arbitrary: s')
    case 0
    then show ?case using assms by simp
  next
    case (Suc n)
    then obtain t where "(control_step threadiness ^^ n) s t" "control_step threadiness t s'" by auto
    with Suc.IH [of t] control_step_left [of threadiness t s'] control_keeps [of threadiness t s'] show ?case by auto
  qed
  assume steps: "(control_step threadiness ^^ n) s s'"
  have "control_left threadiness s \<le> threadiness + 5" by (auto simp: control_left_def split: run_pc.split)
  with keeps [OF steps] show "n \<le> threadiness + 5" by simp
  assume "rn_crashed s' = None \<and> (\<forall>err. rn_pc s' \<noteq> Returned err)"
  with keeps [OF steps] show "\<exists>s''. control_step threadiness s' s''" by (intro control_step_enabled) auto
next
  have drains: "ShuttingDown (cn_queue (rn_controller s)) \<Longrightarrow> (worker_step api ^^ n) s s' \<Longrightarrow>
      drain_left s' + n \<le> drain_left s \<and> rn_stopped s' \<and> ShuttingDown (cn_queue (rn_controller s'))" for s' n
  proof (induction n arbitrary: s')
    case 0
    then show ?case using assms by simp
  next
    case (Suc n)
    then obtain t where "(worker_step api ^^ n) s t" "worker_step api t s'" by auto
    with Suc.IH [of t] Suc.prems(1) worker_step_left [of api t s'] show ?case by auto
  qed
  assume steps: "ShuttingDown (cn_queue (rn_controller s)) \<and> (worker_step api ^^ n) s s'"
  have "sum_list (map worker_left ws) \<le> 3 * length ws" for ws
  proof (induction ws)
    case (Cons w ws)
    then show ?case by (cases w) auto
  qed simp
  then have "drain_left s \<le> Suc (3 * length (rn_workers s) + length (wq_queue (cn_queue (rn_controller s))))"
    by (simp add: drain_left_def)
  with drains steps show "n \<le> Suc (3 * length (rn_workers s) + length (wq_queue (cn_queue (rn_controller s))))"
    by fastforce
  assume "rn_crashed s' = None \<and> \<not> set (rn_workers s') \<subseteq> {WorkerGone}"
  then obtain pc where "rn_crashed s' = None" "pc \<in> set (rn_workers s')" "pc \<noteq> WorkerGone" by auto
  with drains steps show "\<exists>s''. worker_step api s' s''" by (blast intro: worker_step_enabled)
qed

theorem stop_ends_Run_witness:
  "\<exists>(s :: Pod list run_state) s'. rn_stopped s \<and> rn_pc s = WaitJobs \<and> control_step 1 s s'"
proof -
  let ?s = "(run_init (sample_controller sample_job))\<lparr>rn_pc := WaitJobs, rn_stopped := True\<rparr>"
  have stopped: "rn_stopped ?s" by simp
  have "(control_step 1 ^^ 0) ?s ?s" by simp
  with stop_ends_Run [OF stopped, where threadiness = 1 and n = 0 and s' = ?s] have "\<exists>s'. control_step 1 ?s s'" by (simp add: run_init_def)
  moreover have "rn_pc ?s = WaitJobs" by simp
  ultimately show ?thesis using stopped by blast
qed

text \<open>
  \<open>Run\<close> does not wait for its workers: with an item in the queue there is a run in which it has
  returned without an error, after a stop, while its worker is about to take that item, and takes it.
\<close>

theorem Run_leaves_workers:
  assumes "wq_queue (cn_queue c0) = key # keys"
  shows "\<exists>s s'. run_reachable api 1 c0 s \<and> rn_pc s = Returned None \<and> rn_workers s = [InRunWorker] \<and>
    worker_step api s s' \<and> length (wq_queue (cn_queue (rn_controller s'))) = length keys"
proof -
  let ?r = "run_reachable api 1 c0"
  let ?a = "(run_init c0)\<lparr>rn_pc := WaitJobs, rn_caffe2JobSynced := True, rn_podListerSynced := True\<rparr>"
  let ?b = "?a\<lparr>rn_pc := AwaitStop, rn_workers := [InRunWorker]\<rparr>"
  let ?s = "return_with None (?b\<lparr>rn_stopped := True\<rparr>)"
  from run_reachable.control [OF first_worker control_step.spawned [of _ 1]]
  have "?r (?a\<lparr>rn_pc := AwaitStop, rn_workers := [AtLoop]\<rparr>)" by (simp add: run_init_def)
  from run_reachable.worker [OF this worker_step.loop_go [of 0]]
  have "?r ?b" by (simp add: run_init_def at_worker_def move_worker_def)
  from run_reachable.env [OF this env_step.stop] have "?r (?b\<lparr>rn_stopped := True\<rparr>)" .
  from run_reachable.control [OF this control_step.stop_seen] have r: "?r ?s" by (simp add: run_init_def)
  have shut: "ShuttingDown (cn_queue (rn_controller ?s))" "wq_queue (cn_queue (rn_controller ?s)) = key # keys"
    using assms by (simp_all add: run_init_def ShuttingDown_def ShutDown_def)
  then obtain x c where go: "processNextWorkItem api (rn_controller ?s) = Some (x, c)" using round_enabled by blast
  have w: "at_worker 0 InRunWorker ?s" by (simp add: at_worker_def run_init_def)
  have x: "x \<noteq> Ret False" "length (wq_queue (cn_queue c)) = length keys"
    using round_drains [OF shut(1) go] shut(2) by (auto split: if_splits)
  obtain s' where "worker_step api ?s s'" "rn_controller s' = c"
  proof (cases x)
    case (Ret b)
    then show ?thesis using that x(1) go worker_step.round [OF w, of api c] by (cases b) auto
  next
    case (Panic p)
    then show ?thesis using that go worker_step.crash [OF w, of api p c] by auto
  qed
  with r x(2) show ?thesis by (intro exI [of _ ?s] exI [of _ s']) simp
qed

theorem Run_leaves_workers_witness:
  "\<exists>s s'. run_reachable store_api 1 ((sample_controller sample_job)\<lparr>cn_queue := NewQueue\<lparr>wq_queue := [''ns/job'']\<rparr>\<rparr>) s \<and>
     rn_pc s = Returned None \<and> worker_step store_api s s' \<and> wq_queue (cn_queue (rn_controller s')) = []"
  using Run_leaves_workers [of "(sample_controller sample_job)\<lparr>cn_queue := NewQueue\<lparr>wq_queue := [''ns/job'']\<rparr>\<rparr>"
      "''ns/job''" "[]" store_api] by auto

end
