(* ===== verification/DelayingQueue.thy ===== *)
theory DelayingQueue
  imports WorkQueue ApiTypes "HOL-Library.Multiset"
begin

text \<open>
  The delaying queue of k8s.io/client-go/util/workqueue/delaying_queue.go, through which a failed job
  comes back to the work queue: \<open>AddAfter\<close>, the goroutine \<open>waitingLoop\<close> and its priority queue, with
  the operations of Go's container/heap on it. The entries are shared between the heap, which is a slice of
  pointers, and the map \<open>waitingEntryByData\<close>, and carry their own index in the heap; so they live in a
  list of cells, and a pointer is a position in it.
\<close>

section \<open>The priority queue\<close>

record 'a waitFor =
  wf_data :: 'a
  wf_readyAt :: time
  wf_index :: int

record 'a pqueue =
  pq_cells :: "'a waitFor list"
  pq_heap :: "nat list"

definition entry :: "'a pqueue \<Rightarrow> nat \<Rightarrow> 'a waitFor" where
  "entry pq i = pq_cells pq ! (pq_heap pq ! i)"

definition pq_Less :: "nat \<Rightarrow> nat \<Rightarrow> 'a pqueue \<Rightarrow> bool" where
  "pq_Less i j pq \<longleftrightarrow> wf_readyAt (entry pq i) < wf_readyAt (entry pq j)"

definition set_index :: "nat \<Rightarrow> int \<Rightarrow> 'a waitFor list \<Rightarrow> 'a waitFor list" where
  "set_index p v cells = cells[p := (cells ! p)\<lparr>wf_index := v\<rparr>]"

definition pq_Swap :: "nat \<Rightarrow> nat \<Rightarrow> 'a pqueue \<Rightarrow> 'a pqueue" where
  "pq_Swap i j pq =
     (let h = (pq_heap pq)[i := pq_heap pq ! j, j := pq_heap pq ! i] in
      pq\<lparr>pq_heap := h, pq_cells := set_index (h ! j) (int j) (set_index (h ! i) (int i) (pq_cells pq))\<rparr>)"

definition pq_Push :: "nat \<Rightarrow> 'a pqueue \<Rightarrow> 'a pqueue" where
  "pq_Push p pq =
     pq\<lparr>pq_heap := pq_heap pq @ [p], pq_cells := set_index p (int (length (pq_heap pq))) (pq_cells pq)\<rparr>"

definition pq_Pop :: "'a pqueue \<Rightarrow> nat \<times> 'a pqueue" where
  "pq_Pop pq =
     (let p = last (pq_heap pq) in
      (p, pq\<lparr>pq_heap := butlast (pq_heap pq), pq_cells := set_index p (- 1) (pq_cells pq)\<rparr>))"

definition pq_Peek :: "'a pqueue \<Rightarrow> nat" where
  "pq_Peek pq = pq_heap pq ! 0"

section \<open>container/heap\<close>

definition parent :: "nat \<Rightarrow> nat" where
  "parent j = (j - 1) div 2"

function heap_up :: "nat \<Rightarrow> 'a pqueue \<Rightarrow> 'a pqueue" where
  "heap_up j pq =
     (let i = parent j in
      if i = j \<or> \<not> pq_Less j i pq then pq else heap_up i (pq_Swap i j pq))"
  by auto
termination
  by (relation "measure fst") (auto simp: parent_def)

declare heap_up.simps [simp del]

text \<open>\<open>down\<close> also gives the position it ends at; the code compares it with the one it began at.\<close>

definition smaller_child :: "nat \<Rightarrow> nat \<Rightarrow> 'a pqueue \<Rightarrow> nat" where
  "smaller_child i n pq =
     (let j1 = 2 * i + 1; j2 = j1 + 1 in if j2 < n \<and> pq_Less j2 j1 pq then j2 else j1)"

function heap_down :: "nat \<Rightarrow> nat \<Rightarrow> 'a pqueue \<Rightarrow> 'a pqueue \<times> nat" where
  "heap_down i n pq =
     (if n \<le> 2 * i + 1 then (pq, i)
      else let j = smaller_child i n pq in
        if \<not> pq_Less j i pq then (pq, i) else heap_down j n (pq_Swap i j pq))"
  by auto
termination
  by (relation "measure (\<lambda>(i, n, pq). n - i)") (auto simp: smaller_child_def Let_def split: if_splits)

declare heap_down.simps [simp del]

definition heap_Push :: "nat \<Rightarrow> 'a pqueue \<Rightarrow> 'a pqueue" where
  "heap_Push p pq = (let pq1 = pq_Push p pq in heap_up (length (pq_heap pq1) - 1) pq1)"

definition heap_Pop :: "'a pqueue \<Rightarrow> nat \<times> 'a pqueue" where
  "heap_Pop pq = (let n = length (pq_heap pq) - 1 in pq_Pop (fst (heap_down 0 n (pq_Swap 0 n pq))))"

definition heap_Fix :: "nat \<Rightarrow> 'a pqueue \<Rightarrow> 'a pqueue" where
  "heap_Fix i pq =
     (case heap_down i (length (pq_heap pq)) pq of (pq1, j) \<Rightarrow> if i < j then pq1 else heap_up i pq1)"

section \<open>The loop\<close>

record 'a delaying =
  dq_queue :: "'a work_queue"
  dq_waiting :: "'a pqueue"
  dq_known :: "'a \<rightharpoonup> nat"

definition wf_at :: "'a delaying \<Rightarrow> nat \<Rightarrow> 'a waitFor" where
  "wf_at d p = pq_cells (dq_waiting d) ! p"

definition set_readyAt :: "nat \<Rightarrow> time \<Rightarrow> 'a pqueue \<Rightarrow> 'a pqueue" where
  "set_readyAt p r pq = pq\<lparr>pq_cells := (pq_cells pq)[p := (pq_cells pq ! p)\<lparr>wf_readyAt := r\<rparr>]\<rparr>"

definition dq_insert :: "nat \<Rightarrow> 'a delaying \<Rightarrow> 'a delaying" where
  "dq_insert p d =
     (case dq_known d (wf_data (wf_at d p)) of
        Some existing \<Rightarrow>
          if wf_readyAt (wf_at d p) < wf_readyAt (wf_at d existing)
          then d\<lparr>dq_waiting := heap_Fix (nat (wf_index (wf_at d existing)))
                   (set_readyAt existing (wf_readyAt (wf_at d p)) (dq_waiting d))\<rparr>
          else d
      | None \<Rightarrow>
          d\<lparr>dq_waiting := heap_Push p (dq_waiting d), dq_known := (dq_known d)(wf_data (wf_at d p) \<mapsto> p)\<rparr>)"

text \<open>The first inner loop: what is due goes into the work queue.\<close>

definition add_first :: "'a delaying \<Rightarrow> 'a delaying" where
  "add_first d =
     (case heap_Pop (dq_waiting d) of (p, pq) \<Rightarrow>
        let x = wf_data (pq_cells pq ! p) in
        d\<lparr>dq_waiting := pq, dq_queue := Add x (dq_queue d), dq_known := (dq_known d)(x := None)\<rparr>)"

lemma length_pq_Swap [simp]: "length (pq_heap (pq_Swap i j pq)) = length (pq_heap pq)"
  "length (pq_cells (pq_Swap i j pq)) = length (pq_cells pq)"
  by (simp_all add: pq_Swap_def Let_def set_index_def)

lemma length_heap_down [simp]: "length (pq_heap (fst (heap_down i n pq))) = length (pq_heap pq)"
  by (induction i n pq rule: heap_down.induct) (subst heap_down.simps, simp add: Let_def)

lemma length_heap_Pop [simp]: "length (pq_heap (snd (heap_Pop pq))) = length (pq_heap pq) - 1"
  by (simp add: heap_Pop_def pq_Pop_def Let_def)

section \<open>Callers, workers and the goroutine\<close>

text \<open>
  The goroutine is at the head of its outer loop, in the first inner loop with the time it read, in the
  \<open>select\<close> with the time its timer fires (if it has one), in the second inner loop, or has returned.
\<close>

datatype dq_pc = Top | Adding time | Selecting "time option" | Draining | Exited

text \<open>
  \<open>ds_blocked\<close> are the entries whose senders wait in the \<open>select\<close> of \<open>AddAfter\<close>, \<open>ds_chan\<close> those in the
  buffered channel, \<open>ds_stopped\<close> tells that \<open>stopCh\<close> is closed.
\<close>

record 'a dq_state =
  ds_loop :: "'a delaying"
  ds_pc :: dq_pc
  ds_blocked :: "nat list"
  ds_chan :: "nat list"
  ds_stopped :: bool
  ds_time :: time

text \<open>What a step does that matters: a caller asks for an item at a time, the goroutine adds an item.\<close>

datatype 'a dq_event = Asks 'a time | Adds 'a time | Quiet

definition channel_size :: nat where "channel_size = 1000"

definition closing :: "'a dq_state \<Rightarrow> bool" where
  "closing s = ShuttingDown (dq_queue (ds_loop s))"

definition on_queue :: "('a work_queue \<Rightarrow> 'a work_queue) \<Rightarrow> 'a dq_state \<Rightarrow> 'a dq_state" where
  "on_queue f s = s\<lparr>ds_loop := (ds_loop s)\<lparr>dq_queue := f (dq_queue (ds_loop s))\<rparr>\<rparr>"

text \<open>\<open>AddAfter\<close> up to its last \<open>select\<close>; the duration is positive.\<close>

definition send :: "'a \<Rightarrow> time \<Rightarrow> 'a dq_state \<Rightarrow> 'a dq_state" where
  "send item duration s =
     (let d = ds_loop s; pq = dq_waiting d; w = \<lparr>wf_data = item, wf_readyAt = ds_time s + duration, wf_index = 0\<rparr> in
      s\<lparr>ds_loop := d\<lparr>dq_waiting := pq\<lparr>pq_cells := pq_cells pq @ [w]\<rparr>\<rparr>,
        ds_blocked := ds_blocked s @ [length (pq_cells pq)]\<rparr>)"

definition delaying_AddAfter :: "'a \<Rightarrow> time \<Rightarrow> 'a dq_state \<Rightarrow> 'a dq_state" where
  "delaying_AddAfter item duration s =
     (if closing s then s else if duration \<le> 0 then on_queue (Add item) s else send item duration s)"

text \<open>An entry that comes out of the channel.\<close>

definition receive :: "nat \<Rightarrow> 'a dq_state \<Rightarrow> 'a dq_state" where
  "receive p s =
     (if ds_time s < wf_readyAt (wf_at (ds_loop s) p) then s\<lparr>ds_loop := dq_insert p (ds_loop s)\<rparr>
      else on_queue (Add (wf_data (wf_at (ds_loop s) p))) s)"

definition receive_event :: "nat \<Rightarrow> 'a dq_state \<Rightarrow> 'a dq_event" where
  "receive_event p s =
     (if ds_time s < wf_readyAt (wf_at (ds_loop s) p) then Quiet
      else Adds (wf_data (wf_at (ds_loop s) p)) (ds_time s))"

definition first_ready :: "'a delaying \<Rightarrow> time" where
  "first_ready d = wf_readyAt (wf_at d (pq_Peek (dq_waiting d)))"

definition first_data :: "'a delaying \<Rightarrow> 'a" where
  "first_data d = wf_data (wf_at d (pq_Peek (dq_waiting d)))"

definition nextReadyAt :: "time \<Rightarrow> 'a dq_state \<Rightarrow> time option" where
  "nextReadyAt now s =
     (if pq_heap (dq_waiting (ds_loop s)) = [] then None
      else Some (ds_time s + (first_ready (ds_loop s) - now)))"

text \<open>The steps of \<open>waitingLoop\<close>. The heartbeat may fire at any time.\<close>

inductive loop_step :: "'a dq_state \<Rightarrow> 'a dq_event \<Rightarrow> 'a dq_state \<Rightarrow> bool" where
  loop_quit: "ds_pc s = Top \<Longrightarrow> closing s \<Longrightarrow> loop_step s Quiet (s\<lparr>ds_pc := Exited\<rparr>)"
| loop_now: "ds_pc s = Top \<Longrightarrow> \<not> closing s \<Longrightarrow> loop_step s Quiet (s\<lparr>ds_pc := Adding (ds_time s)\<rparr>)"
| loop_add: "ds_pc s = Adding now \<Longrightarrow> pq_heap (dq_waiting (ds_loop s)) \<noteq> [] \<Longrightarrow> \<not> now < first_ready (ds_loop s) \<Longrightarrow>
    loop_step s (Adds (first_data (ds_loop s)) (ds_time s)) (s\<lparr>ds_loop := add_first (ds_loop s)\<rparr>)"
| loop_wait: "ds_pc s = Adding now \<Longrightarrow>
    pq_heap (dq_waiting (ds_loop s)) = [] \<or> now < first_ready (ds_loop s) \<Longrightarrow>
    loop_step s Quiet (s\<lparr>ds_pc := Selecting (nextReadyAt now s)\<rparr>)"
| loop_stop: "ds_pc s = Selecting timer \<Longrightarrow> ds_stopped s \<Longrightarrow> loop_step s Quiet (s\<lparr>ds_pc := Exited\<rparr>)"
| loop_heartbeat: "ds_pc s = Selecting timer \<Longrightarrow> loop_step s Quiet (s\<lparr>ds_pc := Top\<rparr>)"
| loop_timer: "ds_pc s = Selecting (Some t) \<Longrightarrow> t \<le> ds_time s \<Longrightarrow> loop_step s Quiet (s\<lparr>ds_pc := Top\<rparr>)"
| loop_receive: "ds_pc s = Selecting timer \<or> ds_pc s = Draining \<Longrightarrow> ds_chan s = p # ps \<Longrightarrow>
    loop_step s (receive_event p s) (receive p (s\<lparr>ds_pc := Draining, ds_chan := ps\<rparr>))"
| loop_drained: "ds_pc s = Draining \<Longrightarrow> ds_chan s = [] \<Longrightarrow> loop_step s Quiet (s\<lparr>ds_pc := Top\<rparr>)"

text \<open>
  The rest of the program: callers of \<open>AddAfter\<close>, other users of the queue, \<open>ShutDown\<close> with its two
  effects, and time.
\<close>

inductive dq_step :: "'a dq_state \<Rightarrow> 'a dq_event \<Rightarrow> 'a dq_state \<Rightarrow> bool" where
  loop: "loop_step s e s' \<Longrightarrow> dq_step s e s'"
| call: "dq_step s (if \<not> closing s \<and> 0 < duration then Asks item (ds_time s + duration) else Quiet)
    (delaying_AddAfter item duration s)"
| sent: "ds_blocked s = us @ p # vs \<Longrightarrow> length (ds_chan s) < channel_size \<Longrightarrow>
    dq_step s Quiet (s\<lparr>ds_blocked := us @ vs, ds_chan := ds_chan s @ [p]\<rparr>)"
| unblocked: "ds_blocked s = us @ p # vs \<Longrightarrow> ds_stopped s \<Longrightarrow> dq_step s Quiet (s\<lparr>ds_blocked := us @ vs\<rparr>)"
| added: "dq_step s Quiet (on_queue (Add item) s)"
| taken: "Get (dq_queue (ds_loop s)) = Some (r, q) \<Longrightarrow> dq_step s Quiet (on_queue (\<lambda>_. q) s)"
| done_with: "dq_step s Quiet (on_queue (Done item) s)"
| shut: "dq_step s Quiet (on_queue ShutDown s)"
| stopped: "closing s \<Longrightarrow> dq_step s Quiet (s\<lparr>ds_stopped := True\<rparr>)"
| passes: "ds_time s \<le> t \<Longrightarrow> dq_step s Quiet (s\<lparr>ds_time := t\<rparr>)"

definition newDelayingQueue :: "time \<Rightarrow> 'a dq_state" where
  "newDelayingQueue t =
     \<lparr>ds_loop = \<lparr>dq_queue = NewQueue, dq_waiting = \<lparr>pq_cells = [], pq_heap = []\<rparr>, dq_known = (\<lambda>_. None)\<rparr>,
      ds_pc = Top, ds_blocked = [], ds_chan = [], ds_stopped = False, ds_time = t\<rparr>"

text \<open>A run, with its events.\<close>

inductive run_of :: "('s \<Rightarrow> 'e \<Rightarrow> 's \<Rightarrow> bool) \<Rightarrow> 's \<Rightarrow> 'e list \<Rightarrow> 's \<Rightarrow> bool" for R where
  run_nil: "run_of R s [] s"
| run_snoc: "run_of R s es s' \<Longrightarrow> R s' e s'' \<Longrightarrow> run_of R s (es @ [e]) s''"

lemma run_one: "R s e s' \<Longrightarrow> run_of R s [e] s'"
  using run_snoc [OF run_nil, of R s e s'] by simp

lemma run_oneI: "R s e s' \<Longrightarrow> P s' \<Longrightarrow> \<exists>es s'. run_of R s es s' \<and> P s'"
  using run_one by metis

lemma run_append:
  assumes "run_of R s' fs s''" and "run_of R s es s'"
  shows "run_of R s (es @ fs) s''"
  using assms by (induction rule: run_of.induct) (auto simp flip: append_assoc intro: run_snoc)

lemma run_split:
  assumes "run_of R s gs s''" and "gs = es @ fs"
  shows "\<exists>s'. run_of R s es s' \<and> run_of R s' fs s''"
  using assms
proof (induction arbitrary: fs rule: run_of.induct)
  case (run_snoc s gs s' e s'')
  show ?case
  proof (cases fs rule: rev_exhaust)
    case Nil
    then show ?thesis using run_of.run_snoc [OF run_snoc(1,2)] run_snoc(4) by (auto intro: run_nil)
  next
    case (snoc gs' e')
    then show ?thesis using run_snoc(3) [of gs'] run_snoc(2,4) by (auto intro: run_of.run_snoc)
  qed
qed (auto intro: run_nil)

lemma run_split_at:
  assumes "run_of R s (us @ e # vs) s''"
  shows "\<exists>a b. run_of R s us a \<and> R a e b \<and> run_of R b vs s''"
proof -
  obtain a where a: "run_of R s us a" "run_of R a ([e] @ vs) s''" using run_split [OF assms, of us "e # vs"] by auto
  obtain b where b: "run_of R a [e] b" "run_of R b vs s''" using run_split [OF a(2) refl] by auto
  from b(1) have "R a e b" by cases (auto elim: run_of.cases)
  with a(1) b(2) show ?thesis by blast
qed

lemma run_keeps:
  assumes "run_of R s es s'" and "P s" and "\<And>a e b. P a \<Longrightarrow> R a e b \<Longrightarrow> P b"
  shows "P s'"
  using assms by (induction rule: run_of.induct) auto

inductive_cases loop_stepE: "loop_step s e s'"
inductive_cases dq_stepE: "dq_step s e s'"

section \<open>Lemmas: the heap\<close>

definition key :: "'a pqueue \<Rightarrow> nat \<Rightarrow> time" where
  "key pq i = wf_readyAt (entry pq i)"

text \<open>Pointers are valid and distinct, and every entry knows its position.\<close>

definition pq_ok :: "'a pqueue \<Rightarrow> bool" where
  "pq_ok pq \<longleftrightarrow> distinct (pq_heap pq) \<and> (\<forall>p\<in>set (pq_heap pq). p < length (pq_cells pq)) \<and>
     (\<forall>i<length (pq_heap pq). wf_index (entry pq i) = int i)"

definition heaped :: "nat \<Rightarrow> 'a pqueue \<Rightarrow> bool" where
  "heaped n pq \<longleftrightarrow> (\<forall>k<n. 0 < k \<longrightarrow> key pq (parent k) \<le> key pq k)"

text \<open>The same entries in another order.\<close>

definition shuffled :: "'a pqueue \<Rightarrow> 'a pqueue \<Rightarrow> bool" where
  "shuffled pq pq' \<longleftrightarrow> mset (pq_heap pq') = mset (pq_heap pq) \<and> pq_ok pq' \<and>
     map wf_data (pq_cells pq') = map wf_data (pq_cells pq) \<and>
     map wf_readyAt (pq_cells pq') = map wf_readyAt (pq_cells pq)"

lemma shuffled_refl: "pq_ok pq \<Longrightarrow> shuffled pq pq"
  by (simp add: shuffled_def)

lemma shuffled_trans: "shuffled a b \<Longrightarrow> shuffled b c \<Longrightarrow> shuffled a c"
  by (simp add: shuffled_def)

lemma map_update_same: "f y = f (xs ! p) \<Longrightarrow> map f (xs[p := y]) = map f xs"
  by (cases "p < length xs") (auto simp: map_update list_update_same_conv list_update_beyond)

lemma map_set_index [simp]:
  "map wf_data (set_index p v cells) = map wf_data cells" "map wf_readyAt (set_index p v cells) = map wf_readyAt cells"
  "length (set_index p v cells) = length cells"
  by (simp_all add: set_index_def map_update_same)

lemma set_index_nth: "q < length cells \<Longrightarrow> set_index p v cells ! q = (if p = q then (cells ! q)\<lparr>wf_index := v\<rparr> else cells ! q)"
  by (auto simp: set_index_def nth_list_update)

lemma Swap_shuffled:
  assumes "pq_ok pq" and "i < length (pq_heap pq)" and "j < length (pq_heap pq)" and "i \<noteq> j"
  shows "shuffled pq (pq_Swap i j pq)"
    and "k < length (pq_heap pq) \<Longrightarrow> key (pq_Swap i j pq) k = key pq (if k = i then j else if k = j then i else k)"
    and "k < length (pq_heap pq) \<Longrightarrow> k \<noteq> i \<Longrightarrow> k \<noteq> j \<Longrightarrow> pq_heap (pq_Swap i j pq) ! k = pq_heap pq ! k"
proof -
  let ?h = "(pq_heap pq)[i := pq_heap pq ! j, j := pq_heap pq ! i]"
  have ms: "mset ?h = mset (pq_heap pq)" by (rule mset_swap [OF assms(3,2)])
  have d: "distinct ?h" "set ?h = set (pq_heap pq)"
    using assms(1) mset_eq_imp_distinct_iff [OF ms] mset_eq_setD [OF ms] unfolding pq_ok_def by blast+
  have len: "length ?h = length (pq_heap pq)" by simp
  have heap: "pq_heap (pq_Swap i j pq) = ?h" by (simp add: pq_Swap_def Let_def)
  have cell: "p < length (pq_cells pq) \<Longrightarrow> pq_cells (pq_Swap i j pq) ! p =
      (if ?h ! j = p then (pq_cells pq ! p)\<lparr>wf_index := int j\<rparr>
       else if ?h ! i = p then (pq_cells pq ! p)\<lparr>wf_index := int i\<rparr> else pq_cells pq ! p)" for p
    by (simp add: pq_Swap_def Let_def set_index_nth)
  have valid: "k < length (pq_heap pq) \<Longrightarrow> ?h ! k < length (pq_cells pq)" for k
    using d(2) assms(1) len by (metis nth_mem pq_ok_def)
  have "wf_index (entry (pq_Swap i j pq) k) = int k" if k: "k < length (pq_heap pq)" for k
  proof (cases "k = i \<or> k = j")
    case True
    have "?h ! i \<noteq> ?h ! j" using d(1) assms(2-4) len by (metis nth_eq_iff_index_eq)
    then show ?thesis using True cell [OF valid [OF k]] by (auto simp: entry_def heap)
  next
    case False
    then have "?h ! k = pq_heap pq ! k" by simp
    moreover have "?h ! i \<noteq> ?h ! k" "?h ! j \<noteq> ?h ! k"
      using d(1) False assms(2,3) k len by (metis nth_eq_iff_index_eq)+
    ultimately show ?thesis using cell [OF valid [OF k]] assms(1) k by (simp add: entry_def heap pq_ok_def)
  qed
  then show "shuffled pq (pq_Swap i j pq)"
    using ms d assms(1) by (simp add: shuffled_def pq_ok_def heap) (simp add: pq_Swap_def Let_def)
  show "key (pq_Swap i j pq) k = key pq (if k = i then j else if k = j then i else k)" if "k < length (pq_heap pq)"
    using cell [OF valid [OF that]] that assms(2-4) by (auto simp: key_def entry_def heap nth_list_update)
  show "k < length (pq_heap pq) \<Longrightarrow> k \<noteq> i \<Longrightarrow> k \<noteq> j \<Longrightarrow> pq_heap (pq_Swap i j pq) ! k = pq_heap pq ! k"
    by (simp add: heap)
qed

lemma shuffled_length: "shuffled pq pq' \<Longrightarrow> length (pq_heap pq') = length (pq_heap pq)"
  by (metis shuffled_def size_mset)

lemma parent_less: "0 < k \<Longrightarrow> parent k < k"
  by (simp add: parent_def)

lemma parent_eq: "parent j = j \<longleftrightarrow> j = 0"
  by (auto simp: parent_def)

text \<open>
  \<open>up\<close> repairs a heap in which only the entry at \<open>j\<close> may be smaller than its parent; the second condition
  says that it may take its parent's place.
\<close>

lemma heap_up_heaped:
  assumes "pq_ok pq" and "j < length (pq_heap pq)"
    and "\<And>k. k < length (pq_heap pq) \<Longrightarrow> 0 < k \<Longrightarrow> k \<noteq> j \<Longrightarrow> key pq (parent k) \<le> key pq k"
    and "\<And>k. k < length (pq_heap pq) \<Longrightarrow> 0 < k \<Longrightarrow> 0 < j \<Longrightarrow> parent k = j \<Longrightarrow> key pq (parent j) \<le> key pq k"
  shows "shuffled pq (heap_up j pq) \<and> heaped (length (pq_heap pq)) (heap_up j pq)"
  using assms
proof (induction j pq rule: heap_up.induct)
  case (1 j pq)
  let ?i = "parent j" and ?n = "length (pq_heap pq)"
  show ?case
  proof (cases "?i = j \<or> \<not> pq_Less j ?i pq")
    case True
    then have "heap_up j pq = pq" by (subst heap_up.simps) (simp add: Let_def)
    moreover have "heaped ?n pq" unfolding heaped_def
    proof (intro allI impI)
      fix k assume k: "k < ?n" "0 < k"
      show "key pq (parent k) \<le> key pq k"
        using True k 1(4) [OF k] parent_eq [of j] by (cases "k = j") (auto simp: pq_Less_def key_def)
    qed
    ultimately show ?thesis using shuffled_refl [OF 1(2)] by simp
  next
    case False
    then have less: "key pq j < key pq ?i" and ij: "?i \<noteq> j" and j: "0 < j" by (auto simp: pq_Less_def key_def parent_eq)
    let ?s = "pq_Swap ?i j pq"
    have in_n: "?i < ?n" "?i < j" using 1(3) parent_less [OF j] by simp_all
    note sw = Swap_shuffled [OF 1(2) in_n(1) 1(3) ij]
    have par: "?i \<noteq> 0 \<Longrightarrow> key pq (parent ?i) \<le> key pq ?i"
      using 1(4) [OF in_n(1)] ij by auto
    have IH: "shuffled ?s (heap_up ?i ?s) \<and> heaped (length (pq_heap ?s)) (heap_up ?i ?s)"
    proof (rule 1(1))
      show "\<not> (?i = j \<or> \<not> pq_Less j ?i pq)" by (rule False)
      show "pq_ok ?s" using sw(1) by (simp add: shuffled_def)
      show "?i < length (pq_heap ?s)" using in_n by simp
    next
      fix k assume k: "k < length (pq_heap ?s)" "0 < k" "k \<noteq> ?i"
      show "key ?s (parent k) \<le> key ?s k"
      proof (cases "k = j")
        case True
        then show ?thesis using k less sw(2) [of k] sw(2) [of "parent k"] in_n ij by simp
      next
        case False
        have "key pq (parent k) \<le> key pq k" using 1(4) [of k] k False by simp
        moreover have "parent k < ?n" using k parent_less [of k] by simp
        ultimately show ?thesis
          using k False less par sw(2) [of k] sw(2) [of "parent k"] 1(5) [of k] j by auto
      qed
    next
      fix k assume k: "k < length (pq_heap ?s)" "0 < k" "0 < ?i" "parent k = ?i"
      have pp: "parent ?i < ?i" using parent_less k(3) by simp
      then have "key ?s (parent ?i) = key pq (parent ?i)" using sw(2) [of "parent ?i"] in_n by simp
      moreover have "key pq (parent ?i) \<le> key ?s k"
      proof (cases "k = j")
        case True
        then show ?thesis using sw(2) [of k] par k by simp
      next
        case False
        moreover have "key pq ?i \<le> key pq k" using 1(4) [of k] k False by simp
        moreover have "k \<noteq> ?i" using k parent_less [of k] by auto
        ultimately show ?thesis using sw(2) [of k] par k by simp
      qed
      ultimately show "key ?s (parent ?i) \<le> key ?s k" by simp
    qed simp
    have "heap_up j pq = heap_up ?i ?s" using False by (subst heap_up.simps) (simp add: Let_def)
    with IH shuffled_trans [OF sw(1)] show ?thesis by simp
  qed
qed

text \<open>The same for \<open>down\<close>, on the first \<open>n\<close> entries; the others stay where they are.\<close>

lemma parent_children: "0 < k \<Longrightarrow> parent k = i \<longleftrightarrow> k = 2 * i + 1 \<or> k = 2 * i + 2"
  by (auto simp: parent_def)

lemma smaller_child:
  assumes "2 * i + 1 < n"
  shows "smaller_child i n pq < n" and "parent (smaller_child i n pq) = i" and "0 < smaller_child i n pq"
    and "k < n \<Longrightarrow> 0 < k \<Longrightarrow> parent k = i \<Longrightarrow> key pq (smaller_child i n pq) \<le> key pq k"
proof -
  show "smaller_child i n pq < n" "parent (smaller_child i n pq) = i" "0 < smaller_child i n pq"
    using assms by (simp_all add: smaller_child_def Let_def parent_def)
  assume k: "k < n" "0 < k" "parent k = i"
  from iffD1 [OF parent_children [OF k(2)] k(3)] show "key pq (smaller_child i n pq) \<le> key pq k"
    using k(1) by (auto simp: smaller_child_def Let_def pq_Less_def key_def)
qed

lemma heap_down_heaped:
  assumes "pq_ok pq" and "i < n" and "n \<le> length (pq_heap pq)"
    and "\<And>k. k < n \<Longrightarrow> 0 < k \<Longrightarrow> parent k \<noteq> i \<Longrightarrow> key pq (parent k) \<le> key pq k"
    and "\<And>k. k < n \<Longrightarrow> 0 < k \<Longrightarrow> 0 < i \<Longrightarrow> parent k = i \<Longrightarrow> key pq (parent i) \<le> key pq k"
  shows "shuffled pq (fst (heap_down i n pq)) \<and> heaped n (fst (heap_down i n pq)) \<and>
    (\<forall>k<length (pq_heap pq). n \<le> k \<longrightarrow> pq_heap (fst (heap_down i n pq)) ! k = pq_heap pq ! k)"
  using assms
proof (induction i n pq rule: heap_down.induct)
  case (1 i n pq)
  let ?j = "smaller_child i n pq"
  show ?case
  proof (cases "n \<le> 2 * i + 1 \<or> \<not> pq_Less ?j i pq")
    case True
    then have "fst (heap_down i n pq) = pq" by (subst heap_down.simps) (auto simp: Let_def)
    moreover have "heaped n pq" unfolding heaped_def
    proof (intro allI impI)
      fix k assume k: "k < n" "0 < k"
      show "key pq (parent k) \<le> key pq k"
      proof (cases "parent k = i")
        case par: True
        then have "2 * i + 1 < n" using k parent_children [OF k(2)] by auto
        with True have "key pq i \<le> key pq ?j" by (auto simp: pq_Less_def key_def)
        with smaller_child(4) [OF \<open>2 * i + 1 < n\<close> k par, where pq = pq] par show ?thesis by simp
      qed (use 1(5) k in auto)
    qed
    ultimately show ?thesis using shuffled_refl [OF 1(2)] by simp
  next
    case False
    then have n: "2 * i + 1 < n" and less: "key pq ?j < key pq i" by (auto simp: pq_Less_def key_def)
    note ch = smaller_child [OF n, where pq = pq]
    let ?s = "pq_Swap i ?j pq"
    have ij: "i < ?j" using ch(2,3) parent_less by metis
    have in_n: "i < length (pq_heap pq)" "?j < length (pq_heap pq)" using ch(1) 1(3,4) by simp_all
    note sw = Swap_shuffled [OF 1(2) in_n less_imp_neq [OF ij]]
    have IH: "shuffled ?s (fst (heap_down ?j n ?s)) \<and> heaped n (fst (heap_down ?j n ?s)) \<and>
      (\<forall>k<length (pq_heap ?s). n \<le> k \<longrightarrow> pq_heap (fst (heap_down ?j n ?s)) ! k = pq_heap ?s ! k)"
    proof (rule 1(1))
      show "\<not> n \<le> 2 * i + 1" "\<not> \<not> pq_Less ?j i pq" using False by auto
      show "pq_ok ?s" using sw(1) by (simp add: shuffled_def)
      show "?j < n" "n \<le> length (pq_heap ?s)" using ch(1) 1(4) by simp_all
    next
      fix k assume k: "k < n" "0 < k" "parent k \<noteq> ?j"
      have pk: "parent k < k" "parent k < length (pq_heap pq)" "k < length (pq_heap pq)"
        using parent_less k 1(4) by (auto simp: order.strict_trans [OF parent_less])
      show "key ?s (parent k) \<le> key ?s k"
      proof (cases "parent k = i")
        case True
        then show ?thesis using k pk less ch(4) [OF k(1,2) True] sw(2) [OF pk(2)] sw(2) [OF pk(3)] by auto
      next
        case False
        have "key pq (parent k) \<le> key pq k" using 1(5) k(1,2) False by simp
        moreover have "key pq (parent i) \<le> key pq ?j" if "0 < i" using 1(6) [OF ch(1,3) that ch(2)] .
        moreover have "k \<noteq> ?j" using False ch(2) by auto
        ultimately show ?thesis using k pk False sw(2) [OF pk(2)] sw(2) [OF pk(3)] by auto
      qed
    next
      fix k assume k: "k < n" "0 < k" "0 < ?j" "parent k = ?j"
      have "k \<noteq> i" "k \<noteq> ?j" using k ij parent_less [of k] by auto
      moreover have "key pq ?j \<le> key pq k" using 1(5) [OF k(1,2)] k(4) ij by simp
      ultimately show "key ?s (parent ?j) \<le> key ?s k"
        using ch(2) sw(2) [of i] sw(2) [of k] in_n k(1) 1(4) by simp
    qed simp_all
    have "heap_down i n pq = heap_down ?j n ?s" using False by (subst heap_down.simps) (simp add: Let_def)
    moreover have "\<forall>k<length (pq_heap pq). n \<le> k \<longrightarrow> pq_heap ?s ! k = pq_heap pq ! k"
      using sw(3) ch(1) 1(3) by auto
    ultimately show ?thesis using IH shuffled_trans [OF sw(1)] by simp
  qed
qed

lemma heap_min:
  assumes "heaped n pq" and "k < n"
  shows "key pq 0 \<le> key pq k"
  using assms(2)
proof (induction k rule: less_induct)
  case (less k)
  show ?case
  proof (cases "k = 0")
    case False
    then have "parent k < k" by (simp add: parent_less)
    moreover have "key pq (parent k) \<le> key pq k" using assms(1) less(2) False by (simp add: heaped_def)
    ultimately show ?thesis using less by fastforce
  qed simp
qed

text \<open>What an operation on the heap keeps of the entries.\<close>

definition same_entries :: "'a pqueue \<Rightarrow> 'a pqueue \<Rightarrow> bool" where
  "same_entries pq pq' \<longleftrightarrow> map wf_data (pq_cells pq') = map wf_data (pq_cells pq) \<and>
     map wf_readyAt (pq_cells pq') = map wf_readyAt (pq_cells pq)"

lemma same_entries_length: "same_entries pq pq' \<Longrightarrow> length (pq_cells pq') = length (pq_cells pq)"
  unfolding same_entries_def by (metis length_map)

lemma same_entries_nth:
  assumes "same_entries pq pq'" and "p < length (pq_cells pq)"
  shows "wf_data (pq_cells pq' ! p) = wf_data (pq_cells pq ! p)"
    and "wf_readyAt (pq_cells pq' ! p) = wf_readyAt (pq_cells pq ! p)"
  using assms same_entries_length [OF assms(1)] unfolding same_entries_def by (metis nth_map)+

lemma same_entries_trans: "same_entries a b \<Longrightarrow> same_entries b c \<Longrightarrow> same_entries a c"
  by (simp add: same_entries_def)

lemma shuffled_iff: "shuffled pq pq' \<longleftrightarrow> mset (pq_heap pq') = mset (pq_heap pq) \<and> pq_ok pq' \<and> same_entries pq pq'"
  by (simp add: shuffled_def same_entries_def)

lemma pq_Push_ok:
  assumes "pq_ok pq" and "p < length (pq_cells pq)" and "p \<notin> set (pq_heap pq)"
  shows "pq_ok (pq_Push p pq)" and "same_entries pq (pq_Push p pq)"
    and "k < length (pq_heap pq) \<Longrightarrow> key (pq_Push p pq) k = key pq k"
    and "mset (pq_heap (pq_Push p pq)) = add_mset p (mset (pq_heap pq))"
    and "length (pq_heap (pq_Push p pq)) = Suc (length (pq_heap pq))"
proof -
  have old: "entry (pq_Push p pq) k = entry pq k" if "k < length (pq_heap pq)" for k
  proof -
    have "pq_heap pq ! k \<noteq> p" "pq_heap pq ! k < length (pq_cells pq)"
      using that assms by (metis nth_mem, metis nth_mem pq_ok_def)
    then show ?thesis using that by (simp add: entry_def pq_Push_def set_index_nth nth_append)
  qed
  have "wf_index (entry (pq_Push p pq) k) = int k" if "k < Suc (length (pq_heap pq))" for k
  proof (cases "k = length (pq_heap pq)")
    case True
    then show ?thesis using assms(2) by (simp add: entry_def pq_Push_def set_index_nth)
  next
    case False
    then show ?thesis using that assms(1) old by (simp add: pq_ok_def)
  qed
  then show "pq_ok (pq_Push p pq)" using assms by (simp add: pq_ok_def) (auto simp: pq_Push_def)
  show "k < length (pq_heap pq) \<Longrightarrow> key (pq_Push p pq) k = key pq k" by (simp add: key_def old)
qed (simp_all add: same_entries_def pq_Push_def)

lemma heap_Push_ok:
  assumes "pq_ok pq" and "heaped (length (pq_heap pq)) pq" and "p < length (pq_cells pq)" and "p \<notin> set (pq_heap pq)"
  shows "pq_ok (heap_Push p pq) \<and> heaped (length (pq_heap (heap_Push p pq))) (heap_Push p pq) \<and>
    same_entries pq (heap_Push p pq) \<and> mset (pq_heap (heap_Push p pq)) = add_mset p (mset (pq_heap pq))"
proof -
  let ?n = "length (pq_heap pq)" and ?q = "pq_Push p pq"
  note q = pq_Push_ok [OF assms(1,3,4)]
  have kids: "parent k \<noteq> ?n" if "k < Suc ?n" "0 < k" for k using that parent_less [of k] by simp
  have "shuffled ?q (heap_up ?n ?q) \<and> heaped (length (pq_heap ?q)) (heap_up ?n ?q)"
  proof (rule heap_up_heaped [OF q(1)])
    fix k assume k: "k < length (pq_heap ?q)" "0 < k" "k \<noteq> ?n"
    moreover have "parent k < k" using k(2) parent_less by simp
    ultimately show "key ?q (parent k) \<le> key ?q k"
      using assms(2) q(3) [of k] q(3) [of "parent k"] q(5) by (simp add: heaped_def)
  qed (use q(5) kids in auto)
  moreover have "heap_Push p pq = heap_up ?n ?q" using q(5) by (simp add: heap_Push_def Let_def)
  ultimately show ?thesis
    using q(2,4) same_entries_trans [OF q(2)] shuffled_length [of ?q "heap_up ?n ?q"] by (simp add: shuffled_iff)
qed

lemma Swap_same:
  assumes "pq_ok pq" and "i < length (pq_heap pq)"
  shows "pq_Swap i i pq = pq"
proof -
  let ?p = "pq_heap pq ! i"
  have "wf_index (pq_cells pq ! ?p) = int i" using assms by (simp add: pq_ok_def entry_def)
  then have "(pq_cells pq ! ?p)\<lparr>wf_index := int i\<rparr> = pq_cells pq ! ?p"
    by (metis waitFor.surjective waitFor.update_convs(3) waitFor.select_convs(3))
  then show ?thesis by (simp add: pq_Swap_def Let_def set_index_def)
qed

lemma pq_Pop_ok:
  assumes "pq_ok pq" and "pq_heap pq = h @ [p]"
  shows "pq_Pop pq = (p, pq\<lparr>pq_heap := h, pq_cells := set_index p (- 1) (pq_cells pq)\<rparr>)"
    and "pq_ok (snd (pq_Pop pq))" and "same_entries pq (snd (pq_Pop pq))"
    and "k < length h \<Longrightarrow> key (snd (pq_Pop pq)) k = key pq k"
proof -
  show pop: "pq_Pop pq = (p, pq\<lparr>pq_heap := h, pq_cells := set_index p (- 1) (pq_cells pq)\<rparr>)"
    by (simp add: pq_Pop_def Let_def assms(2))
  have old: "entry (snd (pq_Pop pq)) k = entry pq k" if "k < length h" for k
  proof -
    have "h ! k \<noteq> p" "h ! k < length (pq_cells pq)" using that assms by (auto simp: pq_ok_def)
    then show ?thesis using that by (simp add: entry_def pop set_index_nth assms(2) nth_append)
  qed
  then show "k < length h \<Longrightarrow> key (snd (pq_Pop pq)) k = key pq k" by (simp add: key_def)
  have "k < length h \<Longrightarrow> wf_index (entry (snd (pq_Pop pq)) k) = int k" for k
    using old assms by (simp add: pq_ok_def)
  then show "pq_ok (snd (pq_Pop pq))" using assms by (simp add: pq_ok_def pop)
  show "same_entries pq (snd (pq_Pop pq))" by (simp add: same_entries_def pop)
qed

lemma heap_Pop_ok:
  assumes "pq_ok pq" and "heaped (length (pq_heap pq)) pq" and "pq_heap pq \<noteq> []" and "heap_Pop pq = (p, pq')"
  shows "p = pq_heap pq ! 0 \<and> pq_ok pq' \<and> heaped (length (pq_heap pq')) pq' \<and> same_entries pq pq' \<and>
    mset (pq_heap pq) = add_mset p (mset (pq_heap pq'))"
proof -
  let ?n = "length (pq_heap pq) - 1"
  let ?s = "pq_Swap 0 ?n pq" let ?d = "fst (heap_down 0 ?n ?s)"
  have n: "?n < length (pq_heap pq)" "0 < length (pq_heap pq)" using assms(3) by simp_all
  have d: "shuffled pq ?d \<and> heaped ?n ?d \<and> pq_heap ?d ! ?n = pq_heap pq ! 0"
  proof (cases "?n = 0")
    case True
    then have "?s = pq" using Swap_same [OF assms(1) n(2)] by simp
    moreover have "?d = ?s" using True by (subst heap_down.simps) simp
    ultimately show ?thesis using True shuffled_refl [OF assms(1)] by (simp add: heaped_def)
  next
    case False
    note sw = Swap_shuffled [OF assms(1) n(2,1) False [symmetric]]
    have "shuffled ?s ?d \<and> heaped ?n ?d \<and> (\<forall>k<length (pq_heap ?s). ?n \<le> k \<longrightarrow> pq_heap ?d ! k = pq_heap ?s ! k)"
    proof (rule heap_down_heaped)
      show "pq_ok ?s" using sw(1) by (simp add: shuffled_def)
      fix k assume k: "k < ?n" "0 < k" "parent k \<noteq> 0"
      have "parent k < k" using k(2) parent_less by simp
      then show "key ?s (parent k) \<le> key ?s k"
        using k assms(2) sw(2) [of k] sw(2) [of "parent k"] by (simp add: heaped_def)
    qed (use False in auto)
    moreover have "pq_heap ?s ! ?n = pq_heap pq ! 0" using n by (simp add: pq_Swap_def Let_def)
    ultimately show ?thesis using shuffled_trans [OF sw(1)] n by simp
  qed
  have len: "length (pq_heap ?d) = length (pq_heap pq)" by simp
  then have ne: "pq_heap ?d \<noteq> []" using assms(3) by (metis length_0_conv)
  define h where "h = butlast (pq_heap ?d)"
  have "last (pq_heap ?d) = pq_heap pq ! 0" using d len ne by (simp add: last_conv_nth)
  then have h: "pq_heap ?d = h @ [pq_heap pq ! 0]" using ne h_def by (metis append_butlast_last_id)
  then have lh: "length h = ?n" using len by simp
  have ok: "pq_ok ?d" "same_entries pq ?d" "mset (pq_heap ?d) = mset (pq_heap pq)" using d by (simp_all add: shuffled_iff)
  note pop = pq_Pop_ok [OF ok(1) h]
  have pq': "p = pq_heap pq ! 0" "pq' = snd (pq_Pop ?d)" "pq_heap pq' = h"
    using assms(4) pop(1) by (auto simp: heap_Pop_def Let_def)
  have "heaped (length h) pq'" unfolding heaped_def
  proof (intro allI impI)
    fix k assume k: "k < length h" "0 < k"
    moreover have "parent k < k" using k(2) parent_less by simp
    ultimately show "key pq' (parent k) \<le> key pq' k"
      using d lh pop(4) [of k] pop(4) [of "parent k"] by (simp add: heaped_def pq'(2))
  qed
  then show ?thesis using pq' pop(2,3) same_entries_trans [OF ok(2)] ok(3) h by simp
qed

text \<open>An entry that becomes ready earlier, at its place in the heap.\<close>

lemma set_readyAt_ok:
  assumes "pq_ok pq" and "i < length (pq_heap pq)" and "p = pq_heap pq ! i"
  shows "pq_ok (set_readyAt p r pq)" and "pq_heap (set_readyAt p r pq) = pq_heap pq"
    and "k < length (pq_heap pq) \<Longrightarrow> key (set_readyAt p r pq) k = (if k = i then r else key pq k)"
    and "map wf_data (pq_cells (set_readyAt p r pq)) = map wf_data (pq_cells pq)"
    and "q < length (pq_cells pq) \<Longrightarrow> wf_readyAt (pq_cells (set_readyAt p r pq) ! q) =
      (if q = p then r else wf_readyAt (pq_cells pq ! q))"
proof -
  have valid: "k < length (pq_heap pq) \<Longrightarrow> pq_heap pq ! k < length (pq_cells pq)" for k
    using assms(1) by (metis nth_mem pq_ok_def)
  have inj: "k < length (pq_heap pq) \<Longrightarrow> pq_heap pq ! k = p \<longleftrightarrow> k = i" for k
    using assms by (metis nth_eq_iff_index_eq pq_ok_def)
  have ent: "k < length (pq_heap pq) \<Longrightarrow> entry (set_readyAt p r pq) k =
      (if k = i then (entry pq k)\<lparr>wf_readyAt := r\<rparr> else entry pq k)" for k
    using valid [of k] inj [of k] assms(3) by (auto simp: entry_def set_readyAt_def nth_list_update)
  then show "k < length (pq_heap pq) \<Longrightarrow> key (set_readyAt p r pq) k = (if k = i then r else key pq k)"
    by (simp add: key_def)
  have "k < length (pq_heap pq) \<Longrightarrow> wf_index (entry (set_readyAt p r pq) k) = int k" for k
    using ent assms(1) by (simp add: pq_ok_def)
  then show "pq_ok (set_readyAt p r pq)" using assms(1) by (simp add: pq_ok_def) (simp add: set_readyAt_def)
  show "q < length (pq_cells pq) \<Longrightarrow> wf_readyAt (pq_cells (set_readyAt p r pq) ! q) =
      (if q = p then r else wf_readyAt (pq_cells pq ! q))"
    by (auto simp: set_readyAt_def nth_list_update)
qed (simp_all add: set_readyAt_def map_update_same)

lemma heap_Fix_ok:
  assumes "pq_ok pq" and "heaped (length (pq_heap pq)) pq" and "i < length (pq_heap pq)" and "p = pq_heap pq ! i"
    and "r \<le> key pq i"
  defines "s \<equiv> set_readyAt p r pq"
  shows "shuffled s (heap_Fix i s) \<and> heaped (length (pq_heap (heap_Fix i s))) (heap_Fix i s)"
proof -
  note q = set_readyAt_ok [OF assms(1,3,4), where r = r, folded s_def]
  have len: "length (pq_heap s) = length (pq_heap pq)" by (simp add: q(2))
  have le: "key pq (parent k) \<le> key pq k" if "k < length (pq_heap pq)" "0 < k" for k
    using assms(2) that by (simp add: heaped_def)
  have kid: "r \<le> key s k" if "k < length (pq_heap pq)" "0 < k" "parent k = i" for k
    using le [OF that(1,2)] that assms(5) q(3) [of k] parent_less [of k] by simp
  have down: "heap_down i (length (pq_heap s)) s = (s, i)"
  proof (cases "length (pq_heap s) \<le> 2 * i + 1")
    case False
    then have n: "2 * i + 1 < length (pq_heap s)" by simp
    note c = smaller_child [OF n, where pq = s]
    have "key s i \<le> key s (smaller_child i (length (pq_heap s)) s)"
      using kid [OF c(1) [unfolded len] c(3,2) [unfolded len]] q(3) [OF assms(3)] len by simp
    then have "\<not> pq_Less (smaller_child i (length (pq_heap s)) s) i s" by (simp add: pq_Less_def key_def)
    then show ?thesis by (subst heap_down.simps) (simp add: Let_def)
  qed (subst heap_down.simps, simp)
  have "shuffled s (heap_up i s) \<and> heaped (length (pq_heap s)) (heap_up i s)"
  proof (rule heap_up_heaped [OF q(1)])
    fix k assume k: "k < length (pq_heap s)" "0 < k" "k \<noteq> i"
    moreover have "parent k < k" using k(2) parent_less by simp
    ultimately show "key s (parent k) \<le> key s k"
      using le [of k] kid [of k] q(3) [of k] q(3) [of "parent k"] len by (cases "parent k = i") auto
  next
    fix k assume k: "k < length (pq_heap s)" "0 < k" "0 < i" "parent k = i"
    have "key pq (parent i) \<le> key pq i" "key pq i \<le> key pq k" using le [OF assms(3) k(3)] le [of k] k len by auto
    moreover have "parent i < i" "i < k" using k(2-4) parent_less by auto
    ultimately show "key s (parent i) \<le> key s k"
      using q(3) [of k] q(3) [of "parent i"] k len by simp
  qed (use assms(3) len in simp)
  then show ?thesis using down shuffled_length by (simp add: heap_Fix_def) fastforce
qed

section \<open>Lemmas: the loop\<close>

text \<open>
  The entries that wait: what the map knows is what the heap holds, so an item waits at most once. The
  abstract state is the time each item waits for.
\<close>

definition dq_ok :: "'a delaying \<Rightarrow> bool" where
  "dq_ok d \<longleftrightarrow> pq_ok (dq_waiting d) \<and> heaped (length (pq_heap (dq_waiting d))) (dq_waiting d) \<and>
     (\<forall>x p. dq_known d x = Some p \<longleftrightarrow> p \<in> set (pq_heap (dq_waiting d)) \<and> wf_data (wf_at d p) = x)"

definition waits :: "'a delaying \<Rightarrow> 'a \<rightharpoonup> time" where
  "waits d x = map_option (\<lambda>p. wf_readyAt (wf_at d p)) (dq_known d x)"

lemma waits_iff:
  "dq_ok d \<Longrightarrow> waits d x = Some r \<longleftrightarrow>
     (\<exists>p\<in>set (pq_heap (dq_waiting d)). wf_data (wf_at d p) = x \<and> wf_readyAt (wf_at d p) = r)"
  by (auto simp: dq_ok_def waits_def)

text \<open>What \<open>insert\<close> promises of the entry \<open>p\<close>: its item then waits until the earlier of the two times.\<close>

definition entered :: "nat \<Rightarrow> 'a delaying \<Rightarrow> 'a delaying \<Rightarrow> bool" where
  "entered p d d' \<longleftrightarrow> dq_ok d' \<and> dq_queue d' = dq_queue d \<and>
    waits d' = (waits d)(wf_data (wf_at d p) \<mapsto>
      (case waits d (wf_data (wf_at d p)) of None \<Rightarrow> wf_readyAt (wf_at d p) | Some r' \<Rightarrow> min r' (wf_readyAt (wf_at d p)))) \<and>
    map wf_data (pq_cells (dq_waiting d')) = map wf_data (pq_cells (dq_waiting d)) \<and>
    set (pq_heap (dq_waiting d')) \<subseteq> insert p (set (pq_heap (dq_waiting d))) \<and>
    (\<forall>q<length (pq_cells (dq_waiting d)). q \<notin> set (pq_heap (dq_waiting d)) \<longrightarrow> wf_readyAt (wf_at d' q) = wf_readyAt (wf_at d q))"

lemma dq_insert_new:
  assumes "dq_ok d" and "p < length (pq_cells (dq_waiting d))" and "p \<notin> set (pq_heap (dq_waiting d))"
    and None': "dq_known d (wf_data (wf_at d p)) = None"
  shows "entered p d (dq_insert p d)"
proof -
  define x r where "x = wf_data (wf_at d p)" and "r = wf_readyAt (wf_at d p)"
  let ?pq = "dq_waiting d"
  have ok: "pq_ok ?pq" "heaped (length (pq_heap ?pq)) ?pq"
    and known: "\<And>x p. dq_known d x = Some p \<longleftrightarrow> p \<in> set (pq_heap ?pq) \<and> wf_data (pq_cells ?pq ! p) = x"
    using assms(1) by (auto simp: dq_ok_def wf_at_def)
  have valid: "\<And>q. q \<in> set (pq_heap ?pq) \<Longrightarrow> q < length (pq_cells ?pq)" using ok(1) by (simp add: pq_ok_def)
  have None: "dq_known d x = None" using None' by (simp add: x_def)
  let ?q = "heap_Push p ?pq"
  have q: "pq_ok ?q" "heaped (length (pq_heap ?q)) ?q" "same_entries ?pq ?q" "mset (pq_heap ?q) = add_mset p (mset (pq_heap ?pq))"
    using heap_Push_ok [OF ok assms(2,3)] by simp_all
  have set_q: "set (pq_heap ?q) = insert p (set (pq_heap ?pq))" using arg_cong [OF q(4), of set_mset] by simp
  have ins: "dq_insert p d = d\<lparr>dq_waiting := ?q, dq_known := (dq_known d)(x \<mapsto> p)\<rparr>"
    using None by (simp add: dq_insert_def x_def)
  note same = same_entries_nth [OF q(3)]
  have fresh: "wf_data (pq_cells ?pq ! q) \<noteq> x" if "q \<in> set (pq_heap ?pq)" for q
    using None known [of x q] that by auto
  have "dq_ok (dq_insert p d)"
    using q known same valid assms(2) fresh by (auto simp: dq_ok_def ins set_q wf_at_def x_def)
  moreover have "waits (dq_insert p d) = (waits d)(x \<mapsto> r)"
  proof
    fix y
    have "wf_readyAt (pq_cells ?q ! q) = wf_readyAt (pq_cells ?pq ! q)" if "dq_known d y = Some q" for q
      using same(2) known valid that by simp
    then show "waits (dq_insert p d) y = ((waits d)(x \<mapsto> r)) y"
      using same(2) assms(2) by (cases "dq_known d y") (simp_all add: waits_def ins wf_at_def r_def)
  qed
  ultimately show ?thesis unfolding entered_def x_def [symmetric] r_def [symmetric] using None q(3) set_q same(2) by (simp add: ins waits_def wf_at_def same_entries_def)
qed

lemma dq_insert_sooner:
  assumes "dq_ok d" and "p < length (pq_cells (dq_waiting d))" and "p \<notin> set (pq_heap (dq_waiting d))"
    and Some': "dq_known d (wf_data (wf_at d p)) = Some e" and True: "wf_readyAt (wf_at d p) < wf_readyAt (wf_at d e)"
  shows "entered p d (dq_insert p d)"
proof -
  define x r where "x = wf_data (wf_at d p)" and "r = wf_readyAt (wf_at d p)"
  let ?pq = "dq_waiting d"
  have ok: "pq_ok ?pq" "heaped (length (pq_heap ?pq)) ?pq"
    and known: "\<And>x p. dq_known d x = Some p \<longleftrightarrow> p \<in> set (pq_heap ?pq) \<and> wf_data (pq_cells ?pq ! p) = x"
    using assms(1) by (auto simp: dq_ok_def wf_at_def)
  have valid: "\<And>q. q \<in> set (pq_heap ?pq) \<Longrightarrow> q < length (pq_cells ?pq)" using ok(1) by (simp add: pq_ok_def)
  have Some: "dq_known d x = Some e" and True: "r < wf_readyAt (wf_at d e)" using Some' True by (simp_all add: x_def r_def)
  have e: "e \<in> set (pq_heap ?pq)" "wf_data (pq_cells ?pq ! e) = x" using known Some by simp_all
  then obtain i where i: "i < length (pq_heap ?pq)" "e = pq_heap ?pq ! i" by (metis in_set_conv_nth)
  have ind: "nat (wf_index (wf_at d e)) = i" using ok(1) i by (simp add: pq_ok_def wf_at_def entry_def)
  have key: "key ?pq i = wf_readyAt (wf_at d e)" using i by (simp add: key_def entry_def wf_at_def)
  let ?s = "set_readyAt e r ?pq" let ?q = "heap_Fix i ?s"
  note s = set_readyAt_ok [OF ok(1) i, where r = r]
  have q: "shuffled ?s ?q" "heaped (length (pq_heap ?q)) ?q"
    using heap_Fix_ok [OF ok i, of r] key True by simp_all
  then have q': "pq_ok ?q" "same_entries ?s ?q" "set (pq_heap ?q) = set (pq_heap ?pq)"
    by (auto simp: shuffled_iff s(2) dest: mset_eq_setD)
  have ins: "dq_insert p d = d\<lparr>dq_waiting := ?q\<rparr>"
    using Some True ind by (simp add: dq_insert_def x_def r_def)
  have dat: "map wf_data (pq_cells ?q) = map wf_data (pq_cells ?pq)" using q'(2) s(4) by (simp add: same_entries_def)
  have len: "length (pq_cells ?s) = length (pq_cells ?pq)" by (simp add: set_readyAt_def)
  have cells: "wf_data (pq_cells ?q ! q) = wf_data (pq_cells ?pq ! q)"
    "wf_readyAt (pq_cells ?q ! q) = (if q = e then r else wf_readyAt (pq_cells ?pq ! q))"
    if "q \<in> set (pq_heap ?pq)" for q
    using same_entries_nth [OF q'(2)] s(5) valid [OF that] len s(4) dat
    by (metis nth_map length_map, metis)
  have "dq_ok (dq_insert p d)"
    using q(2) q' known cells by (auto simp: dq_ok_def ins wf_at_def)
  moreover have "waits (dq_insert p d) = (waits d)(x \<mapsto> r)"
  proof
    fix y
    show "waits (dq_insert p d) y = ((waits d)(x \<mapsto> r)) y"
    proof (cases "dq_known d y")
      case (Some q)
      then have "q \<in> set (pq_heap ?pq)" "wf_data (pq_cells ?pq ! q) = y" using known by simp_all
      then show ?thesis using Some cells(2) \<open>dq_known d x = Some e\<close> e
        by (auto simp: waits_def ins wf_at_def)
    qed (use Some in \<open>auto simp: waits_def ins\<close>)
  qed
  moreover have "wf_readyAt (pq_cells ?q ! k) = wf_readyAt (pq_cells ?pq ! k)"
    if "k < length (pq_cells ?pq)" "k \<notin> set (pq_heap ?pq)" for k
  proof -
    have "k \<noteq> e" using e(1) that(2) by auto
    then show ?thesis using same_entries_nth(2) [OF q'(2), of k] s(5) [of k] that(1) len by simp
  qed
  ultimately show ?thesis unfolding entered_def x_def [symmetric] r_def [symmetric] using Some True dat q'(3) by (simp add: ins waits_def wf_at_def min_def) auto
qed

lemma dq_insert_ok:
  assumes "dq_ok d" and "p < length (pq_cells (dq_waiting d))" and "p \<notin> set (pq_heap (dq_waiting d))"
  shows "entered p d (dq_insert p d)"
proof (cases "dq_known d (wf_data (wf_at d p))")
  case None
  with assms show ?thesis by (rule dq_insert_new)
next
  case (Some e)
  show ?thesis
  proof (cases "wf_readyAt (wf_at d p) < wf_readyAt (wf_at d e)")
    case True
    with assms Some show ?thesis by (rule dq_insert_sooner)
  next
    case False
    then have "dq_insert p d = d" using Some by (simp add: dq_insert_def)
    moreover have "waits d (wf_data (wf_at d p)) = Some (wf_readyAt (wf_at d e))" using Some by (simp add: waits_def)
    ultimately show ?thesis using assms(1) False by (auto simp: entered_def min_def)
  qed
qed

lemma add_first_ok:
  assumes "dq_ok d" and "pq_heap (dq_waiting d) \<noteq> []"
  shows "dq_ok (add_first d)"
    and "dq_queue (add_first d) = Add (first_data d) (dq_queue d)"
    and "waits (add_first d) = (waits d)(first_data d := None)"
    and "waits d (first_data d) = Some (first_ready d)"
    and "waits d x = Some r \<Longrightarrow> first_ready d \<le> r"
    and "same_entries (dq_waiting d) (dq_waiting (add_first d))"
    and "mset (pq_heap (dq_waiting d)) = add_mset (pq_Peek (dq_waiting d)) (mset (pq_heap (dq_waiting (add_first d))))"
proof -
  let ?pq = "dq_waiting d" let ?x = "first_data d"
  have ok: "pq_ok ?pq" "heaped (length (pq_heap ?pq)) ?pq"
    and known: "\<And>x p. dq_known d x = Some p \<longleftrightarrow> p \<in> set (pq_heap ?pq) \<and> wf_data (wf_at d p) = x"
    using assms(1) by (auto simp: dq_ok_def)
  obtain p q where pop: "heap_Pop ?pq = (p, q)" by fastforce
  note q = heap_Pop_ok [OF ok assms(2) pop]
  have p: "p = pq_Peek ?pq" "p \<in> set (pq_heap ?pq)" using q assms(2) by (simp_all add: pq_Peek_def)
  have valid: "\<And>k. k \<in> set (pq_heap ?pq) \<Longrightarrow> k < length (pq_cells ?pq)" using ok(1) by (simp add: pq_ok_def)
  have x: "wf_data (pq_cells q ! p) = ?x"
    using same_entries_nth(1) [of ?pq q p] q valid [OF p(2)] by (simp add: first_data_def wf_at_def p(1))
  have add: "add_first d = d\<lparr>dq_waiting := q, dq_queue := Add ?x (dq_queue d), dq_known := (dq_known d)(?x := None)\<rparr>"
    by (simp add: add_first_def pop x Let_def)
  have set_q: "set (pq_heap ?pq) = insert p (set (pq_heap q))" "p \<notin> set (pq_heap q)"
  proof -
    show "set (pq_heap ?pq) = insert p (set (pq_heap q))" using q by (metis set_mset_add_mset_insert set_mset_mset)
    have "mset (pq_heap ?pq) = mset (p # pq_heap q)" using q by simp
    then have "distinct (p # pq_heap q)" using ok(1) mset_eq_imp_distinct_iff unfolding pq_ok_def by blast
    then show "p \<notin> set (pq_heap q)" by simp
  qed
  note same = same_entries_nth [of ?pq q]
  have only: "wf_data (wf_at d k) \<noteq> ?x" if "k \<in> set (pq_heap q)" for k
    using known [of ?x k] known [of ?x p] that set_q p(1) by (auto simp: first_data_def)
  show "dq_ok (add_first d)"
    using q known same valid only set_q by (auto simp: dq_ok_def add wf_at_def first_data_def p(1))
  show "dq_queue (add_first d) = Add ?x (dq_queue d)" by (simp add: add)
  show "waits (add_first d) = (waits d)(?x := None)"
  proof
    fix y
    have "wf_readyAt (pq_cells q ! k) = wf_readyAt (pq_cells ?pq ! k)" if "dq_known d y = Some k" for k
      using same(2) q known valid that by simp
    then show "waits (add_first d) y = ((waits d)(?x := None)) y"
      by (cases "dq_known d y") (simp_all add: waits_def add wf_at_def)
  qed
  show "waits d ?x = Some (first_ready d)"
    using known [of ?x p] p by (simp add: waits_def first_data_def first_ready_def)
  show "waits d x = Some r \<Longrightarrow> first_ready d \<le> r"
    using heap_min [OF ok(2)] by (auto simp: waits_iff [OF assms(1)] first_ready_def pq_Peek_def in_set_conv_nth key_def entry_def wf_at_def)
  show "same_entries ?pq (dq_waiting (add_first d))" using q by (simp add: add)
  show "mset (pq_heap ?pq) = add_mset (pq_Peek ?pq) (mset (pq_heap (dq_waiting (add_first d))))"
    using q p(1) by (simp add: add)
qed

section \<open>Lemmas: the whole queue\<close>

text \<open>What the goroutine has of an item, in the channel or in its heap, and what is still with a sender.\<close>

definition pends :: "'a delaying \<Rightarrow> nat list \<Rightarrow> 'a \<Rightarrow> time \<Rightarrow> bool" where
  "pends d ps x r \<longleftrightarrow> (\<exists>p\<in>set ps. wf_data (wf_at d p) = x \<and> wf_readyAt (wf_at d p) = r)"

definition held :: "'a dq_state \<Rightarrow> 'a \<Rightarrow> time \<Rightarrow> bool" where
  "held s x r \<longleftrightarrow> waits (ds_loop s) x = Some r \<or> pends (ds_loop s) (ds_chan s) x r"

definition outstanding :: "'a dq_state \<Rightarrow> 'a \<Rightarrow> time \<Rightarrow> bool" where
  "outstanding s x r \<longleftrightarrow> held s x r \<or> pends (ds_loop s) (ds_blocked s) x r"

lemma pends_simps [simp]:
  "pends d [] x r \<longleftrightarrow> False" "pends d (ps @ qs) x r \<longleftrightarrow> pends d ps x r \<or> pends d qs x r"
  "pends d (p # ps) x r \<longleftrightarrow> wf_data (wf_at d p) = x \<and> wf_readyAt (wf_at d p) = r \<or> pends d ps x r"
  by (auto simp: pends_def)

lemma pends_cong:
  assumes "\<And>p. p \<in> set ps \<Longrightarrow> wf_data (wf_at d' p) = wf_data (wf_at d p) \<and> wf_readyAt (wf_at d' p) = wf_readyAt (wf_at d p)"
  shows "pends d' ps = pends d ps"
  using assms by (simp add: pends_def fun_eq_iff)

definition ds_heap :: "'a dq_state \<Rightarrow> nat list" where
  "ds_heap s = pq_heap (dq_waiting (ds_loop s))"

definition ds_ok :: "'a dq_state \<Rightarrow> bool" where
  "ds_ok s \<longleftrightarrow> dq_ok (ds_loop s) \<and> distinct (ds_blocked s @ ds_chan s @ ds_heap s) \<and>
     (\<forall>p\<in>set (ds_blocked s @ ds_chan s). p < length (pq_cells (dq_waiting (ds_loop s)))) \<and>
     (ds_stopped s \<or> ds_pc s = Exited \<longrightarrow> closing s) \<and>
     (\<forall>now. ds_pc s = Adding now \<longrightarrow> now \<le> ds_time s)"

lemma ds_ok_new: "ds_ok (newDelayingQueue t)"
  by (simp add: ds_ok_def newDelayingQueue_def dq_ok_def pq_ok_def heaped_def ds_heap_def)

lemma dq_ok_cong:
  "dq_waiting d' = dq_waiting d \<Longrightarrow> dq_known d' = dq_known d \<Longrightarrow> dq_ok d' = dq_ok d"
  "dq_waiting d' = dq_waiting d \<Longrightarrow> dq_known d' = dq_known d \<Longrightarrow> waits d' = waits d"
  by (simp_all add: dq_ok_def waits_def wf_at_def fun_eq_iff)

lemma on_queue_sel [simp]:
  "dq_waiting (ds_loop (on_queue f s)) = dq_waiting (ds_loop s)" "dq_known (ds_loop (on_queue f s)) = dq_known (ds_loop s)"
  "dq_queue (ds_loop (on_queue f s)) = f (dq_queue (ds_loop s))" "ds_pc (on_queue f s) = ds_pc s"
  "ds_blocked (on_queue f s) = ds_blocked s" "ds_chan (on_queue f s) = ds_chan s"
  "ds_stopped (on_queue f s) = ds_stopped s" "ds_time (on_queue f s) = ds_time s"
  by (simp_all add: on_queue_def)

lemma on_queue_same [simp]:
  "waits (ds_loop (on_queue f s)) = waits (ds_loop s)" "wf_at (ds_loop (on_queue f s)) p = wf_at (ds_loop s) p"
  "dq_ok (ds_loop (on_queue f s)) = dq_ok (ds_loop s)" "ds_heap (on_queue f s) = ds_heap s"
  using dq_ok_cong [of "ds_loop (on_queue f s)" "ds_loop s"] by (simp_all add: wf_at_def ds_heap_def)

lemma ds_heap_same [simp]:
  "ds_heap (s\<lparr>ds_pc := pc\<rparr>) = ds_heap s" "ds_heap (s\<lparr>ds_blocked := bs\<rparr>) = ds_heap s" "ds_heap (s\<lparr>ds_chan := ps\<rparr>) = ds_heap s"
  "ds_heap (s\<lparr>ds_stopped := b\<rparr>) = ds_heap s" "ds_heap (s\<lparr>ds_time := t\<rparr>) = ds_heap s"
  by (simp_all add: ds_heap_def)

lemma closing_same [simp]:
  "closing (s\<lparr>ds_pc := pc\<rparr>) = closing s" "closing (s\<lparr>ds_blocked := bs\<rparr>) = closing s" "closing (s\<lparr>ds_chan := ps\<rparr>) = closing s"
  "closing (s\<lparr>ds_stopped := b\<rparr>) = closing s" "closing (s\<lparr>ds_time := t\<rparr>) = closing s"
  "closing (on_queue f s) = ShuttingDown (f (dq_queue (ds_loop s)))"
  by (simp_all add: closing_def)

lemma ShuttingDown_kept [simp]:
  "ShuttingDown (Add x q) = ShuttingDown q" "ShuttingDown (Done x q) = ShuttingDown q" "ShuttingDown (ShutDown q)"
  by (simp_all add: queue_defs Let_def)

lemma ShuttingDown_Get: "Get q = Some (r, q') \<Longrightarrow> ShuttingDown q' = ShuttingDown q"
  by (auto simp: queue_defs split: list.splits if_splits)

lemma send_ok:
  assumes "ds_ok s"
  shows "ds_ok (send x d s)" and "closing (send x d s) = closing s"
    and "held (send x d s) = held s"
    and "outstanding (send x d s) y r \<longleftrightarrow> outstanding s y r \<or> (y = x \<and> r = ds_time s + d)"
proof -
  let ?pq = "dq_waiting (ds_loop s)" let ?w = "\<lparr>wf_data = x, wf_readyAt = ds_time s + d, wf_index = 0\<rparr>"
  let ?d = "ds_loop (send x d s)"
  have ok: "dq_ok (ds_loop s)" and valid: "\<And>p. p \<in> set (pq_heap ?pq) \<Longrightarrow> p < length (pq_cells ?pq)"
    and pend: "\<And>p. p \<in> set (ds_blocked s @ ds_chan s) \<Longrightarrow> p < length (pq_cells ?pq)"
    using assms by (auto simp: ds_ok_def dq_ok_def pq_ok_def)
  have at: "wf_at ?d p = wf_at (ds_loop s) p" if "p < length (pq_cells ?pq)" for p
    using that by (simp add: send_def Let_def wf_at_def nth_append)
  have new: "wf_at ?d (length (pq_cells ?pq)) = ?w" by (simp add: send_def Let_def wf_at_def)
  have heap: "pq_heap (dq_waiting ?d) = pq_heap ?pq" "dq_known ?d = dq_known (ds_loop s)"
    by (simp_all add: send_def Let_def)
  have ent: "entry (dq_waiting ?d) i = entry ?pq i" if "i < length (pq_heap ?pq)" for i
    using at [of "pq_heap ?pq ! i"] valid that by (simp add: entry_def wf_at_def heap)
  have par: "k < n \<Longrightarrow> parent k < n" for k n :: nat by (simp add: parent_def)
  have key: "key (dq_waiting ?d) i = key ?pq i" if "i < length (pq_heap ?pq)" for i using ent [OF that] by (simp add: key_def)
  have cells: "length (pq_cells (dq_waiting ?d)) = Suc (length (pq_cells ?pq))" by (simp add: send_def Let_def)
  have pq: "pq_ok ?pq" "heaped (length (pq_heap ?pq)) ?pq" using ok by (simp_all add: dq_ok_def)
  have "pq_ok (dq_waiting ?d)" using pq(1) ent valid by (auto simp: pq_ok_def heap cells less_SucI)
  moreover have "heaped (length (pq_heap ?pq)) (dq_waiting ?d)" using pq(2) key par by (simp add: heaped_def)
  ultimately have dok: "dq_ok ?d" using ok at [OF valid] by (auto simp: dq_ok_def heap)
  have waits: "waits ?d = waits (ds_loop s)"
  proof
    fix y show "waits ?d y = waits (ds_loop s) y"
    proof (cases "dq_known (ds_loop s) y")
      case (Some p)
      then have "p \<in> set (pq_heap ?pq)" using ok by (simp add: dq_ok_def)
      then show ?thesis using Some at [OF valid] by (simp add: waits_def heap)
    qed (simp add: waits_def heap)
  qed
  have sel: "ds_chan (send x d s) = ds_chan s" "ds_blocked (send x d s) = ds_blocked s @ [length (pq_cells ?pq)]"
    "ds_heap (send x d s) = ds_heap s" "ds_pc (send x d s) = ds_pc s" "ds_stopped (send x d s) = ds_stopped s"
    "ds_time (send x d s) = ds_time s"
    by (simp_all add: send_def Let_def ds_heap_def)
  have fresh: "length (pq_cells ?pq) \<notin> set (ds_blocked s @ ds_chan s @ ds_heap s)"
    using pend valid by (auto simp: ds_heap_def)
  show cl: "closing (send x d s) = closing s" by (simp add: closing_def send_def Let_def)
  have "p < Suc (length (pq_cells ?pq))" if "p \<in> set (ds_blocked s @ ds_chan s)" for p
    using pend [OF that] by simp
  then show "ds_ok (send x d s)"
    using assms dok fresh by (simp add: ds_ok_def sel cl cells)
  have same: "pends ?d (ds_chan s) = pends (ds_loop s) (ds_chan s)" "pends ?d (ds_blocked s) = pends (ds_loop s) (ds_blocked s)"
    using at pend by (auto intro!: pends_cong)
  show h: "held (send x d s) = held s" by (simp add: held_def fun_eq_iff waits sel same)
  show "outstanding (send x d s) y r \<longleftrightarrow> outstanding s y r \<or> (y = x \<and> r = ds_time s + d)"
    using new by (auto simp: outstanding_def h sel same)
qed

text \<open>What a step of the goroutine keeps, and what it means for the items it holds.\<close>

definition loop_ok :: "'a dq_state \<Rightarrow> 'a dq_event \<Rightarrow> 'a dq_state \<Rightarrow> bool" where
  "loop_ok s e s' \<longleftrightarrow> ds_ok s' \<and> closing s' = closing s \<and> ds_time s' = ds_time s \<and> ds_blocked s' = ds_blocked s \<and>
     pends (ds_loop s') (ds_blocked s) = pends (ds_loop s) (ds_blocked s) \<and>
     (\<forall>x t. e = Adds x t \<longrightarrow> t = ds_time s \<and> (\<exists>r\<le>t. held s x r)) \<and> (\<forall>x r. e \<noteq> Asks x r) \<and>
     (\<forall>x r. held s' x r \<longrightarrow> held s x r) \<and>
     (\<forall>x r. held s x r \<longrightarrow> (\<exists>t. e = Adds x t) \<or> (\<exists>r'\<le>r. held s' x r'))"

lemma loop_ok_quiet:
  assumes "ds_ok s" and "pc = Exited \<longrightarrow> closing s" and "\<forall>now. pc = Adding now \<longrightarrow> now \<le> ds_time s"
  shows "loop_ok s Quiet (s\<lparr>ds_pc := pc\<rparr>)"
  using assms by (auto simp: loop_ok_def ds_ok_def held_def)

lemma receive_waiting:
  assumes "ds_ok s" and "ds_chan s = p # ps" and True: "ds_time s < wf_readyAt (wf_at (ds_loop s) p)"
  shows "loop_ok s (receive_event p s) (receive p (s\<lparr>ds_pc := Draining, ds_chan := ps\<rparr>))"
proof -
  let ?d = "ds_loop s" let ?d' = "dq_insert p ?d"
  have s': "receive p (s\<lparr>ds_pc := Draining, ds_chan := ps\<rparr>) = s\<lparr>ds_pc := Draining, ds_chan := ps, ds_loop := ?d'\<rparr>" (is "_ = ?s'")
    using True by (simp add: receive_def)
  have e: "receive_event p s = Quiet" using True by (simp add: receive_event_def)
  have ok: "dq_ok ?d" "p < length (pq_cells (dq_waiting ?d))" "p \<notin> set (pq_heap (dq_waiting ?d))"
    using assms(1,2) by (auto simp: ds_ok_def ds_heap_def)
  note ins = dq_insert_ok [OF ok, unfolded entered_def]
  have len: "length (pq_cells (dq_waiting ?d')) = length (pq_cells (dq_waiting ?d))" using ins by (metis length_map)
  have fresh: "k < length (pq_cells (dq_waiting ?d)) \<and> k \<notin> set (pq_heap (dq_waiting ?d))" if "k \<in> set (ds_blocked s @ p # ps)" for k
    using assms(1,2) that by (auto simp: ds_ok_def ds_heap_def)
  have at: "wf_data (wf_at ?d' k) = wf_data (wf_at ?d k) \<and> wf_readyAt (wf_at ?d' k) = wf_readyAt (wf_at ?d k)"
    if "k \<in> set (ds_blocked s @ p # ps)" for k
  proof -
    have "map wf_data (pq_cells (dq_waiting ?d')) ! k = map wf_data (pq_cells (dq_waiting ?d)) ! k" using ins by simp
    then have "wf_data (wf_at ?d' k) = wf_data (wf_at ?d k)" using fresh [OF that] len by (simp add: wf_at_def)
    then show ?thesis using fresh [OF that] ins by simp
  qed
  have same: "pends ?d' (ds_blocked s) = pends ?d (ds_blocked s)" "pends ?d' ps = pends ?d ps"
    using at by (auto intro!: pends_cong)
  let ?x = "wf_data (wf_at ?d p)" and ?r = "wf_readyAt (wf_at ?d p)"
  obtain m where m: "waits ?d' = (waits ?d)(?x \<mapsto> m)" "m = ?r \<or> waits ?d ?x = Some m" "m \<le> ?r"
    "\<And>r'. waits ?d ?x = Some r' \<Longrightarrow> m \<le> r'"
  proof
    show "waits ?d' = (waits ?d)(?x \<mapsto> (case waits ?d ?x of None \<Rightarrow> ?r | Some r' \<Rightarrow> min r' ?r))" using ins by blast
  qed (auto simp: min_def split: option.splits)
  have "distinct (ds_blocked s @ ps @ pq_heap (dq_waiting ?d'))"
  proof -
    have "distinct (pq_heap (dq_waiting ?d'))" using ins by (simp add: dq_ok_def pq_ok_def)
    moreover have "set (pq_heap (dq_waiting ?d')) \<subseteq> insert p (set (pq_heap (dq_waiting ?d)))" using ins by blast
    ultimately show ?thesis using assms(1,2) by (auto simp: ds_ok_def ds_heap_def)
  qed
  then have "ds_ok ?s'"
    using assms ins len by (auto simp: ds_ok_def ds_heap_def closing_def)
  moreover have "held ?s' y r \<longrightarrow> held s y r" for y r
    using m(1,2) same(2) assms(2) by (auto simp: held_def split: if_splits)
  moreover have "held s y r \<longrightarrow> (\<exists>r'\<le>r. held ?s' y r')" for y r
  proof (cases "y = ?x")
    case True
    then show ?thesis using m same(2) assms(2) by (fastforce simp: held_def)
  next
    case False
    then show ?thesis using m(1) same(2) assms(2) by (auto simp: held_def)
  qed
  moreover have "closing ?s' = closing s" using ins by (simp add: closing_def)
  ultimately show ?thesis using same(1) by (simp add: loop_ok_def s' e)
qed

lemma receive_due:
  assumes "ds_ok s" and "ds_chan s = p # ps" and "ds_pc s \<noteq> Exited" and False: "\<not> ds_time s < wf_readyAt (wf_at (ds_loop s) p)"
  shows "loop_ok s (receive_event p s) (receive p (s\<lparr>ds_pc := Draining, ds_chan := ps\<rparr>))"
proof -
  let ?s' = "on_queue (Add (wf_data (wf_at (ds_loop s) p))) (s\<lparr>ds_pc := Draining, ds_chan := ps\<rparr>)"
  have s': "receive p (s\<lparr>ds_pc := Draining, ds_chan := ps\<rparr>) = ?s'" using False by (simp add: receive_def)
  have e: "receive_event p s = Adds (wf_data (wf_at (ds_loop s) p)) (ds_time s)" using False by (simp add: receive_event_def)
  have same: "pends (ds_loop ?s') qs = pends (ds_loop s) qs" for qs by (rule pends_cong) simp
  have "closing ?s' = closing s" by (simp add: closing_def)
  moreover have "ds_ok ?s'" using assms calculation by (auto simp: ds_ok_def)
  moreover have "held s (wf_data (wf_at (ds_loop s) p)) (wf_readyAt (wf_at (ds_loop s) p))"
    using assms(2) by (simp add: held_def)
  moreover have "held ?s' x r \<longrightarrow> held s x r" for x r using assms(2) by (auto simp: held_def same)
  moreover have "held s x r \<longrightarrow> wf_data (wf_at (ds_loop s) p) = x \<or> (\<exists>r'\<le>r. held ?s' x r')" for x r
    using assms(2) by (auto simp: held_def same)
  ultimately show ?thesis using False same by (auto simp: loop_ok_def s' e not_less)
qed

lemma receive_ok:
  assumes "ds_ok s" and "ds_chan s = p # ps" and "ds_pc s \<noteq> Exited"
  shows "loop_ok s (receive_event p s) (receive p (s\<lparr>ds_pc := Draining, ds_chan := ps\<rparr>))"
  using receive_waiting [OF assms(1,2)] receive_due [OF assms] by blast

lemma add_ready_ok:
  assumes "ds_ok s" and "pq_heap (dq_waiting (ds_loop s)) \<noteq> []" and "first_ready (ds_loop s) \<le> ds_time s"
  shows "loop_ok s (Adds (first_data (ds_loop s)) (ds_time s)) (s\<lparr>ds_loop := add_first (ds_loop s)\<rparr>)"
proof -
  let ?d = "ds_loop s" let ?s' = "s\<lparr>ds_loop := add_first ?d\<rparr>"
  have ok: "dq_ok ?d" using assms(1) by (simp add: ds_ok_def)
  note d = add_first_ok [OF ok assms(2)]
  have same: "pends (add_first ?d) qs = pends ?d qs" if "\<And>k. k \<in> set qs \<Longrightarrow> k < length (pq_cells (dq_waiting ?d))" for qs
    using same_entries_nth [OF d(6)] that by (intro pends_cong) (simp add: wf_at_def)
  have pend: "pends (add_first ?d) (ds_blocked s) = pends ?d (ds_blocked s)" "pends (add_first ?d) (ds_chan s) = pends ?d (ds_chan s)"
    using assms(1) by (auto simp: ds_ok_def intro!: same)
  have closing: "closing ?s' = closing s" using d(2) by (simp add: closing_def)
  have set_heap: "set (pq_heap (dq_waiting (add_first ?d))) \<subseteq> set (pq_heap (dq_waiting ?d))"
    using d(7) by (metis set_mset_add_mset_insert set_mset_mset subset_insertI)
  have "distinct (pq_heap (dq_waiting (add_first ?d)))" using d(1) by (simp add: dq_ok_def pq_ok_def)
  then have "ds_ok ?s'"
    using assms(1) d(1) set_heap same_entries_length [OF d(6)] closing by (auto simp: ds_ok_def ds_heap_def)
  moreover have "held s (first_data ?d) (first_ready ?d)" using d(4) by (simp add: held_def)
  moreover have "held ?s' x r \<longrightarrow> held s x r" for x r using pend(2) by (auto simp: held_def d(3) split: if_splits)
  moreover have "held s x r \<longrightarrow> first_data ?d = x \<or> (\<exists>r'\<le>r. held ?s' x r')" for x r using pend(2) by (auto simp: held_def d(3))
  ultimately show ?thesis using closing pend(1) assms(3) by (auto simp: loop_ok_def)
qed

lemma loop_step_ok:
  assumes "ds_ok s" and "loop_step s e s'"
  shows "loop_ok s e s'"
  using assms(2)
proof cases
  case (loop_add now)
  then have "first_ready (ds_loop s) \<le> ds_time s" using assms(1) by (force simp: ds_ok_def)
  with loop_add add_ready_ok [OF assms(1)] show ?thesis by simp
next
  case (loop_receive timer p ps)
  then show ?thesis using receive_ok [OF assms(1)] by auto
qed (use assms(1) in \<open>auto intro!: loop_ok_quiet simp: ds_ok_def\<close>)

text \<open>The same for every step of the program; what a caller asks for is outstanding afterwards.\<close>

definition step_ok :: "'a dq_state \<Rightarrow> 'a dq_event \<Rightarrow> 'a dq_state \<Rightarrow> bool" where
  "step_ok s e s' \<longleftrightarrow> ds_ok s' \<and> (closing s \<longrightarrow> closing s') \<and>
     (\<forall>x t. e = Adds x t \<longrightarrow> (\<exists>r\<le>t. outstanding s x r)) \<and>
     (\<forall>x r. outstanding s' x r \<longrightarrow> outstanding s x r \<or> e = Asks x r) \<and>
     (\<forall>x r. outstanding s x r \<or> e = Asks x r \<longrightarrow> closing s' \<or> (\<exists>t. e = Adds x t) \<or> (\<exists>r'\<le>r. outstanding s' x r'))"

lemma loop_ok_step_ok:
  assumes "loop_ok s e s'"
  shows "step_ok s e s'"
proof -
  have "(\<exists>t. e = Adds x t) \<or> (\<exists>r'\<le>r. outstanding s' x r')" if "outstanding s x r" for x r
  proof (cases "held s x r")
    case True
    then have "(\<exists>t. e = Adds x t) \<or> (\<exists>r'\<le>r. held s' x r')" using assms unfolding loop_ok_def by blast
    then show ?thesis unfolding outstanding_def by blast
  qed (use assms that in \<open>auto simp: loop_ok_def outstanding_def\<close>)
  then show ?thesis using assms by (auto simp: loop_ok_def step_ok_def outstanding_def)
qed

lemma step_ok_quiet:
  assumes "ds_ok s'" and "closing s \<longrightarrow> closing s'" and "\<And>x r. outstanding s' x r = outstanding s x r"
  shows "step_ok s Quiet s'"
  using assms by (auto simp: step_ok_def)

lemma on_queue_ok:
  assumes "ds_ok s" and "closing s \<longrightarrow> ShuttingDown (f (dq_queue (ds_loop s)))"
  shows "step_ok s Quiet (on_queue f s)"
proof (rule step_ok_quiet)
  have "pends (ds_loop (on_queue f s)) qs = pends (ds_loop s) qs" for qs by (rule pends_cong) simp
  then show "outstanding (on_queue f s) x r = outstanding s x r" for x r by (simp add: outstanding_def held_def)
qed (use assms in \<open>auto simp: ds_ok_def\<close>)

lemma AddAfter_ok:
  assumes "ds_ok s"
  shows "step_ok s (if \<not> closing s \<and> 0 < d then Asks x (ds_time s + d) else Quiet) (delaying_AddAfter x d s)"
proof (cases "\<not> closing s \<and> 0 < d")
  case True
  then have "delaying_AddAfter x d s = send x d s" by (simp add: delaying_AddAfter_def)
  with True send_ok [OF assms, of x d] show ?thesis by (auto simp: step_ok_def)
next
  case False
  then have "delaying_AddAfter x d s = s \<or> delaying_AddAfter x d s = on_queue (Add x) s" by (auto simp: delaying_AddAfter_def)
  then show ?thesis using False assms on_queue_ok [OF assms, of "Add x"] step_ok_quiet [OF assms]
    by (auto simp: closing_def)
qed

lemma dq_step_ok:
  assumes "ds_ok s" and "dq_step s e s'"
  shows "step_ok s e s'"
  using assms(2)
proof cases
  case loop
  then show ?thesis by (intro loop_ok_step_ok loop_step_ok assms(1))
next
  case (call duration item)
  then show ?thesis using AddAfter_ok [OF assms(1)] by simp
next
  case (sent us p vs)
  then have "ds_ok s'" using assms(1) by (auto simp: ds_ok_def)
  with sent show ?thesis by (auto simp: outstanding_def held_def intro!: step_ok_quiet)
next
  case (unblocked us p vs)
  then have "ds_ok s'" "closing s'" using assms(1) by (auto simp: ds_ok_def)
  with unblocked show ?thesis by (auto simp: step_ok_def outstanding_def held_def)
next
  case (taken r q)
  then show ?thesis using on_queue_ok [OF assms(1), of "\<lambda>_. q"] ShuttingDown_Get [OF taken(3)] by (simp add: closing_def)
next
  case stopped
  then have "ds_ok s'" using assms(1) by (auto simp: ds_ok_def)
  with stopped show ?thesis by (auto simp: outstanding_def held_def intro!: step_ok_quiet)
next
  case (passes t)
  then have "ds_ok s'" using assms(1) by (auto simp: ds_ok_def dest: order_trans)
  with passes show ?thesis by (auto simp: outstanding_def held_def intro!: step_ok_quiet)
qed (use on_queue_ok [OF assms(1)] in \<open>auto simp: closing_def\<close>)

lemma run_ok: "run_of dq_step s es s' \<Longrightarrow> ds_ok s \<Longrightarrow> ds_ok s'"
  by (erule run_keeps) (auto dest: dq_step_ok simp: step_ok_def)

lemma run_closing:
  assumes "run_of dq_step s es s'" and "ds_ok s" and "closing s"
  shows "closing s'"
proof -
  have "ds_ok s' \<and> closing s'" using assms(1)
  proof (rule run_keeps)
    fix a b :: "'a dq_state" and e assume "ds_ok a \<and> closing a" "dq_step a e b"
    then show "ds_ok b \<and> closing b" using dq_step_ok [of a e b] by (simp add: step_ok_def)
  qed (use assms in simp)
  then show ?thesis ..
qed

text \<open>What is outstanding was outstanding before or asked for since.\<close>

lemma outstanding_origin:
  assumes "run_of dq_step s es s'" and "ds_ok s" and "outstanding s' x r"
  shows "outstanding s x r \<or> Asks x r \<in> set es"
  using assms
proof (induction arbitrary: x r rule: run_of.induct)
  case (run_snoc s es s' e s'')
  have "step_ok s' e s''" using run_snoc(2) run_ok [OF run_snoc(1,4)] by (rule dq_step_ok [rotated])
  then have "outstanding s' x r \<or> e = Asks x r" using run_snoc(5) by (simp add: step_ok_def)
  with run_snoc(3) [OF run_snoc(4)] show ?case by auto
qed simp

text \<open>And it is added, or still outstanding for the same time or an earlier one, as long as the queue is open.\<close>

lemma outstanding_kept:
  assumes "run_of dq_step s es s'" and "ds_ok s" and "outstanding s x r" and "\<not> closing s'"
  shows "(\<exists>t. Adds x t \<in> set es) \<or> (\<exists>r'\<le>r. outstanding s' x r')"
  using assms
proof (induction rule: run_of.induct)
  case (run_snoc s es s' e s'')
  have step: "step_ok s' e s''" using run_snoc(2) run_ok [OF run_snoc(1,4)] by (rule dq_step_ok [rotated])
  then have "\<not> closing s'" using run_snoc(6) by (auto simp: step_ok_def)
  then have IH: "(\<exists>t. Adds x t \<in> set es) \<or> (\<exists>r'\<le>r. outstanding s' x r')" using run_snoc by blast
  with step run_snoc(6) show ?case unfolding step_ok_def by (metis UnCI list.set_intros(1) order_trans set_append)
qed auto

section \<open>Lemmas: the goroutine makes progress\<close>

definition dirty :: "'a dq_state \<Rightarrow> 'a set" where
  "dirty s = wq_dirty (dq_queue (ds_loop s))"

lemma Add_dirty: "wq_dirty (Add x q) = (if ShuttingDown q then wq_dirty q else insert x (wq_dirty q))"
  by (auto simp: queue_defs Let_def)

lemma dq_queue_insert: "dq_queue (dq_insert p d) = dq_queue d"
  by (simp add: dq_insert_def split: option.splits)

lemma loop_dirty:
  assumes "ds_ok s" and "loop_step s e s'" and "\<not> closing s"
  shows "dirty s \<subseteq> dirty s'" and "e = Adds x t \<Longrightarrow> x \<in> dirty s'"
  using assms(2)
proof -
  have first: "dirty (s\<lparr>ds_loop := add_first (ds_loop s)\<rparr>) = insert (first_data (ds_loop s)) (dirty s)"
    if "pq_heap (dq_waiting (ds_loop s)) \<noteq> []"
    using assms(1,3) add_first_ok(2) [OF _ that] by (simp add: dirty_def Add_dirty ds_ok_def closing_def)
  show "dirty s \<subseteq> dirty s'" using assms(2)
    by cases (use first assms(3) in \<open>auto simp: dirty_def receive_def dq_queue_insert Add_dirty closing_def\<close>)
  show "e = Adds x t \<Longrightarrow> x \<in> dirty s'" using assms(2)
    by cases (use first assms(3) in \<open>auto simp: dirty_def receive_def receive_event_def Add_dirty closing_def split: if_splits\<close>)
qed

lemma loop_run_ok:
  assumes "run_of loop_step s es s'" and "ds_ok s"
  shows "ds_ok s' \<and> closing s' = closing s \<and> ds_time s' = ds_time s"
  using assms
proof (induction rule: run_of.induct)
  case (run_snoc s es s' e s'')
  then have "loop_ok s' e s''" by (intro loop_step_ok) simp_all
  with run_snoc show ?case by (simp add: loop_ok_def)
qed simp

lemma held_kept:
  assumes "run_of loop_step s es s'" and "ds_ok s" and "held s x r" and "\<not> closing s"
  shows "dirty s \<subseteq> dirty s' \<and> (Adds x (ds_time s) \<in> set es \<and> x \<in> dirty s' \<or> (\<exists>r'\<le>r. held s' x r'))"
  using assms
proof (induction rule: run_of.induct)
  case (run_snoc s es s' e s'')
  note s' = loop_run_ok [OF run_snoc(1,4)]
  have ok: "loop_ok s' e s''" using loop_step_ok s' run_snoc(2) by blast
  have sub: "dirty s' \<subseteq> dirty s''" using loop_dirty(1) s' run_snoc(2,6) by blast
  have IH: "dirty s \<subseteq> dirty s' \<and> (Adds x (ds_time s) \<in> set es \<and> x \<in> dirty s' \<or> (\<exists>r'\<le>r. held s' x r'))"
    using run_snoc by blast
  show ?case
  proof (cases "Adds x (ds_time s) \<in> set es \<and> x \<in> dirty s'")
    case False
    then obtain r' where r': "r' \<le> r" "held s' x r'" using IH by blast
    then have "(\<exists>t. e = Adds x t) \<or> (\<exists>q\<le>r'. held s'' x q)" using ok unfolding loop_ok_def by blast
    moreover have "t = ds_time s \<and> x \<in> dirty s''" if "e = Adds x t" for t
      using ok that s' loop_dirty(2) [OF _ run_snoc(2) _ that] run_snoc(6) by (simp add: loop_ok_def)
    ultimately show ?thesis using IH sub r'(1) by (auto dest: order_trans)
  qed (use IH sub in auto)
qed auto

lemma adding_runs:
  assumes "ds_ok s" and "ds_pc s = Adding now"
  shows "\<exists>es s'. run_of loop_step s es s' \<and> (\<exists>timer. ds_pc s' = Selecting timer) \<and> ds_chan s' = ds_chan s \<and>
    (\<forall>x r. waits (ds_loop s') x = Some r \<longrightarrow> now < r)"
  using assms
proof (induction "length (ds_heap s)" arbitrary: s rule: less_induct)
  case less
  let ?d = "ds_loop s"
  show ?case
  proof (cases "pq_heap (dq_waiting ?d) = [] \<or> now < first_ready ?d")
    case True
    then have step: "loop_step s Quiet (s\<lparr>ds_pc := Selecting (nextReadyAt now s)\<rparr>)" by (rule loop_wait [OF less(3)])
    have "now < r" if "waits ?d x = Some r" for x r
    proof -
      have ok: "dq_ok ?d" using less(2) by (simp add: ds_ok_def)
      then have "pq_heap (dq_waiting ?d) \<noteq> []" using that by (auto simp: waits_iff)
      with True add_first_ok(5) [OF ok this that] show ?thesis by auto
    qed
    then show ?thesis by (intro run_oneI [of loop_step, OF step]) simp
  next
    case False
    let ?s = "s\<lparr>ds_loop := add_first ?d\<rparr>" let ?e = "Adds (first_data ?d) (ds_time s)"
    have step: "loop_step s ?e ?s" using False by (intro loop_add [OF less(3)]) auto
    then have ok: "ds_ok ?s" using loop_step_ok [OF less(2)] by (simp add: loop_ok_def)
    have "dq_ok ?d" using less(2) by (simp add: ds_ok_def)
    then have "length (ds_heap s) = Suc (length (ds_heap ?s))"
      using False arg_cong [OF add_first_ok(7), of ?d size] by (simp add: ds_heap_def)
    then obtain es s' where "run_of loop_step ?s es s'" "\<exists>timer. ds_pc s' = Selecting timer" "ds_chan s' = ds_chan s"
      "\<forall>x r. waits (ds_loop s') x = Some r \<longrightarrow> now < r"
      using less(1) [OF _ ok] less(3) by fastforce
    then show ?thesis using run_append [OF _ run_one [of loop_step, OF step]] by (metis)
  qed
qed

lemma draining_runs:
  assumes "ds_ok s" and "ds_pc s = Draining"
  shows "\<exists>es s'. run_of loop_step s es s' \<and> ds_pc s' = Top \<and> ds_chan s' = []"
  using assms
proof (induction "ds_chan s" arbitrary: s)
  case Nil
  then have "loop_step s Quiet (s\<lparr>ds_pc := Top\<rparr>)" by (intro loop_drained) simp_all
  then show ?case by (rule run_oneI) (use Nil in auto)
next
  case (Cons p ps)
  let ?s = "receive p (s\<lparr>ds_pc := Draining, ds_chan := ps\<rparr>)"
  have step: "loop_step s (receive_event p s) ?s" using Cons by (intro loop_receive) simp_all
  then have "ds_ok ?s" using loop_step_ok [OF Cons(3)] by (simp add: loop_ok_def)
  moreover have "ds_chan ?s = ps" "ds_pc ?s = Draining" by (simp_all add: receive_def)
  ultimately show ?case using Cons(1) [of ?s] run_append [OF _ run_one [of loop_step, OF step]] by metis
qed

lemma reaches_top:
  assumes "ds_ok s" and "\<not> closing s"
  shows "\<exists>es s'. run_of loop_step s es s' \<and> ds_pc s' = Top \<and> ds_chan s' = []"
proof -
  have selecting: "\<exists>es s'. run_of loop_step s es s' \<and> ds_pc s' = Top \<and> ds_chan s' = []"
    if "ds_ok s" "ds_pc s = Selecting timer" for s :: "'a dq_state" and timer
  proof (cases "ds_chan s")
    case Nil
    then show ?thesis by (intro run_oneI [of loop_step, OF loop_heartbeat [OF that(2)]]) simp
  next
    case (Cons p ps)
    let ?s = "receive p (s\<lparr>ds_pc := Draining, ds_chan := ps\<rparr>)"
    have step: "loop_step s (receive_event p s) ?s" using Cons that by (intro loop_receive) simp_all
    then have "ds_ok ?s" using loop_step_ok [OF that(1)] by (simp add: loop_ok_def)
    moreover have "ds_pc ?s = Draining" by (simp add: receive_def)
    ultimately show ?thesis using draining_runs run_append [OF _ run_one [of loop_step, OF step]] by metis
  qed
  have adding: "\<exists>es s'. run_of loop_step s es s' \<and> ds_pc s' = Top \<and> ds_chan s' = []"
    if s: "ds_ok s" "ds_pc s = Adding now" for s :: "'a dq_state" and now
  proof -
    from adding_runs [OF s] obtain es s' timer where s': "run_of loop_step s es s'" "ds_pc s' = Selecting timer" by metis
    then have "ds_ok s'" using loop_run_ok s(1) by blast
    from selecting [OF this s'(2)] show ?thesis using run_append [OF _ s'(1)] by metis
  qed
  show ?thesis
  proof (cases "ds_pc s")
    case Top
    then have step: "loop_step s Quiet (s\<lparr>ds_pc := Adding (ds_time s)\<rparr>)" using assms(2) by (rule loop_now)
    have "ds_ok (s\<lparr>ds_pc := Adding (ds_time s)\<rparr>)" using assms(1) by (simp add: ds_ok_def)
    from adding [OF this] show ?thesis using run_append [OF _ run_one [of loop_step, OF step]] by auto
  next
    case (Adding now)
    then show ?thesis by (rule adding [OF assms(1)])
  next
    case (Selecting timer)
    then show ?thesis by (rule selecting [OF assms(1)])
  next
    case Draining
    then show ?thesis by (rule draining_runs [OF assms(1)])
  next
    case Exited
    then show ?thesis using assms by (simp add: ds_ok_def)
  qed
qed

lemma due_is_added:
  assumes "ds_ok s" and "\<not> closing s" and "held s x r" and "r \<le> ds_time s"
  shows "\<exists>es s'. run_of loop_step s es s' \<and> Adds x (ds_time s) \<in> set es \<and> x \<in> dirty s'"
proof -
  obtain es1 s1 where r1: "run_of loop_step s es1 s1" "ds_pc s1 = Top" "ds_chan s1 = []"
    using reaches_top [OF assms(1,2)] by metis
  note s1 = loop_run_ok [OF r1(1) assms(1)]
  let ?s2 = "s1\<lparr>ds_pc := Adding (ds_time s1)\<rparr>"
  have step: "loop_step s1 Quiet ?s2" using s1 assms(2) by (intro loop_now [OF r1(2)]) simp
  have "ds_ok ?s2" using s1 by (auto simp: ds_ok_def)
  then obtain es3 s3 where r3: "run_of loop_step ?s2 es3 s3" "ds_chan s3 = []"
    "\<forall>x r. waits (ds_loop s3) x = Some r \<longrightarrow> ds_time s < r"
    using adding_runs [of ?s2] s1 r1(3) by fastforce
  have run: "run_of loop_step s ((es1 @ [Quiet]) @ es3) s3"
    using run_append [OF r3(1) run_snoc [of loop_step, OF r1(1) step]] .
  have "\<not> held s3 x r'" if "r' \<le> r" for r'
  proof -
    have "waits (ds_loop s3) x \<noteq> Some r'" using r3(3) that assms(4) by (meson not_le order_trans)
    then show ?thesis using r3(2) by (simp add: held_def)
  qed
  then show ?thesis using held_kept [OF run assms(1,3,2)] run by blast
qed

section \<open>Properties\<close>



text \<open>A run in which an item is asked for, sent, and becomes due.\<close>

lemma sample_run:
  "\<exists>s. run_of dq_step (newDelayingQueue 0 :: nat dq_state) [Asks 7 5, Quiet, Quiet] s \<and>
     \<not> closing s \<and> held s 7 5 \<and> ds_time s = 5 \<and> ds_pc s = Top"
proof -
  let ?n = "newDelayingQueue 0 :: nat dq_state"
  let ?a = "delaying_AddAfter 7 5 ?n" let ?b = "?a\<lparr>ds_blocked := [], ds_chan := [0]\<rparr>" let ?c = "?b\<lparr>ds_time := 5\<rparr>"
  note defs = newDelayingQueue_def delaying_AddAfter_def send_def closing_def queue_defs
  have step1: "dq_step ?n (Asks 7 5) ?a" using call [of ?n 5 7] by (simp add: defs)
  have step2: "dq_step ?a Quiet ?b" using sent [of ?a "[]" 0 "[]"] by (simp add: defs channel_size_def)
  have step3: "dq_step ?b Quiet ?c" using passes [of ?b 5] by (simp add: defs)
  have "run_of dq_step ?n (([Asks 7 5] @ [Quiet]) @ [Quiet]) ?c"
    by (rule run_snoc [of dq_step, OF run_snoc [of dq_step, OF run_one [of dq_step, OF step1] step2] step3])
  then show ?thesis by (intro exI [of _ ?c]) (simp add: defs held_def wf_at_def)
qed


lemma run_loop_steps: "run_of loop_step s es s' \<Longrightarrow> run_of dq_step s es s'"
  by (induction rule: run_of.induct) (auto intro: run_of.intros loop)


end
