(* ===== verification/FakeClient.thy ===== *)
theory FakeClient
  imports RestClient Selectors
begin

text \<open>
  The fake clientset of pkg/client/clientset/versioned (fake/clientset_generated.go and
  typed/kubeflow/v1alpha1/fake/fake_caffe2job.go), on which the tests of the repository run, with what
  it is built from under vendor/k8s.io/client-go/testing: the object tracker and the reactions of
  fixture.go, and the recording and dispatch of fake.go. The scheme of this clientset knows jobs and
  lists of jobs, so the tracker holds jobs; it stores and returns deep copies, so they are values here
  (theory \<open>DeepCopy\<close>). The parser of selector texts is the argument \<open>extract\<close>, whose \<open>None\<close> is its
  panic on a text that is not one.
\<close>

section \<open>The object tracker\<close>

record GroupVersionResource =
  gvr_Group :: string
  gvr_Version :: string
  gvr_Resource :: string

definition caffe2jobsResource :: GroupVersionResource where
  "caffe2jobsResource = \<lparr>gvr_Group = ''kubeflow.org'', gvr_Version = ''v1alpha1'', gvr_Resource = ''caffe2jobs''\<rparr>"

definition caffe2jobsKind :: GroupVersionKind where
  "caffe2jobsKind = \<lparr>gvk_Group = ''kubeflow.org'', gvk_Version = ''v1alpha1'', gvk_Kind = ''Caffe2Job''\<rparr>"

type_synonym tracker = "GroupVersionResource \<rightharpoonup> Caffe2Job list"

definition filterByNamespaceAndName :: "Caffe2Job list \<Rightarrow> string \<Rightarrow> string \<Rightarrow> Caffe2Job list" where
  "filterByNamespaceAndName objs ns name =
     filter (\<lambda>obj. \<not> (ns \<noteq> [] \<and> job_Namespace obj \<noteq> ns) \<and> \<not> (name \<noteq> [] \<and> job_Name obj \<noteq> name)) objs"

text \<open>\<open>t.scheme.New(listGVK)\<close> knows the list of jobs only.\<close>

definition tracker_List ::
  "tracker \<Rightarrow> GroupVersionResource \<Rightarrow> GroupVersionKind \<Rightarrow> string \<Rightarrow> go_error + Caffe2Job list" where
  "tracker_List t gvr gvk ns =
     (if gvk \<noteq> caffe2jobsKind then Inl (Errorf ''no kind %q is registered'' [gvk_Kind gvk @ ''List''] [])
      else (case t gvr of
              None \<Rightarrow> Inr []
            | Some objs \<Rightarrow> Inr (filterByNamespaceAndName objs ns [])))"

definition tracker_Get :: "tracker \<Rightarrow> GroupVersionResource \<Rightarrow> string \<Rightarrow> string \<Rightarrow> go_error + Caffe2Job" where
  "tracker_Get t gvr ns name =
     (case t gvr of
        None \<Rightarrow> Inl (StatusError ''NotFound'' name)
      | Some objs \<Rightarrow>
          (case filterByNamespaceAndName objs ns name of
             [] \<Rightarrow> Inl (StatusError ''NotFound'' name)
           | [obj] \<Rightarrow> Inr obj
           | _ \<Rightarrow> Inl (Errorf ''more than one object matched gvr %s, ns: %q name: %q'' [gvr_Resource gvr, ns, name] [])))"

text \<open>The object that an addition or a deletion meets: the first one of the same namespace and name.\<close>

definition same_key :: "string \<Rightarrow> string \<Rightarrow> Caffe2Job \<Rightarrow> bool" where
  "same_key ns name obj \<longleftrightarrow> job_Namespace obj = ns \<and> job_Name obj = name"

fun replace_first :: "('a \<Rightarrow> bool) \<Rightarrow> 'a \<Rightarrow> 'a list \<Rightarrow> 'a list" where
  "replace_first P y [] = []"
| "replace_first P y (x # xs) = (if P x then y # xs else x # replace_first P y xs)"

fun remove_first :: "('a \<Rightarrow> bool) \<Rightarrow> 'a list \<Rightarrow> 'a list" where
  "remove_first P [] = []"
| "remove_first P (x # xs) = (if P x then xs else x # remove_first P xs)"

definition in_namespace :: "string \<Rightarrow> Caffe2Job \<Rightarrow> Caffe2Job" where
  "in_namespace ns obj =
     (if length (job_Namespace obj) = 0 then obj\<lparr>job_Meta := (job_Meta obj)\<lparr>om_Namespace := ns\<rparr>\<rparr> else obj)"

definition tracker_objects :: "tracker \<Rightarrow> GroupVersionResource \<Rightarrow> Caffe2Job list" where
  "tracker_objects t gvr = (case t gvr of None \<Rightarrow> [] | Some objs \<Rightarrow> objs)"

definition tracker_add ::
  "GroupVersionResource \<Rightarrow> Caffe2Job \<Rightarrow> string \<Rightarrow> bool \<Rightarrow> tracker \<Rightarrow> go_error option \<times> tracker" where
  "tracker_add gvr obj ns replaceExisting t =
     (let obj = in_namespace ns obj; objs = tracker_objects t gvr;
          same = same_key (job_Namespace obj) (job_Name obj) in
      if ns \<noteq> job_Namespace obj then (Some (StatusError ''BadRequest'' (job_Name obj)), t)
      else if list_ex same objs then
        (if replaceExisting then (None, t(gvr \<mapsto> replace_first same obj objs))
         else (Some (StatusError ''AlreadyExists'' (job_Name obj)), t))
      else if replaceExisting then (Some (StatusError ''NotFound'' (job_Name obj)), t)
      else (None, t(gvr \<mapsto> objs @ [obj])))"

definition tracker_Create :: "GroupVersionResource \<Rightarrow> Caffe2Job \<Rightarrow> string \<Rightarrow> tracker \<Rightarrow> go_error option \<times> tracker" where
  "tracker_Create gvr obj ns = tracker_add gvr obj ns False"

definition tracker_Update :: "GroupVersionResource \<Rightarrow> Caffe2Job \<Rightarrow> string \<Rightarrow> tracker \<Rightarrow> go_error option \<times> tracker" where
  "tracker_Update gvr obj ns = tracker_add gvr obj ns True"

definition tracker_Delete :: "GroupVersionResource \<Rightarrow> string \<Rightarrow> string \<Rightarrow> tracker \<Rightarrow> go_error option \<times> tracker" where
  "tracker_Delete gvr ns name t =
     (if list_ex (same_key ns name) (tracker_objects t gvr)
      then (None, t(gvr \<mapsto> remove_first (same_key ns name) (tracker_objects t gvr)))
      else (Some (StatusError ''NotFound'' name), t))"

text \<open>\<open>meta.UnsafeGuessKindToResource\<close>, and \<open>Add\<close> of an object that is not a list.\<close>

definition UnsafeGuessKindToResource :: "GroupVersionKind \<Rightarrow> GroupVersionResource" where
  "UnsafeGuessKindToResource kind =
     (let singular = ToLower (gvk_Kind kind);
          resource = (\<lambda>r. \<lparr>gvr_Group = gvk_Group kind, gvr_Version = gvk_Version kind, gvr_Resource = r\<rparr>) in
      if length (gvk_Kind kind) = 0 then \<lparr>gvr_Group = [], gvr_Version = [], gvr_Resource = []\<rparr>
      else if suffix ''endpoints'' singular then resource singular
      else if last singular = CHR ''s'' then resource (singular @ ''es'')
      else if last singular = CHR ''y'' then resource (butlast singular @ ''ies'')
      else resource (singular @ ''s''))"

definition tracker_Add :: "Caffe2Job \<Rightarrow> tracker \<Rightarrow> go_error option \<times> tracker" where
  "tracker_Add obj t = tracker_add (UnsafeGuessKindToResource caffe2jobsKind) obj (job_Namespace obj) False t"

section \<open>Actions and reactions\<close>

datatype fake_action =
    ListAction GroupVersionResource GroupVersionKind string Selector
  | GetAction GroupVersionResource string string
  | CreateAction GroupVersionResource string string Caffe2Job
  | UpdateAction GroupVersionResource string string Caffe2Job
  | DeleteAction GroupVersionResource string string
  | DeleteCollectionAction GroupVersionResource string Selector
  | PatchAction GroupVersionResource string string string string
  | WatchAction GroupVersionResource string Selector

fun action_verb :: "fake_action \<Rightarrow> string" where
  "action_verb (ListAction gvr kind ns l) = ''list''"
| "action_verb (GetAction gvr ns name) = ''get''"
| "action_verb (CreateAction gvr sub ns obj) = ''create''"
| "action_verb (UpdateAction gvr sub ns obj) = ''update''"
| "action_verb (DeleteAction gvr ns name) = ''delete''"
| "action_verb (DeleteCollectionAction gvr ns l) = ''delete-collection''"
| "action_verb (PatchAction gvr sub ns name data) = ''patch''"
| "action_verb (WatchAction gvr ns l) = ''watch''"

fun action_resource :: "fake_action \<Rightarrow> GroupVersionResource" where
  "action_resource (ListAction gvr kind ns l) = gvr"
| "action_resource (GetAction gvr ns name) = gvr"
| "action_resource (CreateAction gvr sub ns obj) = gvr"
| "action_resource (UpdateAction gvr sub ns obj) = gvr"
| "action_resource (DeleteAction gvr ns name) = gvr"
| "action_resource (DeleteCollectionAction gvr ns l) = gvr"
| "action_resource (PatchAction gvr sub ns name data) = gvr"
| "action_resource (WatchAction gvr ns l) = gvr"

datatype fake_object = FakeJob Caffe2Job | FakeJobList "Caffe2Job list"

text \<open>What a reaction answers: whether it handled the action, and an object (or nil) and an error.\<close>

type_synonym reply = "fake_object option \<times> go_error option"

definition reply_of :: "('a \<Rightarrow> fake_object) \<Rightarrow> go_error + 'a \<Rightarrow> reply" where
  "reply_of f r = (case r of Inl err \<Rightarrow> (None, Some err) | Inr x \<Rightarrow> (Some (f x), None))"

fun ObjectReaction :: "fake_action \<Rightarrow> tracker \<Rightarrow> (bool \<times> reply) \<times> tracker" where
  "ObjectReaction (ListAction gvr kind ns l) t = ((True, reply_of FakeJobList (tracker_List t gvr kind ns)), t)"
| "ObjectReaction (GetAction gvr ns name) t = ((True, reply_of FakeJob (tracker_Get t gvr ns name)), t)"
| "ObjectReaction (CreateAction gvr sub ns obj) t =
     (case (if sub = [] then tracker_Create gvr obj ns t else tracker_Update gvr obj ns t) of
        (Some err, t') \<Rightarrow> ((True, (None, Some err)), t')
      | (None, t') \<Rightarrow> ((True, reply_of FakeJob (tracker_Get t' gvr ns (job_Name obj))), t'))"
| "ObjectReaction (UpdateAction gvr sub ns obj) t =
     (case tracker_Update gvr obj ns t of
        (Some err, t') \<Rightarrow> ((True, (None, Some err)), t')
      | (None, t') \<Rightarrow> ((True, reply_of FakeJob (tracker_Get t' gvr ns (job_Name obj))), t'))"
| "ObjectReaction (DeleteAction gvr ns name) t =
     (case tracker_Delete gvr ns name t of (err, t') \<Rightarrow> ((True, (None, err)), t'))"
| "ObjectReaction action t =
     ((False, (None, Some (Errorf ''no reaction implemented for %s'' [action_verb action] []))), t)"

record reactor =
  re_Verb :: string
  re_Resource :: string
  re_React :: "fake_action \<Rightarrow> tracker \<Rightarrow> (bool \<times> reply) \<times> tracker"

definition Handles :: "reactor \<Rightarrow> fake_action \<Rightarrow> bool" where
  "Handles r action \<longleftrightarrow>
     (re_Verb r = ''*'' \<or> re_Verb r = action_verb action) \<and>
     (re_Resource r = ''*'' \<or> re_Resource r = gvr_Resource (action_resource action))"

text \<open>\<open>testing.Fake\<close>; of the watch reactions, the resource and the watcher they give.\<close>

record fake =
  fk_actions :: "fake_action list"
  fk_chain :: "reactor list"
  fk_watchers :: "(string \<times> nat) list"
  fk_tracker :: tracker

fun react :: "reactor list \<Rightarrow> fake_action \<Rightarrow> tracker \<Rightarrow> reply option \<times> tracker" where
  "react [] action t = (None, t)"
| "react (r # rs) action t =
     (if \<not> Handles r action then react rs action t
      else (case re_React r action t of
              ((handled, answer), t') \<Rightarrow> if \<not> handled then react rs action t' else (Some answer, t')))"

definition Invokes :: "fake_action \<Rightarrow> fake_object \<Rightarrow> fake \<Rightarrow> reply \<times> fake" where
  "Invokes action defaultReturnObj c =
     (case react (fk_chain c) action (fk_tracker c) of
        (answer, t) \<Rightarrow>
          ((case answer of None \<Rightarrow> (Some defaultReturnObj, None) | Some reply \<Rightarrow> reply),
           c\<lparr>fk_actions := fk_actions c @ [action], fk_tracker := t\<rparr>))"

definition InvokesWatch :: "fake_action \<Rightarrow> fake \<Rightarrow> (go_error + nat) \<times> fake" where
  "InvokesWatch action c =
     ((case find (\<lambda>(resource, _). resource = ''*'' \<or> resource = gvr_Resource (action_resource action)) (fk_watchers c) of
         None \<Rightarrow> Inl (Errorf ''unhandled watch: %#v'' [] [])
       | Some (_, watcher) \<Rightarrow> Inr watcher),
      c\<lparr>fk_actions := fk_actions c @ [action]\<rparr>)"

text \<open>\<open>NewSimpleClientset\<close> panics on an object it cannot add.\<close>

fun add_objects :: "Caffe2Job list \<Rightarrow> tracker \<Rightarrow> tracker outcome" where
  "add_objects [] t = Ret t"
| "add_objects (obj # objs) t =
     (case tracker_Add obj t of (Some err, _) \<Rightarrow> Panic ExplicitPanic | (None, t') \<Rightarrow> add_objects objs t')"

definition NewSimpleClientset :: "Caffe2Job list \<Rightarrow> fake outcome" where
  "NewSimpleClientset objects =
     bind_outcome (add_objects objects Map.empty) (\<lambda>t.
       Ret \<lparr>fk_actions = [], fk_chain = [\<lparr>re_Verb = ''*'', re_Resource = ''*'', re_React = ObjectReaction\<rparr>],
            fk_watchers = [(''*'', 0)], fk_tracker = t\<rparr>)"

section \<open>The fake client of jobs\<close>

definition zero_Job :: Caffe2Job where
  "zero_Job = \<lparr>job_Meta = zero_ObjectMeta,
     job_Spec = \<lparr>js_RuntimeID = [], js_Backend = None, js_ReplicaSpecs = None, js_TerminationPolicy = None\<rparr>,
     job_Status = empty_status\<rparr>"

text \<open>\<open>if obj == nil { return nil, err }; return obj.(*Caffe2Job), err\<close>\<close>

fun as_job :: "reply \<times> fake \<Rightarrow> (Caffe2Job option \<times> go_error option) outcome \<times> fake" where
  "as_job ((None, err), c) = (Ret (None, err), c)"
| "as_job ((Some (FakeJob job), err), c) = (Ret (Some job, err), c)"
| "as_job ((Some (FakeJobList jobs), err), c) = (Panic TypeAssertion, c)"

definition FakeJobs_Get :: "string \<Rightarrow> string \<Rightarrow> (fake, Caffe2Job option \<times> go_error option) action" where
  "FakeJobs_Get ns name c = as_job (Invokes (GetAction caffe2jobsResource ns name) (FakeJob zero_Job) c)"

definition FakeJobs_Create :: "string \<Rightarrow> Caffe2Job \<Rightarrow> (fake, Caffe2Job option \<times> go_error option) action" where
  "FakeJobs_Create ns job c = as_job (Invokes (CreateAction caffe2jobsResource [] ns job) (FakeJob zero_Job) c)"

definition FakeJobs_Update :: "string \<Rightarrow> Caffe2Job \<Rightarrow> (fake, Caffe2Job option \<times> go_error option) action" where
  "FakeJobs_Update ns job c = as_job (Invokes (UpdateAction caffe2jobsResource [] ns job) (FakeJob zero_Job) c)"

definition FakeJobs_Delete :: "string \<Rightarrow> string \<Rightarrow> fake \<Rightarrow> go_error option \<times> fake" where
  "FakeJobs_Delete ns name c =
     (case Invokes (DeleteAction caffe2jobsResource ns name) (FakeJob zero_Job) c of ((_, err), c') \<Rightarrow> (err, c'))"

definition FakeJobs_Patch ::
  "string \<Rightarrow> string \<Rightarrow> string \<Rightarrow> string list \<Rightarrow> (fake, Caffe2Job option \<times> go_error option) action" where
  "FakeJobs_Patch ns name data subresources c =
     as_job (Invokes (PatchAction caffe2jobsResource (path_Join subresources) ns name data) (FakeJob zero_Job) c)"

definition FakeJobs_List ::
  "(ListOptions \<Rightarrow> Selector option) \<Rightarrow> string \<Rightarrow> ListOptions \<Rightarrow> (fake, Caffe2Job list option \<times> go_error option) action" where
  "FakeJobs_List extract ns opts c =
     (case extract opts of
        None \<Rightarrow> (Panic ExplicitPanic, c)
      | Some label \<Rightarrow>
          (case Invokes (ListAction caffe2jobsResource caffe2jobsKind ns label) (FakeJobList []) c of
             ((None, err), c') \<Rightarrow> (Ret (None, err), c')
           | ((Some (FakeJobList items), err), c') \<Rightarrow>
               (Ret (Some (filter (\<lambda>item. Selector_Matches label (map_entries (om_Labels (job_Meta item)))) items), err), c')
           | ((Some (FakeJob job), err), c') \<Rightarrow> (Panic TypeAssertion, c')))"

definition FakeJobs_Watch ::
  "(ListOptions \<Rightarrow> Selector option) \<Rightarrow> string \<Rightarrow> ListOptions \<Rightarrow> (fake, go_error + nat) action" where
  "FakeJobs_Watch extract ns opts c =
     (case extract opts of
        None \<Rightarrow> (Panic ExplicitPanic, c)
      | Some label \<Rightarrow> map_prod Ret id (InvokesWatch (WatchAction caffe2jobsResource ns label) c))"

definition FakeJobs_DeleteCollection ::
  "(ListOptions \<Rightarrow> Selector option) \<Rightarrow> string \<Rightarrow> ListOptions \<Rightarrow> (fake, go_error option) action" where
  "FakeJobs_DeleteCollection extract ns listOptions c =
     (case extract listOptions of
        None \<Rightarrow> (Panic ExplicitPanic, c)
      | Some label \<Rightarrow>
          (case Invokes (DeleteCollectionAction caffe2jobsResource ns label) (FakeJobList []) c of
             ((_, err), c') \<Rightarrow> (Ret err, c')))"

section \<open>The specification\<close>

text \<open>
  What the clientset promises: jobs stored by namespace and name. A call reports what a server would,
  and changes the entry of its own job only.
\<close>

type_synonym job_map = "string \<times> string \<rightharpoonup> Caffe2Job"

datatype job_call = CallGet string | CallCreate Caffe2Job | CallUpdate Caffe2Job | CallDelete string

fun call_name :: "job_call \<Rightarrow> string" where
  "call_name (CallGet name) = name"
| "call_name (CallCreate job) = job_Name job"
| "call_name (CallUpdate job) = job_Name job"
| "call_name (CallDelete name) = name"

fun spec_call :: "string \<Rightarrow> job_call \<Rightarrow> job_map \<Rightarrow> (Caffe2Job option \<times> go_error option) \<times> job_map" where
  "spec_call ns (CallGet name) m =
     ((case m (ns, name) of None \<Rightarrow> (None, Some (StatusError ''NotFound'' name)) | Some job \<Rightarrow> (Some job, None)), m)"
| "spec_call ns (CallCreate job) m =
     (if job_Namespace job \<noteq> [] \<and> job_Namespace job \<noteq> ns then ((None, Some (StatusError ''BadRequest'' (job_Name job))), m)
      else if m (ns, job_Name job) \<noteq> None then ((None, Some (StatusError ''AlreadyExists'' (job_Name job))), m)
      else ((Some (in_namespace ns job), None), m((ns, job_Name job) \<mapsto> in_namespace ns job)))"
| "spec_call ns (CallUpdate job) m =
     (if job_Namespace job \<noteq> [] \<and> job_Namespace job \<noteq> ns then ((None, Some (StatusError ''BadRequest'' (job_Name job))), m)
      else if m (ns, job_Name job) = None then ((None, Some (StatusError ''NotFound'' (job_Name job))), m)
      else ((Some (in_namespace ns job), None), m((ns, job_Name job) \<mapsto> in_namespace ns job)))"
| "spec_call ns (CallDelete name) m =
     (if m (ns, name) = None then ((None, Some (StatusError ''NotFound'' name)), m)
      else ((None, None), m((ns, name) := None)))"

fun spec_calls :: "string \<Rightarrow> job_call list \<Rightarrow> job_map \<Rightarrow> (Caffe2Job option \<times> go_error option) list \<times> job_map" where
  "spec_calls ns [] m = ([], m)"
| "spec_calls ns (x # xs) m =
     (case spec_call ns x m of (r, m1) \<Rightarrow> (case spec_calls ns xs m1 of (rs, m2) \<Rightarrow> (r # rs, m2)))"

text \<open>The same calls on the fake client.\<close>

fun fake_call :: "string \<Rightarrow> job_call \<Rightarrow> (fake, Caffe2Job option \<times> go_error option) action" where
  "fake_call ns (CallGet name) c = FakeJobs_Get ns name c"
| "fake_call ns (CallCreate job) c = FakeJobs_Create ns job c"
| "fake_call ns (CallUpdate job) c = FakeJobs_Update ns job c"
| "fake_call ns (CallDelete name) c = (case FakeJobs_Delete ns name c of (err, c') \<Rightarrow> (Ret (None, err), c'))"

fun fake_calls :: "string \<Rightarrow> job_call list \<Rightarrow> (fake, (Caffe2Job option \<times> go_error option) list) action" where
  "fake_calls ns [] c = (Ret [], c)"
| "fake_calls ns (x # xs) c =
     (case fake_call ns x c of
        (Panic p, c1) \<Rightarrow> (Panic p, c1)
      | (Ret r, c1) \<Rightarrow>
          (case fake_calls ns xs c1 of
             (Panic p, c2) \<Rightarrow> (Panic p, c2)
           | (Ret rs, c2) \<Rightarrow> (Ret (r # rs), c2)))"

text \<open>The abstraction, and what \<open>NewSimpleClientset\<close> sets up and every call keeps.\<close>

abbreviation job_key :: "Caffe2Job \<Rightarrow> string \<times> string" where
  "job_key job \<equiv> (job_Namespace job, job_Name job)"

definition stored :: "Caffe2Job list \<Rightarrow> job_map" where
  "stored objs k = find (same_key (fst k) (snd k)) objs"

abbreviation job_objects :: "fake \<Rightarrow> Caffe2Job list" where
  "job_objects c \<equiv> tracker_objects (fk_tracker c) caffe2jobsResource"

definition simple_fake :: "fake \<Rightarrow> bool" where
  "simple_fake c \<longleftrightarrow> fk_chain c = [\<lparr>re_Verb = ''*'', re_Resource = ''*'', re_React = ObjectReaction\<rparr>] \<and>
     distinct (map job_key (job_objects c))"

section \<open>Lemmas\<close>

lemma stored_Nil [simp]: "stored [] k = None"
  by (simp add: stored_def)

lemma stored_Cons [simp]: "stored (x # xs) k = (if job_key x = k then Some x else stored xs k)"
  by (cases k) (simp add: stored_def same_key_def)

lemma stored_None_iff: "stored objs k = None \<longleftrightarrow> k \<notin> job_key ` set objs"
  by (induction objs) auto

lemma stored_Some: "stored objs k = Some job \<Longrightarrow> job \<in> set objs \<and> job_key job = k"
  by (induction objs) (auto split: if_splits)

lemma stored_append: "stored (objs @ [job]) k = (if stored objs k = None \<and> job_key job = k then Some job else stored objs k)"
  by (induction objs) auto

lemma list_ex_same_key: "list_ex (same_key ns name) objs \<longleftrightarrow> stored objs (ns, name) \<noteq> None"
  by (auto simp: stored_None_iff list_ex_iff same_key_def)

lemma stored_replace_first:
  "job_key job = (ns, name) \<Longrightarrow> stored objs (ns, name) \<noteq> None \<Longrightarrow>
     stored (replace_first (same_key ns name) job objs) = (stored objs)((ns, name) \<mapsto> job)"
  by (induction objs) (auto simp: same_key_def fun_eq_iff)

lemma keys_replace_first:
  "job_key job = (ns, name) \<Longrightarrow>
     map job_key (replace_first (same_key ns name) job objs) = map job_key objs"
  by (induction objs) (auto simp: same_key_def)

lemma stored_remove_first:
  "distinct (map job_key objs) \<Longrightarrow>
     stored (remove_first (same_key ns name) objs) = (stored objs)((ns, name) := None)"
  by (induction objs) (auto simp: same_key_def fun_eq_iff stored_None_iff)

lemma set_remove_first: "set (remove_first P xs) \<subseteq> set xs"
  by (induction xs) auto

lemma distinct_remove_first: "distinct (map f xs) \<Longrightarrow> distinct (map f (remove_first P xs))"
proof (induction xs)
  case (Cons x xs)
  then show ?case using set_remove_first [of P xs] by auto
qed simp

lemma filter_by_key:
  assumes "distinct (map job_key objs)" and "ns \<noteq> []" and "name \<noteq> []"
  shows "filterByNamespaceAndName objs ns name = (case stored objs (ns, name) of None \<Rightarrow> [] | Some job \<Rightarrow> [job])"
  using assms
proof (induction objs)
  case Nil
  then show ?case by (simp add: filterByNamespaceAndName_def)
next
  case (Cons x xs)
  then have "job_key x = (ns, name) \<Longrightarrow> stored xs (ns, name) = None"
    by (auto simp: stored_None_iff)
  with Cons show ?case by (auto simp: filterByNamespaceAndName_def)
qed

lemma tracker_Get_stored:
  assumes "distinct (map job_key (tracker_objects t gvr))" and "ns \<noteq> []" and "name \<noteq> []"
  shows "tracker_Get t gvr ns name =
    (case stored (tracker_objects t gvr) (ns, name) of None \<Rightarrow> Inl (StatusError ''NotFound'' name) | Some job \<Rightarrow> Inr job)"
  using filter_by_key [OF assms] by (auto simp: tracker_Get_def tracker_objects_def split: option.splits)

lemma in_namespace_fields [simp]: "job_Name (in_namespace ns job) = job_Name job"
  by (simp add: in_namespace_def)

lemma in_namespace_iff: "ns = job_Namespace (in_namespace ns job) \<longleftrightarrow> job_Namespace job = [] \<or> job_Namespace job = ns"
  by (auto simp: in_namespace_def)

lemma objects_upd [simp]: "tracker_objects (t(gvr \<mapsto> objs)) gvr = objs"
  by (simp add: tracker_objects_def)

lemma Invokes_simple:
  assumes "simple_fake c"
  shows "Invokes action d c =
    (case ObjectReaction action (fk_tracker c) of
       ((handled, answer), t) \<Rightarrow>
         (if handled then answer else (Some d, None), c\<lparr>fk_actions := fk_actions c @ [action], fk_tracker := t\<rparr>))"
  using assms by (auto simp: Invokes_def simple_fake_def Handles_def split: prod.splits)

text \<open>An addition, or an update, of an object that is in its namespace.\<close>

lemma tracker_add_cases:
  defines "objs \<equiv> \<lambda>t. tracker_objects t caffe2jobsResource"
  assumes "distinct (map job_key (objs t))" and "tracker_add caffe2jobsResource obj ns repl t = (err, t')"
  shows "if job_Namespace obj \<noteq> [] \<and> job_Namespace obj \<noteq> ns then err = Some (StatusError ''BadRequest'' (job_Name obj)) \<and> t' = t
    else if (stored (objs t) (ns, job_Name obj) = None) = repl
      then err = Some (StatusError (if repl then ''NotFound'' else ''AlreadyExists'') (job_Name obj)) \<and> t' = t
    else err = None \<and> stored (objs t') = (stored (objs t))((ns, job_Name obj) \<mapsto> in_namespace ns obj) \<and>
      distinct (map job_key (objs t'))"
proof (cases "job_Namespace obj \<noteq> [] \<and> job_Namespace obj \<noteq> ns")
  case True
  then have "ns \<noteq> job_Namespace (in_namespace ns obj)" using in_namespace_iff [of ns obj] by blast
  with True assms(3) show ?thesis by (auto simp: tracker_add_def Let_def)
next
  case False
  then have ns: "job_Namespace (in_namespace ns obj) = ns" using in_namespace_iff [of ns obj] by metis
  have key: "job_key (in_namespace ns obj) = (ns, job_Name obj)" by (simp add: ns)
  have new: "stored (objs t @ [in_namespace ns obj]) = (stored (objs t))((ns, job_Name obj) \<mapsto> in_namespace ns obj)"
    "distinct (map job_key (objs t @ [in_namespace ns obj]))" if "stored (objs t) (ns, job_Name obj) = None"
    using that assms(2) key by (auto simp: fun_eq_iff stored_append) (auto simp: stored_None_iff)
  show ?thesis
  proof (cases "stored (objs t) (ns, job_Name obj) = None")
    case True
    then have "tracker_add caffe2jobsResource obj ns repl t =
        (if repl then (Some (StatusError ''NotFound'' (job_Name obj)), t)
         else (None, t(caffe2jobsResource \<mapsto> objs t @ [in_namespace ns obj])))"
      by (simp add: tracker_add_def Let_def ns list_ex_same_key objs_def)
    with True False assms(3) new [OF True] show ?thesis unfolding objs_def by (auto simp del: map_append)
  next
    case present: False
    then have "tracker_add caffe2jobsResource obj ns repl t =
        (if repl then (None, t(caffe2jobsResource \<mapsto>
           replace_first (same_key ns (job_Name obj)) (in_namespace ns obj) (objs t)))
         else (Some (StatusError ''AlreadyExists'' (job_Name obj)), t))"
      by (simp add: tracker_add_def Let_def ns list_ex_same_key objs_def)
    with present False assms(2,3) stored_replace_first [OF key present] keys_replace_first [OF key, of "objs t"]
    show ?thesis unfolding objs_def by auto
  qed
qed

lemma tracker_Delete_cases:
  defines "objs \<equiv> \<lambda>t. tracker_objects t caffe2jobsResource"
  assumes "distinct (map job_key (objs t))" and "tracker_Delete caffe2jobsResource ns name t = (err, t')"
  shows "if stored (objs t) (ns, name) = None then err = Some (StatusError ''NotFound'' name) \<and> t' = t
    else err = None \<and> stored (objs t') = (stored (objs t))((ns, name) := None) \<and> distinct (map job_key (objs t'))"
  using assms(2,3) stored_remove_first [OF assms(2), of ns name] distinct_remove_first [OF assms(2)]
  by (auto simp: tracker_Delete_def list_ex_same_key objs_def split: if_splits)

lemma simple_fake_world:
  "simple_fake c \<Longrightarrow> distinct (map job_key (tracker_objects t caffe2jobsResource)) \<Longrightarrow>
     simple_fake (c\<lparr>fk_actions := as, fk_tracker := t\<rparr>)"
  by (simp add: simple_fake_def)

lemma simple_fake_actions [simp]: "simple_fake (c\<lparr>fk_actions := as\<rparr>) = simple_fake c"
  by (simp add: simple_fake_def)

lemma fake_call_refines:
  assumes "simple_fake c" and "ns \<noteq> []" and "call_name call \<noteq> []"
  shows "\<exists>c'. fake_call ns call c = (Ret (fst (spec_call ns call (stored (job_objects c)))), c') \<and>
    stored (job_objects c') = snd (spec_call ns call (stored (job_objects c))) \<and> simple_fake c' \<and>
    length (fk_actions c') = Suc (length (fk_actions c))"
proof -
  note inv = assms(1) [unfolded simple_fake_def, THEN conjunct2]
  note run = Invokes_simple [OF assms(1)] and keep = simple_fake_world [OF assms(1)]
  show ?thesis
  proof (cases call)
    case (CallGet name)
    with assms tracker_Get_stored [OF inv assms(2), of name] show ?thesis
      by (auto simp: FakeJobs_Get_def run reply_of_def keep [OF inv] inv split: option.splits)
  next
    case (CallCreate job)
    obtain err t where a: "tracker_add caffe2jobsResource job ns False (fk_tracker c) = (err, t)"
      by (cases "tracker_add caffe2jobsResource job ns False (fk_tracker c)")
    note cases = tracker_add_cases [OF inv a]
    have get: "tracker_Get t caffe2jobsResource ns (job_Name job) = Inr (in_namespace ns job)" if "err = None"
      using cases that CallCreate assms(2,3) by (subst tracker_Get_stored) (auto split: if_splits)
    show ?thesis
      using CallCreate cases a get inv keep [of t] keep [OF inv]
      by (cases err) (auto simp: FakeJobs_Create_def run tracker_Create_def reply_of_def split: if_splits)
  next
    case (CallUpdate job)
    obtain err t where a: "tracker_add caffe2jobsResource job ns True (fk_tracker c) = (err, t)"
      by (cases "tracker_add caffe2jobsResource job ns True (fk_tracker c)")
    note cases = tracker_add_cases [OF inv a]
    have get: "tracker_Get t caffe2jobsResource ns (job_Name job) = Inr (in_namespace ns job)" if "err = None"
      using cases that CallUpdate assms(2,3) by (subst tracker_Get_stored) (auto split: if_splits)
    show ?thesis
      using CallUpdate cases a get inv keep [of t] keep [OF inv]
      by (cases err) (auto simp: FakeJobs_Update_def run tracker_Update_def reply_of_def split: if_splits)
  next
    case (CallDelete name)
    obtain err t where a: "tracker_Delete caffe2jobsResource ns name (fk_tracker c) = (err, t)"
      by (cases "tracker_Delete caffe2jobsResource ns name (fk_tracker c)")
    from tracker_Delete_cases [OF inv a] CallDelete a inv keep [of t] keep [OF inv] show ?thesis
      by (auto simp: FakeJobs_Delete_def run split: if_splits)
  qed
qed

lemma fake_calls_refine:
  assumes "simple_fake c" and "ns \<noteq> []" and "list_all (\<lambda>call. call_name call \<noteq> []) calls"
  shows "\<exists>c'. fake_calls ns calls c = (Ret (fst (spec_calls ns calls (stored (job_objects c)))), c') \<and>
    stored (job_objects c') = snd (spec_calls ns calls (stored (job_objects c))) \<and> simple_fake c' \<and>
    length (fk_actions c') = length (fk_actions c) + length calls"
  using assms
proof (induction calls arbitrary: c)
  case Nil
  then show ?case by simp
next
  case (Cons call calls)
  then have "call_name call \<noteq> []" by simp
  from fake_call_refines [OF Cons.prems(1,2) this] obtain c1 where c1:
    "fake_call ns call c = (Ret (fst (spec_call ns call (stored (job_objects c)))), c1)"
    "stored (job_objects c1) = snd (spec_call ns call (stored (job_objects c)))" "simple_fake c1"
    "length (fk_actions c1) = Suc (length (fk_actions c))" by blast
  obtain c2 where "fake_calls ns calls c1 = (Ret (fst (spec_calls ns calls (stored (job_objects c1)))), c2)"
    "stored (job_objects c2) = snd (spec_calls ns calls (stored (job_objects c1)))" "simple_fake c2"
    "length (fk_actions c2) = length (fk_actions c1) + length calls"
    using Cons.IH [OF c1(3) Cons.prems(2)] Cons.prems(3) by auto
  with c1 show ?case by (auto split: prod.splits)
qed

lemma ToLower_kind: "ToLower ''Caffe2Job'' = ''caffe2job''"
  by code_simp

lemma guessed_resource: "UnsafeGuessKindToResource caffe2jobsKind = caffe2jobsResource"
  by (simp add: UnsafeGuessKindToResource_def caffe2jobsKind_def caffe2jobsResource_def ToLower_kind Let_def suffix_def)

lemma add_objects_distinct:
  assumes "add_objects objs t = Ret t'" and "distinct (map job_key (tracker_objects t caffe2jobsResource))"
  shows "distinct (map job_key (tracker_objects t' caffe2jobsResource))"
  using assms
proof (induction objs arbitrary: t)
  case (Cons obj objs)
  then obtain t1 where a: "tracker_add caffe2jobsResource obj (job_Namespace obj) False t = (None, t1)"
    and rest: "add_objects objs t1 = Ret t'"
    by (auto simp: tracker_Add_def guessed_resource split: prod.splits option.splits)
  from tracker_add_cases [OF Cons.prems(2) a] have "distinct (map job_key (tracker_objects t1 caffe2jobsResource))"
    by (auto split: if_splits)
  with Cons.IH rest show ?case by blast
qed simp

lemma NewSimpleClientset_simple: "NewSimpleClientset objects = Ret c \<Longrightarrow> simple_fake c"
  using add_objects_distinct [of objects Map.empty]
  by (auto simp: NewSimpleClientset_def simple_fake_def tracker_objects_def)

text \<open>A clientset with one job in it.\<close>

lemma one_job_clientset:
  assumes "job_Namespace job \<noteq> []" and "job_Name job \<noteq> []"
  shows "\<exists>c. NewSimpleClientset [job] = Ret c \<and> job_objects c = [job]"
  using assms by (auto simp: NewSimpleClientset_def tracker_Add_def guessed_resource tracker_add_def tracker_objects_def
      in_namespace_def  Let_def)

lemma sample_clientset: "\<exists>c. NewSimpleClientset [sample_job] = Ret c \<and> stored (job_objects c) = [(''ns'', ''job'') \<mapsto> sample_job]"
  by (auto simp: NewSimpleClientset_def tracker_Add_def guessed_resource tracker_add_def tracker_objects_def
      in_namespace_def sample_job_defs fun_eq_iff Let_def)

section \<open>Properties\<close>




text \<open>
  \<open>List\<close> gives the jobs of the namespace (of every namespace for the empty one) that the label
  selector matches, oldest first. \<open>Patch\<close> and \<open>DeleteCollection\<close> have no reaction: they change nothing and
  still report success, \<open>Patch\<close> with an empty job.
\<close>

theorem fake_list_and_unhandled:
  assumes "NewSimpleClientset objects = Ret c" and "extract opts = Some label"
  shows "(\<exists>c'. FakeJobs_List extract ns opts c = (Ret (Some (filter (\<lambda>job.
        (ns = [] \<or> job_Namespace job = ns) \<and> Selector_Matches label (map_entries (om_Labels (job_Meta job))))
        (job_objects c)), None), c') \<and> fk_tracker c' = fk_tracker c) \<and>
    (\<exists>c'. FakeJobs_Patch ns name data subresources c = (Ret (Some zero_Job, None), c') \<and> fk_tracker c' = fk_tracker c) \<and>
    (\<exists>c'. FakeJobs_DeleteCollection extract ns opts c = (Ret None, c') \<and> fk_tracker c' = fk_tracker c)"
proof -
  note run = Invokes_simple [OF NewSimpleClientset_simple [OF assms(1)]]
  have "tracker_List (fk_tracker c) caffe2jobsResource caffe2jobsKind ns =
      Inr (filter (\<lambda>job. ns = [] \<or> job_Namespace job = ns) (job_objects c))"
    by (auto simp: tracker_List_def tracker_objects_def filterByNamespaceAndName_def split: option.split
        intro!: filter_cong)
  then have "FakeJobs_List extract ns opts c = (Ret (Some (filter (\<lambda>job.
        Selector_Matches label (map_entries (om_Labels (job_Meta job))))
        (filter (\<lambda>job. ns = [] \<or> job_Namespace job = ns) (job_objects c))), None),
      c\<lparr>fk_actions := fk_actions c @ [ListAction caffe2jobsResource caffe2jobsKind ns label]\<rparr>)"
    by (simp add: FakeJobs_List_def assms(2) run reply_of_def)
  moreover have "FakeJobs_Patch ns name data subresources c = (Ret (Some zero_Job, None),
      c\<lparr>fk_actions := fk_actions c @ [PatchAction caffe2jobsResource (path_Join subresources) ns name data]\<rparr>)"
    by (simp add: FakeJobs_Patch_def run)
  moreover have "FakeJobs_DeleteCollection extract ns opts c = (Ret None,
      c\<lparr>fk_actions := fk_actions c @ [DeleteCollectionAction caffe2jobsResource ns label]\<rparr>)"
    by (simp add: FakeJobs_DeleteCollection_def assms(2) run)
  ultimately show ?thesis by simp
qed

theorem fake_list_and_unhandled_witness:
  "\<exists>c c'. NewSimpleClientset [sample_job] = Ret c \<and>
    FakeJobs_Patch ''ns'' ''job'' ''{}'' [] c = (Ret (Some zero_Job, None), c') \<and> job_objects c' = job_objects c"
proof -
  obtain c where c: "NewSimpleClientset [sample_job] = Ret c" using sample_clientset by blast
  obtain c' where "FakeJobs_Patch ''ns'' ''job'' ''{}'' [] c = (Ret (Some zero_Job, None), c')" "fk_tracker c' = fk_tracker c"
    using fake_list_and_unhandled [OF c, of "\<lambda>x. Some Everything" "\<lparr>lo_LabelSelector = [], lo_FieldSelector = [], lo_Watch = False, lo_ResourceVersion = []\<rparr>" Everything "''ns''" "''job''" "''{}''" "[]"] by blast
  moreover from this(2) have "job_objects c' = job_objects c" by (rule arg_cong)
  ultimately show ?thesis using c by blast
qed

end
