(* ===== verification/Informers.thy ===== *)
theory Informers
  imports Selectors "HOL-Library.Multiset"
begin

text \<open>
  The informer factory with its accessors and the listers of pkg/client (informers/externalversions, listers), with the
  indexed store the listers read under vendor/k8s.io/client-go/tools/cache (thread_safe_store.go,
  store.go, listers.go, index.go). A Go map is an association list in one of its iteration orders. The
  index functions do not fail: the one in use, \<open>MetaNamespaceIndexFunc\<close>, fails only on a value without
  metadata. An informer is its identity here; the goroutines that feed its store from the API server are in
  \<open>SharedInformer\<close>.
\<close>

section \<open>The indexed store\<close>

type_synonym index = "string \<Rightarrow> string list"

record 'o store =
  ts_items :: "(string \<times> 'o) list"
  ts_indexers :: "(string \<times> ('o \<Rightarrow> string list)) list"
  ts_indices :: "string \<rightharpoonup> index"

definition set_Insert :: "string \<Rightarrow> string list \<Rightarrow> string list" where
  "set_Insert x xs = (if x \<in> set xs then xs else xs @ [x])"

text \<open>The loop over the values an object is indexed under.\<close>

definition index_insert :: "string \<Rightarrow> string list \<Rightarrow> index \<Rightarrow> index" where
  "index_insert key vals i = fold (\<lambda>v i. i(v := set_Insert key (i v))) vals i"

definition index_delete :: "string \<Rightarrow> string list \<Rightarrow> index \<Rightarrow> index" where
  "index_delete key vals i = fold (\<lambda>v i. i(v := filter (\<lambda>k. k \<noteq> key) (i v))) vals i"

definition deleteFromIndices :: "'o \<Rightarrow> string \<Rightarrow> 'o store \<Rightarrow> 'o store" where
  "deleteFromIndices obj key c = c\<lparr>ts_indices :=
     fold (\<lambda>(name, indexFunc) ix.
       case ix name of
         None \<Rightarrow> ix
       | Some i \<Rightarrow> ix(name \<mapsto> index_delete key (indexFunc obj) i)) (ts_indexers c) (ts_indices c)\<rparr>"

definition updateIndices :: "'o option \<Rightarrow> 'o \<Rightarrow> string \<Rightarrow> 'o store \<Rightarrow> 'o store" where
  "updateIndices oldObj newObj key c =
     (let c1 = (case oldObj of None \<Rightarrow> c | Some old \<Rightarrow> deleteFromIndices old key c) in
      c1\<lparr>ts_indices :=
        fold (\<lambda>(name, indexFunc) ix.
          let i = (case ix name of None \<Rightarrow> (\<lambda>_. []) | Some i \<Rightarrow> i) in
          ix(name \<mapsto> index_insert key (indexFunc newObj) i)) (ts_indexers c1) (ts_indices c1)\<rparr>)"

definition ts_Add :: "string \<Rightarrow> 'o \<Rightarrow> 'o store \<Rightarrow> 'o store" where
  "ts_Add key obj c =
     updateIndices (map_of (ts_items c) key) obj key (c\<lparr>ts_items := AList.update key obj (ts_items c)\<rparr>)"

definition ts_Update :: "string \<Rightarrow> 'o \<Rightarrow> 'o store \<Rightarrow> 'o store" where
  "ts_Update key obj c =
     updateIndices (map_of (ts_items c) key) obj key (c\<lparr>ts_items := AList.update key obj (ts_items c)\<rparr>)"

definition ts_Delete :: "string \<Rightarrow> 'o store \<Rightarrow> 'o store" where
  "ts_Delete key c =
     (case map_of (ts_items c) key of
        None \<Rightarrow> c
      | Some obj \<Rightarrow> (deleteFromIndices obj key c)\<lparr>ts_items := AList.delete key (ts_items c)\<rparr>)"

definition ts_Get :: "string \<Rightarrow> 'o store \<Rightarrow> 'o option" where
  "ts_Get key c = map_of (ts_items c) key"

definition ts_List :: "'o store \<Rightarrow> 'o list" where
  "ts_List c = map snd (ts_items c)"

definition ts_Replace :: "(string \<times> 'o) list \<Rightarrow> 'o store \<Rightarrow> 'o store" where
  "ts_Replace items c =
     fold (\<lambda>(key, item). updateIndices None item key) items (c\<lparr>ts_items := items, ts_indices := Map.empty\<rparr>)"

text \<open>
  \<open>Index\<close> collects the keys of every value the argument is indexed under; the argument comes as those
  values. A key without an item would give a nil object, here \<open>None\<close>.
\<close>

definition ts_Index :: "string \<Rightarrow> string list \<Rightarrow> 'o store \<Rightarrow> go_error + 'o option list" where
  "ts_Index indexName indexKeys c =
     (case map_of (ts_indexers c) indexName of
        None \<Rightarrow> Inl (Errorf ''Index with name %s does not exist'' [indexName] [])
      | Some indexFunc \<Rightarrow>
          let i = (case ts_indices c indexName of None \<Rightarrow> (\<lambda>_. []) | Some i \<Rightarrow> i);
              returnKeySet = fold (\<lambda>v ks. fold set_Insert (i v) ks) indexKeys []
          in Inr (map (map_of (ts_items c)) returnKeySet))"

text \<open>\<open>cache.NewIndexer\<close> with \<open>MetaNamespaceKeyFunc\<close>, for objects with the given metadata.\<close>

definition NewIndexer :: "(string \<times> ('o \<Rightarrow> string list)) list \<Rightarrow> 'o store" where
  "NewIndexer indexers = \<lparr>ts_items = [], ts_indexers = indexers, ts_indices = Map.empty\<rparr>"

definition MetaNamespaceIndexFunc :: "('o \<Rightarrow> ObjectMeta) \<Rightarrow> 'o \<Rightarrow> string list" where
  "MetaNamespaceIndexFunc meta obj = [om_Namespace (meta obj)]"

definition NamespaceIndex :: string where "NamespaceIndex = ''namespace''"

definition cache_Add :: "('o \<Rightarrow> ObjectMeta) \<Rightarrow> 'o \<Rightarrow> 'o store \<Rightarrow> 'o store" where
  "cache_Add meta obj c = ts_Add (MetaNamespaceKey (meta obj)) obj c"

definition cache_Update :: "('o \<Rightarrow> ObjectMeta) \<Rightarrow> 'o \<Rightarrow> 'o store \<Rightarrow> 'o store" where
  "cache_Update meta obj c = ts_Update (MetaNamespaceKey (meta obj)) obj c"

definition cache_Delete :: "('o \<Rightarrow> ObjectMeta) \<Rightarrow> 'o \<Rightarrow> 'o store \<Rightarrow> 'o store" where
  "cache_Delete meta obj c = ts_Delete (MetaNamespaceKey (meta obj)) c"

definition cache_Replace :: "('o \<Rightarrow> ObjectMeta) \<Rightarrow> 'o list \<Rightarrow> 'o store \<Rightarrow> 'o store" where
  "cache_Replace meta list c =
     ts_Replace (fold (\<lambda>item items. AList.update (MetaNamespaceKey (meta item)) item items) list []) c"

section \<open>Listers\<close>

definition ListAll :: "('o \<Rightarrow> ObjectMeta) \<Rightarrow> 'o store \<Rightarrow> Selector \<Rightarrow> 'o list" where
  "ListAll meta store selector =
     filter (\<lambda>m. Selector_Matches selector (map_entries (om_Labels (meta m)))) (ts_List store)"

text \<open>Reading the metadata of a nil object panics.\<close>

fun select_items :: "('o \<Rightarrow> ObjectMeta) \<Rightarrow> Selector \<Rightarrow> 'o option list \<Rightarrow> 'o list outcome" where
  "select_items meta selector [] = Ret []"
| "select_items meta selector (m # ms) =
     bind_outcome (deref m) (\<lambda>obj.
       bind_outcome (select_items meta selector ms) (\<lambda>objs.
         Ret (if Selector_Matches selector (map_entries (om_Labels (meta obj))) then obj # objs else objs)))"

definition ListAllByNamespace :: "('o \<Rightarrow> ObjectMeta) \<Rightarrow> 'o store \<Rightarrow> string \<Rightarrow> Selector \<Rightarrow> 'o list outcome" where
  "ListAllByNamespace meta indexer namespace selector =
     (if namespace = [] then Ret (ListAll meta indexer selector)
      else (case ts_Index NamespaceIndex [namespace] indexer of
              Inl err \<Rightarrow>
                Ret (filter (\<lambda>m. om_Namespace (meta m) = namespace \<and>
                       Selector_Matches selector (map_entries (om_Labels (meta m)))) (ts_List indexer))
            | Inr items \<Rightarrow> select_items meta selector items))"

definition Caffe2JobLister_List :: "Caffe2Job store \<Rightarrow> Selector \<Rightarrow> Caffe2Job list" where
  "Caffe2JobLister_List indexer selector = ListAll job_Meta indexer selector"

definition Caffe2JobNamespaceLister_List :: "Caffe2Job store \<Rightarrow> string \<Rightarrow> Selector \<Rightarrow> Caffe2Job list outcome" where
  "Caffe2JobNamespaceLister_List indexer namespace selector = ListAllByNamespace job_Meta indexer namespace selector"

definition Caffe2JobNamespaceLister_Get :: "Caffe2Job store \<Rightarrow> string \<Rightarrow> string \<Rightarrow> go_error + Caffe2Job" where
  "Caffe2JobNamespaceLister_Get indexer namespace name =
     (case ts_Get (namespace @ ''/'' @ name) indexer of
        None \<Rightarrow> Inl (StatusError ''NotFound'' name)
      | Some job \<Rightarrow> Inr job)"

section \<open>The informer factory\<close>

text \<open>
  The informers a factory has made, by type, those it has started, and the goroutines it has spawned,
  last one first. An informer is a number; \<open>newFunc\<close> makes it.
\<close>

record factory =
  fc_informers :: "(string \<times> nat) list"
  fc_startedInformers :: "string set"
  fc_running :: "nat list"

definition NewSharedInformerFactory :: factory where
  "NewSharedInformerFactory = \<lparr>fc_informers = [], fc_startedInformers = {}, fc_running = []\<rparr>"

definition InformerFor :: "string \<Rightarrow> (nat \<Rightarrow> nat \<times> nat) \<Rightarrow> factory \<times> nat \<Rightarrow> nat \<times> factory \<times> nat" where
  "InformerFor informerType newFunc s =
     (case s of (f, w) \<Rightarrow>
        (case map_of (fc_informers f) informerType of
           Some informer \<Rightarrow> (informer, f, w)
         | None \<Rightarrow>
             let (informer, w') = newFunc w in
             (informer, f\<lparr>fc_informers := AList.update informerType informer (fc_informers f)\<rparr>, w')))"

definition factory_Start :: "factory \<Rightarrow> factory" where
  "factory_Start f =
     fold (\<lambda>(informerType, informer) f.
       if informerType \<notin> fc_startedInformers f
       then f\<lparr>fc_running := informer # fc_running f,
              fc_startedInformers := insert informerType (fc_startedInformers f)\<rparr>
       else f) (fc_informers f) f"

text \<open>\<open>synced\<close> is \<open>cache.WaitForCacheSync\<close> on one informer.\<close>

definition factory_WaitForCacheSync :: "(nat \<Rightarrow> bool) \<Rightarrow> factory \<Rightarrow> (string \<times> bool) list" where
  "factory_WaitForCacheSync synced f =
     map (\<lambda>(informType, informer). (informType, synced informer))
       (filter (\<lambda>(informerType, informer). informerType \<in> fc_startedInformers f) (fc_informers f))"

text \<open>\<open>Caffe2JobInformer.Informer\<close>; \<open>newFunc\<close> is \<open>defaultCaffe2JobInformer\<close>, which makes a new informer.\<close>

definition defaultCaffe2JobInformer :: "nat \<Rightarrow> nat \<times> nat" where
  "defaultCaffe2JobInformer w = (w, Suc w)"

text \<open>
  The accessors that lead from a factory to its informer of jobs. Each keeps the pointer to the factory, and the
  factories are a memory. The indexer of an informer has the informer's number.
\<close>

type_synonym factory_ptr = nat
type_synonym factories = "(factory_ptr \<Rightarrow> factory) \<times> nat"

record kubeflow_group =
  kg_factory :: factory_ptr

record v1alpha1_version =
  va_factory :: factory_ptr

record caffe2JobInformer =
  ji_factory :: factory_ptr

definition kubeflow_New :: "factory_ptr \<Rightarrow> kubeflow_group" where
  "kubeflow_New f = \<lparr>kg_factory = f\<rparr>"

definition v1alpha1_New :: "factory_ptr \<Rightarrow> v1alpha1_version" where
  "v1alpha1_New f = \<lparr>va_factory = f\<rparr>"

definition factory_Kubeflow :: "factory_ptr \<Rightarrow> kubeflow_group" where
  "factory_Kubeflow f = kubeflow_New f"

definition group_V1alpha1 :: "kubeflow_group \<Rightarrow> v1alpha1_version" where
  "group_V1alpha1 g = v1alpha1_New (kg_factory g)"

definition version_Caffe2Jobs :: "v1alpha1_version \<Rightarrow> caffe2JobInformer" where
  "version_Caffe2Jobs v = \<lparr>ji_factory = va_factory v\<rparr>"

definition Caffe2JobInformer_Informer :: "caffe2JobInformer \<Rightarrow> factories \<Rightarrow> nat \<times> factories" where
  "Caffe2JobInformer_Informer ji s =
     (case s of (fs, w) \<Rightarrow>
        (case InformerFor ''*v1alpha1.Caffe2Job'' defaultCaffe2JobInformer (fs (ji_factory ji), w) of
           (informer, f, w') \<Rightarrow> (informer, fs(ji_factory ji := f), w')))"

record caffe2JobLister =
  jl_indexer :: nat

record caffe2JobNamespaceLister =
  nl_indexer :: nat
  nl_namespace :: string

definition NewCaffe2JobLister :: "nat \<Rightarrow> caffe2JobLister" where
  "NewCaffe2JobLister indexer = \<lparr>jl_indexer = indexer\<rparr>"

definition Caffe2JobLister_Caffe2Jobs :: "caffe2JobLister \<Rightarrow> string \<Rightarrow> caffe2JobNamespaceLister" where
  "Caffe2JobLister_Caffe2Jobs s namespace = \<lparr>nl_indexer = jl_indexer s, nl_namespace = namespace\<rparr>"

definition Caffe2JobInformer_Lister :: "caffe2JobInformer \<Rightarrow> factories \<Rightarrow> caffe2JobLister \<times> factories" where
  "Caffe2JobInformer_Lister ji s = (case Caffe2JobInformer_Informer ji s of (informer, s') \<Rightarrow> (NewCaffe2JobLister informer, s'))"

text \<open>\<open>ForResource\<close>, with the resource as group, version and name; its answer keeps the group and the name.\<close>

record genericInformer =
  gi_informer :: nat
  gi_resource :: "string \<times> string"

record genericLister =
  gl_indexer :: nat
  gl_resource :: "string \<times> string"

definition NewGenericLister :: "nat \<Rightarrow> string \<times> string \<Rightarrow> genericLister" where
  "NewGenericLister indexer resource = \<lparr>gl_indexer = indexer, gl_resource = resource\<rparr>"

definition genericInformer_Informer :: "genericInformer \<Rightarrow> nat" where
  "genericInformer_Informer f = gi_informer f"

definition genericInformer_Lister :: "genericInformer \<Rightarrow> genericLister" where
  "genericInformer_Lister f = NewGenericLister (genericInformer_Informer f) (gi_resource f)"

definition ForResource ::
  "factory_ptr \<Rightarrow> string \<times> string \<times> string \<Rightarrow> factories \<Rightarrow> (go_error + genericInformer) \<times> factories" where
  "ForResource f resource s =
     (if resource = (GroupName, GroupVersion, ''caffe2jobs'')
      then (case Caffe2JobInformer_Informer (version_Caffe2Jobs (group_V1alpha1 (factory_Kubeflow f))) s of
              (informer, s') \<Rightarrow>
                (Inr \<lparr>gi_informer = informer, gi_resource = (fst resource, snd (snd resource))\<rparr>, s'))
      else (Inl (Errorf ''no informer found for %v'' [snd (snd resource)] []), s))"

lemmas accessor_defs = factory_Kubeflow_def kubeflow_New_def group_V1alpha1_def v1alpha1_New_def version_Caffe2Jobs_def

section \<open>Lemmas: the index\<close>

definition index_at :: "'o store \<Rightarrow> string \<Rightarrow> index" where
  "index_at c name = (case ts_indices c name of None \<Rightarrow> (\<lambda>_. []) | Some i \<Rightarrow> i)"

text \<open>The index holds, under every value, the keys of exactly the given items that have that value.\<close>

definition indexes :: "(string \<times> 'o) list \<Rightarrow> 'o store \<Rightarrow> bool" where
  "indexes items c \<longleftrightarrow> (\<forall>name f v. map_of (ts_indexers c) name = Some f \<longrightarrow>
     distinct (index_at c name v) \<and>
     set (index_at c name v) = {key. \<exists>obj. map_of items key = Some obj \<and> v \<in> set (f obj)})"

definition store_ok :: "'o store \<Rightarrow> bool" where
  "store_ok c \<longleftrightarrow> wf_map (ts_indexers c) \<and> wf_map (ts_items c) \<and> indexes (ts_items c) c"

lemma index_insert_at:
  "distinct (i v) \<Longrightarrow> distinct (index_insert key vals i v) \<and>
     set (index_insert key vals i v) = set (i v) \<union> (if v \<in> set vals then {key} else {})"
proof (induction vals arbitrary: i)
  case (Cons w vals)
  define j where "j = i(w := set_Insert key (i w))"
  have "distinct (j v)" using Cons.prems by (auto simp: set_Insert_def j_def)
  moreover have "index_insert key (w # vals) i = index_insert key vals j" by (simp add: index_insert_def j_def)
  moreover have "set (j v) = set (i v) \<union> (if v = w then {key} else {})" by (auto simp: set_Insert_def j_def)
  ultimately show ?case using Cons.IH [where i = j] by auto
qed (simp add: index_insert_def)

lemma index_delete_at:
  "distinct (i v) \<Longrightarrow> distinct (index_delete key vals i v) \<and>
     set (index_delete key vals i v) = set (i v) - (if v \<in> set vals then {key} else {})"
proof (induction vals arbitrary: i)
  case (Cons w vals)
  define j where "j = i(w := filter (\<lambda>k. k \<noteq> key) (i w))"
  have "distinct (j v)" using Cons.prems by (auto simp: j_def)
  moreover have "index_delete key (w # vals) i = index_delete key vals j" by (simp add: index_delete_def j_def)
  moreover have "set (j v) = set (i v) - (if v = w then {key} else {})" by (auto simp: j_def)
  ultimately show ?case using Cons.IH [where i = j] by auto
qed (simp add: index_delete_def)

text \<open>A loop over the indexers that treats each name on its own.\<close>

lemma fold_indexers:
  assumes g: "\<And>name f ix. g (name, f) ix = ix(name := h f (ix name))"
  shows "wf_map xs \<Longrightarrow> fold g xs ix name = (case map_of xs name of None \<Rightarrow> ix name | Some f \<Rightarrow> h f (ix name))"
proof (induction xs arbitrary: ix)
  case (Cons x xs)
  obtain n f where x: "x = (n, f)" by (cases x)
  have "fold g (x # xs) ix name = fold g xs (ix(n := h f (ix n))) name" by (simp add: x g)
  moreover have "map_of xs n = None" using Cons.prems x by (simp add: map_of_eq_None_iff)
  ultimately show ?case using Cons x by (auto split: option.splits)
qed simp

lemma deleteFromIndices_at:
  assumes "wf_map (ts_indexers c)" and "map_of (ts_indexers c) name = Some f"
  shows "index_at (deleteFromIndices obj key c) name v =
    (if ts_indices c name = None then [] else index_delete key (f obj) (index_at c name) v)"
proof -
  have "ts_indices (deleteFromIndices obj key c) name = map_option (index_delete key (f obj)) (ts_indices c name)"
    unfolding deleteFromIndices_def using assms(2)
    by (simp, subst fold_indexers [OF _ assms(1), where h = "\<lambda>f. map_option (index_delete key (f obj))"])
      (auto simp: fun_eq_iff split: option.split)
  then show ?thesis by (simp add: index_at_def split: option.split)
qed

lemma updateIndices_at:
  assumes "wf_map (ts_indexers c)" and "map_of (ts_indexers c) name = Some f"
  shows "index_at (updateIndices None obj key c) name v = index_insert key (f obj) (index_at c name) v"
proof -
  have "ts_indices (updateIndices None obj key c) name = Some (index_insert key (f obj) (index_at c name))"
    unfolding updateIndices_def index_at_def using assms(2)
    by (simp, subst fold_indexers [OF _ assms(1), where
          h = "\<lambda>f x. Some (index_insert key (f obj) (case x of None \<Rightarrow> (\<lambda>_. []) | Some i \<Rightarrow> i))"])
      (auto simp: fun_eq_iff split: option.split)
  then show ?thesis by (simp add: index_at_def)
qed

lemma index_frame [simp]:
  "ts_indexers (deleteFromIndices obj key c) = ts_indexers c" "ts_items (deleteFromIndices obj key c) = ts_items c"
  "ts_indexers (updateIndices old obj key c) = ts_indexers c" "ts_items (updateIndices old obj key c) = ts_items c"
  by (simp_all add: deleteFromIndices_def updateIndices_def Let_def split: option.split)

lemma index_at_items [simp]: "index_at (c\<lparr>ts_items := items\<rparr>) = index_at c"
  by (simp add: index_at_def fun_eq_iff)

lemma indexes_insert:
  assumes "wf_map (ts_indexers c)" and "indexes items c" and "map_of items key = None"
    and "map_of items' = (map_of items)(key \<mapsto> obj)"
  shows "indexes items' (updateIndices None obj key c)"
  unfolding indexes_def index_frame
proof (intro allI impI)
  fix name f v
  assume f: "map_of (ts_indexers c) name = Some f"
  with assms(2) have "distinct (index_at c name v)"
    "set (index_at c name v) = {key. \<exists>obj. map_of items key = Some obj \<and> v \<in> set (f obj)}"
    by (auto simp: indexes_def)
  with index_insert_at [where i = "index_at c name" and v = v, OF this(1), of key "f obj"] assms(3,4)
  show "distinct (index_at (updateIndices None obj key c) name v) \<and>
      set (index_at (updateIndices None obj key c) name v) =
        {key. \<exists>obj. map_of items' key = Some obj \<and> v \<in> set (f obj)}"
    by (auto simp: updateIndices_at [OF assms(1) f])
qed

lemma indexes_delete:
  assumes "wf_map (ts_indexers c)" and "indexes items c" and "map_of items key = Some old"
    and "map_of items' = (map_of items)(key := None)"
  shows "indexes items' (deleteFromIndices old key c)"
  unfolding indexes_def index_frame
proof (intro allI impI)
  fix name f v
  assume f: "map_of (ts_indexers c) name = Some f"
  with assms(2) have i: "distinct (index_at c name v)"
    "set (index_at c name v) = {key. \<exists>obj. map_of items key = Some obj \<and> v \<in> set (f obj)}"
    by (auto simp: indexes_def)
  show "distinct (index_at (deleteFromIndices old key c) name v) \<and>
      set (index_at (deleteFromIndices old key c) name v) =
        {key. \<exists>obj. map_of items' key = Some obj \<and> v \<in> set (f obj)}"
  proof (cases "ts_indices c name")
    case None
    with i(2) have "{key. \<exists>obj. map_of items key = Some obj \<and> v \<in> set (f obj)} = {}" by (simp add: index_at_def)
    then show ?thesis using None assms(4) by (auto simp: deleteFromIndices_at [OF assms(1) f])
  next
    case Some
    with index_delete_at [where i = "index_at c name" and v = v, OF i(1), of key "f old"] i(2) assms(3,4) show ?thesis
      by (auto simp: deleteFromIndices_at [OF assms(1) f])
  qed
qed

section \<open>Lemmas: the store as a map\<close>

text \<open>
  A store of objects by key: what putting and deleting do to the contents, and an invariant they keep.
\<close>

locale keyed_store =
  fixes ok :: "'s \<Rightarrow> bool"
    and contents :: "'s \<Rightarrow> 'k \<Rightarrow> 'o option"
    and put :: "'k \<Rightarrow> 'o \<Rightarrow> 's \<Rightarrow> 's"
    and del :: "'k \<Rightarrow> 's \<Rightarrow> 's"
  assumes contents_put: "ok s \<Longrightarrow> contents (put k x s) = (contents s)(k \<mapsto> x)"
    and contents_del: "ok s \<Longrightarrow> contents (del k s) = (contents s)(k := None)"
    and ok_put: "ok s \<Longrightarrow> ok (put k x s)"
    and ok_del: "ok s \<Longrightarrow> ok (del k s)"
begin

text \<open>A sequence of notifications: the last one about a key decides.\<close>

definition apply_changes :: "('k \<times> 'o option) list \<Rightarrow> 's \<Rightarrow> 's" where
  "apply_changes = fold (\<lambda>(k, x). case x of None \<Rightarrow> del k | Some x \<Rightarrow> put k x)"

lemma changes_ok: "ok s \<Longrightarrow> ok (apply_changes xs s)"
  by (induction xs arbitrary: s) (auto simp: apply_changes_def ok_put ok_del split: option.splits)

lemma changes_contents:
  "ok s \<Longrightarrow> contents (apply_changes xs s) k = (case map_of (rev xs) k of None \<Rightarrow> contents s k | Some x \<Rightarrow> x)"
proof (induction xs arbitrary: s)
  case (Cons kx xs)
  obtain k' x where kx: "kx = (k', x)" by (cases kx)
  let ?s = "case x of None \<Rightarrow> del k' s | Some x \<Rightarrow> put k' x s"
  have "apply_changes (kx # xs) s = apply_changes xs ?s"
    by (simp add: apply_changes_def kx split: option.split)
  moreover have "ok ?s" "contents ?s = (contents s)(k' := x)"
    using Cons.prems by (auto simp: ok_put ok_del contents_put contents_del split: option.split)
  ultimately show ?case using Cons.IH [of ?s] by (auto simp: kx map_add_def split: option.splits)
qed (simp add: apply_changes_def)

end

lemma ts_Add_ok:
  assumes "store_ok c"
  shows "store_ok (ts_Add key obj c)"
proof -
  have wf: "wf_map (ts_indexers c)" and items: "wf_map (ts_items c)" and i: "indexes (ts_items c) c"
    using assms by (simp_all add: store_ok_def)
  let ?items = "AList.update key obj (ts_items c)" and ?c = "c\<lparr>ts_items := AList.update key obj (ts_items c)\<rparr>"
  have i': "indexes (ts_items c) ?c" using i by (simp add: indexes_def)
  have "indexes ?items (updateIndices (map_of (ts_items c) key) obj key ?c)"
  proof (cases "map_of (ts_items c) key")
    case None
    then show ?thesis using indexes_insert [of ?c "ts_items c" key ?items obj] wf i' by (simp add: update_conv')
  next
    case (Some old)
    let ?less = "AList.delete key (ts_items c)"
    have "indexes ?less (deleteFromIndices old key ?c)"
      using indexes_delete [of ?c "ts_items c" key old ?less] wf i' Some by (simp add: delete_conv')
    then have "indexes ?items (updateIndices None obj key (deleteFromIndices old key ?c))"
      using wf by (intro indexes_insert [of _ ?less]) (simp_all add: delete_conv' update_conv')
    then show ?thesis using Some by (simp add: updateIndices_def)
  qed
  with wf items show ?thesis by (simp add: store_ok_def ts_Add_def distinct_update)
qed

lemma ts_Delete_ok:
  assumes "store_ok c"
  shows "store_ok (ts_Delete key c)"
proof (cases "map_of (ts_items c) key")
  case None
  with assms show ?thesis by (simp add: ts_Delete_def)
next
  case (Some old)
  let ?less = "AList.delete key (ts_items c)"
  have "indexes ?less (deleteFromIndices old key c)"
    using indexes_delete [of c "ts_items c" key old ?less] assms Some by (simp add: store_ok_def delete_conv')
  with assms Some show ?thesis by (simp add: store_ok_def ts_Delete_def distinct_delete indexes_def)
qed

lemma ts_contents:
  "ts_Get k (ts_Add key obj c) = (if k = key then Some obj else ts_Get k c)"
  "ts_Get k (ts_Delete key c) = (if k = key then None else ts_Get k c)"
  by (auto simp: ts_Get_def ts_Add_def ts_Delete_def update_conv' delete_conv' split: option.split)

interpretation items: keyed_store store_ok "\<lambda>c k. ts_Get k c" ts_Add ts_Delete
  by unfold_locales (auto simp: ts_contents ts_Add_ok ts_Delete_ok fun_eq_iff)

text \<open>\<open>Replace\<close> builds the index up from nothing.\<close>

lemma fold_updateIndices:
  assumes "wf_map (ts_indexers c)" and "indexes seen c" and "distinct (map fst (seen @ items))"
  shows "indexes (rev items @ seen) (fold (\<lambda>(key, item). updateIndices None item key) items c)"
  using assms
proof (induction items arbitrary: seen c)
  case (Cons kx items)
  obtain k x where kx: "kx = (k, x)" by (cases kx)
  have "map_of seen k = None" using Cons.prems(3) kx by (auto simp: map_of_eq_None_iff)
  then have "indexes ((k, x) # seen) (updateIndices None x k c)"
    using indexes_insert [OF Cons.prems(1,2), where key = k and obj = x] by simp
  with Cons.IH [of "updateIndices None x k c" "(k, x) # seen"] Cons.prems show ?case by (simp add: kx)
qed simp

lemma fold_updateIndices_frame:
  "ts_indexers (fold (\<lambda>(key, item). updateIndices None item key) items c) = ts_indexers c \<and>
   ts_items (fold (\<lambda>(key, item). updateIndices None item key) items c) = ts_items c"
  by (induction items arbitrary: c) auto

lemma ts_Replace_ok:
  assumes "wf_map (ts_indexers c)" and "wf_map items"
  shows "store_ok (ts_Replace items c)" "ts_items (ts_Replace items c) = items"
proof -
  let ?c = "c\<lparr>ts_items := items, ts_indices := Map.empty\<rparr>"
  have "indexes [] ?c" by (simp add: indexes_def index_at_def)
  then have "indexes (rev items @ []) (ts_Replace items c)"
    unfolding ts_Replace_def by (rule fold_updateIndices [rotated]) (use assms in simp_all)
  moreover have "map_of (rev items) = map_of items"
  proof
    fix k
    have "wf_map (rev items)" using assms(2) by (simp add: rev_map [symmetric])
    then show "map_of (rev items) k = map_of items k"
      using assms(2) by (metis map_of_eq_Some_iff not_None_eq set_rev)
  qed
  ultimately have "indexes items (ts_Replace items c)" by (simp add: indexes_def)
  with assms fold_updateIndices_frame [of items ?c]
  show "store_ok (ts_Replace items c)" "ts_items (ts_Replace items c) = items"
    by (simp_all add: store_ok_def ts_Replace_def)
qed

section \<open>Lemmas: listing\<close>

text \<open>The operations that feed a store, and a store fed by them.\<close>

datatype 'o cache_op = OpAdd 'o | OpUpdate 'o | OpDelete 'o | OpReplace "'o list"

fun cache_do :: "('o \<Rightarrow> ObjectMeta) \<Rightarrow> 'o cache_op \<Rightarrow> 'o store \<Rightarrow> 'o store" where
  "cache_do meta (OpAdd obj) c = cache_Add meta obj c"
| "cache_do meta (OpUpdate obj) c = cache_Update meta obj c"
| "cache_do meta (OpDelete obj) c = cache_Delete meta obj c"
| "cache_do meta (OpReplace objs) c = cache_Replace meta objs c"

definition namespaced_cache :: "('o \<Rightarrow> ObjectMeta) \<Rightarrow> 'o cache_op list \<Rightarrow> 'o store" where
  "namespaced_cache meta ops =
     fold (cache_do meta) ops (NewIndexer [(NamespaceIndex, MetaNamespaceIndexFunc meta)])"

lemma wf_keyed: "wf_map items \<Longrightarrow> wf_map (fold (\<lambda>item items. AList.update (f item) item items) list items)"
  by (induction list arbitrary: items) (simp_all add: distinct_update)

lemma ts_Add_indexers [simp]: "ts_indexers (ts_Add k x c) = ts_indexers c" "ts_indexers (ts_Delete k c) = ts_indexers c"
  by (simp_all add: ts_Add_def ts_Delete_def split: option.split)

lemma ts_Replace_indexers [simp]: "ts_indexers (ts_Replace items c) = ts_indexers c"
  by (simp add: ts_Replace_def fold_updateIndices_frame)

lemma ts_Update_Add: "ts_Update = ts_Add"
  by (simp add: fun_eq_iff ts_Update_def ts_Add_def)

lemmas cache_ops = cache_Add_def cache_Update_def cache_Delete_def cache_Replace_def ts_Update_Add

lemma cache_do_ok:
  assumes "store_ok c"
  shows "store_ok (cache_do meta op c) \<and> ts_indexers (cache_do meta op c) = ts_indexers c"
proof (cases op)
  case (OpReplace objs)
  have "wf_map (ts_indexers c)" using assms by (simp add: store_ok_def)
  with OpReplace show ?thesis by (simp add: cache_ops ts_Replace_ok(1) wf_keyed)
qed (use assms in \<open>simp_all add: cache_ops ts_Add_ok ts_Delete_ok\<close>)

lemma namespaced_cache_ok:
  "store_ok (namespaced_cache meta ops)"
  "ts_indexers (namespaced_cache meta ops) = [(NamespaceIndex, MetaNamespaceIndexFunc meta)]"
proof -
  have "store_ok (fold (cache_do meta) ops c) \<and> ts_indexers (fold (cache_do meta) ops c) = ts_indexers c" if "store_ok c" for c
    using that by (induction ops arbitrary: c) (simp_all add: cache_do_ok)
  moreover have "store_ok (NewIndexer [(NamespaceIndex, MetaNamespaceIndexFunc meta)])"
    by (simp add: store_ok_def NewIndexer_def indexes_def index_at_def)
  ultimately show "store_ok (namespaced_cache meta ops)"
    "ts_indexers (namespaced_cache meta ops) = [(NamespaceIndex, MetaNamespaceIndexFunc meta)]"
    by (auto simp: namespaced_cache_def) (auto simp: NewIndexer_def)
qed

lemma fold_set_Insert: "distinct (acc @ xs) \<Longrightarrow> fold set_Insert xs acc = acc @ xs"
  by (induction xs arbitrary: acc) (auto simp: set_Insert_def)

lemma select_items_filter:
  "select_items meta selector (map Some objs) =
     Ret (filter (\<lambda>m. Selector_Matches selector (map_entries (om_Labels (meta m)))) objs)"
  by (induction objs) simp_all

lemma values_of_keys:
  assumes "wf_map items" and "distinct ks" and "set ks = {k. \<exists>x. map_of items k = Some x \<and> P x}"
  shows "\<exists>xs. map (map_of items) ks = map Some xs \<and> mset xs = mset (filter P (map snd items))"
proof -
  let ?sel = "filter (\<lambda>(k, x). P x) items"
  have "distinct (map fst ?sel)" using assms(1) by (rule filter_map_distinct)
  moreover have "set (map fst ?sel) = set ks"
    using assms(1) by (force simp: assms(3) map_of_eq_Some_iff)
  ultimately have keys: "mset ks = mset (map fst ?sel)" using assms(2) set_eq_iff_mset_eq_distinct by metis
  let ?xs = "map (the \<circ> map_of items) ks"
  have "map (map_of items) ks = map Some ?xs" using assms(3) by auto
  moreover have "map (the \<circ> map_of items) (map fst ?sel) = map snd ?sel"
    using assms(1) by (auto simp: map_of_eq_Some_iff intro!: map_cong dest: map_of_is_SomeI)
  then have "mset ?xs = mset (map snd ?sel)" by (metis keys mset_map)
  moreover have "map snd ?sel = filter P (map snd items)" by (induction items) auto
  ultimately show ?thesis by metis
qed

text \<open>The store as the map it stands for.\<close>

fun spec_cache_op :: "('o \<Rightarrow> ObjectMeta) \<Rightarrow> 'o cache_op \<Rightarrow> (string \<rightharpoonup> 'o) \<Rightarrow> string \<rightharpoonup> 'o" where
  "spec_cache_op meta (OpAdd obj) m = m(MetaNamespaceKey (meta obj) \<mapsto> obj)"
| "spec_cache_op meta (OpUpdate obj) m = m(MetaNamespaceKey (meta obj) \<mapsto> obj)"
| "spec_cache_op meta (OpDelete obj) m = m(MetaNamespaceKey (meta obj) := None)"
| "spec_cache_op meta (OpReplace objs) m = map_of (rev (map (\<lambda>obj. (MetaNamespaceKey (meta obj), obj)) objs))"

lemma keyed_map:
  "map_of (fold (\<lambda>item items. AList.update (f item) item items) list items) =
   map_of items ++ map_of (rev (map (\<lambda>item. (f item, item)) list))"
  by (induction list arbitrary: items) (simp_all add: update_conv' map_add_def fun_eq_iff split: option.split)

lemma cache_do_map:
  assumes "store_ok c"
  shows "map_of (ts_items (cache_do meta op c)) = spec_cache_op meta op (map_of (ts_items c))"
proof (cases op)
  case (OpReplace objs)
  have "wf_map (ts_indexers c)" using assms by (simp add: store_ok_def)
  with OpReplace show ?thesis by (simp add: cache_ops ts_Replace_ok(2) wf_keyed keyed_map)
qed (use ts_contents [where c = c] in \<open>simp_all add: cache_ops ts_Get_def fun_eq_iff\<close>)

lemma namespaced_cache_map:
  "map_of (ts_items (namespaced_cache meta ops)) = fold (spec_cache_op meta) ops Map.empty"
proof -
  have "map_of (ts_items (fold (cache_do meta) ops c)) = fold (spec_cache_op meta) ops (map_of (ts_items c))"
    if "store_ok c" for c
    using that by (induction ops arbitrary: c) (simp_all add: cache_do_ok cache_do_map)
  moreover have "store_ok (NewIndexer [(NamespaceIndex, MetaNamespaceIndexFunc meta)])"
    by (simp add: store_ok_def NewIndexer_def indexes_def index_at_def)
  ultimately show ?thesis by (simp add: namespaced_cache_def) (simp add: NewIndexer_def)
qed

section \<open>Lemmas: the factory\<close>

datatype factory_call = CallInformerFor string | CallStart

fun factory_do :: "factory_call \<Rightarrow> factory \<times> nat \<Rightarrow> factory \<times> nat" where
  "factory_do (CallInformerFor t) s = snd (InformerFor t defaultCaffe2JobInformer s)"
| "factory_do CallStart (f, w) = (factory_Start f, w)"

text \<open>
  Every informer is the only one of its type and was made by the factory; the goroutines run exactly
  the informers of the types marked as started, one each.
\<close>

definition factory_ok :: "factory \<times> nat \<Rightarrow> bool" where
  "factory_ok s = (case s of (f, w) \<Rightarrow>
     wf_map (fc_informers f) \<and> distinct (map snd (fc_informers f)) \<and> (\<forall>i \<in> snd ` set (fc_informers f). i < w) \<and>
     fc_startedInformers f \<subseteq> fst ` set (fc_informers f) \<and> distinct (fc_running f) \<and>
     set (fc_running f) = {i. \<exists>t \<in> fc_startedInformers f. (t, i) \<in> set (fc_informers f)})"

lemma start_fold:
  "wf_map xs \<Longrightarrow>
   fold (\<lambda>(t, i) f.
       if t \<notin> fc_startedInformers f
       then f\<lparr>fc_running := i # fc_running f, fc_startedInformers := insert t (fc_startedInformers f)\<rparr>
       else f) xs f =
   f\<lparr>fc_running := rev (map snd (filter (\<lambda>(t, i). t \<notin> fc_startedInformers f) xs)) @ fc_running f,
     fc_startedInformers := fst ` set xs \<union> fc_startedInformers f\<rparr>"
proof (induction xs arbitrary: f)
  case (Cons ti xs)
  obtain t i where ti: "ti = (t, i)" by (cases ti)
  have new: "filter (\<lambda>(t', i). t' \<noteq> t \<and> t' \<notin> S) xs = filter (\<lambda>(t', i). t' \<notin> S) xs" for S
    using Cons.prems ti by (intro filter_cong) force+
  from Cons ti show ?case by (auto simp: new insert_absorb)
qed simp

lemma update_new: "k \<notin> fst ` set xs \<Longrightarrow> AList.update k v xs = xs @ [(k, v)]"
  by (induction xs) auto

lemma factory_do_ok:
  assumes "factory_ok s"
  shows "factory_ok (factory_do call s)"
proof (cases call)
  case (CallInformerFor t)
  obtain f w where s: "s = (f, w)" by (cases s)
  show ?thesis
  proof (cases "map_of (fc_informers f) t")
    case None
    then have "AList.update t w (fc_informers f) = fc_informers f @ [(t, w)]" "t \<notin> fst ` set (fc_informers f)"
      by (simp_all add: map_of_eq_None_iff update_new)
    then show ?thesis using assms CallInformerFor None s
      by (force simp: factory_ok_def InformerFor_def defaultCaffe2JobInformer_def)
  qed (use assms CallInformerFor s in \<open>simp add: InformerFor_def\<close>)
next
  case CallStart
  obtain f w where s: "s = (f, w)" by (cases s)
  let ?new = "filter (\<lambda>(t, i). t \<notin> fc_startedInformers f) (fc_informers f)"
  have ok: "wf_map (fc_informers f)" "distinct (map snd (fc_informers f))"
    "set (fc_running f) = {i. \<exists>t \<in> fc_startedInformers f. (t, i) \<in> set (fc_informers f)}"
    using assms by (simp_all add: factory_ok_def s)
  have once: "t = t'" if "(t, i) \<in> set (fc_informers f)" "(t', i) \<in> set (fc_informers f)" for t t' i
    using ok(2) that by (auto simp: distinct_map dest: inj_onD [where x = "(t, i)" and y = "(t', i)"])
  have "distinct (map snd ?new)" using ok(2) by (rule distinct_map_filter)
  moreover have "set (map snd ?new) \<inter> set (fc_running f) = {}" by (auto simp: ok(3) dest: once)
  moreover have "set (map snd ?new) \<union> set (fc_running f) =
      {i. \<exists>t \<in> fst ` set (fc_informers f) \<union> fc_startedInformers f. (t, i) \<in> set (fc_informers f)}"
    by (force simp: ok(3))
  moreover have "factory_Start f =
      f\<lparr>fc_running := rev (map snd ?new) @ fc_running f,
        fc_startedInformers := fst ` set (fc_informers f) \<union> fc_startedInformers f\<rparr>"
    by (simp add: factory_Start_def start_fold ok(1))
  ultimately show ?thesis using assms CallStart s
    by (simp add: factory_ok_def Int_commute)
qed

lemma factory_runs_ok: "factory_ok s \<Longrightarrow> factory_ok (fold factory_do calls s)"
  by (induction calls arbitrary: s) (simp_all add: factory_do_ok)

lemma factory_keeps:
  "map_of (fc_informers (fst s)) t = Some i \<Longrightarrow> map_of (fc_informers (fst (fold factory_do calls s))) t = Some i"
proof (induction calls arbitrary: s)
  case (Cons call calls)
  have frame: "fc_informers (factory_Start f) = fc_informers f" for f
  proof -
    have "fc_informers (fold (\<lambda>(t, i) f.
       if t \<notin> fc_startedInformers f
       then f\<lparr>fc_running := i # fc_running f, fc_startedInformers := insert t (fc_startedInformers f)\<rparr>
       else f) xs f) = fc_informers f" for xs
      by (induction xs arbitrary: f) auto
    then show ?thesis by (simp add: factory_Start_def)
  qed
  have "map_of (fc_informers (fst (factory_do call s))) t = Some i"
    using Cons.prems by (cases s; cases call)
      (auto simp: frame InformerFor_def update_conv' split: option.split prod.split)
  with Cons.IH show ?case by simp
qed simp

lemma InformerFor_recorded:
  "InformerFor t newFunc s = (i, s') \<Longrightarrow> map_of (fc_informers (fst s')) t = Some i"
  by (cases s) (auto simp: InformerFor_def update_conv' split: option.splits prod.splits)

text \<open>
  However the informer of jobs is asked for, a factory has one: the lister of \<open>New\<close>, which asks again, and
  \<open>ForResource\<close> read the store of the informer that got the handlers.
\<close>

lemma InformerFor_again:
  "InformerFor t new s = (i, s') \<Longrightarrow> InformerFor t new s' = (i, s')"
  by (cases s) (auto simp: AList.update_conv InformerFor_def Let_def split: option.splits prod.splits)

lemma accessors_agree:
  assumes "Caffe2JobInformer_Informer (version_Caffe2Jobs (group_V1alpha1 (factory_Kubeflow f))) s = (i, s')"
  shows "Caffe2JobInformer_Informer (version_Caffe2Jobs (group_V1alpha1 (factory_Kubeflow f))) s' = (i, s')"
    and "Caffe2JobInformer_Lister (version_Caffe2Jobs (group_V1alpha1 (factory_Kubeflow f))) s' = (\<lparr>jl_indexer = i\<rparr>, s')"
    and "\<exists>g. ForResource f (GroupName, GroupVersion, ''caffe2jobs'') s' = (Inr g, s') \<and> gl_indexer (genericInformer_Lister g) = i"
proof -
  obtain fs w f' w' where s: "s = (fs, w)" "s' = (fs(f := f'), w')"
    "InformerFor ''*v1alpha1.Caffe2Job'' defaultCaffe2JobInformer (fs f, w) = (i, f', w')"
    using assms by (cases s) (auto simp: Caffe2JobInformer_Informer_def accessor_defs split: prod.splits)
  show again: "Caffe2JobInformer_Informer (version_Caffe2Jobs (group_V1alpha1 (factory_Kubeflow f))) s' = (i, s')"
    using InformerFor_again [OF s(3)] by (simp add: Caffe2JobInformer_Informer_def accessor_defs s(2))
  then show "Caffe2JobInformer_Lister (version_Caffe2Jobs (group_V1alpha1 (factory_Kubeflow f))) s' = (\<lparr>jl_indexer = i\<rparr>, s')"
    by (simp add: Caffe2JobInformer_Lister_def NewCaffe2JobLister_def)
  show "\<exists>g. ForResource f (GroupName, GroupVersion, ''caffe2jobs'') s' = (Inr g, s') \<and> gl_indexer (genericInformer_Lister g) = i"
    using again by (simp add: ForResource_def genericInformer_Lister_def genericInformer_Informer_def NewGenericLister_def)
qed

section \<open>Properties\<close>

text \<open>
  C28. Listing by namespace through the index gives what a full listing filtered by namespace would,
  object by object, whatever has been added, updated, deleted and replaced in the store: the index
  never misses an object, never keeps one that has moved or gone, and never leads to a nil.
\<close>

theorem list_by_namespace_agrees:
  "\<exists>objs. ListAllByNamespace meta (namespaced_cache meta ops) ns selector = Ret objs \<and>
    mset objs = mset (filter (\<lambda>m. ns = [] \<or> om_Namespace (meta m) = ns)
      (ListAll meta (namespaced_cache meta ops) selector))"
proof (cases "ns = []")
  case True
  then show ?thesis by (simp add: ListAllByNamespace_def)
next
  case False
  let ?c = "namespaced_cache meta ops" and ?ks = "index_at (namespaced_cache meta ops) NamespaceIndex ns"
  let ?sel = "\<lambda>m. Selector_Matches selector (map_entries (om_Labels (meta m)))"
  have "map_of (ts_indexers ?c) NamespaceIndex = Some (MetaNamespaceIndexFunc meta)"
    by (simp add: namespaced_cache_ok(2))
  then have ks: "distinct ?ks"
    "set ?ks = {k. \<exists>x. map_of (ts_items ?c) k = Some x \<and> om_Namespace (meta x) = ns}"
    using namespaced_cache_ok(1) [of meta ops] by (auto simp: store_ok_def indexes_def MetaNamespaceIndexFunc_def)
  have "wf_map (ts_items ?c)" using namespaced_cache_ok(1) [of meta ops] by (simp add: store_ok_def)
  from values_of_keys [OF this ks] obtain xs where xs: "map (map_of (ts_items ?c)) ?ks = map Some xs"
    "mset xs = mset (filter (\<lambda>x. om_Namespace (meta x) = ns) (map snd (ts_items ?c)))" by blast
  have "fold (\<lambda>v. fold set_Insert (index_at ?c NamespaceIndex v)) [ns] [] = ?ks"
    using fold_set_Insert [of "[]" ?ks] ks(1) by simp
  then have "ts_Index NamespaceIndex [ns] ?c = Inr (map Some xs)"
    unfolding xs(1) [symmetric]
    by (simp add: ts_Index_def namespaced_cache_ok(2) index_at_def Let_def)
  then have "ListAllByNamespace meta ?c ns selector = Ret (filter ?sel xs)"
    using False by (simp add: ListAllByNamespace_def select_items_filter)
  moreover have "mset (filter ?sel xs) = filter_mset ?sel (mset xs)" by simp
  then have "mset (filter ?sel xs) = mset (filter (\<lambda>x. om_Namespace (meta x) = ns) (ListAll meta ?c selector))"
    unfolding xs(2) by (simp add: ListAll_def ts_List_def filter_filter conj_commute flip: mset_filter)
  ultimately show ?thesis using False by simp
qed


text \<open>
  The factory makes one informer per type and runs it once: after any further requests and starts
  a second request for the type gives the informer of the first one, no informer ever runs twice, and
  the next \<open>Start\<close> leaves it running exactly once.
\<close>

theorem factory_shares_informers:
  "case InformerFor t defaultCaffe2JobInformer (fold factory_do before (NewSharedInformerFactory, 0)) of (i, s) \<Rightarrow>
   (case fold factory_do after s of (f, w) \<Rightarrow>
      fst (InformerFor t defaultCaffe2JobInformer (f, w)) = i \<and>
      distinct (fc_running f) \<and>
      distinct (fc_running (factory_Start f)) \<and> i \<in> set (fc_running (factory_Start f)))"
proof -
  let ?s0 = "fold factory_do before (NewSharedInformerFactory, 0)"
  obtain i s where 1: "InformerFor t defaultCaffe2JobInformer ?s0 = (i, s)" by (metis surj_pair)
  obtain f w where 2: "fold factory_do after s = (f, w)" by (metis surj_pair)
  have "factory_ok (NewSharedInformerFactory, 0)" by (simp add: factory_ok_def NewSharedInformerFactory_def)
  from factory_runs_ok [OF this, of before] have "factory_ok s"
    using factory_do_ok [of ?s0 "CallInformerFor t"] 1 by simp
  from factory_runs_ok [OF this, of after] 2 have ok: "factory_ok (f, w)" by simp
  from factory_keeps [OF InformerFor_recorded [OF 1], of after] 2
  have i: "map_of (fc_informers f) t = Some i" by simp
  have "factory_ok (factory_Start f, w)" using factory_do_ok [OF ok, of CallStart] by simp
  moreover have "wf_map (fc_informers f)" using ok by (simp add: factory_ok_def)
  then have "fc_informers (factory_Start f) = fc_informers f"
    "fc_startedInformers (factory_Start f) = fst ` set (fc_informers f) \<union> fc_startedInformers f"
    by (simp_all add: factory_Start_def start_fold)
  moreover have "t \<in> fst ` set (fc_informers f)" using map_of_SomeD [OF i] by force
  ultimately have "distinct (fc_running (factory_Start f))" "i \<in> set (fc_running (factory_Start f))"
    using map_of_SomeD [OF i] by (auto simp: factory_ok_def)
  with 1 2 i ok show ?thesis by (simp add: InformerFor_def factory_ok_def)
qed

end
