(* ===== verification/DeltaFifo.thy ===== *)
theory DeltaFifo
  imports Informers
begin

text \<open>
  The queue of changes between the reflector of an informer and its store, k8s.io/client-go/tools/cache/delta_fifo.go:
  for every key the changes that have not been processed. Objects have metadata, so no key function
  fails, and no compressor is in use. Each method holds the lock of the queue throughout.
\<close>

section \<open>The queue\<close>

text \<open>A deleted object, or the tombstone of one whose deletion was missed (\<open>DeletedFinalStateUnknown\<close>).\<close>

datatype 'o gone = Final 'o | Unknown string "'o option"

datatype 'o delta = Added 'o | Updated 'o | Sync 'o | Deleted "'o gone"

record 'o fifo =
  ff_items :: "string \<rightharpoonup> 'o delta list"
  ff_queue :: "string list"
  ff_populated :: bool
  ff_initialPopulationCount :: int
  ff_closed :: bool

definition NewDeltaFIFO :: "'o fifo" where
  "NewDeltaFIFO = \<lparr>ff_items = Map.empty, ff_queue = [], ff_populated = False, ff_initialPopulationCount = 0, ff_closed = False\<rparr>"

fun gone_key :: "('o \<Rightarrow> ObjectMeta) \<Rightarrow> 'o gone \<Rightarrow> string" where
  "gone_key meta (Final obj) = MetaNamespaceKey (meta obj)"
| "gone_key meta (Unknown key _) = key"

fun KeyOf :: "('o \<Rightarrow> ObjectMeta) \<Rightarrow> 'o delta \<Rightarrow> string" where
  "KeyOf meta (Added obj) = MetaNamespaceKey (meta obj)"
| "KeyOf meta (Updated obj) = MetaNamespaceKey (meta obj)"
| "KeyOf meta (Sync obj) = MetaNamespaceKey (meta obj)"
| "KeyOf meta (Deleted g) = gone_key meta g"

fun isDeletionDup :: "'o delta \<Rightarrow> 'o delta \<Rightarrow> 'o delta option" where
  "isDeletionDup (Deleted a) (Deleted (Unknown k obj)) = Some (Deleted a)"
| "isDeletionDup (Deleted a) (Deleted (Final obj)) = Some (Deleted (Final obj))"
| "isDeletionDup _ _ = None"

definition dedupDeltas :: "'o delta list \<Rightarrow> 'o delta list" where
  "dedupDeltas deltas =
     (let n = length deltas in
      if n < 2 then deltas
      else case isDeletionDup (deltas ! (n - 1)) (deltas ! (n - 2)) of
             Some out \<Rightarrow> take (n - 2) deltas @ [out]
           | None \<Rightarrow> deltas)"

fun is_deletion :: "'o delta \<Rightarrow> bool" where
  "is_deletion (Deleted _) = True"
| "is_deletion _ = False"

fun is_sync :: "'o delta \<Rightarrow> bool" where
  "is_sync (Sync _) = True"
| "is_sync _ = False"

definition deltas_of :: "string \<Rightarrow> 'o fifo \<Rightarrow> 'o delta list" where
  "deltas_of key f = (case ff_items f key of None \<Rightarrow> [] | Some deltas \<Rightarrow> deltas)"

definition willObjectBeDeletedLocked :: "string \<Rightarrow> 'o fifo \<Rightarrow> bool" where
  "willObjectBeDeletedLocked key f \<longleftrightarrow> deltas_of key f \<noteq> [] \<and> is_deletion (last (deltas_of key f))"

definition queueActionLocked :: "('o \<Rightarrow> ObjectMeta) \<Rightarrow> 'o delta \<Rightarrow> 'o fifo \<Rightarrow> 'o fifo" where
  "queueActionLocked meta d f =
     (let key = KeyOf meta d in
      if is_sync d \<and> willObjectBeDeletedLocked key f then f
      else
        let newDeltas = dedupDeltas (deltas_of key f @ [d]);
            there = (ff_items f key \<noteq> None) in
        if newDeltas \<noteq> []
        then f\<lparr>ff_queue := (if there then ff_queue f else ff_queue f @ [key]), ff_items := (ff_items f)(key \<mapsto> newDeltas)\<rparr>
        else if there then f\<lparr>ff_items := (ff_items f)(key := None)\<rparr> else f)"

definition ff_Add :: "('o \<Rightarrow> ObjectMeta) \<Rightarrow> 'o \<Rightarrow> 'o fifo \<Rightarrow> 'o fifo" where
  "ff_Add meta obj f = queueActionLocked meta (Added obj) (f\<lparr>ff_populated := True\<rparr>)"

definition ff_Update :: "('o \<Rightarrow> ObjectMeta) \<Rightarrow> 'o \<Rightarrow> 'o fifo \<Rightarrow> 'o fifo" where
  "ff_Update meta obj f = queueActionLocked meta (Updated obj) (f\<lparr>ff_populated := True\<rparr>)"

text \<open>The known objects are those of the informer's store.\<close>

definition ff_Delete :: "('o \<Rightarrow> ObjectMeta) \<Rightarrow> 'o store \<Rightarrow> 'o \<Rightarrow> 'o fifo \<Rightarrow> 'o fifo" where
  "ff_Delete meta known obj f =
     (let key = MetaNamespaceKey (meta obj); f1 = f\<lparr>ff_populated := True\<rparr> in
      if ts_Get key known = None \<and> ff_items f1 key = None then f1
      else queueActionLocked meta (Deleted (Final obj)) f1)"

definition ListKeys :: "'o store \<Rightarrow> string list" where
  "ListKeys c = map fst (ts_items c)"

definition ff_Replace :: "('o \<Rightarrow> ObjectMeta) \<Rightarrow> 'o store \<Rightarrow> 'o list \<Rightarrow> 'o fifo \<Rightarrow> 'o fifo" where
  "ff_Replace meta known list f =
     (let keys = map (\<lambda>obj. MetaNamespaceKey (meta obj)) list;
          f1 = fold (\<lambda>obj. queueActionLocked meta (Sync obj)) list f;
          deletions = filter (\<lambda>k. k \<notin> set keys) (ListKeys known);
          f2 = fold (\<lambda>k. queueActionLocked meta (Deleted (Unknown k (ts_Get k known)))) deletions f1 in
      if ff_populated f2 then f2
      else f2\<lparr>ff_populated := True, ff_initialPopulationCount := int (length list) + int (length deletions)\<rparr>)"

definition syncKeyLocked :: "('o \<Rightarrow> ObjectMeta) \<Rightarrow> 'o store \<Rightarrow> string \<Rightarrow> 'o fifo \<Rightarrow> 'o fifo" where
  "syncKeyLocked meta known key f =
     (case ts_Get key known of
        None \<Rightarrow> f
      | Some obj \<Rightarrow>
          if deltas_of (MetaNamespaceKey (meta obj)) f \<noteq> [] then f
          else queueActionLocked meta (Sync obj) f)"

definition ff_Resync :: "('o \<Rightarrow> ObjectMeta) \<Rightarrow> 'o store \<Rightarrow> 'o fifo \<Rightarrow> 'o fifo" where
  "ff_Resync meta known f = fold (syncKeyLocked meta known) (ListKeys known) f"

definition ff_HasSynced :: "'o fifo \<Rightarrow> bool" where
  "ff_HasSynced f \<longleftrightarrow> ff_populated f \<and> ff_initialPopulationCount f = 0"

text \<open>\<open>Pop\<close> up to the call of \<open>process\<close>: it may wait, or the queue is closed and empty.\<close>

datatype 'o popped = Waits | FIFOClosed | Popped string "'o delta list"

function ff_Pop :: "'o fifo \<Rightarrow> 'o popped \<times> 'o fifo" where
  "ff_Pop f =
     (case ff_queue f of
        [] \<Rightarrow> (if ff_closed f then FIFOClosed else Waits, f)
      | key # rest \<Rightarrow>
          let f1 = f\<lparr>ff_queue := rest,
                     ff_initialPopulationCount :=
                       (if 0 < ff_initialPopulationCount f then ff_initialPopulationCount f - 1 else ff_initialPopulationCount f)\<rparr> in
          (case ff_items f key of
             None \<Rightarrow> ff_Pop f1
           | Some deltas \<Rightarrow> (Popped key deltas, f1\<lparr>ff_items := (ff_items f1)(key := None)\<rparr>)))"
  by auto
termination
  by (relation "measure (\<lambda>f. length (ff_queue f))") auto

declare ff_Pop.simps [simp del]

section \<open>Known objects\<close>

text \<open>What the queue asks of the objects its consumer knows (\<open>KeyListerGetter\<close>): a map whose keys can be listed.\<close>

locale known_objects = keyed_store ok contents put del
  for ok :: "'s \<Rightarrow> bool" and contents :: "'s \<Rightarrow> 'k \<Rightarrow> 'o option" and put :: "'k \<Rightarrow> 'o \<Rightarrow> 's \<Rightarrow> 's" and del :: "'k \<Rightarrow> 's \<Rightarrow> 's" +
  fixes keys :: "'s \<Rightarrow> 'k list"
  assumes keys_dom: "ok s \<Longrightarrow> set (keys s) = dom (contents s)"
    and keys_distinct: "ok s \<Longrightarrow> distinct (keys s)"
begin

text \<open>The keys that a list lacks, each once.\<close>

lemma missing:
  "ok s \<Longrightarrow> distinct (filter (\<lambda>k. k \<notin> ks) (keys s)) \<and> set (filter (\<lambda>k. k \<notin> ks) (keys s)) = dom (contents s) - ks"
  by (auto simp: keys_dom keys_distinct)

text \<open>Listing the keys and getting each object gives the contents.\<close>

lemma listed_contents: "ok s \<Longrightarrow> map_of (map (\<lambda>k. (k, the (contents s k))) (keys s)) = contents s"
  by (rule ext) (use keys_dom in \<open>auto simp: map_of_map_restrict restrict_map_def domIff\<close>)

end

interpretation known: known_objects store_ok "\<lambda>c k. ts_Get k c" ts_Add ts_Delete ListKeys
  by unfold_locales (auto simp: ListKeys_def ts_Get_def store_ok_def dom_map_of_conv_image_fst)

section \<open>Lemmas: the queue of changes\<close>

text \<open>What a change leaves of its object.\<close>

fun value_of :: "'o delta \<Rightarrow> 'o option" where
  "value_of (Added obj) = Some obj"
| "value_of (Updated obj) = Some obj"
| "value_of (Sync obj) = Some obj"
| "value_of (Deleted g) = None"

lemma value_of_None: "value_of d = None \<longleftrightarrow> is_deletion d"
  by (cases d) simp_all

definition fifo_ok :: "('o \<Rightarrow> ObjectMeta) \<Rightarrow> 'o fifo \<Rightarrow> bool" where
  "fifo_ok meta f \<longleftrightarrow> distinct (ff_queue f) \<and> set (ff_queue f) = dom (ff_items f) \<and>
     (\<forall>k ds. ff_items f k = Some ds \<longrightarrow> ds \<noteq> [] \<and> (\<forall>d\<in>set ds. KeyOf meta d = k))"

lemma fifo_ok_New: "fifo_ok meta NewDeltaFIFO"
  by (simp add: fifo_ok_def NewDeltaFIFO_def)

lemma dedupDeltas_snoc:
  "dedupDeltas (ds @ [d]) =
     (if ds = [] then [d] else case isDeletionDup d (last ds) of Some out \<Rightarrow> butlast ds @ [out] | None \<Rightarrow> ds @ [d])"
proof (cases ds rule: rev_exhaust)
  case (snoc es e)
  then show ?thesis by (simp add: dedupDeltas_def nth_append split: option.split)
qed (simp add: dedupDeltas_def)

lemma isDeletionDup_Some:
  "isDeletionDup a b = Some out \<Longrightarrow> is_deletion a \<and> is_deletion b \<and> (out = a \<or> out = b)"
  by (cases "(a, b)" rule: isDeletionDup.cases) auto

lemma dedup_facts:
  "dedupDeltas (ds @ [d]) \<noteq> []"
  "value_of (last (dedupDeltas (ds @ [d]))) = value_of d"
  "set (dedupDeltas (ds @ [d])) \<subseteq> insert d (set ds)"
  "ds \<noteq> [] \<Longrightarrow> \<not> is_deletion (hd ds) \<Longrightarrow> hd (dedupDeltas (ds @ [d])) = hd ds"
proof -
  show "dedupDeltas (ds @ [d]) \<noteq> []" by (simp add: dedupDeltas_snoc split: option.split)
  have gone: "value_of x = None" if "is_deletion x" for x :: "'a delta" using that by (simp add: value_of_None)
  show "value_of (last (dedupDeltas (ds @ [d]))) = value_of d"
    by (auto simp: dedupDeltas_snoc gone dest: isDeletionDup_Some split: option.split)
  show "set (dedupDeltas (ds @ [d])) \<subseteq> insert d (set ds)"
    by (auto simp: dedupDeltas_snoc dest!: isDeletionDup_Some in_set_butlastD split: option.splits if_splits)
  assume ds: "ds \<noteq> []" "\<not> is_deletion (hd ds)"
  have "butlast ds \<noteq> []" if "isDeletionDup d (last ds) = Some out" for out
    using isDeletionDup_Some [OF that] ds by (cases ds) (auto split: if_splits)
  then show "hd (dedupDeltas (ds @ [d])) = hd ds"
    using ds(1) by (auto simp: dedupDeltas_snoc split: option.split) (metis append_butlast_last_id hd_append2)
qed

lemma queueAction_frame [simp]:
  "ff_populated (queueActionLocked meta d f) = ff_populated f" "ff_closed (queueActionLocked meta d f) = ff_closed f"
  "ff_initialPopulationCount (queueActionLocked meta d f) = ff_initialPopulationCount f"
  by (simp_all add: queueActionLocked_def Let_def)

lemma queueAction_other: "k \<noteq> KeyOf meta d \<Longrightarrow> ff_items (queueActionLocked meta d f) k = ff_items f k"
  by (simp add: queueActionLocked_def Let_def)

lemma queueAction_skips: "is_sync d \<Longrightarrow> willObjectBeDeletedLocked (KeyOf meta d) f \<Longrightarrow> queueActionLocked meta d f = f"
  by (simp add: queueActionLocked_def Let_def)

lemma queueAction_items:
  assumes "\<not> (is_sync d \<and> willObjectBeDeletedLocked (KeyOf meta d) f)"
  shows "\<exists>ds. ff_items (queueActionLocked meta d f) (KeyOf meta d) = Some ds \<and> value_of (last ds) = value_of d"
  using assms dedup_facts(1,2) by (auto simp: queueActionLocked_def Let_def)

lemma queueAction_hd:
  assumes "ff_items f k = Some ds" and "ds \<noteq> []" and "\<not> is_deletion (hd ds)"
  shows "\<exists>ds'. ff_items (queueActionLocked meta d f) k = Some ds' \<and> ds' \<noteq> [] \<and> hd ds' = hd ds"
  using assms dedup_facts(1,4) by (auto simp: queueActionLocked_def Let_def deltas_of_def)

lemma queueAction_queue:
  "\<exists>rest. ff_queue (queueActionLocked meta d f) = ff_queue f @ rest"
  by (simp add: queueActionLocked_def Let_def)

lemma queueAction_ok:
  assumes "fifo_ok meta f"
  shows "fifo_ok meta (queueActionLocked meta d f)"
proof -
  let ?ds = "dedupDeltas (deltas_of (KeyOf meta d) f @ [d])"
  have "\<forall>x\<in>set (deltas_of (KeyOf meta d) f). KeyOf meta x = KeyOf meta d"
    using assms by (cases "ff_items f (KeyOf meta d)") (auto simp: fifo_ok_def deltas_of_def)
  then have keys: "\<forall>x\<in>set ?ds. KeyOf meta x = KeyOf meta d" using dedup_facts(3) by fastforce
  show ?thesis
  proof (cases "is_sync d \<and> willObjectBeDeletedLocked (KeyOf meta d) f")
    case True
    then show ?thesis using assms queueAction_skips by metis
  next
    case False
    then have f': "queueActionLocked meta d f =
        f\<lparr>ff_queue := (if ff_items f (KeyOf meta d) \<noteq> None then ff_queue f else ff_queue f @ [KeyOf meta d]),
          ff_items := (ff_items f)(KeyOf meta d \<mapsto> ?ds)\<rparr>"
      using dedup_facts(1) [of "deltas_of (KeyOf meta d) f" d] by (simp only: queueActionLocked_def Let_def if_False if_True simp_thms)
    have q: "distinct (ff_queue f)" "set (ff_queue f) = dom (ff_items f)" using assms by (simp_all add: fifo_ok_def)
    then have "distinct (ff_queue (queueActionLocked meta d f))"
      "set (ff_queue (queueActionLocked meta d f)) = insert (KeyOf meta d) (dom (ff_items f))"
      by (auto simp: f')
    then show ?thesis using assms keys dedup_facts(1) by (simp add: fifo_ok_def f')
  qed
qed

text \<open>What the store will have of a key once the queue is empty.\<close>

definition pending_value :: "'o fifo \<Rightarrow> 'o store \<Rightarrow> string \<rightharpoonup> 'o" where
  "pending_value f c k = (case ff_items f k of None \<Rightarrow> ts_Get k c | Some ds \<Rightarrow> value_of (last ds))"

lemma pending_value_frame [simp]:
  "pending_value (f\<lparr>ff_populated := b\<rparr>) c = pending_value f c"
  "pending_value (f\<lparr>ff_populated := b, ff_initialPopulationCount := n\<rparr>) c = pending_value f c"
  "pending_value (f\<lparr>ff_closed := b\<rparr>) c = pending_value f c"
  by (simp_all add: pending_value_def fun_eq_iff)

lemma willObjectBeDeletedLocked_cong:
  "ff_items f' k = ff_items f k \<Longrightarrow> willObjectBeDeletedLocked k f' = willObjectBeDeletedLocked k f"
  by (simp add: willObjectBeDeletedLocked_def deltas_of_def)

lemma queueAction_pending:
  assumes "\<not> (is_sync d \<and> willObjectBeDeletedLocked (KeyOf meta d) f)"
  shows "pending_value (queueActionLocked meta d f) c = (pending_value f c)(KeyOf meta d := value_of d)"
proof
  fix k
  show "pending_value (queueActionLocked meta d f) c k = ((pending_value f c)(KeyOf meta d := value_of d)) k"
    using queueAction_items [OF assms] queueAction_other [of k meta d f]
    by (cases "k = KeyOf meta d") (auto simp: pending_value_def)
qed

lemma fifo_ok_frame [simp]:
  "fifo_ok meta (f\<lparr>ff_populated := b\<rparr>) = fifo_ok meta f"
  "fifo_ok meta (f\<lparr>ff_populated := b, ff_initialPopulationCount := n\<rparr>) = fifo_ok meta f"
  "fifo_ok meta (f\<lparr>ff_closed := b\<rparr>) = fifo_ok meta f"
  by (simp_all add: fifo_ok_def)

text \<open>A loop of changes.\<close>

lemma fold_queue_frame:
  "ff_populated (fold (\<lambda>x. queueActionLocked meta (g x)) xs f) = ff_populated f"
  "ff_initialPopulationCount (fold (\<lambda>x. queueActionLocked meta (g x)) xs f) = ff_initialPopulationCount f"
  by (induction xs arbitrary: f) simp_all

lemma fold_queue_ok: "fifo_ok meta f \<Longrightarrow> fifo_ok meta (fold (\<lambda>x. queueActionLocked meta (g x)) xs f)"
  by (induction xs arbitrary: f) (simp_all add: queueAction_ok)

lemma fold_queue_pending:
  assumes "distinct (map (\<lambda>x. KeyOf meta (g x)) xs)"
    and "\<And>x. x \<in> set xs \<Longrightarrow> \<not> (is_sync (g x) \<and> willObjectBeDeletedLocked (KeyOf meta (g x)) f)"
  shows "pending_value (fold (\<lambda>x. queueActionLocked meta (g x)) xs f) c k =
    (case map_of (map (\<lambda>x. (KeyOf meta (g x), value_of (g x))) xs) k of None \<Rightarrow> pending_value f c k | Some v \<Rightarrow> v)"
  using assms
proof (induction xs arbitrary: f)
  case (Cons x xs)
  let ?f = "queueActionLocked meta (g x) f"
  have "\<not> (is_sync (g y) \<and> willObjectBeDeletedLocked (KeyOf meta (g y)) ?f)" if "y \<in> set xs" for y
  proof -
    have "KeyOf meta (g y) \<noteq> KeyOf meta (g x)" using Cons.prems(1) that by (simp) (metis image_eqI)
    then show ?thesis using Cons.prems(2) [of y] that
      willObjectBeDeletedLocked_cong [OF queueAction_other [of "KeyOf meta (g y)" meta "g x" f]] by simp
  qed
  then have "pending_value (fold (\<lambda>x. queueActionLocked meta (g x)) xs ?f) c k =
    (case map_of (map (\<lambda>x. (KeyOf meta (g x), value_of (g x))) xs) k of None \<Rightarrow> pending_value ?f c k | Some v \<Rightarrow> v)"
    using Cons.prems(1) by (intro Cons.IH) simp_all
  moreover have "map_of (map (\<lambda>x. (KeyOf meta (g x), value_of (g x))) xs) (KeyOf meta (g x)) = None"
    using Cons.prems(1) by (auto simp: map_of_eq_None_iff)
  moreover have "pending_value ?f c = (pending_value f c)(KeyOf meta (g x) := value_of (g x))"
    using Cons.prems(2) [of x] by (intro queueAction_pending) simp
  ultimately show ?case by (auto split: option.splits)
qed simp

text \<open>
  A list is clean if no change is pending that it contradicts and that \<open>Replace\<close> does not see: a deletion of a
  listed object, or an addition of an object that the store does not have yet and the list not any more.
\<close>

definition clean_changes :: "('o \<Rightarrow> ObjectMeta) \<Rightarrow> 'o fifo \<Rightarrow> 'o store \<Rightarrow> 'o list \<Rightarrow> bool" where
  "clean_changes meta f c list \<longleftrightarrow>
     (\<forall>k\<in>set (ff_queue f).
        if k \<in> (\<lambda>obj. MetaNamespaceKey (meta obj)) ` set list then \<not> willObjectBeDeletedLocked k f
        else k \<in> set (ListKeys c) \<or> willObjectBeDeletedLocked k f)"

lemma ff_Replace_ok: "fifo_ok meta f \<Longrightarrow> fifo_ok meta (ff_Replace meta c list f)"
  by (simp add: ff_Replace_def Let_def fold_queue_ok)

lemma map_of_Some_value:
  "map_of (map (\<lambda>x. (h x, Some x)) xs) k = map_option Some (map_of (map (\<lambda>x. (h x, x)) xs) k)"
  by (induction xs) simp_all

lemma ff_Replace_pending:
  assumes "fifo_ok meta f" and "store_ok c" and "clean_changes meta f c list"
    and "distinct (map (\<lambda>obj. MetaNamespaceKey (meta obj)) list)"
  shows "pending_value (ff_Replace meta c list f) c =
    map_of (map (\<lambda>obj. (MetaNamespaceKey (meta obj), obj)) list)"
proof
  fix k
  let ?key = "\<lambda>obj. MetaNamespaceKey (meta obj)"
  let ?del = "filter (\<lambda>k. k \<notin> set (map ?key list)) (ListKeys c)"
  define f1 where "f1 = fold (\<lambda>obj. queueActionLocked meta (Sync obj)) list f"
  define f2 where "f2 = fold (\<lambda>k. queueActionLocked meta (Deleted (Unknown k (ts_Get k c)))) ?del f1"
  have notdel: "\<not> willObjectBeDeletedLocked (?key obj) f" if "obj \<in> set list" for obj
  proof (cases "?key obj \<in> set (ff_queue f)")
    case True
    then show ?thesis using assms(3) that unfolding clean_changes_def by (metis image_eqI)
  next
    case False
    then show ?thesis using assms(1) by (auto simp: fifo_ok_def willObjectBeDeletedLocked_def deltas_of_def split: option.split)
  qed
  have f1: "pending_value f1 c k = (case map_of (map (\<lambda>obj. (?key obj, obj)) list) k of None \<Rightarrow> pending_value f c k | Some obj \<Rightarrow> Some obj)"
    unfolding f1_def
    by (subst fold_queue_pending) (use assms(4) notdel in \<open>auto simp: map_of_Some_value split: option.splits\<close>)
  have del: "distinct ?del" "set ?del = dom (\<lambda>k. ts_Get k c) - set (map ?key list)"
    using known.missing [OF assms(2)] by blast+
  from del(1) have f2: "pending_value f2 c k = (if k \<in> set ?del then None else pending_value f1 c k)"
    unfolding f2_def by (subst fold_queue_pending) (auto simp: comp_def map_of_map_restrict restrict_map_def split: option.splits)
  have "pending_value (ff_Replace meta c list f) c k = pending_value f2 c k"
    by (simp add: ff_Replace_def Let_def f1_def f2_def)
  also have "\<dots> = map_of (map (\<lambda>obj. (?key obj, obj)) list) k"
  proof (cases "k \<in> ?key ` set list")
    case True
    then have "k \<in> fst ` set (map (\<lambda>obj. (?key obj, obj)) list)" by (simp add: image_image)
    then obtain obj where "map_of (map (\<lambda>obj. (?key obj, obj)) list) k = Some obj"
      using map_of_eq_None_iff [of "map (\<lambda>obj. (?key obj, obj)) list" k] by blast
    then show ?thesis using f1 f2 True by simp
  next
    case False
    then have none: "map_of (map (\<lambda>obj. (?key obj, obj)) list) k = None" by (auto simp: map_of_eq_None_iff)
    have "pending_value f c k = None" if "k \<notin> dom (\<lambda>k. ts_Get k c)"
    proof (cases "ff_items f k")
      case None
      then show ?thesis using that by (simp add: pending_value_def domIff)
    next
      case (Some ds)
      then have "k \<in> set (ff_queue f)" using assms(1) by (auto simp: fifo_ok_def)
      then have "willObjectBeDeletedLocked k f" using assms(3) False that known.keys_dom [OF assms(2)] by (auto simp: clean_changes_def)
      then show ?thesis using Some by (simp add: pending_value_def willObjectBeDeletedLocked_def deltas_of_def value_of_None)
    qed
    then show ?thesis using f1 f2 none False del(2) by auto
  qed
  finally show "pending_value (ff_Replace meta c list f) c k = map_of (map (\<lambda>obj. (?key obj, obj)) list) k" .
qed

lemma ff_event_ok:
  "fifo_ok meta f \<Longrightarrow> fifo_ok meta (ff_Add meta obj f)" "fifo_ok meta f \<Longrightarrow> fifo_ok meta (ff_Update meta obj f)"
  "fifo_ok meta f \<Longrightarrow> fifo_ok meta (ff_Delete meta c obj f)"
  by (simp_all add: ff_Add_def ff_Update_def ff_Delete_def Let_def queueAction_ok)

lemma ff_event_pending:
  "pending_value (ff_Add meta obj f) c = (pending_value f c)(MetaNamespaceKey (meta obj) \<mapsto> obj)"
  "pending_value (ff_Update meta obj f) c = (pending_value f c)(MetaNamespaceKey (meta obj) \<mapsto> obj)"
  "pending_value (ff_Delete meta c obj f) c = (pending_value f c)(MetaNamespaceKey (meta obj) := None)"
proof -
  let ?k = "MetaNamespaceKey (meta obj)" and ?f = "f\<lparr>ff_populated := True\<rparr>"
  show "pending_value (ff_Add meta obj f) c = (pending_value f c)(?k \<mapsto> obj)"
    using queueAction_pending [of "Added obj" meta ?f c] by (simp add: ff_Add_def)
  show "pending_value (ff_Update meta obj f) c = (pending_value f c)(?k \<mapsto> obj)"
    using queueAction_pending [of "Updated obj" meta ?f c] by (simp add: ff_Update_def)
  show "pending_value (ff_Delete meta c obj f) c = (pending_value f c)(?k := None)"
  proof (cases "ts_Get ?k c = None \<and> ff_items f ?k = None")
    case True
    then have "pending_value f c ?k = None" by (simp add: pending_value_def)
    then show ?thesis using True by (auto simp: ff_Delete_def Let_def)
  next
    case False
    then show ?thesis using queueAction_pending [of "Deleted (Final obj)" meta ?f c] by (auto simp: ff_Delete_def Let_def)
  qed
qed

text \<open>Every object of the store is under its own key.\<close>

definition keyed :: "('o \<Rightarrow> ObjectMeta) \<Rightarrow> 'o store \<Rightarrow> bool" where
  "keyed meta c \<longleftrightarrow> (\<forall>k obj. ts_Get k c = Some obj \<longrightarrow> MetaNamespaceKey (meta obj) = k)"

lemma syncKeyLocked_ok:
  assumes "fifo_ok meta f" and "keyed meta c"
  shows "fifo_ok meta (syncKeyLocked meta c k f)" and "pending_value (syncKeyLocked meta c k f) c = pending_value f c"
proof -
  show "fifo_ok meta (syncKeyLocked meta c k f)"
    using assms(1) by (simp add: syncKeyLocked_def queueAction_ok split: option.split)
  show "pending_value (syncKeyLocked meta c k f) c = pending_value f c"
  proof (cases "ts_Get k c")
    case (Some obj)
    then have k: "MetaNamespaceKey (meta obj) = k" using assms(2) by (simp add: keyed_def)
    show ?thesis
    proof (cases "deltas_of k f = []")
      case True
      then have none: "ff_items f k = None" using assms(1) by (cases "ff_items f k") (auto simp: fifo_ok_def deltas_of_def)
      have "pending_value (queueActionLocked meta (Sync obj) f) c = (pending_value f c)(k := Some obj)"
        using queueAction_pending [of "Sync obj" meta f c] True k by (simp add: willObjectBeDeletedLocked_def)
      moreover have "pending_value f c k = Some obj" using none Some by (simp add: pending_value_def)
      ultimately show ?thesis using True Some k by (simp add: syncKeyLocked_def fun_upd_idem)
    qed (use Some k in \<open>simp add: syncKeyLocked_def\<close>)
  qed (simp add: syncKeyLocked_def)
qed

lemma ff_Resync_ok:
  assumes "fifo_ok meta f" and "keyed meta c"
  shows "fifo_ok meta (ff_Resync meta c f) \<and> pending_value (ff_Resync meta c f) c = pending_value f c"
proof -
  have "fifo_ok meta (fold (syncKeyLocked meta c) ks f) \<and> pending_value (fold (syncKeyLocked meta c) ks f) c = pending_value f c" for ks
    using assms(1) by (induction ks arbitrary: f) (simp_all add: syncKeyLocked_ok [OF _ assms(2)])
  then show ?thesis by (simp add: ff_Resync_def)
qed

lemma ff_Pop_ok:
  assumes "fifo_ok meta f" and "ff_Pop f = (Popped k ds, f')"
  shows "fifo_ok meta f'" and "ff_items f k = Some ds" and "ff_queue f = k # ff_queue f'"
    and "ff_items f' = (ff_items f)(k := None)" and "ff_populated f' = ff_populated f"
    and "ff_initialPopulationCount f' = (if 0 < ff_initialPopulationCount f then ff_initialPopulationCount f - 1 else ff_initialPopulationCount f)"
proof -
  have dom: "set (ff_queue f) = dom (ff_items f)" "distinct (ff_queue f)" using assms(1) by (simp_all add: fifo_ok_def)
  obtain key rest where q: "ff_queue f = key # rest"
    using assms(2) by (cases "ff_queue f") (auto simp: ff_Pop.simps split: if_splits)
  then obtain es where es: "ff_items f key = Some es" using dom(1) by (metis domD list.set_intros(1))
  then have eq: "k = key" "ds = es" "f' = f\<lparr>ff_queue := rest,
      ff_initialPopulationCount := (if 0 < ff_initialPopulationCount f then ff_initialPopulationCount f - 1 else ff_initialPopulationCount f),
      ff_items := (ff_items f)(key := None)\<rparr>"
    using assms(2) q by (auto simp: ff_Pop.simps [of f] Let_def)
  show "ff_items f k = Some ds" "ff_queue f = k # ff_queue f'" "ff_items f' = (ff_items f)(k := None)"
    "ff_populated f' = ff_populated f"
    "ff_initialPopulationCount f' = (if 0 < ff_initialPopulationCount f then ff_initialPopulationCount f - 1 else ff_initialPopulationCount f)"
    using eq q es by simp_all
  have "set rest = dom (ff_items f) - {key}" "distinct rest" using dom q by auto
  then show "fifo_ok meta f'" using assms(1) by (simp add: fifo_ok_def eq)
qed

section \<open>Lemmas: the first list\<close>

text \<open>What is queued stays queued in its place, with its first change.\<close>

definition grows :: "'o fifo \<Rightarrow> 'o fifo \<Rightarrow> bool" where
  "grows f f' \<longleftrightarrow> (\<exists>rest. ff_queue f' = ff_queue f @ rest) \<and>
     (\<forall>k ds. ff_items f k = Some ds \<and> ds \<noteq> [] \<and> \<not> is_deletion (hd ds) \<longrightarrow>
        (\<exists>ds'. ff_items f' k = Some ds' \<and> ds' \<noteq> [] \<and> hd ds' = hd ds)) \<and>
     (ff_populated f \<longrightarrow> ff_populated f' \<and> ff_initialPopulationCount f' = ff_initialPopulationCount f)"

lemma grows_refl: "grows f f"
  by (simp add: grows_def)

lemma grows_trans: "grows f g \<Longrightarrow> grows g h \<Longrightarrow> grows f h"
  unfolding grows_def by (metis append_assoc)

lemma grows_queueAction: "grows f (queueActionLocked meta d f)"
  using queueAction_queue [of meta d f] queueAction_hd [of f _ _ meta d] by (simp add: grows_def)

lemma grows_populated: "grows f (f\<lparr>ff_populated := True\<rparr>)" "grows f (f\<lparr>ff_closed := b\<rparr>)"
  by (simp_all add: grows_def)

lemma grows_fold:
  assumes "\<And>x f. grows f (g x f)"
  shows "grows f (fold g xs f)"
proof (induction xs arbitrary: f)
  case (Cons x xs)
  show ?case using grows_trans [OF assms [of f x] Cons] by simp
qed (simp add: grows_refl)

lemma grows_event:
  "grows f (ff_Add meta obj f)" "grows f (ff_Update meta obj f)" "grows f (ff_Delete meta c obj f)"
  by (simp_all add: ff_Add_def ff_Update_def ff_Delete_def Let_def grows_populated
      grows_trans [OF grows_populated(1) grows_queueAction])

lemma grows_Resync: "grows f (ff_Resync meta c f)"
  unfolding ff_Resync_def
  by (rule grows_fold) (simp add: syncKeyLocked_def grows_refl grows_queueAction split: option.split)

lemma grows_Replace:
  assumes "ff_populated f"
  shows "grows f (ff_Replace meta c list f)"
proof -
  have "grows f (fold (\<lambda>k. queueActionLocked meta (Deleted (Unknown k (ts_Get k c)))) ks (fold (\<lambda>obj. queueActionLocked meta (Sync obj)) list f))" for ks
    by (intro grows_trans [OF grows_fold grows_fold] grows_queueAction)
  then show ?thesis using assms by (simp add: ff_Replace_def Let_def fold_queue_frame)
qed

text \<open>The first list fills an empty queue.\<close>

lemma queueAction_new:
  "ff_items f (KeyOf meta d) = None \<Longrightarrow>
     queueActionLocked meta d f = f\<lparr>ff_queue := ff_queue f @ [KeyOf meta d], ff_items := (ff_items f)(KeyOf meta d \<mapsto> [d])\<rparr>"
  by (simp add: queueActionLocked_def Let_def willObjectBeDeletedLocked_def deltas_of_def dedupDeltas_def)

lemma fold_sync_new:
  assumes "distinct (map (\<lambda>obj. MetaNamespaceKey (meta obj)) list)"
    and "\<And>obj. obj \<in> set list \<Longrightarrow> ff_items f (MetaNamespaceKey (meta obj)) = None"
  shows "ff_queue (fold (\<lambda>obj. queueActionLocked meta (Sync obj)) list f) = ff_queue f @ map (\<lambda>obj. MetaNamespaceKey (meta obj)) list \<and>
    (\<forall>obj\<in>set list. ff_items (fold (\<lambda>obj. queueActionLocked meta (Sync obj)) list f) (MetaNamespaceKey (meta obj)) = Some [Sync obj]) \<and>
    (\<forall>k. k \<notin> (\<lambda>obj. MetaNamespaceKey (meta obj)) ` set list \<longrightarrow> ff_items (fold (\<lambda>obj. queueActionLocked meta (Sync obj)) list f) k = ff_items f k)"
  using assms
proof (induction list arbitrary: f)
  case (Cons obj list)
  have new: "queueActionLocked meta (Sync obj) f =
      f\<lparr>ff_queue := ff_queue f @ [MetaNamespaceKey (meta obj)], ff_items := (ff_items f)(MetaNamespaceKey (meta obj) \<mapsto> [Sync obj])\<rparr>"
    using queueAction_new [of f meta "Sync obj"] Cons.prems(2) by simp
  have "ff_items (queueActionLocked meta (Sync obj) f) (MetaNamespaceKey (meta x)) = None" if "x \<in> set list" for x
  proof -
    have "MetaNamespaceKey (meta x) \<noteq> MetaNamespaceKey (meta obj)" using Cons.prems(1) that by (simp) (metis image_eqI)
    then show ?thesis using Cons.prems(2) [of x] that by (simp add: new)
  qed
  with Cons.IH [of "queueActionLocked meta (Sync obj) f"] Cons.prems(1) show ?case by (auto simp: new)
qed simp

lemmas fifo_defs = ff_Replace_def ListKeys_def ff_Add_def ff_Delete_def Let_def queueActionLocked_def
  deltas_of_def dedupDeltas_def NewDeltaFIFO_def willObjectBeDeletedLocked_def

end
