(* ===== verification/SharedInformer.thy ===== *)
theory SharedInformer
  imports DeltaFifo
begin

text \<open>
  What runs behind an informer, in k8s.io/client-go/tools/cache: the reflector, which fills the queue of changes
  from lists and watches (reflector.go), and the shared informer (shared_informer.go), which empties it into
  the indexed store and tells its listeners. The operator has one for its jobs and one for the pods; its handlers
  see the cluster through them. The parts run as goroutines, here steps; a method that holds a lock throughout
  is one step. The goroutine of the reflector that resyncs acts as soon as its timer fires, in one step.
\<close>

section \<open>Listeners\<close>

datatype 'o notification = AddNote 'o | UpdateNote 'o 'o | DeleteNote "'o gone"

text \<open>
  \<open>ln_notification\<close> and \<open>ln_pending\<close> are the variables of the goroutine \<open>pop\<close>; \<open>ln_handed\<close> is what \<open>run\<close> has
  received and passed to the handler, in order.
\<close>

record 'o listener =
  ln_requestedResyncPeriod :: time
  ln_resyncPeriod :: time
  ln_nextResync :: time
  ln_notification :: "'o notification option"
  ln_pending :: "'o notification list"
  ln_handed :: "'o notification list"

definition newProcessListener :: "time \<Rightarrow> time \<Rightarrow> time \<Rightarrow> 'o listener" where
  "newProcessListener requestedResyncPeriod resyncPeriod now =
     \<lparr>ln_requestedResyncPeriod = requestedResyncPeriod, ln_resyncPeriod = resyncPeriod, ln_nextResync = now + resyncPeriod,
      ln_notification = None, ln_pending = [], ln_handed = []\<rparr>"

definition listener_add :: "'o notification \<Rightarrow> 'o listener \<Rightarrow> 'o listener" where
  "listener_add n l =
     (if ln_notification l = None then l\<lparr>ln_notification := Some n\<rparr> else l\<lparr>ln_pending := ln_pending l @ [n]\<rparr>)"

definition listener_next :: "'o listener \<Rightarrow> 'o listener" where
  "listener_next l =
     (case ln_notification l of
        None \<Rightarrow> l
      | Some n \<Rightarrow>
          (case ln_pending l of
             [] \<Rightarrow> l\<lparr>ln_handed := ln_handed l @ [n], ln_notification := None\<rparr>
           | m # ms \<Rightarrow> l\<lparr>ln_handed := ln_handed l @ [n], ln_notification := Some m, ln_pending := ms\<rparr>))"

definition listener_shouldResync :: "time \<Rightarrow> 'o listener \<Rightarrow> bool" where
  "listener_shouldResync now l \<longleftrightarrow> ln_resyncPeriod l \<noteq> 0 \<and> ln_nextResync l \<le> now"

definition determineNextResync :: "time \<Rightarrow> 'o listener \<Rightarrow> 'o listener" where
  "determineNextResync now l = l\<lparr>ln_nextResync := now + ln_resyncPeriod l\<rparr>"

section \<open>The shared informer\<close>

text \<open>
  \<open>si_syncing\<close> holds the positions of the \<open>syncingListeners\<close>, \<open>si_timer\<close> when the timer of the goroutine that
  resyncs fires. The last two fields are for the proofs: what the API server has told the reflector, and
  the first list.
\<close>

record 'o informer =
  si_indexer :: "'o store"
  si_fifo :: "'o fifo"
  si_listeners :: "'o listener list"
  si_syncing :: "nat list"
  si_resyncCheckPeriod :: time
  si_defaultResyncPeriod :: time
  si_started :: bool
  si_stopped :: bool
  si_timer :: "time option"
  si_time :: time
  si_told :: "string \<rightharpoonup> 'o"
  si_first :: "'o list option"

definition NewSharedIndexInformer :: "time \<Rightarrow> (string \<times> ('o \<Rightarrow> string list)) list \<Rightarrow> 'o informer" where
  "NewSharedIndexInformer defaultResyncPeriod indexers =
     \<lparr>si_indexer = NewIndexer indexers, si_fifo = NewDeltaFIFO, si_listeners = [], si_syncing = [],
      si_resyncCheckPeriod = defaultResyncPeriod, si_defaultResyncPeriod = defaultResyncPeriod,
      si_started = False, si_stopped = False, si_timer = None, si_time = 0,
      si_told = Map.empty, si_first = None\<rparr>"

definition determineResyncPeriod :: "time \<Rightarrow> time \<Rightarrow> time" where
  "determineResyncPeriod desired check =
     (if desired = 0 then desired else if check = 0 then 0 else if desired < check then check else desired)"

definition minimumResyncPeriod :: time where "minimumResyncPeriod = 10 ^ 9"

definition resyncCheckPeriodChanged :: "time \<Rightarrow> 'o listener list \<Rightarrow> 'o listener list" where
  "resyncCheckPeriodChanged period =
     map (\<lambda>l. l\<lparr>ln_resyncPeriod := determineResyncPeriod (ln_requestedResyncPeriod l) period\<rparr>)"

definition addListener :: "'o listener \<Rightarrow> 'o informer \<Rightarrow> 'o informer" where
  "addListener l s =
     s\<lparr>si_listeners := si_listeners s @ [l], si_syncing := si_syncing s @ [length (si_listeners s)]\<rparr>"

text \<open>An informer that already runs tells a new listener everything it has.\<close>

definition AddEventHandlerWithResyncPeriod :: "time \<Rightarrow> 'o informer \<Rightarrow> 'o informer" where
  "AddEventHandlerWithResyncPeriod resyncPeriod s =
     (if si_stopped s then s
      else
        let p1 = (if 0 < resyncPeriod \<and> resyncPeriod < minimumResyncPeriod then minimumResyncPeriod else resyncPeriod);
            sooner = (0 < resyncPeriod \<and> p1 < si_resyncCheckPeriod s);
            p2 = (if sooner \<and> si_started s then si_resyncCheckPeriod s else p1);
            s1 = (if sooner \<and> \<not> si_started s
                  then s\<lparr>si_resyncCheckPeriod := p2, si_listeners := resyncCheckPeriodChanged p2 (si_listeners s)\<rparr> else s);
            l = newProcessListener p2 (determineResyncPeriod p2 (si_resyncCheckPeriod s1)) (si_time s1)
        in if \<not> si_started s then addListener l s1
           else addListener (fold (\<lambda>obj. listener_add (AddNote obj)) (ts_List (si_indexer s1)) l) s1)"

definition AddEventHandler :: "'o informer \<Rightarrow> 'o informer" where
  "AddEventHandler s = AddEventHandlerWithResyncPeriod (si_defaultResyncPeriod s) s"

definition distribute :: "'o notification \<Rightarrow> bool \<Rightarrow> 'o informer \<Rightarrow> 'o informer" where
  "distribute n sync s =
     s\<lparr>si_listeners := map (\<lambda>(i, l). if sync \<and> i \<notin> set (si_syncing s) then l else listener_add n l)
        (enumerate 0 (si_listeners s))\<rparr>"

definition upsert :: "('o \<Rightarrow> ObjectMeta) \<Rightarrow> bool \<Rightarrow> 'o \<Rightarrow> 'o informer \<Rightarrow> 'o informer" where
  "upsert meta isSync obj s =
     (case ts_Get (MetaNamespaceKey (meta obj)) (si_indexer s) of
        Some old \<Rightarrow> distribute (UpdateNote old obj) isSync (s\<lparr>si_indexer := cache_Update meta obj (si_indexer s)\<rparr>)
      | None \<Rightarrow> distribute (AddNote obj) isSync (s\<lparr>si_indexer := cache_Add meta obj (si_indexer s)\<rparr>))"

fun HandleDelta :: "('o \<Rightarrow> ObjectMeta) \<Rightarrow> 'o delta \<Rightarrow> 'o informer \<Rightarrow> 'o informer" where
  "HandleDelta meta (Sync obj) s = upsert meta True obj s"
| "HandleDelta meta (Added obj) s = upsert meta False obj s"
| "HandleDelta meta (Updated obj) s = upsert meta False obj s"
| "HandleDelta meta (Deleted g) s =
     distribute (DeleteNote g) False (s\<lparr>si_indexer := ts_Delete (gone_key meta g) (si_indexer s)\<rparr>)"

definition HandleDeltas :: "('o \<Rightarrow> ObjectMeta) \<Rightarrow> 'o delta list \<Rightarrow> 'o informer \<Rightarrow> 'o informer" where
  "HandleDeltas meta deltas s = fold (HandleDelta meta) deltas s"

definition processor_shouldResync :: "'o informer \<Rightarrow> bool \<times> 'o informer" where
  "processor_shouldResync s =
     (let due = filter (\<lambda>i. listener_shouldResync (si_time s) (si_listeners s ! i)) [0..<length (si_listeners s)] in
      (due \<noteq> [],
       s\<lparr>si_syncing := due,
         si_listeners := map (\<lambda>(i, l). if i \<in> set due then determineNextResync (si_time s) l else l) (enumerate 0 (si_listeners s))\<rparr>))"

definition informer_HasSynced :: "'o informer \<Rightarrow> bool" where
  "informer_HasSynced s \<longleftrightarrow> si_started s \<and> ff_HasSynced (si_fifo s)"

text \<open>The informers of the jobs: with any indexers, and the one of the factory, with the namespace index.\<close>

definition NewCaffe2JobInformer :: "time \<Rightarrow> (string \<times> (Caffe2Job \<Rightarrow> string list)) list \<Rightarrow> Caffe2Job informer" where
  "NewCaffe2JobInformer resyncPeriod indexers = NewSharedIndexInformer resyncPeriod indexers"

definition default_job_informer :: "time \<Rightarrow> Caffe2Job informer" where
  "default_job_informer resyncPeriod =
     NewCaffe2JobInformer resyncPeriod [(NamespaceIndex, MetaNamespaceIndexFunc job_Meta)]"

section \<open>Steps\<close>

text \<open>An event of a watch.\<close>

datatype 'o event = WatchAdded 'o | WatchModified 'o | WatchDeleted 'o

text \<open>\<open>ListAndWatch\<close> on a list it received, with the timer it starts, and \<open>watchHandler\<close> on an event.\<close>

definition reflector_list :: "('o \<Rightarrow> ObjectMeta) \<Rightarrow> 'o list \<Rightarrow> 'o informer \<Rightarrow> 'o informer" where
  "reflector_list meta list s =
     s\<lparr>si_fifo := ff_Replace meta (si_indexer s) list (si_fifo s),
       si_timer := (if si_resyncCheckPeriod s = 0 then None else Some (si_time s + si_resyncCheckPeriod s)),
       si_told := map_of (map (\<lambda>obj. (MetaNamespaceKey (meta obj), obj)) list),
       si_first := (if si_first s = None then Some list else si_first s)\<rparr>"

fun reflector_event :: "('o \<Rightarrow> ObjectMeta) \<Rightarrow> 'o event \<Rightarrow> 'o informer \<Rightarrow> 'o informer" where
  "reflector_event meta (WatchAdded obj) s =
     s\<lparr>si_fifo := ff_Add meta obj (si_fifo s), si_told := (si_told s)(MetaNamespaceKey (meta obj) \<mapsto> obj)\<rparr>"
| "reflector_event meta (WatchModified obj) s =
     s\<lparr>si_fifo := ff_Update meta obj (si_fifo s), si_told := (si_told s)(MetaNamespaceKey (meta obj) \<mapsto> obj)\<rparr>"
| "reflector_event meta (WatchDeleted obj) s =
     s\<lparr>si_fifo := ff_Delete meta (si_indexer s) obj (si_fifo s), si_told := (si_told s)(MetaNamespaceKey (meta obj) := None)\<rparr>"

definition reflector_resync :: "('o \<Rightarrow> ObjectMeta) \<Rightarrow> 'o informer \<Rightarrow> 'o informer" where
  "reflector_resync meta s =
     (case processor_shouldResync s of (needed, s1) \<Rightarrow>
        s1\<lparr>si_fifo := (if needed then ff_Resync meta (si_indexer s1) (si_fifo s1) else si_fifo s1),
           si_timer := Some (si_time s1 + si_resyncCheckPeriod s1)\<rparr>)"

text \<open>
  Handlers are added before the start, as the operator does; a list may come at any time after it, as often
  as the watch breaks. \<open>P\<close> restricts the lists that are considered.
\<close>

inductive informer_step ::
  "('o \<Rightarrow> ObjectMeta) \<Rightarrow> ('o informer \<Rightarrow> 'o list \<Rightarrow> bool) \<Rightarrow> 'o informer \<Rightarrow> 'o informer \<Rightarrow> bool" for meta P where
  handler: "\<not> si_started s \<Longrightarrow> informer_step meta P s (AddEventHandler s)"
| start: "\<not> si_started s \<Longrightarrow> informer_step meta P s (s\<lparr>si_started := True\<rparr>)"
| listed: "si_started s \<Longrightarrow> P s list \<Longrightarrow> distinct (map (\<lambda>obj. MetaNamespaceKey (meta obj)) list) \<Longrightarrow>
    informer_step meta P s (reflector_list meta list s)"
| watched: "si_first s \<noteq> None \<Longrightarrow> informer_step meta P s (reflector_event meta e s)"
| popped: "si_started s \<Longrightarrow> ff_Pop (si_fifo s) = (Popped key deltas, f) \<Longrightarrow>
    informer_step meta P s (HandleDeltas meta deltas (s\<lparr>si_fifo := f\<rparr>))"
| resynced: "si_timer s = Some t \<Longrightarrow> t \<le> si_time s \<Longrightarrow> informer_step meta P s (reflector_resync meta s)"
| delivered: "i < length (si_listeners s) \<Longrightarrow>
    informer_step meta P s (s\<lparr>si_listeners := (si_listeners s)[i := listener_next (si_listeners s ! i)]\<rparr>)"
| closed: "informer_step meta P s (s\<lparr>si_fifo := (si_fifo s)\<lparr>ff_closed := True\<rparr>\<rparr>)"
| passes: "si_time s \<le> t \<Longrightarrow> informer_step meta P s (s\<lparr>si_time := t\<rparr>)"

inductive informer_reachable ::
  "('o \<Rightarrow> ObjectMeta) \<Rightarrow> ('o informer \<Rightarrow> 'o list \<Rightarrow> bool) \<Rightarrow> 'o informer \<Rightarrow> 'o informer \<Rightarrow> bool" for meta P s0 where
  at_first: "informer_reachable meta P s0 s0"
| then_step: "informer_reachable meta P s0 s \<Longrightarrow> informer_step meta P s s' \<Longrightarrow> informer_reachable meta P s0 s'"

definition clean_list :: "('o \<Rightarrow> ObjectMeta) \<Rightarrow> 'o informer \<Rightarrow> 'o list \<Rightarrow> bool" where
  "clean_list meta s list = clean_changes meta (si_fifo s) (si_indexer s) list"

section \<open>Lemmas: the store follows\<close>

definition changes_of :: "('o \<Rightarrow> ObjectMeta) \<Rightarrow> 'o delta list \<Rightarrow> (string \<times> 'o option) list" where
  "changes_of meta = map (\<lambda>d. (KeyOf meta d, value_of d))"

lemma distribute_frame [simp]:
  "si_indexer (distribute n b s) = si_indexer s" "si_fifo (distribute n b s) = si_fifo s"
  "si_syncing (distribute n b s) = si_syncing s" "si_resyncCheckPeriod (distribute n b s) = si_resyncCheckPeriod s"
  "si_started (distribute n b s) = si_started s" "si_timer (distribute n b s) = si_timer s"
  "si_time (distribute n b s) = si_time s" "si_told (distribute n b s) = si_told s"
  "si_first (distribute n b s) = si_first s" "si_defaultResyncPeriod (distribute n b s) = si_defaultResyncPeriod s"
  "si_stopped (distribute n b s) = si_stopped s" "length (si_listeners (distribute n b s)) = length (si_listeners s)"
  by (simp_all add: distribute_def)

lemma HandleDelta_frame [simp]:
  "si_fifo (HandleDelta meta d s) = si_fifo s" "si_syncing (HandleDelta meta d s) = si_syncing s"
  "si_resyncCheckPeriod (HandleDelta meta d s) = si_resyncCheckPeriod s" "si_started (HandleDelta meta d s) = si_started s"
  "si_timer (HandleDelta meta d s) = si_timer s" "si_time (HandleDelta meta d s) = si_time s"
  "si_told (HandleDelta meta d s) = si_told s" "si_first (HandleDelta meta d s) = si_first s"
  "si_defaultResyncPeriod (HandleDelta meta d s) = si_defaultResyncPeriod s" "si_stopped (HandleDelta meta d s) = si_stopped s"
  "length (si_listeners (HandleDelta meta d s)) = length (si_listeners s)"
  by (cases d; simp add: upsert_def split: option.split)+

lemma HandleDeltas_frame [simp]:
  "si_fifo (HandleDeltas meta ds s) = si_fifo s" "si_syncing (HandleDeltas meta ds s) = si_syncing s"
  "si_resyncCheckPeriod (HandleDeltas meta ds s) = si_resyncCheckPeriod s" "si_started (HandleDeltas meta ds s) = si_started s"
  "si_timer (HandleDeltas meta ds s) = si_timer s" "si_time (HandleDeltas meta ds s) = si_time s"
  "si_told (HandleDeltas meta ds s) = si_told s" "si_first (HandleDeltas meta ds s) = si_first s"
  "si_defaultResyncPeriod (HandleDeltas meta ds s) = si_defaultResyncPeriod s" "si_stopped (HandleDeltas meta ds s) = si_stopped s"
  "length (si_listeners (HandleDeltas meta ds s)) = length (si_listeners s)"
  by (induction ds arbitrary: s) (simp_all add: HandleDeltas_def)

lemma HandleDeltas_Nil [simp]: "HandleDeltas meta [] s = s"
  and HandleDeltas_Cons [simp]: "HandleDeltas meta (d # ds) s = HandleDeltas meta ds (HandleDelta meta d s)"
  by (simp_all add: HandleDeltas_def)

lemma HandleDelta_indexer:
  "si_indexer (HandleDelta meta d s) =
     (case value_of d of None \<Rightarrow> ts_Delete (KeyOf meta d) (si_indexer s) | Some obj \<Rightarrow> ts_Add (KeyOf meta d) obj (si_indexer s))"
  by (cases d) (simp_all add: upsert_def cache_ops split: option.split)

lemma HandleDeltas_indexer:
  "si_indexer (HandleDeltas meta ds s) = items.apply_changes (changes_of meta ds) (si_indexer s)"
  by (induction ds arbitrary: s) (simp_all add: changes_of_def items.apply_changes_def HandleDelta_indexer split: option.split)

lemma HandleDeltas_contents:
  assumes "store_ok (si_indexer s)" and "ds \<noteq> []" and "\<forall>d\<in>set ds. KeyOf meta d = k"
  shows "ts_Get j (si_indexer (HandleDeltas meta ds s)) = (if j = k then value_of (last ds) else ts_Get j (si_indexer s))"
proof -
  obtain es e where ds: "ds = es @ [e]" using assms(2) by (metis append_butlast_last_id)
  have "map_of (rev (changes_of meta ds)) j = (if j = k then Some (value_of e) else None)"
    using assms(3) by (auto simp: changes_of_def ds map_of_eq_None_iff)
  then show ?thesis using items.changes_contents [OF assms(1)] by (simp add: HandleDeltas_indexer ds)
qed

definition informer_ok :: "('o \<Rightarrow> ObjectMeta) \<Rightarrow> 'o informer \<Rightarrow> bool" where
  "informer_ok meta s \<longleftrightarrow> store_ok (si_indexer s) \<and> keyed meta (si_indexer s) \<and> fifo_ok meta (si_fifo s)"

lemma AddEventHandler_frame:
  assumes "\<not> si_started s"
  shows "si_indexer (AddEventHandler s) = si_indexer s" and "si_fifo (AddEventHandler s) = si_fifo s"
    and "si_told (AddEventHandler s) = si_told s" and "si_first (AddEventHandler s) = si_first s"
    and "si_started (AddEventHandler s) = si_started s" and "si_timer (AddEventHandler s) = si_timer s"
    and "si_time (AddEventHandler s) = si_time s"
  using assms by (simp_all add: AddEventHandler_def AddEventHandlerWithResyncPeriod_def addListener_def Let_def)

lemma reflector_resync_frame:
  "si_indexer (reflector_resync meta s) = si_indexer s" "si_told (reflector_resync meta s) = si_told s"
  "si_first (reflector_resync meta s) = si_first s" "si_started (reflector_resync meta s) = si_started s"
  "si_time (reflector_resync meta s) = si_time s" "si_resyncCheckPeriod (reflector_resync meta s) = si_resyncCheckPeriod s"
  "si_fifo (reflector_resync meta s) = si_fifo s \<or> si_fifo (reflector_resync meta s) = ff_Resync meta (si_indexer s) (si_fifo s)"
  by (simp_all add: reflector_resync_def processor_shouldResync_def Let_def)

lemma informer_ok_step:
  assumes "informer_ok meta s" and "informer_step meta P s s'"
  shows "informer_ok meta s'"
  using assms(2)
proof cases
  case (watched e)
  then show ?thesis using assms(1) by (cases e) (simp_all add: informer_ok_def ff_event_ok)
next
  case (popped k ds f)
  have f: "fifo_ok meta (si_fifo s)" using assms(1) by (simp add: informer_ok_def)
  note pop = ff_Pop_ok [OF f popped(3)]
  have ds: "ds \<noteq> []" "\<forall>d\<in>set ds. KeyOf meta d = k" using f pop(2) by (auto simp: fifo_ok_def)
  let ?s = "s\<lparr>si_fifo := f\<rparr>"
  have c: "ts_Get j (si_indexer s') = (if j = k then value_of (last ds) else ts_Get j (si_indexer s))" for j
    using HandleDeltas_contents [of ?s ds meta k j] ds assms(1) by (simp add: popped(1) informer_ok_def)
  have "KeyOf meta (last ds) = k" using ds by simp
  then have "value_of (last ds) = Some obj \<Longrightarrow> MetaNamespaceKey (meta obj) = k" for obj by (cases "last ds") auto
  then have "keyed meta (si_indexer s')" using assms(1) c by (auto simp: keyed_def informer_ok_def split: if_splits)
  moreover have "store_ok (si_indexer s')"
    using assms(1) by (simp add: popped(1) HandleDeltas_indexer informer_ok_def items.changes_ok)
  ultimately show ?thesis using pop(1) by (simp add: informer_ok_def popped(1))
next
  case resynced
  then show ?thesis using assms(1) ff_Resync_ok [of meta "si_fifo s" "si_indexer s"] reflector_resync_frame [of meta s]
    by (auto simp: informer_ok_def)
qed (use assms(1) in \<open>auto simp: informer_ok_def AddEventHandler_frame reflector_list_def ff_Replace_ok\<close>)

text \<open>The informer at the beginning, and what the API server has told it.\<close>

definition fresh_informer :: "('o \<Rightarrow> ObjectMeta) \<Rightarrow> time \<Rightarrow> 'o informer \<Rightarrow> bool" where
  "fresh_informer meta period s \<longleftrightarrow>
     (\<exists>indexers t. wf_map indexers \<and> s = (NewSharedIndexInformer period indexers)\<lparr>si_time := t\<rparr>) \<and>
     (period = 0 \<or> minimumResyncPeriod \<le> period)"

lemma informer_ok_fresh: "fresh_informer meta period s \<Longrightarrow> informer_ok meta s"
  by (auto simp: fresh_informer_def informer_ok_def NewSharedIndexInformer_def NewIndexer_def store_ok_def indexes_def
      index_at_def keyed_def ts_Get_def fifo_ok_New)

lemma informer_reachable_ok:
  assumes "informer_reachable meta P s0 s" and "fresh_informer meta period s0"
  shows "informer_ok meta s"
  using assms by (induction rule: informer_reachable.induct) (auto intro: informer_ok_fresh informer_ok_step)

lemma told_step:
  assumes "informer_ok meta s" and "si_told s = pending_value (si_fifo s) (si_indexer s)"
    and "informer_step meta (clean_list meta) s s'"
  shows "si_told s' = pending_value (si_fifo s') (si_indexer s')"
  using assms(3)
proof cases
  case (listed list)
  then show ?thesis using assms(1,2) ff_Replace_pending [of meta "si_fifo s" "si_indexer s" list]
    by (simp add: reflector_list_def informer_ok_def clean_list_def)
next
  case (watched e)
  then show ?thesis using assms(2) by (cases e) (simp_all add: ff_event_pending)
next
  case (popped k ds f)
  have f: "fifo_ok meta (si_fifo s)" using assms(1) by (simp add: informer_ok_def)
  note pop = ff_Pop_ok [OF f popped(3)]
  have ds: "ds \<noteq> []" "\<forall>d\<in>set ds. KeyOf meta d = k" using f pop(2) by (auto simp: fifo_ok_def)
  have "ts_Get j (si_indexer s') = (if j = k then value_of (last ds) else ts_Get j (si_indexer s))" for j
    using HandleDeltas_contents [of "s\<lparr>si_fifo := f\<rparr>" ds meta k j] ds assms(1) by (simp add: popped(1) informer_ok_def)
  then show ?thesis using assms(2) pop(2,4) by (auto simp: popped(1) pending_value_def fun_eq_iff split: option.split)
next
  case resynced
  then show ?thesis using assms(1,2) ff_Resync_ok [of meta "si_fifo s" "si_indexer s"] reflector_resync_frame [of meta s]
    by (auto simp: informer_ok_def)
qed (use assms(2) in \<open>simp_all add: AddEventHandler_frame\<close>)

lemma told_reachable:
  assumes "informer_reachable meta (clean_list meta) s0 s" and "fresh_informer meta period s0"
  shows "si_told s = pending_value (si_fifo s) (si_indexer s)"
  using assms
proof (induction rule: informer_reachable.induct)
  case at_first
  then show ?case
    by (auto simp: fresh_informer_def NewSharedIndexInformer_def NewIndexer_def NewDeltaFIFO_def pending_value_def ts_Get_def)
next
  case (then_step s s')
  then show ?case using told_step informer_reachable_ok by blast
qed

section \<open>Lemmas: what the listeners are told\<close>

definition notes_of :: "'o listener \<Rightarrow> 'o notification list" where
  "notes_of l = ln_handed l @ (case ln_notification l of None \<Rightarrow> [] | Some n \<Rightarrow> [n]) @ ln_pending l"

definition listener_ok :: "'o listener \<Rightarrow> bool" where
  "listener_ok l \<longleftrightarrow> (ln_notification l = None \<longrightarrow> ln_pending l = [])"

lemma listener_add_ok:
  "listener_ok l \<Longrightarrow> listener_ok (listener_add n l) \<and> notes_of (listener_add n l) = notes_of l @ [n]"
  by (auto simp: listener_ok_def listener_add_def notes_of_def)

lemma listener_next_ok:
  "listener_ok l \<Longrightarrow> listener_ok (listener_next l) \<and> notes_of (listener_next l) = notes_of l"
  by (auto simp: listener_ok_def listener_next_def notes_of_def split: option.split list.split)

lemma listener_periods [simp]:
  "ln_resyncPeriod (listener_add n l) = ln_resyncPeriod l" "ln_nextResync (listener_add n l) = ln_nextResync l"
  "ln_resyncPeriod (listener_next l) = ln_resyncPeriod l" "ln_nextResync (listener_next l) = ln_nextResync l"
  by (simp_all add: listener_add_def listener_next_def split: option.split list.split)

text \<open>What a handler knows that keeps a map of the objects it was told about.\<close>

fun note_effect :: "('o \<Rightarrow> ObjectMeta) \<Rightarrow> 'o notification \<Rightarrow> (string \<rightharpoonup> 'o) \<Rightarrow> (string \<rightharpoonup> 'o)" where
  "note_effect meta (AddNote obj) m = m(MetaNamespaceKey (meta obj) \<mapsto> obj)"
| "note_effect meta (UpdateNote old obj) m = m(MetaNamespaceKey (meta obj) \<mapsto> obj)"
| "note_effect meta (DeleteNote g) m = m(gone_key meta g := None)"

definition view :: "('o \<Rightarrow> ObjectMeta) \<Rightarrow> 'o notification list \<Rightarrow> string \<rightharpoonup> 'o" where
  "view meta ns = fold (note_effect meta) ns Map.empty"

fun sees :: "('o \<Rightarrow> ObjectMeta) \<Rightarrow> 'o notification \<Rightarrow> (string \<rightharpoonup> 'o) \<Rightarrow> bool" where
  "sees meta (AddNote obj) m \<longleftrightarrow> m (MetaNamespaceKey (meta obj)) = None"
| "sees meta (UpdateNote old obj) m \<longleftrightarrow> m (MetaNamespaceKey (meta obj)) = Some old"
| "sees meta (DeleteNote g) m \<longleftrightarrow> True"

definition coherent :: "('o \<Rightarrow> ObjectMeta) \<Rightarrow> 'o notification list \<Rightarrow> bool" where
  "coherent meta ns \<longleftrightarrow> (\<forall>us n vs. ns = us @ n # vs \<longrightarrow> sees meta n (view meta us))"

lemma view_snoc: "view meta (ns @ [n]) = note_effect meta n (view meta ns)"
  by (simp add: view_def)

lemma coherent_Nil: "coherent meta []"
  by (simp add: coherent_def)

lemma coherent_snoc: "coherent meta ns \<Longrightarrow> sees meta n (view meta ns) \<Longrightarrow> coherent meta (ns @ [n])"
  unfolding coherent_def by (metis append_eq_append_conv2 append_is_Nil_conv butlast.simps(2) butlast_append butlast_snoc last.simps last_appendR last_snoc list.distinct(1))

definition view_ok :: "('o \<Rightarrow> ObjectMeta) \<Rightarrow> 'o store \<Rightarrow> 'o listener \<Rightarrow> bool" where
  "view_ok meta c l \<longleftrightarrow> listener_ok l \<and> view meta (notes_of l) = (\<lambda>k. ts_Get k c) \<and> coherent meta (notes_of l)"

text \<open>Every listener is among those that are syncing, and is due when the timer fires.\<close>

definition sync_ok :: "time \<Rightarrow> 'o informer \<Rightarrow> bool" where
  "sync_ok period s \<longleftrightarrow> (period = 0 \<or> minimumResyncPeriod \<le> period) \<and>
     si_resyncCheckPeriod s = period \<and> si_defaultResyncPeriod s = period \<and>
     set (si_syncing s) = {0..<length (si_listeners s)} \<and>
     (\<forall>l\<in>set (si_listeners s). ln_resyncPeriod l = period \<and> ln_nextResync l \<le> si_time s + period \<and>
        (\<forall>t. si_timer s = Some t \<longrightarrow> ln_nextResync l \<le> t)) \<and>
     (period = 0 \<or> \<not> si_started s \<longrightarrow> si_timer s = None)"

lemma distribute_all:
  assumes "sync_ok period s"
  shows "si_listeners (distribute n b s) = map (listener_add n) (si_listeners s)"
proof (rule nth_equalityI)
  fix i assume "i < length (si_listeners (distribute n b s))"
  then have i: "i < length (si_listeners s)" by simp
  then have "i \<in> set (si_syncing s)" using assms by (simp add: sync_ok_def)
  then show "si_listeners (distribute n b s) ! i = map (listener_add n) (si_listeners s) ! i"
    using i by (simp add: distribute_def nth_enumerate_eq)
qed simp

lemma sync_ok_listeners:
  assumes "sync_ok period s" and "si_syncing s' = si_syncing s" and "si_resyncCheckPeriod s' = si_resyncCheckPeriod s"
    and "si_defaultResyncPeriod s' = si_defaultResyncPeriod s" and "si_timer s' = si_timer s" and "si_started s' = si_started s"
    and "si_time s' = si_time s" and "length (si_listeners s') = length (si_listeners s)"
    and "\<And>l'. l' \<in> set (si_listeners s') \<Longrightarrow> \<exists>l\<in>set (si_listeners s). ln_resyncPeriod l' = ln_resyncPeriod l \<and> ln_nextResync l' = ln_nextResync l"
  shows "sync_ok period s'"
  using assms(1-8) unfolding sync_ok_def by (metis assms(9))

text \<open>One notification for all.\<close>

lemma note_ok:
  assumes "sync_ok period s" and "\<And>l. l \<in> set (si_listeners s) \<Longrightarrow> view_ok meta c l"
    and "sees meta n (\<lambda>k. ts_Get k c)" and "note_effect meta n (\<lambda>k. ts_Get k c) = (\<lambda>k. ts_Get k c')"
  shows "sync_ok period (distribute n b s)" and "l \<in> set (si_listeners (distribute n b s)) \<Longrightarrow> view_ok meta c' l"
proof -
  show "sync_ok period (distribute n b s)"
    by (rule sync_ok_listeners [OF assms(1)]) (auto simp: distribute_all [OF assms(1)])
  assume "l \<in> set (si_listeners (distribute n b s))"
  then obtain l' where l: "l' \<in> set (si_listeners s)" "l = listener_add n l'" by (auto simp: distribute_all [OF assms(1)])
  then have ok: "listener_ok l'" "view meta (notes_of l') = (\<lambda>k. ts_Get k c)" "coherent meta (notes_of l')"
    using assms(2) by (auto simp: view_ok_def)
  with listener_add_ok [OF ok(1), of n] assms(3,4) show "view_ok meta c' l"
    by (simp add: view_ok_def l(2) view_snoc coherent_snoc)
qed

lemma HandleDelta_view:
  assumes "sync_ok period s" and "\<And>l. l \<in> set (si_listeners s) \<Longrightarrow> view_ok meta (si_indexer s) l" and "store_ok (si_indexer s)"
  shows "sync_ok period (HandleDelta meta d s) \<and> store_ok (si_indexer (HandleDelta meta d s)) \<and>
    (\<forall>l\<in>set (si_listeners (HandleDelta meta d s)). view_ok meta (si_indexer (HandleDelta meta d s)) l)"
proof -
  have sync: "sync_ok period (s\<lparr>si_indexer := c\<rparr>)" for c by (rule sync_ok_listeners [OF assms(1)]) auto
  have store: "store_ok (si_indexer (HandleDelta meta d s))"
    using assms(3) by (simp add: HandleDelta_indexer ts_Add_ok ts_Delete_ok split: option.split)
  have told: "sync_ok period (distribute n b (s\<lparr>si_indexer := c\<rparr>)) \<and>
      (\<forall>l\<in>set (si_listeners (distribute n b (s\<lparr>si_indexer := c\<rparr>))). view_ok meta c l)"
    if "sees meta n (\<lambda>k. ts_Get k (si_indexer s))" "note_effect meta n (\<lambda>k. ts_Get k (si_indexer s)) = (\<lambda>k. ts_Get k c)" for n b c
    using note_ok [OF sync [of c], where meta = meta and c = "si_indexer s" and n = n and c' = c and b = b] assms(2) that by simp
  have upsert: "sync_ok period (upsert meta b obj s) \<and> (\<forall>l\<in>set (si_listeners (upsert meta b obj s)). view_ok meta (si_indexer (upsert meta b obj s)) l)" for b obj
  proof (cases "ts_Get (MetaNamespaceKey (meta obj)) (si_indexer s)")
    case None
    have "note_effect meta (AddNote obj) (\<lambda>k. ts_Get k (si_indexer s)) = (\<lambda>k. ts_Get k (cache_Add meta obj (si_indexer s)))"
      using items.contents_put [OF assms(3)] by (simp add: cache_ops)
    then show ?thesis using None told [of "AddNote obj"] by (simp add: upsert_def)
  next
    case (Some old)
    have "note_effect meta (UpdateNote old obj) (\<lambda>k. ts_Get k (si_indexer s)) = (\<lambda>k. ts_Get k (cache_Update meta obj (si_indexer s)))"
      using items.contents_put [OF assms(3)] by (simp add: cache_ops)
    then show ?thesis using Some told [of "UpdateNote old obj"] by (simp add: upsert_def)
  qed
  show ?thesis
  proof (cases d)
    case (Deleted g)
    have "note_effect meta (DeleteNote g) (\<lambda>k. ts_Get k (si_indexer s)) = (\<lambda>k. ts_Get k (ts_Delete (gone_key meta g) (si_indexer s)))"
      using items.contents_del [OF assms(3)] by simp
    then show ?thesis using Deleted store told [of "DeleteNote g"] by simp
  qed (use upsert store in simp_all)
qed

lemma HandleDeltas_view:
  assumes "sync_ok period s" and "\<And>l. l \<in> set (si_listeners s) \<Longrightarrow> view_ok meta (si_indexer s) l" and "store_ok (si_indexer s)"
  shows "sync_ok period (HandleDeltas meta ds s) \<and>
    (\<forall>l\<in>set (si_listeners (HandleDeltas meta ds s)). view_ok meta (si_indexer (HandleDeltas meta ds s)) l)"
  using assms
proof (induction ds arbitrary: s)
  case (Cons d ds)
  from HandleDelta_view [OF Cons.prems, of d] show ?case using Cons.IH [of "HandleDelta meta d s"] by simp
qed simp

definition listeners_ok :: "('o \<Rightarrow> ObjectMeta) \<Rightarrow> time \<Rightarrow> 'o informer \<Rightarrow> bool" where
  "listeners_ok meta period s \<longleftrightarrow> informer_ok meta s \<and> sync_ok period s \<and>
     (\<forall>l\<in>set (si_listeners s). view_ok meta (si_indexer s) l) \<and>
     (\<not> si_started s \<longrightarrow> ts_items (si_indexer s) = [] \<and> si_first s = None)"

lemma listeners_ok_fresh: "fresh_informer meta period s \<Longrightarrow> listeners_ok meta period s"
  by (auto simp: listeners_ok_def informer_ok_fresh)
    (auto simp: fresh_informer_def sync_ok_def NewSharedIndexInformer_def NewIndexer_def)

lemma AddEventHandler_sync:
  assumes "sync_ok period s" and "\<not> si_started s" and "\<not> si_stopped s"
  shows "AddEventHandler s = addListener (newProcessListener period period (si_time s)) s"
    and "sync_ok period (AddEventHandler s)"
proof -
  have p: "si_resyncCheckPeriod s = period" "si_defaultResyncPeriod s = period" "period = 0 \<or> minimumResyncPeriod \<le> period"
    using assms(1) by (simp_all add: sync_ok_def)
  moreover have "determineResyncPeriod period period = period" by (simp add: determineResyncPeriod_def)
  ultimately show eq: "AddEventHandler s = addListener (newProcessListener period period (si_time s)) s"
    using assms(2,3) by (auto simp: AddEventHandler_def AddEventHandlerWithResyncPeriod_def Let_def)
  show "sync_ok period (AddEventHandler s)"
    using assms(1,2) by (auto simp: eq sync_ok_def addListener_def newProcessListener_def atLeast0_lessThan_Suc)
qed

lemma reflector_resync_sync:
  assumes "sync_ok period s" and "si_timer s = Some t" and "t \<le> si_time s"
  shows "sync_ok period (reflector_resync meta s)"
    and "si_listeners (reflector_resync meta s) = map (determineNextResync (si_time s)) (si_listeners s)"
proof -
  let ?n = "length (si_listeners s)" let ?s = "reflector_resync meta s"
  have period: "period \<noteq> 0" using assms(1,2) by (auto simp: sync_ok_def)
  have due: "listener_shouldResync (si_time s) (si_listeners s ! i)" if "i < ?n" for i
  proof -
    have "si_listeners s ! i \<in> set (si_listeners s)" using that by simp
    then have "ln_resyncPeriod (si_listeners s ! i) = period" "ln_nextResync (si_listeners s ! i) \<le> t"
      using assms(1,2) unfolding sync_ok_def by blast+
    then show ?thesis using period assms(3) by (simp add: listener_shouldResync_def)
  qed
  then have all: "filter (\<lambda>i. listener_shouldResync (si_time s) (si_listeners s ! i)) [0..<?n] = [0..<?n]" by simp
  show ls: "si_listeners ?s = map (determineNextResync (si_time s)) (si_listeners s)"
    by (rule nth_equalityI) (simp_all add: reflector_resync_def processor_shouldResync_def Let_def all nth_enumerate_eq)
  have "si_syncing ?s = [0..<?n]" "si_defaultResyncPeriod ?s = si_defaultResyncPeriod s"
    "si_timer ?s = Some (si_time s + si_resyncCheckPeriod s)"
    by (simp_all add: reflector_resync_def processor_shouldResync_def Let_def all)
  then show "sync_ok period ?s"
    using assms(1,2) by (auto simp: sync_ok_def reflector_resync_frame ls determineNextResync_def)
qed

lemma view_ok_same:
  "listener_ok l' = listener_ok l \<Longrightarrow> notes_of l' = notes_of l \<Longrightarrow> view_ok meta c l' = view_ok meta c l"
  by (simp add: view_ok_def)

lemma listeners_ok_step:
  assumes "listeners_ok meta period s" and "informer_step meta P s s'"
  shows "listeners_ok meta period s'"
proof -
  have ok: "informer_ok meta s" and sync: "sync_ok period s" and store: "store_ok (si_indexer s)"
    and views: "\<And>l. l \<in> set (si_listeners s) \<Longrightarrow> view_ok meta (si_indexer s) l"
    using assms(1) by (simp_all add: listeners_ok_def informer_ok_def)
  have ok': "informer_ok meta s'" by (rule informer_ok_step [OF ok assms(2)])
  have "sync_ok period s' \<and> (\<forall>l\<in>set (si_listeners s'). view_ok meta (si_indexer s') l) \<and>
     (\<not> si_started s' \<longrightarrow> ts_items (si_indexer s') = [] \<and> si_first s' = None)"
    using assms(2)
  proof cases
    case handler
    show ?thesis
    proof (cases "si_stopped s")
      case True
      then have "AddEventHandler s = s" by (simp add: AddEventHandler_def AddEventHandlerWithResyncPeriod_def)
      then show ?thesis using assms(1) handler by (simp add: listeners_ok_def)
    next
      case False
      note add = AddEventHandler_sync [OF sync handler(2) False]
      have "view_ok meta (si_indexer s) (newProcessListener period period (si_time s))"
        using assms(1) handler(2)
        by (auto simp: listeners_ok_def view_ok_def listener_ok_def newProcessListener_def notes_of_def view_def coherent_Nil ts_Get_def fun_eq_iff)
      then show ?thesis using add views assms(1) handler by (auto simp: addListener_def listeners_ok_def)
    qed
  next
    case (listed list)
    then show ?thesis using sync views by (auto simp: reflector_list_def sync_ok_def split: if_splits)
  next
    case (watched e)
    have "si_started s" using assms(1) watched(2) by (auto simp: listeners_ok_def)
    moreover have "sync_ok period s'" using sync by (cases e) (simp_all add: watched(1) sync_ok_def)
    ultimately show ?thesis using views by (cases e) (simp_all add: watched(1))
  next
    case (popped k ds f)
    have "sync_ok period (s\<lparr>si_fifo := f\<rparr>)" by (rule sync_ok_listeners [OF sync]) auto
    then show ?thesis using HandleDeltas_view [of period "s\<lparr>si_fifo := f\<rparr>" meta ds] views store popped by simp
  next
    case (resynced t)
    note r = reflector_resync_sync [OF sync resynced(2,3), of meta]
    have "si_started s" using sync resynced(2) by (auto simp: sync_ok_def)
    moreover have "view_ok meta (si_indexer s) (determineNextResync now l)" if "l \<in> set (si_listeners s)" for l now
      using views [OF that] by (simp add: view_ok_def determineNextResync_def listener_ok_def notes_of_def)
    ultimately show ?thesis using r by (auto simp: resynced(1) reflector_resync_frame)
  next
    case (delivered i)
    have l: "l \<in> set (si_listeners s') \<Longrightarrow> l \<in> set (si_listeners s) \<or> l = listener_next (si_listeners s ! i)" for l
      using delivered set_update_subset_insert by fastforce
    have i: "si_listeners s ! i \<in> set (si_listeners s)" using delivered(2) by simp
    have "view_ok meta (si_indexer s) (listener_next (si_listeners s ! i))"
      using views [OF i] listener_next_ok by (auto simp: view_ok_def)
    moreover have "sync_ok period s'"
    proof (rule sync_ok_listeners [OF sync])
      fix l' assume "l' \<in> set (si_listeners s')"
      from l [OF this] i show "\<exists>l\<in>set (si_listeners s). ln_resyncPeriod l' = ln_resyncPeriod l \<and> ln_nextResync l' = ln_nextResync l"
        by (metis listener_periods(3,4))
    qed (simp_all add: delivered(1))
    ultimately show ?thesis using l views assms(1) delivered by (auto simp: listeners_ok_def)
  next
    case start
    then show ?thesis using sync views by (simp add: sync_ok_def)
  next
    case closed
    then show ?thesis using sync views assms(1) by (simp add: sync_ok_def listeners_ok_def)
  next
    case (passes t)
    then show ?thesis using sync views assms(1) by (fastforce simp: sync_ok_def listeners_ok_def)
  qed
  then show ?thesis using ok' by (simp add: listeners_ok_def)
qed

lemma listeners_reachable:
  assumes "informer_reachable meta P s0 s" and "fresh_informer meta period s0"
  shows "listeners_ok meta period s"
  using assms by (induction rule: informer_reachable.induct) (auto intro: listeners_ok_fresh listeners_ok_step)

section \<open>Lemmas: the first list\<close>

text \<open>An object is announced by a notification that carries it.\<close>

definition announced :: "'o \<Rightarrow> 'o notification list \<Rightarrow> bool" where
  "announced obj ns \<longleftrightarrow> (\<exists>n\<in>set ns. n = AddNote obj \<or> (\<exists>old. n = UpdateNote old obj))"

definition first_ok :: "('o \<Rightarrow> ObjectMeta) \<Rightarrow> 'o informer \<Rightarrow> bool" where
  "first_ok meta s \<longleftrightarrow>
     (case si_first s of
        None \<Rightarrow> ff_items (si_fifo s) = Map.empty \<and> ff_queue (si_fifo s) = [] \<and> \<not> ff_populated (si_fifo s) \<and> ts_items (si_indexer s) = []
      | Some list \<Rightarrow>
          ff_populated (si_fifo s) \<and> 0 \<le> ff_initialPopulationCount (si_fifo s) \<and>
          (\<forall>obj\<in>set list.
             (let k = MetaNamespaceKey (meta obj) in
              k \<in> set (take (nat (ff_initialPopulationCount (si_fifo s))) (ff_queue (si_fifo s))) \<and>
              (\<exists>ds. ff_items (si_fifo s) k = Some ds \<and> ds \<noteq> [] \<and> hd ds = Sync obj)) \<or>
             (\<forall>l\<in>set (si_listeners s). announced obj (notes_of l))))"

lemma first_ok_grows:
  assumes "first_ok meta s" and "si_first s = Some list" and "si_first s' = Some list" and "grows (si_fifo s) (si_fifo s')"
    and "map notes_of (si_listeners s') = map notes_of (si_listeners s)"
  shows "first_ok meta s'"
proof -
  obtain rest where q: "ff_queue (si_fifo s') = ff_queue (si_fifo s) @ rest" using assms(4) by (auto simp: grows_def)
  have count: "ff_populated (si_fifo s')" "ff_initialPopulationCount (si_fifo s') = ff_initialPopulationCount (si_fifo s)"
    and pos: "0 \<le> ff_initialPopulationCount (si_fifo s)"
    using assms(1,2,4) by (auto simp: first_ok_def grows_def)
  have take: "set (take n (ff_queue (si_fifo s))) \<subseteq> set (take n (ff_queue (si_fifo s')))" for n by (auto simp: q)
  have ann: "(\<forall>l\<in>set (si_listeners s'). announced obj (notes_of l)) \<longleftrightarrow> (\<forall>l\<in>set (si_listeners s). announced obj (notes_of l))" for obj
    using arg_cong [OF assms(5), of "\<lambda>ns. \<forall>n\<in>set ns. announced obj n"] by simp
  have items: "\<exists>ds'. ff_items (si_fifo s') k = Some ds' \<and> ds' \<noteq> [] \<and> hd ds' = Sync obj"
    if "ff_items (si_fifo s) k = Some ds" "ds \<noteq> []" "hd ds = Sync obj" for k ds obj
    using assms(4) that unfolding grows_def by (metis is_deletion.simps(4))
  show ?thesis using assms(1-3) count pos take ann items unfolding first_ok_def Let_def by (simp, blast)
qed

lemma distribute_notes:
  assumes "sync_ok period s" and "\<forall>l\<in>set (si_listeners s). listener_ok l"
  shows "map notes_of (si_listeners (distribute n b s)) = map (\<lambda>l. notes_of l @ [n]) (si_listeners s)"
  using assms(2) by (simp add: distribute_all [OF assms(1)] listener_add_ok)

lemma HandleDelta_notes:
  assumes "sync_ok period s" and "\<forall>l\<in>set (si_listeners s). listener_ok l"
  shows "\<exists>n. map notes_of (si_listeners (HandleDelta meta d s)) = map (\<lambda>l. notes_of l @ [n]) (si_listeners s) \<and>
    (\<forall>obj. value_of d = Some obj \<longrightarrow> announced obj [n])"
proof -
  have sync: "sync_ok period (s\<lparr>si_indexer := c\<rparr>)" for c by (rule sync_ok_listeners [OF assms(1)]) auto
  have d: "map notes_of (si_listeners (distribute n b (s\<lparr>si_indexer := c\<rparr>))) = map (\<lambda>l. notes_of l @ [n]) (si_listeners s)" for n b c
    using distribute_notes [OF sync [of c]] assms(2) by simp
  show ?thesis
  proof (cases d)
    case (Deleted g)
    then show ?thesis using d by auto
  qed (auto simp: upsert_def d announced_def split: option.split)
qed

lemma announced_append [simp]: "announced obj (ms @ ns) \<longleftrightarrow> announced obj ms \<or> announced obj ns"
  by (auto simp: announced_def)

lemma HandleDeltas_notes:
  assumes "sync_ok period s" and "\<And>l. l \<in> set (si_listeners s) \<Longrightarrow> view_ok meta (si_indexer s) l" and "store_ok (si_indexer s)"
  shows "\<exists>ns. map notes_of (si_listeners (HandleDeltas meta ds s)) = map (\<lambda>l. notes_of l @ ns) (si_listeners s) \<and>
    (\<forall>d\<in>set ds. \<forall>obj. value_of d = Some obj \<longrightarrow> announced obj ns)"
  using assms
proof (induction ds arbitrary: s)
  case Nil
  show ?case by (rule exI [of _ "[]"]) simp
next
  case (Cons d ds)
  let ?s = "HandleDelta meta d s"
  have "\<forall>l\<in>set (si_listeners s). listener_ok l" using Cons.prems(2) by (simp add: view_ok_def)
  then obtain n where n: "map notes_of (si_listeners ?s) = map (\<lambda>l. notes_of l @ [n]) (si_listeners s)"
    "\<forall>obj. value_of d = Some obj \<longrightarrow> announced obj [n]" using HandleDelta_notes [OF Cons.prems(1)] by blast
  from HandleDelta_view [OF Cons.prems, of d] obtain ns where
    ns: "map notes_of (si_listeners (HandleDeltas meta ds ?s)) = map (\<lambda>l. notes_of l @ ns) (si_listeners ?s)"
    "\<forall>d\<in>set ds. \<forall>obj. value_of d = Some obj \<longrightarrow> announced obj ns" using Cons.IH [of ?s] by blast
  have "map (\<lambda>l. notes_of l @ ns) (si_listeners ?s) = map (\<lambda>ms. ms @ ns) (map notes_of (si_listeners ?s))" by simp
  then have "map notes_of (si_listeners (HandleDeltas meta (d # ds) s)) = map (\<lambda>l. notes_of l @ n # ns) (si_listeners s)"
    using ns(1) n(1) by simp
  moreover have "announced obj (n # ns) \<longleftrightarrow> announced obj [n] \<or> announced obj ns" for obj using announced_append [of obj "[n]" ns] by simp
  ultimately show ?case using n(2) ns(2) by (intro exI [of _ "n # ns"]) auto
qed

lemma first_ok_popped:
  assumes "listeners_ok meta period s" and "first_ok meta s" and "ff_Pop (si_fifo s) = (Popped key ds, f)"
  shows "first_ok meta (HandleDeltas meta ds (s\<lparr>si_fifo := f\<rparr>))"
proof -
  let ?s = "HandleDeltas meta ds (s\<lparr>si_fifo := f\<rparr>)"
  have fifo: "fifo_ok meta (si_fifo s)" using assms(1) by (simp add: listeners_ok_def informer_ok_def)
  note pop = ff_Pop_ok [OF fifo assms(3)]
  then obtain list where list: "si_first s = Some list" using assms(2) by (cases "si_first s") (auto simp: first_ok_def)
  have "sync_ok period (s\<lparr>si_fifo := f\<rparr>)" by (rule sync_ok_listeners [of period s]) (use assms(1) in \<open>auto simp: listeners_ok_def\<close>)
  then obtain ns where ns: "map notes_of (si_listeners ?s) = map (\<lambda>l. notes_of l @ ns) (si_listeners s)"
    "\<forall>d\<in>set ds. \<forall>obj. value_of d = Some obj \<longrightarrow> announced obj ns"
    using HandleDeltas_notes [of period "s\<lparr>si_fifo := f\<rparr>" meta ds] assms(1)
    by (auto simp: listeners_ok_def informer_ok_def)
  have told: "(\<forall>l\<in>set (si_listeners ?s). announced obj (notes_of l)) \<longleftrightarrow> (\<forall>l\<in>set (si_listeners s). announced obj (notes_of l) \<or> announced obj ns)" for obj
    using arg_cong [OF ns(1), of "\<lambda>ms. \<forall>m\<in>set ms. announced obj m"] by simp
  let ?n = "ff_initialPopulationCount (si_fifo s)" and ?n' = "ff_initialPopulationCount f"
  have "(let k = MetaNamespaceKey (meta obj) in
      k \<in> set (take (nat ?n') (ff_queue f)) \<and> (\<exists>ds. ff_items f k = Some ds \<and> ds \<noteq> [] \<and> hd ds = Sync obj)) \<or>
      (\<forall>l\<in>set (si_listeners ?s). announced obj (notes_of l))" if obj: "obj \<in> set list" for obj
  proof (cases "\<forall>l\<in>set (si_listeners s). announced obj (notes_of l)")
    case False
    let ?k = "MetaNamespaceKey (meta obj)"
    have k: "?k \<in> set (take (nat ?n) (ff_queue (si_fifo s)))" "\<exists>ds. ff_items (si_fifo s) ?k = Some ds \<and> ds \<noteq> [] \<and> hd ds = Sync obj"
      using assms(2) list obj False by (auto simp: first_ok_def Let_def)
    show ?thesis
    proof (cases "?k = key")
      case True
      then have "Sync obj \<in> set ds" using k(2) pop(2) hd_in_set by fastforce
      then have "announced obj ns" using ns(2) by (metis value_of.simps(3))
      then show ?thesis by (simp add: told)
    next
      case False
      have "0 < ?n" using k(1) by (cases "0 < ?n") auto
      then obtain m where m: "nat ?n = Suc m" "nat ?n' = m" using pop(6) by (cases "nat ?n") auto
      then have "?k \<in> set (take (nat ?n') (ff_queue f))" using k(1) False by (simp add: pop(3))
      then show ?thesis using k(2) False pop(4) by simp
    qed
  qed (auto simp: told)
  moreover have "ff_populated f" "0 \<le> ?n'" using assms(2) list pop(5,6) by (simp_all add: first_ok_def)
  ultimately show ?thesis by (simp add: first_ok_def list)
qed

lemma first_ok_listed:
  assumes "listeners_ok meta period s" and "first_ok meta s" and listed: "s' = reflector_list meta list s"
    "distinct (map (\<lambda>obj. MetaNamespaceKey (meta obj)) list)"
  shows "first_ok meta s'"
proof -
  show ?thesis
  proof (cases "si_first s")
    case None
    let ?f = "fold (\<lambda>obj. queueActionLocked meta (Sync obj)) list (si_fifo s)"
    have e: "ff_items (si_fifo s) = Map.empty" "ff_queue (si_fifo s) = []" "\<not> ff_populated (si_fifo s)" "ListKeys (si_indexer s) = []"
      using assms(2) None by (simp_all add: first_ok_def ListKeys_def)
    have "ff_Replace meta (si_indexer s) list (si_fifo s) = ?f\<lparr>ff_populated := True, ff_initialPopulationCount := int (length list)\<rparr>"
      using e by (simp add: ff_Replace_def Let_def fold_queue_frame)
    moreover have "ff_queue ?f = map (\<lambda>obj. MetaNamespaceKey (meta obj)) list \<and>
        (\<forall>obj\<in>set list. ff_items ?f (MetaNamespaceKey (meta obj)) = Some [Sync obj])"
      using fold_sync_new [OF listed(2), of "si_fifo s"] e by simp
    ultimately show ?thesis using None by (simp add: first_ok_def listed(1) reflector_list_def)
  next
    case (Some list0)
    then have "ff_populated (si_fifo s)" using assms(2) by (simp add: first_ok_def)
    then show ?thesis
      by (intro first_ok_grows [OF assms(2) Some]) (simp_all add: listed(1) reflector_list_def Some grows_Replace)
  qed
qed

lemma first_ok_resynced:
  assumes "listeners_ok meta period s" and "first_ok meta s" and resynced: "s' = reflector_resync meta s"
    "si_timer s = Some t" "t \<le> si_time s"
  shows "first_ok meta s'"
proof -
  have sync: "sync_ok period s" using assms(1) by (simp add: listeners_ok_def)
  have "notes_of (determineNextResync now l) = notes_of l" for now and l :: "'a listener"
    by (simp add: notes_of_def determineNextResync_def)
  then have ls: "map notes_of (si_listeners s') = map notes_of (si_listeners s)"
    using reflector_resync_sync(2) [OF sync resynced(2,3), of meta] by (simp add: resynced(1))
  show ?thesis
  proof (cases "si_first s")
    case None
    then have "ff_Resync meta (si_indexer s) (si_fifo s) = si_fifo s"
      using assms(2) by (simp add: first_ok_def ff_Resync_def ListKeys_def)
    then have "si_fifo s' = si_fifo s" using reflector_resync_frame(7) [of meta s] resynced(1) by auto
    then show ?thesis using assms(2) None by (simp add: first_ok_def resynced(1) reflector_resync_frame)
  next
    case (Some list0)
    have "grows (si_fifo s) (si_fifo s')"
      using reflector_resync_frame(7) [of meta s] grows_Resync grows_refl by (auto simp: resynced(1))
    then show ?thesis using ls by (intro first_ok_grows [OF assms(2) Some]) (simp_all add: resynced(1) reflector_resync_frame Some)
  qed
qed

lemma first_ok_step:
  assumes "listeners_ok meta period s" and "first_ok meta s" and "informer_step meta P s s'"
  shows "first_ok meta s'"
  using assms(3)
proof cases
  case handler
  then show ?thesis using assms(1,2) by (simp add: listeners_ok_def first_ok_def AddEventHandler_frame)
next
  case start
  then show ?thesis using assms(1,2) by (simp add: listeners_ok_def first_ok_def)
next
  case (listed list)
  then show ?thesis using first_ok_listed [OF assms(1,2)] by blast
next
  case (watched e)
  then obtain list0 where "si_first s = Some list0" by blast
  then show ?thesis by (intro first_ok_grows [OF assms(2)]) (cases e; simp add: watched(1) grows_event)+
next
  case (popped key ds f)
  then show ?thesis using first_ok_popped [OF assms(1,2)] by simp
next
  case (resynced t)
  then show ?thesis using first_ok_resynced [OF assms(1,2)] by blast
next
  case (delivered i)
  have "listener_ok (si_listeners s ! i)" using assms(1) delivered(2) by (simp add: listeners_ok_def view_ok_def)
  then have ls: "map notes_of (si_listeners s') = map notes_of (si_listeners s)"
    using delivered by (simp add: map_update list_update_same_conv listener_next_ok)
  have "(\<forall>l\<in>set (si_listeners s'). announced obj (notes_of l)) \<longleftrightarrow> (\<forall>l\<in>set (si_listeners s). announced obj (notes_of l))" for obj
    using arg_cong [OF ls, of "\<lambda>ms. \<forall>m\<in>set ms. announced obj m"] by simp
  then show ?thesis using assms(2) by (simp add: first_ok_def delivered(1) split: option.splits)
next
  case closed
  then show ?thesis using assms(2) by (simp add: first_ok_def split: option.splits)
next
  case (passes t)
  then show ?thesis using assms(2) by (simp add: first_ok_def split: option.splits)
qed

lemma first_reachable:
  assumes "informer_reachable meta P s0 s" and "fresh_informer meta period s0"
  shows "first_ok meta s"
  using assms
proof (induction rule: informer_reachable.induct)
  case at_first
  then show ?case by (auto simp: fresh_informer_def first_ok_def NewSharedIndexInformer_def NewIndexer_def NewDeltaFIFO_def)
next
  case (then_step s s')
  then show ?case using first_ok_step listeners_reachable by blast
qed

section \<open>Properties\<close>

text \<open>One round of \<open>processLoop\<close>.\<close>

definition process_one :: "('o \<Rightarrow> ObjectMeta) \<Rightarrow> 'o informer \<Rightarrow> 'o informer \<Rightarrow> bool" where
  "process_one meta s s' \<longleftrightarrow>
     (\<exists>key deltas f. ff_Pop (si_fifo s) = (Popped key deltas, f) \<and> s' = HandleDeltas meta deltas (s\<lparr>si_fifo := f\<rparr>))"

lemma process_drains:
  assumes "informer_reachable meta P s0 s" and "fresh_informer meta period s0" and "si_started s"
  shows "\<exists>s'. (process_one meta)\<^sup>*\<^sup>* s s' \<and> informer_reachable meta P s0 s' \<and> ff_queue (si_fifo s') = [] \<and> si_told s' = si_told s"
  using assms(1,3)
proof (induction "length (ff_queue (si_fifo s))" arbitrary: s rule: less_induct)
  case less
  show ?case
  proof (cases "ff_queue (si_fifo s)")
    case (Cons k ks)
    have fifo: "fifo_ok meta (si_fifo s)" using informer_reachable_ok [OF less(2) assms(2)] by (simp add: informer_ok_def)
    then have "k \<in> dom (ff_items (si_fifo s))" using Cons by (metis fifo_ok_def list.set_intros(1))
    then obtain ds where "ff_items (si_fifo s) k = Some ds" by blast
    then obtain f where pop: "ff_Pop (si_fifo s) = (Popped k ds, f)" using Cons by (simp add: ff_Pop.simps Let_def)
    let ?s = "HandleDeltas meta ds (s\<lparr>si_fifo := f\<rparr>)"
    have "informer_reachable meta P s0 ?s" using less(2) popped [OF less(3) pop] by (rule then_step)
    moreover have "length (ff_queue (si_fifo ?s)) < length (ff_queue (si_fifo s))" using ff_Pop_ok(3) [OF fifo pop] by simp
    ultimately obtain s' where "(process_one meta)\<^sup>*\<^sup>* ?s s'" "informer_reachable meta P s0 s'" "ff_queue (si_fifo s') = []" "si_told s' = si_told s"
      using less(1) [of ?s] less(3) by auto
    moreover have "process_one meta s ?s" using pop by (auto simp: process_one_def)
    ultimately show ?thesis by (meson converse_rtranclp_into_rtranclp)
  qed (use less(2) in auto)
qed

lemma empty_queue_follows:
  assumes "fifo_ok meta f" and "ff_queue f = []"
  shows "pending_value f c = (\<lambda>k. ts_Get k c)"
proof -
  have "ff_items f = Map.empty" using assms by (auto simp: fifo_ok_def)
  then show ?thesis by (simp add: pending_value_def fun_eq_iff)
qed

text \<open>
  C15. The cache follows the API server. Through any sequence of lists, watch events, pops, resyncs and deliveries,
  if no list contradicts a change that is still queued: for every key, the store with the queued changes
  applied is what the server has told last, and the queue can always be emptied by the processing loop
  alone, after which the store, which the listers read, is exactly that.
\<close>

theorem informer_follows:
  assumes "fresh_informer meta period s0" and "informer_reachable meta (clean_list meta) s0 s"
  shows "pending_value (si_fifo s) (si_indexer s) = si_told s \<and>
    (si_started s \<longrightarrow> (\<exists>s'. (process_one meta)\<^sup>*\<^sup>* s s' \<and> ff_queue (si_fifo s') = [] \<and> (\<lambda>k. ts_Get k (si_indexer s')) = si_told s))"
proof (intro conjI impI)
  show "pending_value (si_fifo s) (si_indexer s) = si_told s" using told_reachable [OF assms(2,1)] by simp
  assume "si_started s"
  then obtain s' where s': "(process_one meta)\<^sup>*\<^sup>* s s'" "informer_reachable meta (clean_list meta) s0 s'"
    "ff_queue (si_fifo s') = []" "si_told s' = si_told s" using process_drains [OF assms(2,1)] by blast
  have fifo: "fifo_ok meta (si_fifo s')" using informer_reachable_ok [OF s'(2) assms(1)] by (simp add: informer_ok_def)
  have "(\<lambda>k. ts_Get k (si_indexer s')) = si_told s"
    using empty_queue_follows [OF fifo s'(3), of "si_indexer s'"] told_reachable [OF s'(2) assms(1)] s'(4) by simp
  with s'(1,3) show "\<exists>s'. (process_one meta)\<^sup>*\<^sup>* s s' \<and> ff_queue (si_fifo s') = [] \<and> (\<lambda>k. ts_Get k (si_indexer s')) = si_told s"
    by blast
qed

text \<open>
  C16. Every handler sees the store. Whatever lists come, the notifications a listener has been handed and those
  that wait for it tell the story of the store: an addition is of an object it did not know, an update
  carries the object it knew, and together they leave it with exactly the contents of the store.
\<close>

theorem listener_sees_store:
  assumes "fresh_informer meta period s0" and "informer_reachable meta (\<lambda>_ _. True) s0 s" and "l \<in> set (si_listeners s)"
  shows "coherent meta (notes_of l) \<and> view meta (notes_of l) = (\<lambda>k. ts_Get k (si_indexer s)) \<and>
    (ln_notification l = None \<longrightarrow> view meta (ln_handed l) = (\<lambda>k. ts_Get k (si_indexer s)))"
proof -
  have "view_ok meta (si_indexer s) l" using listeners_reachable [OF assms(2,1)] assms(3) by (simp add: listeners_ok_def)
  then show ?thesis by (auto simp: view_ok_def notes_of_def listener_ok_def)
qed


text \<open>The steps of a run that starts an informer with one handler.\<close>

definition started_informer :: "'o informer \<Rightarrow> 'o informer" where
  "started_informer s = (AddEventHandler s)\<lparr>si_started := True\<rparr>"

lemma started_reachable:
  assumes "fresh_informer meta period s"
  shows "informer_reachable meta P s (started_informer s)"
    and "si_fifo (started_informer s) = NewDeltaFIFO" and "si_indexer (started_informer s) = si_indexer s"
    and "ts_items (si_indexer s) = []" and "si_started (started_informer s)" and "length (si_listeners (started_informer s)) = 1"
proof -
  have new: "\<not> si_started s" "\<not> si_stopped s" "si_listeners s = []" "si_fifo s = NewDeltaFIFO"
    using assms by (auto simp: fresh_informer_def NewSharedIndexInformer_def)
  show "ts_items (si_indexer s) = []" using assms by (auto simp: fresh_informer_def NewSharedIndexInformer_def NewIndexer_def)
  have "informer_step meta P s (AddEventHandler s)" by (rule handler [OF new(1)])
  moreover have "informer_step meta P (AddEventHandler s) (started_informer s)"
    unfolding started_informer_def by (rule start) (simp add: AddEventHandler_frame [OF new(1)] new(1))
  ultimately show "informer_reachable meta P s (started_informer s)" by (meson at_first then_step)
  have "sync_ok period s" using listeners_ok_fresh [OF assms] by (simp add: listeners_ok_def)
  then show "length (si_listeners (started_informer s)) = 1"
    using AddEventHandler_sync(1) [OF _ new(1,2)] new(3) by (simp add: started_informer_def addListener_def)
qed (use assms in \<open>auto simp: started_informer_def AddEventHandler_frame fresh_informer_def NewSharedIndexInformer_def\<close>)

lemma distinct_one: "distinct (map f [x])" "distinct (map f [])"
  by simp_all

lemma informer_reachable_steps:
  "informer_reachable meta (\<lambda>_ _. True) s0 s \<Longrightarrow> si_started s \<Longrightarrow> distinct (map (\<lambda>obj. MetaNamespaceKey (meta obj)) list) \<Longrightarrow>
     informer_reachable meta (\<lambda>_ _. True) s0 (reflector_list meta list s)"
  "informer_reachable meta (\<lambda>_ _. True) s0 s \<Longrightarrow> si_first s \<noteq> None \<Longrightarrow>
     informer_reachable meta (\<lambda>_ _. True) s0 (reflector_event meta e s)"
  "informer_reachable meta (\<lambda>_ _. True) s0 s \<Longrightarrow> si_started s \<Longrightarrow> ff_Pop (si_fifo s) = (Popped key ds, f) \<Longrightarrow>
     informer_reachable meta (\<lambda>_ _. True) s0 (HandleDeltas meta ds (s\<lparr>si_fifo := f\<rparr>))"
  by (rule then_step, assumption, rule informer_step.intros; simp)+

text \<open>An informer that has listed and processed one object.\<close>

lemma listed_and_processed:
  assumes "fresh_informer meta period s0"
  shows "\<exists>s. informer_reachable meta (\<lambda>_ _. True) s0 s \<and> si_started s \<and> length (si_listeners s) = 1 \<and> si_first s = Some [obj] \<and>
    si_told s = [MetaNamespaceKey (meta obj) \<mapsto> obj] \<and>
    (\<lambda>k. ts_Get k (si_indexer s)) = [MetaNamespaceKey (meta obj) \<mapsto> obj] \<and>
    si_fifo s = \<lparr>ff_items = Map.empty, ff_queue = [], ff_populated = True, ff_initialPopulationCount = 0, ff_closed = False\<rparr>"
proof -
  let ?k = "MetaNamespaceKey (meta obj)" and ?R = "informer_reachable meta (\<lambda>_ _. True) s0"
  note a = started_reachable [OF assms]
  let ?f = "\<lparr>ff_items = Map.empty, ff_queue = [], ff_populated = True, ff_initialPopulationCount = 0, ff_closed = False\<rparr> :: 'a fifo"
  define d where "d = reflector_list meta [obj] (started_informer s0)"
  have "si_first (started_informer s0) = None"
    using assms by (auto simp: started_informer_def AddEventHandler_frame fresh_informer_def NewSharedIndexInformer_def)
  then have sel: "si_started d" "si_first d = Some [obj]" "si_told d = [?k \<mapsto> obj]" "si_indexer d = si_indexer s0"
    "length (si_listeners d) = 1"
    using a(3,5,6) by (simp_all add: d_def reflector_list_def)
  have d: "?R d" unfolding d_def by (rule informer_reachable_steps(1) [OF a(1,5) distinct_one(1)])
  have pop: "ff_Pop (si_fifo d) = (Popped ?k [Sync obj], ?f)"
    by (simp add: d_def ff_Pop.simps reflector_list_def fifo_defs a(2-4))
  have "store_ok (si_indexer d)" using informer_reachable_ok [OF d assms] by (simp add: informer_ok_def)
  then have "ts_Get j (si_indexer (HandleDeltas meta [Sync obj] (d\<lparr>si_fifo := ?f\<rparr>))) = ([?k \<mapsto> obj]) j" for j
    by (subst HandleDeltas_contents [where k = ?k]) (simp_all add: sel(4) a(4) ts_Get_def)
  then have "(\<lambda>k. ts_Get k (si_indexer (HandleDeltas meta [Sync obj] (d\<lparr>si_fifo := ?f\<rparr>)))) = [?k \<mapsto> obj]" by blast
  then show ?thesis
    using informer_reachable_steps(3) [OF d sel(1) pop] sel(1-3,5) by (intro exI conjI) (assumption | simp only: HandleDeltas_frame | simp)+
qed

text \<open>The two ways a new list and the changes that wait can disagree for good.\<close>

lemma relist_keeps_gone:
  assumes "fresh_informer meta period s0"
  shows "\<exists>s. informer_reachable meta (\<lambda>_ _. True) s0 s \<and> ff_queue (si_fifo s) = [] \<and>
      si_told s = Map.empty \<and> ts_Get (MetaNamespaceKey (meta obj)) (si_indexer s) = Some obj"
proof -
  let ?k = "MetaNamespaceKey (meta obj)" and ?R = "informer_reachable meta (\<lambda>_ _. True) s0"
  note a = started_reachable [OF assms]
  have store: "?R s \<Longrightarrow> store_ok (si_indexer s)" for s using informer_reachable_ok [OF _ assms] by (simp add: informer_ok_def)
  define b where "b = reflector_event meta (WatchAdded obj) (reflector_list meta [] (started_informer s0))"
  have b: "?R b" unfolding b_def
    by (rule informer_reachable_steps(2) [OF informer_reachable_steps(1) [OF a(1,5) distinct_one(2)]]) (simp add: reflector_list_def)
  define c where "c = reflector_list meta [] b"
  have started: "si_started b" "si_started c" by (simp_all add: b_def c_def reflector_list_def a(5))
  have c: "?R c" unfolding c_def by (rule informer_reachable_steps(1) [OF b started(1) distinct_one(2)])
  let ?f = "(si_fifo c)\<lparr>ff_queue := [], ff_items := Map.empty\<rparr>"
  have pop: "ff_Pop (si_fifo c) = (Popped ?k [Added obj], ?f)"
    by (simp add: ff_Pop.simps c_def b_def reflector_list_def fifo_defs a(2-4))
  let ?z = "HandleDeltas meta [Added obj] (c\<lparr>si_fifo := ?f\<rparr>)"
  have "ts_Get ?k (si_indexer ?z) = Some obj"
    by (subst HandleDeltas_contents [where k = ?k]) (use store [OF c] in simp_all)
  moreover have "ff_queue (si_fifo ?z) = []" "si_told ?z = Map.empty"
    by (simp_all only: HandleDeltas_frame) (simp_all add: c_def reflector_list_def)
  ultimately show ?thesis
    using informer_reachable_steps(3) [OF c started(2) pop] by blast
qed

lemma relist_drops_listed:
  assumes "fresh_informer meta period s0"
  shows "\<exists>s. informer_reachable meta (\<lambda>_ _. True) s0 s \<and> ff_queue (si_fifo s) = [] \<and>
      si_told s = [MetaNamespaceKey (meta obj) \<mapsto> obj] \<and> ts_Get (MetaNamespaceKey (meta obj)) (si_indexer s) = None"
proof -
  let ?k = "MetaNamespaceKey (meta obj)" and ?R = "informer_reachable meta (\<lambda>_ _. True) s0"
  obtain d where d: "?R d" "si_started d" "si_first d = Some [obj]" "(\<lambda>k. ts_Get k (si_indexer d)) = [?k \<mapsto> obj]"
    "si_fifo d = \<lparr>ff_items = Map.empty, ff_queue = [], ff_populated = True, ff_initialPopulationCount = 0, ff_closed = False\<rparr>"
    using listed_and_processed [OF assms, of obj] by blast
  define e where "e = reflector_event meta (WatchDeleted obj) d"
  have e: "?R e" unfolding e_def by (rule informer_reachable_steps(2) [OF d(1)]) (simp add: d(3))
  have sel: "si_indexer e = si_indexer d" "si_started e" by (simp_all add: e_def d(2))
  have e_fifo: "si_fifo e = \<lparr>ff_items = [?k \<mapsto> [Deleted (Final obj)]], ff_queue = [?k], ff_populated = True,
      ff_initialPopulationCount = 0, ff_closed = False\<rparr>"
    using fun_cong [OF d(4), of ?k] by (simp add: e_def d(5) fifo_defs)
  define g where "g = reflector_list meta [obj] e"
  have g: "?R g" unfolding g_def by (rule informer_reachable_steps(1) [OF e sel(2) distinct_one(1)])
  have "set (ListKeys (si_indexer d)) = {?k}" using d(4) informer_reachable_ok [OF d(1) assms] by (simp add: informer_ok_def known.keys_dom)
  then have "filter (\<lambda>k. k \<noteq> ?k) (ListKeys (si_indexer d)) = []" by (simp add: filter_empty_conv)
  then have g_fifo: "si_fifo g = si_fifo e"
    by (simp add: g_def reflector_list_def ff_Replace_def Let_def e_fifo sel(1) queueActionLocked_def willObjectBeDeletedLocked_def deltas_of_def)
  let ?h = "\<lparr>ff_items = Map.empty, ff_queue = [], ff_populated = True, ff_initialPopulationCount = 0, ff_closed = False\<rparr> :: 'a fifo"
  have pop: "ff_Pop (si_fifo g) = (Popped ?k [Deleted (Final obj)], ?h)"
    by (simp add: g_fifo e_fifo ff_Pop.simps)
  let ?y = "HandleDeltas meta [Deleted (Final obj)] (g\<lparr>si_fifo := ?h\<rparr>)"
  have "store_ok (si_indexer g)" using informer_reachable_ok [OF g assms] by (simp add: informer_ok_def)
  then have "ts_Get ?k (si_indexer ?y) = None" by (subst HandleDeltas_contents [where k = ?k]) simp_all
  moreover have "ff_queue (si_fifo ?y) = []" "si_told ?y = [?k \<mapsto> obj]"
    by (simp_all only: HandleDeltas_frame) (simp_all add: g_def reflector_list_def)
  moreover have "si_started g" by (simp add: g_def reflector_list_def sel(2))
  ultimately show ?thesis
    using informer_reachable_steps(3) [OF g _ pop] by blast
qed


text \<open>The informer of the jobs as the controller makes it.\<close>

definition jobResync :: time where "jobResync = 30 * 10 ^ 9"

lemma fresh_job_informer: "fresh_informer job_Meta jobResync (default_job_informer jobResync)"
  unfolding fresh_informer_def
  by (rule conjI, rule exI [of _ "[(NamespaceIndex, MetaNamespaceIndexFunc job_Meta)]"], rule exI [of _ 0])
    (simp_all add: default_job_informer_def NewCaffe2JobInformer_def NewSharedIndexInformer_def minimumResyncPeriod_def jobResync_def)


lemma listener_sees_store_witness:
  "\<exists>s l. informer_reachable job_Meta (\<lambda>_ _. True) (default_job_informer jobResync) s \<and> l \<in> set (si_listeners s) \<and>
     view job_Meta (notes_of l) = [MetaNamespaceKey (job_Meta sample_job) \<mapsto> sample_job]"
proof -
  obtain s where s: "informer_reachable job_Meta (\<lambda>_ _. True) (default_job_informer jobResync) s" "length (si_listeners s) = 1"
    "(\<lambda>k. ts_Get k (si_indexer s)) = [MetaNamespaceKey (job_Meta sample_job) \<mapsto> sample_job]"
    using listed_and_processed [OF fresh_job_informer, of sample_job] by blast
  then have l: "hd (si_listeners s) \<in> set (si_listeners s)" by (cases "si_listeners s") auto
  with listener_sees_store [OF fresh_job_informer s(1) l] s show ?thesis by auto
qed


lemma informer_follows_witness:
  "\<exists>s s'. informer_reachable job_Meta (clean_list job_Meta) (default_job_informer jobResync) s \<and>
     (process_one job_Meta)\<^sup>*\<^sup>* s s' \<and> (\<lambda>k. ts_Get k (si_indexer s')) = [MetaNamespaceKey (job_Meta sample_job) \<mapsto> sample_job]"
proof -
  let ?i = "default_job_informer jobResync"
  note a = started_reachable [OF fresh_job_informer]
  let ?s = "reflector_list job_Meta [sample_job] (started_informer ?i)"
  have "informer_reachable job_Meta (clean_list job_Meta) ?i ?s"
  proof (rule then_step [OF a(1)])
    show "informer_step job_Meta (clean_list job_Meta) (started_informer ?i) ?s"
      by (rule listed) (simp_all add: a(2,5) clean_list_def clean_changes_def NewDeltaFIFO_def)
  qed
  moreover have "si_started ?s" "si_told ?s = [MetaNamespaceKey (job_Meta sample_job) \<mapsto> sample_job]"
    by (simp_all add: reflector_list_def a(5))
  ultimately show ?thesis using informer_follows [OF fresh_job_informer] by metis
qed

end
