(* ===== verification/Reflector.thy ===== *)
theory Reflector
  imports SharedInformer
begin

text \<open>
  The reflector of an informer: \<open>Run\<close>, \<open>ListAndWatch\<close> and \<open>watchHandler\<close> of k8s.io/client-go/tools/cache/reflector.go
  with their resource versions, their errors and their retries. It lists, watches from the version of the list,
  notes the version of every event, and watches again from there when a watch ends. What the API server
  answers is a parameter: a history of changes and the version it gives each state. An object is a pointer to a value that
  was decoded from one answer. Metrics and the random timeout of a watch are left out, and the resync goroutine is
  in \<open>SharedInformer\<close>; there its timer survives a return of \<open>ListAndWatch\<close>, which only allows more.
\<close>

section \<open>The API server\<close>

record 'v history =
  hs_change :: "nat \<Rightarrow> 'v event"
  hs_version :: "nat \<Rightarrow> string"

fun ev_object :: "'v event \<Rightarrow> 'v" where
  "ev_object (WatchAdded v) = v"
| "ev_object (WatchModified v) = v"
| "ev_object (WatchDeleted v) = v"

fun apply_change :: "('v \<Rightarrow> ObjectMeta) \<Rightarrow> 'v event \<Rightarrow> (string \<rightharpoonup> 'v) \<Rightarrow> (string \<rightharpoonup> 'v)" where
  "apply_change vmeta (WatchAdded v) m = m(MetaNamespaceKey (vmeta v) \<mapsto> v)"
| "apply_change vmeta (WatchModified v) m = m(MetaNamespaceKey (vmeta v) \<mapsto> v)"
| "apply_change vmeta (WatchDeleted v) m = m(MetaNamespaceKey (vmeta v) := None)"

text \<open>The objects after the first \<open>n\<close> changes.\<close>

fun contents_at :: "('v \<Rightarrow> ObjectMeta) \<Rightarrow> 'v history \<Rightarrow> nat \<Rightarrow> string \<rightharpoonup> 'v" where
  "contents_at vmeta h 0 = Map.empty"
| "contents_at vmeta h (Suc n) = apply_change vmeta (hs_change h n) (contents_at vmeta h n)"

text \<open>
  What the API server documents of resource versions: they tell states apart, and the object of a watch event
  carries the version of the change.
\<close>

definition versions_ok :: "('v \<Rightarrow> ObjectMeta) \<Rightarrow> 'v history \<Rightarrow> bool" where
  "versions_ok vmeta h \<longleftrightarrow> inj (hs_version h) \<and>
     (\<forall>n. om_ResourceVersion (vmeta (ev_object (hs_change h n))) = hs_version h (Suc n))"

section \<open>The reflector\<close>

text \<open>
  Between two calls of \<open>ListAndWatch\<close>; before the answer to its list; before the answer to a watch request; in
  \<open>watchHandler\<close>, with the number of changes that the server has passed in this watch and the \<open>eventCount\<close>; returned.
\<close>

datatype reflector_pc = Resting | Listing | Requesting | Streaming nat nat | Ended

record reflector =
  rf_pc :: reflector_pc
  rf_resourceVersion :: string
  rf_lastSyncResourceVersion :: string
  rf_stopped :: bool

definition NewReflector :: reflector where
  "NewReflector = \<lparr>rf_pc = Resting, rf_resourceVersion = [], rf_lastSyncResourceVersion = [], rf_stopped = False\<rparr>"

text \<open>What a watch can yield.\<close>

datatype 'o watch_event = Change "'o event" | ErrorEvent | UnexpectedType | UnknownEvent 'o

definition setLastSyncResourceVersion :: "string \<Rightarrow> reflector \<Rightarrow> reflector" where
  "setLastSyncResourceVersion v r = r\<lparr>rf_lastSyncResourceVersion := v\<rparr>"

text \<open>The first part of \<open>ListAndWatch\<close>, on the answer to the list: the items and their version.\<close>

fun list_answered ::
  "('o \<Rightarrow> ObjectMeta) \<Rightarrow> go_error + 'o list \<times> string \<Rightarrow> reflector \<times> 'o informer \<Rightarrow> reflector \<times> 'o informer" where
  "list_answered meta (Inl err) (r, i) = (r\<lparr>rf_pc := Resting\<rparr>, i)"
| "list_answered meta (Inr (items, version)) (r, i) =
     (setLastSyncResourceVersion version (r\<lparr>rf_resourceVersion := version, rf_pc := Requesting\<rparr>), reflector_list meta items i)"

text \<open>
  The answer to a watch request. A refused connection is tried again from the same version; on any other error
  \<open>ListAndWatch\<close> returns.
\<close>

datatype watch_answer = ConnectionRefused | WatchFailed | WatchOpened nat

fun watch_answered :: "watch_answer \<Rightarrow> reflector \<Rightarrow> reflector" where
  "watch_answered ConnectionRefused r = r"
| "watch_answered WatchFailed r = r\<lparr>rf_pc := Resting\<rparr>"
| "watch_answered (WatchOpened n) r = r\<lparr>rf_pc := Streaming n 0\<rparr>"

text \<open>The body of the loop of \<open>watchHandler\<close>.\<close>

definition saw_version :: "('o \<Rightarrow> ObjectMeta) \<Rightarrow> 'o \<Rightarrow> reflector \<Rightarrow> reflector" where
  "saw_version meta obj r =
     setLastSyncResourceVersion (om_ResourceVersion (meta obj)) (r\<lparr>rf_resourceVersion := om_ResourceVersion (meta obj),
       rf_pc := (case rf_pc r of Streaming n seen \<Rightarrow> Streaming n (Suc seen) | pc \<Rightarrow> pc)\<rparr>)"

fun event_received ::
  "('o \<Rightarrow> ObjectMeta) \<Rightarrow> 'o watch_event \<Rightarrow> reflector \<times> 'o informer \<Rightarrow> reflector \<times> 'o informer" where
  "event_received meta ErrorEvent (r, i) = (r\<lparr>rf_pc := Resting\<rparr>, i)"
| "event_received meta UnexpectedType (r, i) = (r, i)"
| "event_received meta (Change e) (r, i) = (saw_version meta (ev_object e) r, reflector_event meta e i)"
| "event_received meta (UnknownEvent obj) (r, i) = (saw_version meta obj r, i)"

text \<open>The watch has ended: one that was short and empty is an error, after which \<open>ListAndWatch\<close> returns.\<close>

definition stream_closed :: "bool \<Rightarrow> reflector \<Rightarrow> reflector" where
  "stream_closed short r =
     (case rf_pc r of
        Streaming n seen \<Rightarrow> r\<lparr>rf_pc := (if short \<and> seen = 0 then Resting else Requesting)\<rparr>
      | _ \<Rightarrow> r)"

section \<open>Steps\<close>

text \<open>
  The server lists a state it has had, not always the last one, since the request asks for version 0; a watch
  that it opens yields the changes after the requested version one by one, and may fail at any time. \<open>val\<close> is what a pointer points to
  when it is decoded. The other goroutines of the informer take their steps in between.
\<close>

inductive reflector_step ::
  "('v \<Rightarrow> ObjectMeta) \<Rightarrow> ('o \<Rightarrow> 'v) \<Rightarrow> 'v history \<Rightarrow> ('o informer \<Rightarrow> 'o list \<Rightarrow> bool) \<Rightarrow>
     reflector \<times> 'o informer \<Rightarrow> reflector \<times> 'o informer \<Rightarrow> bool"
  for vmeta val h P where
  period_over: "rf_pc r = Resting \<Longrightarrow> \<not> rf_stopped r \<Longrightarrow> si_started i \<Longrightarrow>
    reflector_step vmeta val h P (r, i) (r\<lparr>rf_pc := Listing\<rparr>, i)"
| returns: "rf_pc r = Resting \<Longrightarrow> rf_stopped r \<Longrightarrow> reflector_step vmeta val h P (r, i) (r\<lparr>rf_pc := Ended\<rparr>, i)"
| list_fails: "rf_pc r = Listing \<Longrightarrow> reflector_step vmeta val h P (r, i) (list_answered (\<lambda>p. vmeta (val p)) (Inl err) (r, i))"
| lists: "rf_pc r = Listing \<Longrightarrow> si_started i \<Longrightarrow> P i items \<Longrightarrow> distinct (map (\<lambda>p. MetaNamespaceKey (vmeta (val p))) items) \<Longrightarrow>
    map_of (map (\<lambda>p. (MetaNamespaceKey (vmeta (val p)), val p)) items) = contents_at vmeta h n \<Longrightarrow>
    reflector_step vmeta val h P (r, i) (list_answered (\<lambda>p. vmeta (val p)) (Inr (items, hs_version h n)) (r, i))"
| watch_fails: "rf_pc r = Requesting \<Longrightarrow> answer \<in> {ConnectionRefused, WatchFailed} \<Longrightarrow>
    reflector_step vmeta val h P (r, i) (watch_answered answer r, i)"
| watch_opens: "rf_pc r = Requesting \<Longrightarrow> hs_version h n = rf_resourceVersion r \<Longrightarrow>
    reflector_step vmeta val h P (r, i) (watch_answered (WatchOpened n) r, i)"
| receives: "rf_pc r = Streaming n seen \<Longrightarrow> map_event val e = hs_change h n \<Longrightarrow>
    event_received (\<lambda>p. vmeta (val p)) (Change e) (r\<lparr>rf_pc := Streaming (Suc n) seen\<rparr>, i) = (r', i') \<Longrightarrow>
    reflector_step vmeta val h P (r, i) (r', i')"
| watch_errs: "rf_pc r = Streaming n seen \<Longrightarrow> e \<in> {ErrorEvent, UnexpectedType} \<Longrightarrow>
    reflector_step vmeta val h P (r, i) (event_received (\<lambda>p. vmeta (val p)) e (r, i))"
| watch_ends: "rf_pc r = Streaming n seen \<Longrightarrow> reflector_step vmeta val h P (r, i) (stream_closed short r, i)"
| stop_seen: "rf_pc r = Streaming n seen \<Longrightarrow> rf_stopped r \<Longrightarrow> reflector_step vmeta val h P (r, i) (r\<lparr>rf_pc := Resting\<rparr>, i)"
| stops: "reflector_step vmeta val h P (r, i) (r\<lparr>rf_stopped := True\<rparr>, i)"
| others: "informer_step (\<lambda>p. vmeta (val p)) (\<lambda>_ _. False) i i' \<Longrightarrow> si_told i' = si_told i \<Longrightarrow> reflector_step vmeta val h P (r, i) (r, i')"

inductive reflector_reachable ::
  "('v \<Rightarrow> ObjectMeta) \<Rightarrow> ('o \<Rightarrow> 'v) \<Rightarrow> 'v history \<Rightarrow> ('o informer \<Rightarrow> 'o list \<Rightarrow> bool) \<Rightarrow> reflector \<times> 'o informer \<Rightarrow>
     reflector \<times> 'o informer \<Rightarrow> bool"
  for vmeta val h P s0 where
  starts: "reflector_reachable vmeta val h P s0 s0"
| continues: "reflector_reachable vmeta val h P s0 s \<Longrightarrow> reflector_step vmeta val h P s s' \<Longrightarrow>
    reflector_reachable vmeta val h P s0 s'"

section \<open>Lemmas\<close>

text \<open>
  What the reflector knows: after the first list, what it has been told is the state of the server at the last version it
  noted, and a watch goes on from there.
\<close>

definition watching_pc :: "reflector_pc \<Rightarrow> bool" where
  "watching_pc pc \<longleftrightarrow> (case pc of Requesting \<Rightarrow> True | Streaming n seen \<Rightarrow> True | _ \<Rightarrow> False)"

definition tracks :: "('v \<Rightarrow> ObjectMeta) \<Rightarrow> ('o \<Rightarrow> 'v) \<Rightarrow> 'v history \<Rightarrow> reflector \<times> 'o informer \<Rightarrow> bool" where
  "tracks vmeta val h s \<longleftrightarrow> (case s of (r, i) \<Rightarrow>
     (watching_pc (rf_pc r) \<longrightarrow> si_first i \<noteq> None \<and> rf_resourceVersion r = rf_lastSyncResourceVersion r) \<and>
     (\<forall>n seen. rf_pc r = Streaming n seen \<longrightarrow> hs_version h n = rf_resourceVersion r) \<and>
     (si_first i \<noteq> None \<longrightarrow> (\<exists>n. rf_lastSyncResourceVersion r = hs_version h n \<and>
        (\<lambda>k. map_option val (si_told i k)) = contents_at vmeta h n)))"

lemma told_change:
  "(\<lambda>k. map_option val (si_told (reflector_event (\<lambda>p. vmeta (val p)) e i) k)) =
     apply_change vmeta (map_event val e) (\<lambda>k. map_option val (si_told i k))"
  by (cases e) auto

lemma ev_object_map: "ev_object (map_event val e) = val (ev_object e)"
  by (cases e) auto

lemma told_list:
  "(\<lambda>k. map_option val (map_of (map (\<lambda>p. (key p, p)) items) k)) = map_of (map (\<lambda>p. (key p, val p)) items)"
  by (induction items) (auto simp: fun_eq_iff)

lemma reflector_event_first [simp]: "si_first (reflector_event meta e i) = si_first i"
  by (cases e) simp_all

lemma informer_step_first:
  "informer_step meta (\<lambda>_ _. False) i i' \<Longrightarrow> si_first i' = si_first i"
  by (erule informer_step.cases) (simp_all add: AddEventHandler_frame reflector_resync_frame)

lemma tracks_step:
  assumes "versions_ok vmeta h" and "reflector_step vmeta val h P s s'" and "tracks vmeta val h s"
  shows "tracks vmeta val h s'"
  using assms(2)
proof cases
  case (lists r i items n)
  have "(\<lambda>k. map_option val (si_told (reflector_list (\<lambda>p. vmeta (val p)) items i) k)) = contents_at vmeta h n"
    using told_list [of val "\<lambda>p. MetaNamespaceKey (vmeta (val p))" items] lists(7) by (simp add: reflector_list_def)
  then show ?thesis by (auto simp: lists(2) tracks_def setLastSyncResourceVersion_def watching_pc_def reflector_list_def)
next
  case (receives r n seen e i r' i')
  have r': "r' = saw_version (\<lambda>p. vmeta (val p)) (ev_object e) (r\<lparr>rf_pc := Streaming (Suc n) seen\<rparr>)"
    and i': "i' = reflector_event (\<lambda>p. vmeta (val p)) e i" using receives(5) by simp_all
  have v: "om_ResourceVersion (vmeta (val (ev_object e))) = hs_version h (Suc n)"
    using assms(1) receives(4) ev_object_map [of val e, symmetric] by (simp add: versions_ok_def)
  from assms(3) obtain m where first: "si_first i \<noteq> None" and m: "hs_version h n = hs_version h m"
    "(\<lambda>k. map_option val (si_told i k)) = contents_at vmeta h m"
    using receives(3) by (auto simp: tracks_def receives(1) watching_pc_def)
  have "m = n" using assms(1) m(1) by (simp add: versions_ok_def inj_eq)
  then have "(\<lambda>k. map_option val (si_told i' k)) = contents_at vmeta h (Suc n)"
    using told_change [of val vmeta e i] m(2) receives(4) by (simp add: i')
  then show ?thesis using first v
    by (auto simp: receives(2) tracks_def r' i' saw_version_def setLastSyncResourceVersion_def watching_pc_def)
next
  case (others i i' r)
  then show ?thesis using assms(3) informer_step_first [OF others(3)] by (simp add: tracks_def)
next
  case (watch_errs r n seen e i)
  then consider "s' = (r\<lparr>rf_pc := Resting\<rparr>, i)" | "s' = s" by auto
  then show ?thesis using assms(3) watch_errs(1,3) unfolding tracks_def watching_pc_def by cases simp_all
next
  case (stop_seen r n seen i)
  then show ?thesis using assms(3) unfolding tracks_def watching_pc_def by simp
next
  case (watch_ends r n seen i short)
  then show ?thesis using assms(3) unfolding tracks_def watching_pc_def stream_closed_def by simp
qed (use assms(3) in \<open>auto simp: tracks_def watching_pc_def\<close>)

text \<open>For the informer a step of the reflector is one of its own steps, or none.\<close>

lemma informer_step_mono: "informer_step meta (\<lambda>_ _. False) i i' \<Longrightarrow> informer_step meta P i i'"
  by (erule informer_step.cases) (auto intro: informer_step.intros)

lemma reflector_informer_step:
  assumes "reflector_step vmeta val h P s s'" and "tracks vmeta val h s"
  shows "snd s' = snd s \<or> informer_step (\<lambda>p. vmeta (val p)) P (snd s) (snd s')"
  using assms(1)
proof cases
  case (lists r i items n)
  then show ?thesis using informer_step.listed [of i P items "\<lambda>p. vmeta (val p)"] by simp
next
  case (receives r n seen e i r' i')
  then have "si_first i \<noteq> None" using assms(2) by (simp add: tracks_def watching_pc_def)
  then show ?thesis using informer_step.watched [of i "\<lambda>p. vmeta (val p)" P e] receives by auto
next
  case (watch_errs r n seen e i)
  then show ?thesis by auto
next
  case (others i i' r)
  then show ?thesis using informer_step_mono by auto
qed simp_all

text \<open>The reflector starts with an informer that is fresh, or was started and given its handlers.\<close>

lemma tracks_first: "si_first i = None \<Longrightarrow> tracks vmeta val h (NewReflector, i)"
  by (simp add: tracks_def NewReflector_def watching_pc_def)

lemma fresh_first: "fresh_informer meta period i \<Longrightarrow> si_first i = None \<and> si_first (started_informer i) = None"
  by (auto simp: fresh_informer_def NewSharedIndexInformer_def started_informer_def AddEventHandler_frame)

lemma reflector_tracks:
  assumes "versions_ok vmeta h" and "reflector_reachable vmeta val h P (NewReflector, i0) s"
    and "informer_reachable (\<lambda>p. vmeta (val p)) P j i0" and "si_first i0 = None"
  shows "tracks vmeta val h s \<and> informer_reachable (\<lambda>p. vmeta (val p)) P j (snd s)"
  using assms(2)
proof (induction rule: reflector_reachable.induct)
  case starts
  show ?case using tracks_first [OF assms(4)] assms(3) by simp
next
  case (continues s s')
  then have "tracks vmeta val h s" "informer_reachable (\<lambda>p. vmeta (val p)) P j (snd s)" by simp_all
  moreover have "tracks vmeta val h s'" by (rule tracks_step [OF assms(1) continues(2)]) (fact calculation)
  ultimately show ?case using reflector_informer_step [OF continues(2)] by (metis then_step)
qed

section \<open>Properties\<close>


text \<open>A history in which one job is written again and again.\<close>

definition versioned_job :: "nat \<Rightarrow> Caffe2Job" where
  "versioned_job n = sample_job\<lparr>job_Meta := (job_Meta sample_job)\<lparr>om_ResourceVersion := replicate n (CHR ''1'')\<rparr>\<rparr>"

definition sample_history :: "Caffe2Job history" where
  "sample_history = \<lparr>hs_change = (\<lambda>n. WatchModified (versioned_job (Suc n))), hs_version = (\<lambda>n. replicate n (CHR ''1''))\<rparr>"

lemma sample_versions: "versions_ok job_Meta sample_history"
  by (auto simp: versions_ok_def sample_history_def versioned_job_def inj_def dest: arg_cong [of _ _ length])

lemma sample_contents: "contents_at job_Meta sample_history (Suc 0) = [''ns/job'' \<mapsto> versioned_job 1]"
  by (simp add: sample_history_def versioned_job_def sample_job_defs MetaNamespaceKey_def)

lemma sample_watch:
  "\<exists>r i. reflector_reachable job_Meta (\<lambda>job. job) sample_history (clean_list job_Meta)
      (NewReflector, started_informer (default_job_informer jobResync)) (r, i) \<and>
     si_first i \<noteq> None \<and> rf_lastSyncResourceVersion r = ''1''"
proof -
  let ?i0 = "started_informer (default_job_informer jobResync)"
  let ?step = "reflector_step job_Meta (\<lambda>job. job) sample_history (clean_list job_Meta)"
  note a = started_reachable [OF fresh_job_informer]
  let ?r1 = "NewReflector\<lparr>rf_pc := Listing\<rparr>"
  let ?r2 = "setLastSyncResourceVersion [] (?r1\<lparr>rf_resourceVersion := [], rf_pc := Requesting\<rparr>)"
  let ?r3 = "?r2\<lparr>rf_pc := Streaming 0 0\<rparr>"
  let ?i2 = "reflector_list job_Meta [] ?i0"
  let ?r4 = "saw_version job_Meta (versioned_job 1) (?r3\<lparr>rf_pc := Streaming (Suc 0) 0\<rparr>)"
  let ?i4 = "reflector_event job_Meta (WatchModified (versioned_job 1)) ?i2"
  have v: "hs_version sample_history 0 = []" by (simp add: sample_history_def)
  have 1: "?step (NewReflector, ?i0) (?r1, ?i0)" by (rule period_over) (simp_all add: NewReflector_def a(5))
  have "?step (?r1, ?i0) (list_answered job_Meta (Inr ([], hs_version sample_history 0)) (?r1, ?i0))"
    by (rule lists) (simp_all add: a(2,5) clean_list_def clean_changes_def NewDeltaFIFO_def)
  note 2 = this [unfolded list_answered.simps v]
  have "?step (?r2, ?i2) (watch_answered (WatchOpened 0) ?r2, ?i2)"
    by (rule watch_opens) (simp_all add: setLastSyncResourceVersion_def sample_history_def)
  note 3 = this [unfolded watch_answered.simps]
  have 4: "?step (?r3, ?i2) (?r4, ?i4)"
    by (rule receives [where n = 0 and e = "WatchModified (versioned_job 1)" and seen = 0]) (simp_all add: sample_history_def)
  have "reflector_reachable job_Meta (\<lambda>job. job) sample_history (clean_list job_Meta) (NewReflector, ?i0) (?r4, ?i4)"
    by (rule continues [OF continues [OF continues [OF continues [OF starts 1] 2] 3] 4])
  moreover have "si_first ?i4 \<noteq> None" by (simp add: reflector_list_def)
  moreover have "rf_lastSyncResourceVersion ?r4 = ''1''"
    by (simp add: saw_version_def setLastSyncResourceVersion_def versioned_job_def)
  ultimately show ?thesis by blast
qed


end
