(* ===== verification/Pipeline.thy ===== *)
theory Pipeline
  imports Controller Reflector
begin

text \<open>
  The job informer and the controller together: what the reflector puts into the queue of changes reaches the
  store, the handler of the controller, its work queue, and a worker, which reads the store through the
  lister. An object is the pointer the reflector stored; the handler and the workers change what it points
  to, never its metadata. The worker takes a key in one step and synchronises it in another, so the informer,
  the handler and other workers run in between; a panic ends the process, which then has no step.
\<close>

section \<open>The parts together\<close>

text \<open>What \<open>processNextWorkItem\<close> does once \<open>Get\<close> has handed out a key.\<close>

definition work_on :: "'w api \<Rightarrow> string \<Rightarrow> 'w controller \<Rightarrow> bool outcome \<times> 'w controller" where
  "work_on api key c =
     (case syncCaffe2Job api key c of
        (Panic e, c1) \<Rightarrow> (Panic e, finish key c1)
      | (Ret (forget, None), c1) \<Rightarrow> (Ret True, finish key (if forget then Forget key c1 else c1))
      | (Ret (forget, Some err), c1) \<Rightarrow> (Ret True, finish key (AddRateLimited api key c1)))"

lemma processNextWorkItem_work_on:
  "processNextWorkItem api c =
     (case Get (cn_queue c) of
        None \<Rightarrow> None
      | Some (None, q) \<Rightarrow> Some (Ret False, c\<lparr>cn_queue := q\<rparr>)
      | Some (Some key, q) \<Rightarrow> Some (work_on api key (c\<lparr>cn_queue := q\<rparr>)))"
  by (simp add: processNextWorkItem_def work_on_def split: option.split prod.split)

text \<open>\<open>processorListener.run\<close> calls the handler that \<open>New\<close> registered.\<close>

fun to_notified :: "job_ptr gone \<Rightarrow> notified" where
  "to_notified (Final p) = JobPtr p"
| "to_notified (Unknown key obj) = DeletedFinalStateUnknown key"

fun run_handler :: "'w api \<Rightarrow> job_ptr notification \<Rightarrow> 'w controller \<Rightarrow> unit outcome \<times> 'w controller" where
  "run_handler api (AddNote p) c = OnAdd (job_handler api) (JobPtr p) c"
| "run_handler api (UpdateNote old p) c = OnUpdate (job_handler api) (JobPtr old) (JobPtr p) c"
| "run_handler api (DeleteNote g) c = OnDelete (job_handler api) (to_notified g) c"

text \<open>The handler that \<open>New\<close> registered for pods.\<close>

fun run_pod_handler :: "'w api \<Rightarrow> Pod notification \<Rightarrow> 'w controller \<Rightarrow> unit outcome \<times> 'w controller" where
  "run_pod_handler api (AddNote pod) c = OnAdd (pod_handler api) (PodPtr pod) c"
| "run_pod_handler api (UpdateNote old pod) c = OnUpdate (pod_handler api) (PodPtr old) (PodPtr pod) c"
| "run_pod_handler api (DeleteNote (Final pod)) c = OnDelete (pod_handler api) (PodPtr pod) c"
| "run_pod_handler api (DeleteNote (Unknown key pod)) c = OnDelete (pod_handler api) (DeletedFinalStateUnknown key) c"

text \<open>
  \<open>pp_done\<close> is for the proofs: what the cache held under a key when the last synchronisation of the key that
  succeeded began.
\<close>

record 'w pipeline =
  pp_reflector :: reflector
  pp_informer :: "job_ptr informer"
  pp_controller :: "'w controller"
  pp_done :: "string \<rightharpoonup> job_ptr option"

definition with_informer :: "job_ptr informer \<Rightarrow> 'w pipeline \<Rightarrow> 'w pipeline" where
  "with_informer i s =
     s\<lparr>pp_informer := i, pp_controller := (pp_controller s)\<lparr>cn_jobs := (\<lambda>k. ts_Get k (si_indexer i))\<rparr>\<rparr>"

definition handler_of :: "'w pipeline \<Rightarrow> job_ptr listener" where
  "handler_of s = hd (si_listeners (pp_informer s))"

inductive pipeline_step ::
  "'w api \<Rightarrow> (job_ptr \<Rightarrow> Caffe2Job) \<Rightarrow> Caffe2Job history \<Rightarrow> (job_ptr informer \<Rightarrow> job_ptr list \<Rightarrow> bool) \<Rightarrow>
     'w pipeline \<Rightarrow> 'w pipeline \<Rightarrow> bool"
  for api val h P where
  informs: "reflector_step job_Meta val h P (pp_reflector s, pp_informer s) (r, i) \<Longrightarrow>
    map ln_handed (si_listeners i) = map ln_handed (si_listeners (pp_informer s)) \<Longrightarrow>
    pipeline_step api val h P s ((with_informer i s)\<lparr>pp_reflector := r\<rparr>)"
| handles: "ln_notification (handler_of s) = Some n \<Longrightarrow> run_handler api n (pp_controller s) = (Ret u, c) \<Longrightarrow>
    pipeline_step api val h P s (s\<lparr>pp_controller := c,
      pp_informer := (pp_informer s)\<lparr>si_listeners := [listener_next (handler_of s)]\<rparr>\<rparr>)"
| takes: "Get (cn_queue (pp_controller s)) = Some (Some key, q) \<Longrightarrow>
    pipeline_step api val h P s (s\<lparr>pp_controller := (pp_controller s)\<lparr>cn_queue := q\<rparr>\<rparr>)"
| works: "key \<in> wq_processing (cn_queue (pp_controller s)) \<Longrightarrow>
    syncCaffe2Job api key (pp_controller s) = (Ret (forget, err), c1) \<Longrightarrow>
    work_on api key (pp_controller s) = (r, c) \<Longrightarrow>
    pipeline_step api val h P s (s\<lparr>pp_controller := c,
      pp_done := (if err = None then (pp_done s)(key \<mapsto> cn_jobs (pp_controller s) key) else pp_done s)\<rparr>)"
| delay_over: "cn_waiting (pp_controller s) = before @ (item, due) # after \<Longrightarrow>
    pipeline_step api val h P s (s\<lparr>pp_controller := (pp_controller s)\<lparr>cn_waiting := before @ after,
      cn_queue := Add item (cn_queue (pp_controller s))\<rparr>\<rparr>)"
| pods_move: "pipeline_step api val h P s (s\<lparr>pp_controller := (pp_controller s)\<lparr>cn_pods := pods, cn_world := w\<rparr>\<rparr>)"
| pod_notified: "run_pod_handler api n (pp_controller s) = (Ret u, c) \<Longrightarrow>
    pipeline_step api val h P s (s\<lparr>pp_controller := c\<rparr>)"
| shuts: "pipeline_step api val h P s
    (s\<lparr>pp_controller := (pp_controller s)\<lparr>cn_queue := ShutDown (cn_queue (pp_controller s))\<rparr>\<rparr>)"

inductive pipeline_reachable ::
  "'w api \<Rightarrow> (job_ptr \<Rightarrow> Caffe2Job) \<Rightarrow> Caffe2Job history \<Rightarrow> (job_ptr informer \<Rightarrow> job_ptr list \<Rightarrow> bool) \<Rightarrow>
     'w pipeline \<Rightarrow> 'w pipeline \<Rightarrow> bool"
  for api val h P s0 where
  begins: "pipeline_reachable api val h P s0 s0"
| moves: "pipeline_reachable api val h P s0 s \<Longrightarrow> pipeline_step api val h P s s' \<Longrightarrow> pipeline_reachable api val h P s0 s'"

text \<open>A pipeline before the first list: the informer is started and has the handler, the queue is empty.\<close>

definition new_pipeline ::
  "(job_ptr \<Rightarrow> Caffe2Job) \<Rightarrow> job_ptr informer \<Rightarrow> 'w \<Rightarrow> string default_state \<Rightarrow> 'w pipeline" where
  "new_pipeline heap i w limiter =
     \<lparr>pp_reflector = NewReflector, pp_informer = started_informer i,
      pp_controller = \<lparr>cn_heap = heap, cn_jobs = Map.empty, cn_pods = (\<lambda>_. Inr []), cn_queue = NewQueue, cn_waiting = [],
        cn_limiter = limiter, cn_world = w\<rparr>,
      pp_done = Map.empty\<rparr>"

section \<open>Lemmas: the controller\<close>

lemma bump_keeps: "bump f job = Ret j \<Longrightarrow> job_Meta j = job_Meta job"
  by (auto simp: bump_def)

lemma reconcile_slices_keeps:
  "reconcile_slices api rt spec i ps job w = (Ret (job', err), w') \<Longrightarrow> job_Meta job' = job_Meta job"
proof (induction api rt spec i ps job w arbitrary: w' rule: reconcile_slices.induct)
  case (2 api rt spec i p ps job w)
  have a: "increaseCaffe2JobReplicaStatusesActive job = Ret j \<Longrightarrow> job_Meta j = job_Meta job" for j
    by (simp add: increaseCaffe2JobReplicaStatusesActive_def bump_keeps)
  have b: "updateCaffe2JobReplicaStatuses job q = Ret j \<Longrightarrow> job_Meta j = job_Meta job" for j q
    by (auto simp: updateCaffe2JobReplicaStatuses_def bump_keeps split: if_splits)
  from 2 show ?case by (auto dest!: a b split: if_splits prod.splits outcome.splits option.splits)
qed simp

lemma updateStatus_keeps:
  assumes "updateStatus now job replicas w = (Ret (job', err), w')"
  shows "job_Meta job' = job_Meta job"
proof -
  have st: "stamp now g put j w1 = (j', w2) \<Longrightarrow> job_Meta j' = job_Meta j" for g put j w1 j' w2
    by (auto simp: stamp_def split: if_splits prod.splits)
  have lc: "leave_condition now g t r m j w1 = (j', e, w2) \<Longrightarrow> job_Meta j' = job_Meta j" for g t r m j w1 j' e w2
    by (rule leave_condition_facts(2))
  show ?thesis using assms
    by (auto simp: updateStatus_def Let_def dest!: st lc split: option.splits prod.splits if_splits)
qed

lemma reconcilePods_keeps:
  assumes "reconcilePods api job pods spec w = (Ret (job', err), w')"
  shows "job_Meta job' = job_Meta job"
proof -
  have i: "job_Meta (initializeCaffe2ReplicaStatuses job) = job_Meta job" by (simp add: initializeCaffe2ReplicaStatuses_def)
  show ?thesis using assms
    by (auto simp: reconcilePods_def Let_def i dest!: reconcile_slices_keeps updateStatus_keeps
        split: outcome.splits prod.splits option.splits)
qed

text \<open>The metadata of the objects, as the informer knows it.\<close>

definition metas :: "(job_ptr \<Rightarrow> ObjectMeta) \<Rightarrow> 'w controller \<Rightarrow> bool" where
  "metas meta c \<longleftrightarrow> (\<forall>p. job_Meta (cn_heap c p) = meta p)"

lemma metas_same: "cn_heap c' = cn_heap c \<Longrightarrow> metas meta c \<Longrightarrow> metas meta c'"
  by (simp add: metas_def)

lemma sync_metas:
  assumes "syncCaffe2Job api key c = (Ret r, c')" and "metas meta c"
  shows "metas meta c'"
proof -
  have "reconcileCaffe2Jobs api p c = (Ret e, c1) \<Longrightarrow> metas meta c1" for p e c1
    using assms(2) by (auto simp: reconcileCaffe2Jobs_def metas_def dest!: reconcilePods_keeps
        split: prod.splits option.splits outcome.splits)
  then show ?thesis using assms
    by (auto simp: syncCaffe2Job_def split: sum.splits prod.splits if_splits option.splits outcome.splits)
qed

text \<open>What the handler leaves in place, and what it schedules.\<close>

definition leaves_books :: "'w controller \<Rightarrow> 'w controller \<Rightarrow> bool" where
  "leaves_books c c' \<longleftrightarrow> cn_jobs c' = cn_jobs c \<and> wq_processing (cn_queue c') = wq_processing (cn_queue c) \<and>
     ShuttingDown (cn_queue c') = ShuttingDown (cn_queue c) \<and> (books_ok c \<longrightarrow> books_ok c') \<and>
     (\<forall>key. books_ok c \<longrightarrow> scheduled key c \<longrightarrow> scheduled key c') \<and> (\<forall>meta. metas meta c \<longrightarrow> metas meta c')"

lemma leaves_books_refl: "leaves_books c c"
  by (simp add: leaves_books_def)

lemma leaves_books_trans: "leaves_books a b \<Longrightarrow> leaves_books b c \<Longrightarrow> leaves_books a c"
  by (simp add: leaves_books_def)

lemma leaves_books_AddRateLimited: "leaves_books c (AddRateLimited api key c)"
  by (simp add: leaves_books_def frame_simps AddRateLimited_schedules metas_def)

text \<open>The handler on a new job: a job without replicas ends the process, any other is prepared and its key queued.\<close>

lemma handler_on_new:
  obtains (panics) e w where "js_ReplicaSpecs (job_Spec (cn_heap c p)) = None"
      "run_handler api (AddNote p) c = (Panic e, c\<lparr>cn_world := w\<rparr>)"
  | (queues) job w where "job_Meta job = job_Meta (cn_heap c p)" "js_ReplicaSpecs (job_Spec job) \<noteq> None"
      "run_handler api (AddNote p) c =
         (Ret (), enqueueController api (JobPtr p) (c\<lparr>cn_heap := (cn_heap c)(p := job), cn_world := w\<rparr>))"
proof (cases "SetDefaults_Caffe2Job (api_now api) (cn_heap c p) (cn_world c)")
  case (Pair o' w)
  show thesis
  proof (cases o')
    case (Panic e)
    then have "js_ReplicaSpecs (job_Spec (cn_heap c p)) = None" using Pair by (auto simp: SetDefaults_cases Let_def split: option.splits)
    then show thesis using Pair Panic
      by (intro panics [of e w])
        (simp_all add: OnAdd_def job_handler_def job_filter_def addCaffe2Job_def SetObjectDefaults_Caffe2Job_def Let_def)
  next
    case (Ret job)
    obtain job1 w1 err where u: "updateCaffe2JobConditions (api_now api) job Caffe2JobCreated caffe2JobCreatedReason
        (''Caffe2Job '' @ job_Name (cn_heap c p) @ '' is created.'') w = (job1, err, w1)" by (metis prod_cases3)
    note f = updateConditions_facts [OF u]
    from Pair have "SetDefaults_Caffe2Job (api_now api) (cn_heap c p) (cn_world c) = (Ret job, w)" by (simp add: Ret)
    then have "job_Meta job = job_Meta (cn_heap c p)" "js_ReplicaSpecs (job_Spec job) \<noteq> None" by (auto elim: SetDefaults_Ret)
    then show thesis using Pair Ret u f(1-3)
      by (intro queues [of job1 w1])
        (simp_all add: OnAdd_def job_handler_def job_filter_def addCaffe2Job_def SetObjectDefaults_Caffe2Job_def Let_def)
  qed
qed

lemma handler_schedules:
  assumes "run_handler api n c = (Ret u, c')" and "metas meta c"
  shows "leaves_books c c' \<and> (books_ok c \<longrightarrow> \<not> ShuttingDown (cn_queue c) \<longrightarrow> (\<forall>p. n = AddNote p \<or> (\<exists>old. n = UpdateNote old p) \<longrightarrow>
      scheduled (MetaNamespaceKey (meta p)) c'))"
proof -
  have q: "leaves_books c (enqueueController api obj c)"
    "books_ok c \<longrightarrow> \<not> ShuttingDown (cn_queue c) \<longrightarrow> scheduled (keyFunc c obj) (enqueueController api obj c)" for obj c
    by (simp_all add: enqueueController_def leaves_books_AddRateLimited AddRateLimited_schedules(3))
  have key: "keyFunc c (JobPtr p) = MetaNamespaceKey (meta p)" if "metas meta c" for c :: "'a controller" and p
    using that by (simp add: keyFunc_def metas_def)
  show ?thesis
  proof (cases n)
    case (AddNote p)
    obtain job1 w1 where m: "job_Meta job1 = meta p"
      and eq: "run_handler api (AddNote p) c =
         (Ret (), enqueueController api (JobPtr p) (c\<lparr>cn_heap := (cn_heap c)(p := job1), cn_world := w1\<rparr>))"
    proof (cases rule: handler_on_new [of c p api])
      case (panics e w)
      then show thesis using assms(1) AddNote by simp
    next
      case (queues job w)
      then show thesis using assms(2) by (intro that [of job w]) (simp_all add: metas_def)
    qed
    let ?c = "c\<lparr>cn_heap := (cn_heap c)(p := job1), cn_world := w1\<rparr>"
    have c': "c' = enqueueController api (JobPtr p) ?c" using assms(1) AddNote eq by simp
    have ms: "metas meta ?c" using assms(2) m by (simp add: metas_def)
    have "leaves_books c ?c" using assms(2) m by (auto simp: leaves_books_def books_ok_def scheduled_def metas_def)
    then show ?thesis
      using q [of ?c "JobPtr p"] key [OF ms] by (auto simp: c' AddNote intro: leaves_books_trans simp: books_ok_def)
  next
    case (UpdateNote old p)
    then show ?thesis using assms q [of c "JobPtr p"] key [OF assms(2)]
      by (auto simp: OnUpdate_def job_handler_def job_filter_def updateCaffe2Job_def Let_def)
  next
    case (DeleteNote g)
    then show ?thesis using assms(1) q(1) leaves_books_refl
      by (auto simp: OnDelete_def job_handler_def split: if_splits)
  qed
qed

lemma pod_handler_leaves:
  assumes "run_pod_handler api n c = (Ret u, c')"
  shows "leaves_books c c'"
proof -
  have q: "leaves_books c (enqueueController api obj c)" for obj
    by (simp add: enqueueController_def leaves_books_AddRateLimited)
  have "addPod api (PodPtr pod) c = (Ret u, c') \<Longrightarrow> leaves_books c c'" for pod
    using q by (auto simp: addPod_def leaves_books_refl split: if_splits option.splits)
  then show ?thesis using assms leaves_books_refl
    by (cases "(api, n, c)" rule: run_pod_handler.cases)
      (auto simp: OnAdd_def OnUpdate_def OnDelete_def pod_handler_def updatePod_def deletePod_def Let_def split: if_splits)
qed

lemma leaves_books_Forget: "leaves_books c (Forget key c)"
  by (auto simp: leaves_books_def Forget_books metas_def) (simp_all add: Forget_def)

lemma work_on_keeps:
  assumes "books_ok c" and "key \<in> wq_processing (cn_queue c)" and "syncCaffe2Job api key c = (Ret (forget, err), c1)"
    and "work_on api key c = (r, c')" and "metas meta c"
  shows "cn_jobs c' = cn_jobs c" and "wq_processing (cn_queue c') = wq_processing (cn_queue c) - {key}"
    and "ShuttingDown (cn_queue c') = ShuttingDown (cn_queue c)" and "books_ok c'" and "metas meta c'"
    and "scheduled k c \<Longrightarrow> scheduled k c'"
    and "err \<noteq> None \<Longrightarrow> \<not> ShuttingDown (cn_queue c) \<Longrightarrow> scheduled key c'"
proof -
  define c2 where "c2 = (case err of None \<Rightarrow> if forget then Forget key c1 else c1 | Some e \<Rightarrow> AddRateLimited api key c1)"
  have c': "c' = finish key c2" using assms(3,4) by (auto simp: work_on_def c2_def split: option.splits)
  note same = syncCaffe2Job_frame [OF assms(3), unfolded same_books_def]
  have b1: "books_ok c1" using assms(1) same by (simp add: books_ok_def)
  have keeps: "leaves_books c1 c2" by (simp add: c2_def leaves_books_Forget leaves_books_refl leaves_books_AddRateLimited split: option.split)
  have b2: "books_ok c2" "key \<in> wq_processing (cn_queue c2)" using keeps b1 assms(2) same by (simp_all add: leaves_books_def)
  note fin = finish_books [OF b2]
  show "cn_jobs c' = cn_jobs c" using keeps same by (simp add: c' finish_def leaves_books_def)
  show "wq_processing (cn_queue c') = wq_processing (cn_queue c) - {key}" using fin(4) keeps same by (simp add: c' leaves_books_def)
  show "ShuttingDown (cn_queue c') = ShuttingDown (cn_queue c)"
    using keeps same by (simp add: c' finish_def leaves_books_def Done_def ShuttingDown_def Let_def)
  show "books_ok c'" using fin(1) by (simp add: c')
  have "metas meta c2" using keeps sync_metas [OF assms(3,5)] by (simp add: leaves_books_def)
  then show "metas meta c'" by (simp add: c' finish_def metas_def)
  have "scheduled k c1 = scheduled k c" using same by (simp add: scheduled_def)
  then show "scheduled k c \<Longrightarrow> scheduled k c'" using fin(2) keeps b1 by (simp add: c' leaves_books_def)
  show "err \<noteq> None \<Longrightarrow> \<not> ShuttingDown (cn_queue c) \<Longrightarrow> scheduled key c'"
    using fin(2) AddRateLimited_schedules(3) [OF b1, where api = api and x = key] same by (auto simp: c' c2_def)
qed

section \<open>Lemmas: the informer\<close>

text \<open>What a listener has not passed on yet; the key a notification is about.\<close>

definition waiting_notes :: "'o listener \<Rightarrow> 'o notification list" where
  "waiting_notes l = (case ln_notification l of None \<Rightarrow> [] | Some n \<Rightarrow> [n]) @ ln_pending l"

lemma notes_of_waiting: "notes_of l = ln_handed l @ waiting_notes l"
  by (simp add: notes_of_def waiting_notes_def)

fun note_key :: "('o \<Rightarrow> ObjectMeta) \<Rightarrow> 'o notification \<Rightarrow> string" where
  "note_key meta (AddNote obj) = MetaNamespaceKey (meta obj)"
| "note_key meta (UpdateNote old obj) = MetaNamespaceKey (meta obj)"
| "note_key meta (DeleteNote g) = gone_key meta g"

lemma note_effect_other: "note_key meta n \<noteq> k \<Longrightarrow> note_effect meta n m k = m k"
  by (cases n) auto

lemma view_append_other:
  "(\<forall>n\<in>set ys. note_key meta n \<noteq> k) \<Longrightarrow> view meta (xs @ ys) k = view meta xs k"
  by (induction ys rule: rev_induct) (simp_all add: view_snoc note_effect_other flip: append_assoc)

lemma note_effect_Some:
  "note_effect meta n m k = Some p \<Longrightarrow> note_key meta n = k \<Longrightarrow>
     (n = AddNote p \<or> (\<exists>old. n = UpdateNote old p)) \<and> MetaNamespaceKey (meta p) = k"
  by (cases n) auto

text \<open>Without a delivery, a listener only gets more to pass on.\<close>

definition grown :: "'o listener \<Rightarrow> 'o listener \<Rightarrow> bool" where
  "grown l l' \<longleftrightarrow> listener_ok l' \<and> (\<exists>ns. notes_of l' = notes_of l @ ns)"

lemma grown_refl: "listener_ok l \<Longrightarrow> grown l l"
  by (simp add: grown_def)

lemma grown_trans: "grown a b \<Longrightarrow> grown b c \<Longrightarrow> grown a c"
  by (auto simp: grown_def)

lemma grown_waiting: "grown l l' \<Longrightarrow> ln_handed l' = ln_handed l \<Longrightarrow> set (waiting_notes l) \<subseteq> set (waiting_notes l')"
  by (auto simp: grown_def notes_of_waiting)

lemma distribute_grown:
  assumes "si_listeners s = [l]" and "listener_ok l"
  shows "\<exists>l'. si_listeners (distribute n b s) = [l'] \<and> grown l l'"
  using assms listener_add_ok [OF assms(2), of n] by (simp add: distribute_def grown_def)

lemma HandleDeltas_grown:
  "si_listeners s = [l] \<Longrightarrow> listener_ok l \<Longrightarrow> \<exists>l'. si_listeners (HandleDeltas meta ds s) = [l'] \<and> grown l l'"
proof (induction ds arbitrary: s l)
  case Nil
  then show ?case by (simp add: grown_refl)
next
  case (Cons d ds)
  have "\<exists>l'. si_listeners (HandleDelta meta d s) = [l'] \<and> grown l l'"
    using Cons.prems by (cases d) (auto simp: upsert_def intro: distribute_grown split: option.split)
  then obtain l1 where l1: "si_listeners (HandleDelta meta d s) = [l1]" "grown l l1" by blast
  then have "listener_ok l1" by (simp add: grown_def)
  with Cons.IH [OF l1(1)] l1(2) show ?case by (auto intro: grown_trans)
qed

lemma informer_step_grown:
  assumes "informer_step meta P i i'" and "si_started i" and "si_listeners i = [l]" and "listener_ok l"
  shows "si_started i' \<and> (\<exists>l'. si_listeners i' = [l'] \<and> grown l l')"
  using assms(1)
proof cases
  case (listed list)
  then show ?thesis using assms by (simp add: reflector_list_def grown_refl)
next
  case (watched e)
  then show ?thesis using assms by (cases e) (simp_all add: grown_refl)
next
  case (popped key ds f)
  then show ?thesis using assms HandleDeltas_grown [of "i\<lparr>si_fifo := f\<rparr>" l meta ds] by simp
next
  case (resynced t)
  have "grown l (determineNextResync now l)" for now
    using assms(4) by (simp add: grown_def determineNextResync_def listener_ok_def notes_of_def)
  then show ?thesis using assms resynced
    by (auto simp: reflector_resync_def processor_shouldResync_def Let_def grown_refl)
next
  case (delivered j)
  then show ?thesis using assms listener_next_ok [OF assms(4)] by (auto simp: grown_def)
qed (use assms in \<open>simp_all add: grown_refl\<close>)

section \<open>Lemmas: the pipeline\<close>

definition pipeline_ok :: "(job_ptr \<Rightarrow> ObjectMeta) \<Rightarrow> 'w pipeline \<Rightarrow> bool" where
  "pipeline_ok meta s \<longleftrightarrow> books_ok (pp_controller s) \<and> metas meta (pp_controller s) \<and>
     cn_jobs (pp_controller s) = (\<lambda>k. ts_Get k (si_indexer (pp_informer s))) \<and>
     si_started (pp_informer s) \<and> si_listeners (pp_informer s) = [handler_of s]"

text \<open>
  Where a job is that the handler knows of: its key has been synchronised with that very object in the cache,
  or is scheduled, or is with a worker, or a further notification about it waits for the handler.
\<close>

definition accounted :: "(job_ptr \<Rightarrow> ObjectMeta) \<Rightarrow> 'w pipeline \<Rightarrow> bool" where
  "accounted meta s \<longleftrightarrow>
     (\<forall>k p. \<not> ShuttingDown (cn_queue (pp_controller s)) \<and> view meta (ln_handed (handler_of s)) k = Some p \<longrightarrow>
        pp_done s k = Some (Some p) \<or> scheduled k (pp_controller s) \<or> k \<in> wq_processing (cn_queue (pp_controller s)) \<or>
        (\<exists>n\<in>set (waiting_notes (handler_of s)). note_key meta n = k))"

lemma scheduled_Add: "scheduled k c \<Longrightarrow> scheduled k (c\<lparr>cn_queue := Add item (cn_queue c)\<rparr>)"
  by (auto simp: scheduled_def Add_def Let_def)

lemma accounted_controller:
  assumes "accounted meta s" and "pp_done s' = pp_done s" and "pp_informer s' = pp_informer s"
    and "\<not> ShuttingDown (cn_queue (pp_controller s')) \<Longrightarrow> \<not> ShuttingDown (cn_queue (pp_controller s))"
    and "\<And>k. \<not> ShuttingDown (cn_queue (pp_controller s')) \<Longrightarrow>
      scheduled k (pp_controller s) \<or> k \<in> wq_processing (cn_queue (pp_controller s)) \<Longrightarrow>
      scheduled k (pp_controller s') \<or> k \<in> wq_processing (cn_queue (pp_controller s'))"
  shows "accounted meta s'"
  using assms unfolding accounted_def handler_of_def by metis

lemma informs_accounted:
  assumes "i = pp_informer s \<or> informer_step meta P (pp_informer s) i" and "map ln_handed (si_listeners i) = map ln_handed (si_listeners (pp_informer s))"
    and "pipeline_ok meta s" and "accounted meta s" and "listener_ok (handler_of s)"
  shows "pipeline_ok meta (with_informer i s) \<and> accounted meta (with_informer i s)"
proof -
  have p: "si_started (pp_informer s)" "si_listeners (pp_informer s) = [handler_of s]" using assms(3) by (simp_all add: pipeline_ok_def)
  obtain l' where l: "si_started i" "si_listeners i = [l']" "grown (handler_of s) l'"
    using assms(1) informer_step_grown [OF _ p assms(5)] p grown_refl [OF assms(5)] by blast
  have handler: "handler_of (with_informer i s) = l'" by (simp add: handler_of_def with_informer_def l(2))
  have handed: "ln_handed l' = ln_handed (handler_of s)" using assms(2) by (simp add: l(2) p(2))
  note more = grown_waiting [OF l(3) handed]
  have ok: "pipeline_ok meta (with_informer i s)"
    using assms(3) l handler by (simp add: pipeline_ok_def with_informer_def books_ok_def metas_def)
  have "accounted meta (with_informer i s)"
    unfolding accounted_def handler handed
    using assms(4) more by (fastforce simp: accounted_def with_informer_def scheduled_def)
  with ok show ?thesis by blast
qed

lemma handles_accounted:
  assumes "ln_notification (handler_of s) = Some n" and "run_handler api n (pp_controller s) = (Ret u, c)"
    and "pipeline_ok meta s" and "accounted meta s" and "listener_ok (handler_of s)"
    and s': "s' = s\<lparr>pp_controller := c, pp_informer := (pp_informer s)\<lparr>si_listeners := [listener_next (handler_of s)]\<rparr>\<rparr>"
  shows "pipeline_ok meta s' \<and> accounted meta s'"
proof -
  have ok: "books_ok (pp_controller s)" "metas meta (pp_controller s)" using assms(3) by (simp_all add: pipeline_ok_def)
  note h = handler_schedules [OF assms(2) ok(2)]
  have handler: "handler_of s' = listener_next (handler_of s)" by (simp add: s' handler_of_def)
  have ok': "pipeline_ok meta s'" unfolding pipeline_ok_def handler using h assms(3) by (simp add: pipeline_ok_def leaves_books_def s')
  have handed: "ln_handed (handler_of s') = ln_handed (handler_of s) @ [n]"
    using assms(1) by (simp add: handler listener_next_def split: list.split)
  have waiting: "waiting_notes (handler_of s) = n # waiting_notes (handler_of s')"
    using assms(1,5) by (simp add: handler waiting_notes_def listener_next_def listener_ok_def split: list.split)
  have "accounted meta s'"
    unfolding accounted_def
  proof (intro allI impI)
    fix k p
    assume a: "\<not> ShuttingDown (cn_queue (pp_controller s')) \<and> view meta (ln_handed (handler_of s')) k = Some p"
    have open': "\<not> ShuttingDown (cn_queue (pp_controller s))" using a h by (simp add: s' leaves_books_def)
    show "pp_done s' k = Some (Some p) \<or> scheduled k (pp_controller s') \<or> k \<in> wq_processing (cn_queue (pp_controller s')) \<or>
      (\<exists>n\<in>set (waiting_notes (handler_of s')). note_key meta n = k)"
    proof (cases "note_key meta n = k")
      case True
      have "note_effect meta n (view meta (ln_handed (handler_of s))) k = Some p" using a by (simp add: handed view_snoc)
      from note_effect_Some [OF this True] have "scheduled k (pp_controller s')" using h ok(1) open' by (auto simp: s')
      then show ?thesis by blast
    next
      case False
      then have "view meta (ln_handed (handler_of s)) k = Some p" using a by (simp add: handed view_snoc note_effect_other)
      with assms(4) open' have "pp_done s k = Some (Some p) \<or> scheduled k (pp_controller s) \<or>
        k \<in> wq_processing (cn_queue (pp_controller s)) \<or> (\<exists>n\<in>set (waiting_notes (handler_of s)). note_key meta n = k)"
        by (simp add: accounted_def)
      then show ?thesis using h ok(1) False by (auto simp: s' leaves_books_def waiting)
    qed
  qed
  with ok' show ?thesis by blast
qed

lemma works_accounted:
  assumes "key \<in> wq_processing (cn_queue (pp_controller s))"
    and sync: "syncCaffe2Job api key (pp_controller s) = (Ret (forget, err), c1)" and work: "work_on api key (pp_controller s) = (r, c)"
    and "pipeline_ok meta s" and "accounted meta s" and "view_ok meta (si_indexer (pp_informer s)) (handler_of s)"
    and s': "s' = s\<lparr>pp_controller := c, pp_done := (if err = None then (pp_done s)(key \<mapsto> cn_jobs (pp_controller s) key) else pp_done s)\<rparr>"
  shows "pipeline_ok meta s' \<and> accounted meta s'"
proof -
  have ok: "books_ok (pp_controller s)" "metas meta (pp_controller s)"
    "cn_jobs (pp_controller s) = (\<lambda>k. ts_Get k (si_indexer (pp_informer s)))" using assms(4) by (simp_all add: pipeline_ok_def)
  note w = work_on_keeps [OF ok(1) assms(1) sync work ok(2)]
  have handler: "handler_of s' = handler_of s" by (simp add: s' handler_of_def)
  have ok': "pipeline_ok meta s'" unfolding pipeline_ok_def handler using w assms(4) by (simp add: pipeline_ok_def s')
  have "accounted meta s'"
    unfolding accounted_def handler
  proof (intro allI impI)
    fix k p
    assume a: "\<not> ShuttingDown (cn_queue (pp_controller s')) \<and> view meta (ln_handed (handler_of s)) k = Some p"
    then have open': "\<not> ShuttingDown (cn_queue (pp_controller s))" using w(3) by (simp add: s')
    show "pp_done s' k = Some (Some p) \<or> scheduled k (pp_controller s') \<or> k \<in> wq_processing (cn_queue (pp_controller s')) \<or>
      (\<exists>n\<in>set (waiting_notes (handler_of s)). note_key meta n = k)"
    proof (cases "k = key")
      case True
      show ?thesis
      proof (cases err)
        case None
        have "view meta (notes_of (handler_of s)) k = Some p" if "\<forall>n\<in>set (waiting_notes (handler_of s)). note_key meta n \<noteq> k"
          using view_append_other [OF that] a by (simp add: notes_of_waiting)
        then show ?thesis using assms(6) ok(3) None True by (auto simp: s' view_ok_def)
      next
        case (Some e)
        then show ?thesis using w(7) open' True by (simp add: s')
      qed
    next
      case False
      have "pp_done s k = Some (Some p) \<or> scheduled k (pp_controller s) \<or>
        k \<in> wq_processing (cn_queue (pp_controller s)) \<or> (\<exists>n\<in>set (waiting_notes (handler_of s)). note_key meta n = k)"
        using assms(5) a open' by (simp add: accounted_def)
      then show ?thesis using w(2,6) False by (auto simp: s')
    qed
  qed
  with ok' show ?thesis by blast
qed

text \<open>The metadata of an object, which nobody changes.\<close>

abbreviation meta_of :: "(job_ptr \<Rightarrow> Caffe2Job) \<Rightarrow> job_ptr \<Rightarrow> ObjectMeta" where
  "meta_of val \<equiv> \<lambda>p. job_Meta (val p)"

lemma reflector_irrelevant:
  "pipeline_ok meta (s\<lparr>pp_reflector := r\<rparr>) = pipeline_ok meta s" "accounted meta (s\<lparr>pp_reflector := r\<rparr>) = accounted meta s"
  by (simp_all add: pipeline_ok_def accounted_def handler_of_def)

text \<open>A step of the controller alone, which keeps its books and schedules no key less.\<close>

lemma controller_step_ok:
  assumes "pipeline_ok meta s" and "accounted meta s" and "s' = s\<lparr>pp_controller := c\<rparr>"
    and "books_ok c" and "cn_jobs c = cn_jobs (pp_controller s)" and "metas meta (pp_controller s) \<Longrightarrow> metas meta c"
    and "\<not> ShuttingDown (cn_queue c) \<Longrightarrow> \<not> ShuttingDown (cn_queue (pp_controller s))"
    and "\<And>k. \<not> ShuttingDown (cn_queue c) \<Longrightarrow>
      scheduled k (pp_controller s) \<or> k \<in> wq_processing (cn_queue (pp_controller s)) \<Longrightarrow>
      scheduled k c \<or> k \<in> wq_processing (cn_queue c)"
  shows "pipeline_ok meta s' \<and> accounted meta s' \<and> pp_informer s' = pp_informer s \<and> pp_reflector s' = pp_reflector s"
  using accounted_controller [OF assms(2), of s'] assms by (simp add: pipeline_ok_def handler_of_def)

lemma pipeline_step_ok:
  assumes "pipeline_step api val h P s s'" and "pipeline_ok (meta_of val) s" and "accounted (meta_of val) s"
    and "view_ok (meta_of val) (si_indexer (pp_informer s)) (handler_of s)"
    and "tracks job_Meta val h (pp_reflector s, pp_informer s)" and "versions_ok job_Meta h"
  shows "pipeline_ok (meta_of val) s' \<and> accounted (meta_of val) s' \<and> tracks job_Meta val h (pp_reflector s', pp_informer s') \<and>
    (pp_informer s' = pp_informer s \<or> informer_step (meta_of val) P (pp_informer s) (pp_informer s'))"
proof -
  let ?kept = "pipeline_ok (meta_of val) s' \<and> accounted (meta_of val) s' \<and> pp_informer s' = pp_informer s \<and> pp_reflector s' = pp_reflector s"
  from assms(1) show ?thesis
  proof cases
    case (informs r i)
    have st: "i = pp_informer s \<or> informer_step (meta_of val) P (pp_informer s) i"
      using reflector_informer_step [OF informs(2) assms(5)] by simp
    have "tracks job_Meta val h (r, i)" by (rule tracks_step [OF assms(6) informs(2) assms(5)])
    moreover have "listener_ok (handler_of s)" using assms(4) by (simp add: view_ok_def)
    ultimately show ?thesis using informs_accounted [OF st informs(3) assms(2,3)] st
      unfolding informs(1) reflector_irrelevant by (simp add: with_informer_def)
  next
    case (handles n u c)
    have ls: "si_listeners (pp_informer s) = [handler_of s]" using assms(2) by (simp add: pipeline_ok_def)
    have "informer_step (meta_of val) P (pp_informer s)
        ((pp_informer s)\<lparr>si_listeners := (si_listeners (pp_informer s))[0 := listener_next (si_listeners (pp_informer s) ! 0)]\<rparr>)"
      by (rule delivered) (simp add: ls)
    then have "informer_step (meta_of val) P (pp_informer s) (pp_informer s')" by (simp add: handles(1) ls)
    moreover have "pipeline_ok (meta_of val) s' \<and> accounted (meta_of val) s'"
      using assms(4) by (intro handles_accounted [OF handles(2,3) assms(2,3) _ handles(1)]) (simp add: view_ok_def)
    moreover have "tracks job_Meta val h (pp_reflector s', pp_informer s')" using assms(5) by (simp add: handles(1) tracks_def)
    ultimately show ?thesis by blast
  next
    case (takes key q)
    have b: "queue_inv (cn_queue (pp_controller s))" using assms(2) by (simp add: pipeline_ok_def books_ok_def)
    note item = wq.get_item [OF b takes(2)]
    have "ShuttingDown q = ShuttingDown (cn_queue (pp_controller s))" using takes(2) by (auto simp: Get_Some_item ShuttingDown_def)
    then have ?kept
      using item assms(2) by (intro controller_step_ok [OF assms(2,3) takes(1)]) (auto simp: pipeline_ok_def books_ok_def metas_def scheduled_def)
    then show ?thesis using assms(5) by simp
  next
    case (works key forget err c1 r c)
    then show ?thesis using works_accounted [OF works(2-4) assms(2-4) works(1)] assms(5) by (simp add: works(1))
  next
    case (delay_over before item due "after")
    have add: "ShuttingDown (Add item q) = ShuttingDown q" "wq_processing (Add item q) = wq_processing q"
      "\<not> ShuttingDown q \<Longrightarrow> wq_dirty (Add item q) = insert item (wq_dirty q)" for q :: "string work_queue"
      by (auto simp: Add_def Let_def ShuttingDown_def)
    have ?kept
      using assms(2) delay_over(2) by (intro controller_step_ok [OF assms(2,3) delay_over(1)])
        (auto simp: pipeline_ok_def books_ok_def metas_def queue_inv_Add scheduled_def add)
    then show ?thesis using assms(5) by simp
  next
    case (pods_move pods w)
    have ?kept
      using assms(2) by (intro controller_step_ok [OF assms(2,3) pods_move]) (simp_all add: pipeline_ok_def books_ok_def metas_def scheduled_def)
    then show ?thesis using assms(5) by simp
  next
    case (pod_notified n u c)
    have ?kept
      using assms(2) pod_handler_leaves [OF pod_notified(2)] by (intro controller_step_ok [OF assms(2,3) pod_notified(1)])
        (auto simp: leaves_books_def pipeline_ok_def)
    then show ?thesis using assms(5) by simp
  next
    case shuts
    have ?kept
      using assms(2) by (intro controller_step_ok [OF assms(2,3) shuts])
        (simp_all add: pipeline_ok_def books_ok_def metas_def queue_inv_def ShutDown_def ShuttingDown_def)
    then show ?thesis using assms(5) by simp
  qed
qed

text \<open>The pipeline at its start, with an informer made for the jobs.\<close>

definition pipeline_starts :: "(job_ptr \<Rightarrow> Caffe2Job) \<Rightarrow> time \<Rightarrow> job_ptr informer \<Rightarrow> 'w pipeline \<Rightarrow> bool" where
  "pipeline_starts val period i s \<longleftrightarrow> fresh_informer (meta_of val) period i \<and>
     (\<exists>w limiter. exp_ok (fst limiter) \<and> s = new_pipeline val i w limiter)"

lemma started_pipeline_ok:
  assumes "pipeline_starts val period i s"
  shows "pipeline_ok (meta_of val) s" and "accounted (meta_of val) s" and "informer_reachable (meta_of val) P i (pp_informer s)"
    and "tracks job_Meta val h (pp_reflector s, pp_informer s)"
proof -
  from assms obtain w limiter where fresh: "fresh_informer (meta_of val) period i"
    and lim: "exp_ok (fst limiter)" and s: "s = new_pipeline val i w limiter" by (auto simp: pipeline_starts_def)
  note a = started_reachable [OF fresh]
  show "tracks job_Meta val h (pp_reflector s, pp_informer s)"
    using fresh_first [OF fresh] by (simp add: s new_pipeline_def tracks_first)
  have "pp_informer s = started_informer i" by (simp add: s new_pipeline_def)
  then show "informer_reachable (meta_of val) P i (pp_informer s)" using a(1) by simp
  obtain l where l: "si_listeners (started_informer i) = [l]" using a(6) by (auto simp: length_Suc_conv)
  have "listeners_ok (meta_of val) period (started_informer i)" by (rule listeners_reachable [OF a(1) fresh])
  then have "view (meta_of val) (notes_of l) = (\<lambda>k. ts_Get k (si_indexer (started_informer i)))" by (simp add: listeners_ok_def view_ok_def l)
  then have none: "view (meta_of val) (notes_of l) = Map.empty" using a(3,4) by (simp add: ts_Get_def)
  have "ln_handed l = []"
    using fresh l by (auto simp: fresh_informer_def NewSharedIndexInformer_def started_informer_def AddEventHandler_def
      AddEventHandlerWithResyncPeriod_def addListener_def newProcessListener_def Let_def split: if_splits)
  then show "accounted (meta_of val) s" by (simp add: accounted_def s new_pipeline_def handler_of_def l view_def)
  have "cn_jobs (pp_controller s) = (\<lambda>k. ts_Get k (si_indexer (pp_informer s)))"
    using a(3,4) by (simp add: s new_pipeline_def ts_Get_def fun_eq_iff)
  then show "pipeline_ok (meta_of val) s"
    using a(5) lim l by (simp add: pipeline_ok_def books_ok_def metas_def s new_pipeline_def handler_of_def queue_inv_New)
qed

lemma pipeline_reachable_ok:
  assumes "pipeline_reachable api val h P s0 s" and "pipeline_starts val period i s0" and "versions_ok job_Meta h"
  shows "pipeline_ok (meta_of val) s \<and> accounted (meta_of val) s \<and> informer_reachable (meta_of val) P i (pp_informer s) \<and>
    tracks job_Meta val h (pp_reflector s, pp_informer s)"
  using assms(1)
proof (induction rule: pipeline_reachable.induct)
  case begins
  show ?case using started_pipeline_ok [OF assms(2)] by blast
next
  case (moves s s')
  have fresh: "fresh_informer (meta_of val) period i" using assms(2) by (simp add: pipeline_starts_def)
  have "listeners_ok (meta_of val) period (pp_informer s)" using moves listeners_reachable fresh by blast
  then have "view_ok (meta_of val) (si_indexer (pp_informer s)) (handler_of s)"
    using moves.IH by (simp add: listeners_ok_def pipeline_ok_def)
  with pipeline_step_ok [OF moves(2) _ _ _ _ assms(3)] moves.IH show ?case by (metis then_step)
qed

section \<open>A run\<close>

text \<open>The first steps of a run, up to the notification of one job.\<close>

lemma first_job_announced:
  assumes "pipeline_starts val period i s0" and "P (pp_informer s0) [p]"
    and "contents_at job_Meta h n = [MetaNamespaceKey (job_Meta (val p)) \<mapsto> val p]"
  obtains s where "pipeline_reachable api val h P s0 s"
    "pp_controller s = (pp_controller s0)\<lparr>cn_jobs := [MetaNamespaceKey (job_Meta (val p)) \<mapsto> p]\<rparr>"
    "ff_queue (si_fifo (pp_informer s)) = []" "si_first (pp_informer s) \<noteq> None" "rf_lastSyncResourceVersion (pp_reflector s) = hs_version h n"
    "ln_notification (handler_of s) = Some (AddNote p)" "ln_pending (handler_of s) = []" "si_listeners (pp_informer s) = [handler_of s]"
proof -
  let ?meta = "meta_of val" let ?k = "MetaNamespaceKey (?meta p)" and ?i = "pp_informer s0"
  let ?f = "\<lparr>ff_items = Map.empty, ff_queue = [], ff_populated = True, ff_initialPopulationCount = 0, ff_closed = False\<rparr> :: job_ptr fifo"
  have fresh: "fresh_informer ?meta period i" and inf: "?i = started_informer i" and ref: "pp_reflector s0 = NewReflector"
    using assms(1) by (auto simp: pipeline_starts_def new_pipeline_def)
  note a = started_reachable [OF fresh]
  obtain l where l: "si_listeners ?i = [l]" "ln_notification l = None" "ln_pending l = []" "si_syncing ?i = [0]"
    using fresh by (auto simp: inf fresh_informer_def NewSharedIndexInformer_def started_informer_def AddEventHandler_def
      AddEventHandlerWithResyncPeriod_def addListener_def newProcessListener_def resyncCheckPeriodChanged_def Let_def)
  define d where "d = reflector_list ?meta [p] ?i"
  let ?r1 = "NewReflector\<lparr>rf_pc := Listing\<rparr>"
  let ?r2 = "setLastSyncResourceVersion (hs_version h n) (?r1\<lparr>rf_resourceVersion := hs_version h n, rf_pc := Requesting\<rparr>)"
  have "reflector_step job_Meta val h P (NewReflector, ?i) (?r1, ?i)"
    by (rule period_over) (simp_all add: NewReflector_def inf a(5))
  then have s1: "pipeline_step api val h P s0 ((with_informer ?i s0)\<lparr>pp_reflector := ?r1\<rparr>)" (is "pipeline_step _ _ _ _ _ ?s1")
    by (intro informs) (simp_all add: ref)
  have "reflector_step job_Meta val h P (?r1, ?i) (list_answered ?meta (Inr ([p], hs_version h n)) (?r1, ?i))"
    by (rule lists) (simp_all add: inf a(5) assms(2) [unfolded inf] assms(3))
  then have s2: "pipeline_step api val h P ?s1 ((with_informer d ?s1)\<lparr>pp_reflector := ?r2\<rparr>)" (is "pipeline_step _ _ _ _ _ ?s2")
    by (intro informs) (simp_all add: d_def reflector_list_def with_informer_def)
  have sel: "si_started d" "si_listeners d = [l]" "si_told d = [?k \<mapsto> p]" "ts_items (si_indexer d) = []" "si_syncing d = [0]"
    "si_first d \<noteq> None"
    using a(3-5) l(1,4) by (simp_all add: d_def reflector_list_def inf)
  have pop: "ff_Pop (si_fifo d) = (Popped ?k [Sync p], ?f)"
    by (simp add: d_def ff_Pop.simps reflector_list_def fifo_defs a(2-4) inf)
  let ?e = "HandleDeltas ?meta [Sync p] (d\<lparr>si_fifo := ?f\<rparr>)"
  have none: "ts_Get ?k (si_indexer d) = None" by (simp add: sel(4) ts_Get_def)
  have ls: "si_listeners ?e = [l\<lparr>ln_notification := Some (AddNote p)\<rparr>]"
    using l(2) by (simp add: upsert_def none distribute_def sel(2,5) listener_add_def)
  have step: "informer_step ?meta P' d ?e" for P' by (rule popped [OF sel(1) pop])
  have "reflector_step job_Meta val h P (?r2, d) (?r2, ?e)" by (rule reflector_step.others [where vmeta = job_Meta and val = val, OF step]) (simp only: HandleDeltas_frame, simp)
  then have s3: "pipeline_step api val h P ?s2 ((with_informer ?e ?s2)\<lparr>pp_reflector := ?r2\<rparr>)" (is "pipeline_step _ _ _ _ _ ?s3")
    by (intro informs) (simp_all only: with_informer_def pipeline.simps ls, simp_all add: sel(2))
  have r: "pipeline_reachable api val h P s0 ?s3" using s1 s2 s3 by (meson begins moves)
  have ok: "informer_ok ?meta ?i" using informer_reachable_ok [OF a(1) fresh] by (simp add: inf)
  have "informer_ok ?meta d"
    unfolding d_def by (rule informer_ok_step [OF ok informer_step.listed [where P = "\<lambda>_ _. True"]]) (simp_all add: inf a(5))
  then have "ts_Get k (si_indexer ?e) = (if k = ?k then Some p else ts_Get k (si_indexer d))" for k
    by (subst HandleDeltas_contents [where k = ?k]) (simp_all add: informer_ok_def)
  then have "(\<lambda>k. ts_Get k (si_indexer ?e)) = [?k \<mapsto> p]" by (simp add: fun_eq_iff sel(4) ts_Get_def)
  then have "pp_controller ?s3 = (pp_controller s0)\<lparr>cn_jobs := [?k \<mapsto> p]\<rparr>" by (simp add: with_informer_def)
  moreover have "ff_queue (si_fifo ?e) = []" "si_first ?e \<noteq> None" by (simp_all only: HandleDeltas_frame) (simp_all add: sel(6))
  ultimately show thesis
    using r ls l(3) by (intro that [of ?s3]) (simp_all add: with_informer_def handler_of_def setLastSyncResourceVersion_def)
qed

section \<open>Properties\<close>

text \<open>Nothing is on its way: no change, no notification, no key.\<close>

definition quiet :: "'w pipeline \<Rightarrow> bool" where
  "quiet s \<longleftrightarrow> ff_queue (si_fifo (pp_informer s)) = [] \<and> ln_notification (handler_of s) = None \<and>
     wq_dirty (cn_queue (pp_controller s)) = {} \<and> wq_processing (cn_queue (pp_controller s)) = {} \<and>
     cn_waiting (pp_controller s) = [] \<and> \<not> ShuttingDown (cn_queue (pp_controller s))"

lemma told_quiet:
  assumes "informer_reachable meta (clean_list meta) i (pp_informer s)" and "fresh_informer meta period i" and "quiet s"
  shows "si_told (pp_informer s) = (\<lambda>k. ts_Get k (si_indexer (pp_informer s)))"
  using empty_queue_follows [of meta "si_fifo (pp_informer s)" "si_indexer (pp_informer s)"]
    informer_reachable_ok [OF assms(1,2)] told_reachable [OF assms(1,2)] assms(3) by (simp add: informer_ok_def quiet_def)

text \<open>With every notification handled, a job of the cache is synchronised, or its key is in the books.\<close>

lemma handled_notes:
  assumes "pipeline_ok meta s" and "informer_reachable meta P i (pp_informer s)" and "fresh_informer meta period i"
    and "accounted meta s" and "ln_notification (handler_of s) = None" and "\<not> ShuttingDown (cn_queue (pp_controller s))"
    and "cn_jobs (pp_controller s) k = Some p"
  shows "pp_done s k = Some (Some p) \<or> scheduled k (pp_controller s) \<or> k \<in> wq_processing (cn_queue (pp_controller s))"
proof -
  have v: "view_ok meta (si_indexer (pp_informer s)) (handler_of s)"
    using listeners_reachable [OF assms(2,3)] assms(1) by (simp add: listeners_ok_def pipeline_ok_def)
  have w: "waiting_notes (handler_of s) = []" using v assms(5) by (simp add: waiting_notes_def view_ok_def listener_ok_def)
  then have "view meta (ln_handed (handler_of s)) k = Some p"
    using v assms(1,7) by (simp add: view_ok_def notes_of_waiting pipeline_ok_def)
  then show ?thesis using assms(4,6) w by (simp add: accounted_def)
qed


text \<open>A job that is being deleted: its synchronisation succeeds and touches nothing. The server's history adds it.\<close>

definition leaving_job :: Caffe2Job where
  "leaving_job = sample_job\<lparr>job_Meta := (job_Meta sample_job)\<lparr>om_ResourceVersion := ''1'', om_DeletionTimestamp := Some 5\<rparr>\<rparr>"

definition leaving_history :: "Caffe2Job history" where
  "leaving_history = \<lparr>hs_change = (\<lambda>n. WatchAdded (leaving_job\<lparr>job_Meta := (job_Meta leaving_job)\<lparr>om_ResourceVersion := replicate (Suc n) (CHR ''1'')\<rparr>\<rparr>)),
     hs_version = (\<lambda>n. replicate n (CHR ''1''))\<rparr>"

lemma leaving_versions: "versions_ok job_Meta leaving_history"
  by (auto simp: versions_ok_def leaving_history_def inj_def dest: arg_cong [of _ _ length])

lemma leaving_versions_1: "hs_version leaving_history (Suc 0) = ''1''"
  by (simp add: leaving_history_def)

lemma leaving_contents: "contents_at job_Meta leaving_history (Suc 0) = [''ns/job'' \<mapsto> leaving_job]"
  by (simp add: leaving_history_def leaving_job_def sample_job_defs MetaNamespaceKey_def)

definition leaving_informer :: "job_ptr informer" where
  "leaving_informer = NewSharedIndexInformer jobResync [(NamespaceIndex, MetaNamespaceIndexFunc (\<lambda>_. job_Meta leaving_job))]"

definition leaving_pipeline :: "Pod list pipeline" where
  "leaving_pipeline = new_pipeline (\<lambda>_. leaving_job) leaving_informer [] (cn_limiter (sample_controller leaving_job))"

lemma leaving_starts: "pipeline_starts (\<lambda>_. leaving_job) jobResync leaving_informer leaving_pipeline"
proof -
  have "fresh_informer (\<lambda>_. job_Meta leaving_job) jobResync leaving_informer"
    unfolding fresh_informer_def
    by (rule conjI, rule exI [of _ "[(NamespaceIndex, MetaNamespaceIndexFunc (\<lambda>_. job_Meta leaving_job))]"], rule exI [of _ 0])
      (simp_all add: leaving_informer_def NewSharedIndexInformer_def minimumResyncPeriod_def jobResync_def)
  moreover have "exp_ok (fst (cn_limiter (sample_controller leaving_job)))" using sample_books by (simp add: books_ok_def)
  ultimately show ?thesis unfolding pipeline_starts_def leaving_pipeline_def by blast
qed

lemma leaving_sync:
  assumes "cn_jobs c ''ns/job'' = Some p" and "job_Meta (cn_heap c p) = job_Meta leaving_job"
  shows "syncCaffe2Job api ''ns/job'' c = (Ret (True, None), c)"
  using found_job [of "job_Meta leaving_job" c p api] assms
  by (simp add: leaving_job_def sample_job_defs MetaNamespaceKey_def)

lemma leaving_queued:
  "\<exists>s. pipeline_reachable store_api (\<lambda>_. leaving_job) leaving_history (clean_list (\<lambda>_. job_Meta leaving_job)) leaving_pipeline s \<and>
     ff_queue (si_fifo (pp_informer s)) = [] \<and> si_first (pp_informer s) \<noteq> None \<and> rf_lastSyncResourceVersion (pp_reflector s) = ''1'' \<and> ln_notification (handler_of s) = None \<and>
     cn_queue (pp_controller s) = Add ''ns/job'' NewQueue \<and> cn_waiting (pp_controller s) = [] \<and>
     job_Meta (cn_heap (pp_controller s) 0) = job_Meta leaving_job \<and> cn_jobs (pp_controller s) = [''ns/job'' \<mapsto> 0]"
proof -
  let ?meta = "\<lambda>_ :: job_ptr. job_Meta leaving_job" let ?k = "''ns/job''"
  let ?R = "pipeline_reachable store_api (\<lambda>_. leaving_job) leaving_history (clean_list ?meta) leaving_pipeline"
  note starts = leaving_starts
  have fresh: "fresh_informer ?meta jobResync leaving_informer" using starts by (simp add: pipeline_starts_def)
  note a = started_reachable [OF fresh]
  have k: "MetaNamespaceKey (?meta 0) = ?k" by (simp add: leaving_job_def sample_job_defs MetaNamespaceKey_def)
  have clean: "clean_list ?meta (pp_informer leaving_pipeline) [0]"
    by (simp add: leaving_pipeline_def new_pipeline_def clean_list_def clean_changes_def a(2) NewDeltaFIFO_def)
  have "contents_at job_Meta leaving_history (Suc 0) = [MetaNamespaceKey (?meta 0) \<mapsto> leaving_job]"
    unfolding k by (rule leaving_contents)
  from first_job_announced [where P = "clean_list ?meta" and p = 0 and api = store_api and h = leaving_history and n = "Suc 0",
      OF starts clean this] obtain s1 where s1: "?R s1"
    "pp_controller s1 = (pp_controller leaving_pipeline)\<lparr>cn_jobs := [?k \<mapsto> 0]\<rparr>" "ff_queue (si_fifo (pp_informer s1)) = []"
    "si_first (pp_informer s1) \<noteq> None" "rf_lastSyncResourceVersion (pp_reflector s1) = ''1''" "ln_notification (handler_of s1) = Some (AddNote 0)" "ln_pending (handler_of s1) = []"
    unfolding k leaving_versions_1 by metis
  have c1: "cn_queue (pp_controller s1) = NewQueue" "cn_waiting (pp_controller s1) = []" "cn_heap (pp_controller s1) 0 = leaving_job"
    by (simp_all add: s1(2) leaving_pipeline_def new_pipeline_def)
  obtain job w where job: "job_Meta job = job_Meta leaving_job" and h: "run_handler store_api (AddNote 0) (pp_controller s1) =
      (Ret (), enqueueController store_api (JobPtr 0) ((pp_controller s1)\<lparr>cn_heap := (cn_heap (pp_controller s1))(0 := job), cn_world := w\<rparr>))"
  proof (cases rule: handler_on_new [of "pp_controller s1" 0 store_api])
    case (panics e w)
    then show thesis by (simp add: c1(3) leaving_job_def sample_job_defs)
  next
    case (queues job w)
    then show thesis by (intro that [of job w]) (simp_all add: c1(3))
  qed
  let ?c = "(pp_controller s1)\<lparr>cn_heap := (cn_heap (pp_controller s1))(0 := job), cn_world := w\<rparr>"
  have key: "keyFunc ?c (JobPtr 0) = ?k" using k job by (simp add: keyFunc_def)
  define s2 where "s2 = s1\<lparr>pp_controller := enqueueController store_api (JobPtr 0) ?c,
    pp_informer := (pp_informer s1)\<lparr>si_listeners := [listener_next (handler_of s1)]\<rparr>\<rparr>"
  have r2: "?R s2" unfolding s2_def by (rule moves [OF s1(1)]) (rule handles [OF s1(6) h])
  obtain d now w' where c2: "pp_controller s2 =
      AddAfter store_api ?k d (?c\<lparr>cn_limiter := snd (MaxOf_When default_limiters ?k now (cn_limiter ?c)), cn_world := w'\<rparr>)"
    using AddRateLimited_AddAfter [of store_api ?k ?c] by (auto simp: s2_def enqueueController_def key)
  have "\<exists>s3. ?R s3 \<and> pp_informer s3 = pp_informer s2 \<and> pp_reflector s3 = pp_reflector s2 \<and> cn_queue (pp_controller s3) = Add ?k NewQueue \<and>
      cn_waiting (pp_controller s3) = [] \<and> cn_heap (pp_controller s3) = cn_heap ?c \<and> cn_jobs (pp_controller s3) = [?k \<mapsto> 0]"
  proof (cases "d \<le> 0")
    case True
    then show ?thesis using r2 c2 c1 s1(2) by (intro exI [of _ s2]) (simp add: AddAfter_def NewQueue_def ShuttingDown_def)
  next
    case False
    then have c2': "cn_queue (pp_controller s2) = NewQueue" "cn_heap (pp_controller s2) = cn_heap ?c" "cn_jobs (pp_controller s2) = [?k \<mapsto> 0]"
      "\<exists>due. cn_waiting (pp_controller s2) = [(?k, due)]"
      using c2 c1 s1(2) by (auto simp: AddAfter_def NewQueue_def ShuttingDown_def split: prod.splits)
    then obtain due where "cn_waiting (pp_controller s2) = [] @ (?k, due) # []" by auto
    from moves [OF r2 delay_over [OF this]] c2' show ?thesis by fastforce
  qed
  then show ?thesis using s1(3-7) job by (auto simp: s2_def handler_of_def listener_next_def)
qed

lemma leaving_run:
  "\<exists>s. pipeline_reachable store_api (\<lambda>_. leaving_job) leaving_history (clean_list (\<lambda>_. job_Meta leaving_job)) leaving_pipeline s \<and>
     quiet s \<and> si_first (pp_informer s) \<noteq> None \<and> rf_lastSyncResourceVersion (pp_reflector s) = ''1''"
proof -
  let ?k = "''ns/job''"
  let ?R = "pipeline_reachable store_api (\<lambda>_. leaving_job) leaving_history (clean_list (\<lambda>_. job_Meta leaving_job)) leaving_pipeline"
  obtain s where s: "?R s" "ff_queue (si_fifo (pp_informer s)) = []" "si_first (pp_informer s) \<noteq> None" "rf_lastSyncResourceVersion (pp_reflector s) = ''1''"
    "ln_notification (handler_of s) = None" "cn_queue (pp_controller s) = Add ?k NewQueue" "cn_waiting (pp_controller s) = []"
    "job_Meta (cn_heap (pp_controller s) 0) = job_Meta leaving_job" "cn_jobs (pp_controller s) = [?k \<mapsto> 0]"
    using leaving_queued by blast
  let ?q = "NewQueue\<lparr>wq_processing := {?k}\<rparr>"
  let ?s4 = "s\<lparr>pp_controller := (pp_controller s)\<lparr>cn_queue := ?q\<rparr>\<rparr>"
  let ?s5 = "?s4\<lparr>pp_controller := finish ?k (Forget ?k (pp_controller ?s4)),
      pp_done := (pp_done ?s4)(?k \<mapsto> cn_jobs (pp_controller ?s4) ?k)\<rparr>"
  have "Get (cn_queue (pp_controller s)) = Some (Some ?k, ?q)" by (simp add: s(6) queue_defs)
  from moves [OF s(1) takes [OF this]] have r4: "?R ?s4" .
  have sync: "syncCaffe2Job store_api ?k (pp_controller ?s4) = (Ret (True, None), pp_controller ?s4)"
    by (rule leaving_sync [where p = 0]) (simp_all add: s(8,9))
  then have "work_on store_api ?k (pp_controller ?s4) = (Ret True, finish ?k (Forget ?k (pp_controller ?s4)))" by (simp add: work_on_def)
  from moves [OF r4 works [OF _ sync this]] have "?R ?s5" by simp
  moreover have "quiet ?s5"
    using s(2,5,7) by (simp add: quiet_def handler_of_def finish_def Forget_def queue_defs)
  moreover have "si_first (pp_informer ?s5) \<noteq> None" "rf_lastSyncResourceVersion (pp_reflector ?s5) = ''1''" using s(3,4) by simp_all
  ultimately show ?thesis by blast
qed


end
