(* ===== verification/Progress.thy ===== *)
theory Progress
  imports Pipeline
begin

text \<open>
  Progress of the pipeline: whatever is on its way to the work queue can always get there. Without a further answer of the
  API server, the queue of changes can be popped, the notifications can be handled and the delays can pass, as long
  as the handler does not panic, which it does on a job without replica specs.
\<close>

section \<open>Runs\<close>

lemma pipeline_reachable_trans:
  assumes "pipeline_reachable api val h P b c" and "pipeline_reachable api val h P a b"
  shows "pipeline_reachable api val h P a c"
  using assms by (induction rule: pipeline_reachable.induct) (auto intro: moves)

text \<open>What the steps below leave as it is.\<close>

definition undisturbed :: "'w pipeline \<Rightarrow> 'w pipeline \<Rightarrow> bool" where
  "undisturbed s s' \<longleftrightarrow> pp_reflector s' = pp_reflector s \<and> si_told (pp_informer s') = si_told (pp_informer s) \<and>
     (ShuttingDown (cn_queue (pp_controller s')) \<longleftrightarrow> ShuttingDown (cn_queue (pp_controller s)))"

lemma undisturbed_refl: "undisturbed s s"
  and undisturbed_trans: "undisturbed a b \<Longrightarrow> undisturbed b c \<Longrightarrow> undisturbed a c"
  by (auto simp: undisturbed_def)

definition has_specs :: "'w controller \<Rightarrow> bool" where
  "has_specs c \<longleftrightarrow> (\<forall>p. js_ReplicaSpecs (job_Spec (cn_heap c p)) \<noteq> None)"

section \<open>One step of each part\<close>

lemma fifo_pops:
  assumes "fifo_ok meta f" and "ff_queue f \<noteq> []"
  shows "\<exists>k ds f'. ff_Pop f = (Popped k ds, f') \<and> length (ff_queue f') < length (ff_queue f)"
proof -
  obtain k rest where q: "ff_queue f = k # rest" using assms(2) by (cases "ff_queue f") auto
  then obtain ds where ds: "ff_items f k = Some ds" using assms(1) by (metis domD fifo_ok_def list.set_intros(1))
  show ?thesis by (subst ff_Pop.simps) (simp add: q ds)
qed

lemma distribute_handed [simp]: "map ln_handed (si_listeners (distribute n b s)) = map ln_handed (si_listeners s)"
proof -
  have "ln_handed (listener_add n l) = ln_handed l" for l by (simp add: listener_add_def)
  then show ?thesis by (intro nth_equalityI) (auto simp: distribute_def nth_enumerate_eq split: prod.splits)
qed

lemma HandleDeltas_handed: "map ln_handed (si_listeners (HandleDeltas meta ds s)) = map ln_handed (si_listeners s)"
proof (induction ds arbitrary: s)
  case (Cons d ds)
  have "map ln_handed (si_listeners (HandleDelta meta d s)) = map ln_handed (si_listeners s)"
    by (cases d) (auto simp: upsert_def split: option.split)
  with Cons show ?case by simp
qed simp

lemma pop_step:
  assumes "informer_ok (meta_of val) (pp_informer s)" and "si_started (pp_informer s)" and "ff_queue (si_fifo (pp_informer s)) \<noteq> []"
  shows "\<exists>s'. pipeline_step api val h P s s' \<and> undisturbed s s' \<and> cn_heap (pp_controller s') = cn_heap (pp_controller s) \<and>
    length (ff_queue (si_fifo (pp_informer s'))) < length (ff_queue (si_fifo (pp_informer s)))"
proof -
  let ?i = "pp_informer s"
  obtain k ds f where pop: "ff_Pop (si_fifo ?i) = (Popped k ds, f)" "length (ff_queue f) < length (ff_queue (si_fifo ?i))"
    using fifo_pops [of "meta_of val" "si_fifo ?i"] assms(1,3) by (auto simp: informer_ok_def)
  let ?i' = "HandleDeltas (meta_of val) ds (?i\<lparr>si_fifo := f\<rparr>)"
  have "informer_step (meta_of val) (\<lambda>_ _. False) ?i ?i'" by (rule popped [OF assms(2) pop(1)])
  then have "reflector_step job_Meta val h P (pp_reflector s, ?i) (pp_reflector s, ?i')"
    by (rule reflector_step.others) simp
  then have "pipeline_step api val h P s ((with_informer ?i' s)\<lparr>pp_reflector := pp_reflector s\<rparr>)" (is "pipeline_step _ _ _ _ _ ?s'")
    by (rule informs) (simp add: HandleDeltas_handed)
  moreover have "undisturbed s ?s'" "cn_heap (pp_controller ?s') = cn_heap (pp_controller s)" "si_fifo (pp_informer ?s') = f"
    by (simp_all add: undisturbed_def with_informer_def)
  ultimately show ?thesis using pop(2) by metis
qed

lemma handler_succeeds:
  assumes "has_specs c"
  shows "\<exists>c'. run_handler api n c = (Ret (), c') \<and> has_specs c'"
proof -
  have q: "has_specs (enqueueController api obj c) = has_specs c" for obj c
    by (simp add: has_specs_def enqueueController_def frame_simps)
  show ?thesis
  proof (cases n)
    case (AddNote p)
    show ?thesis
    proof (cases rule: handler_on_new [of c p api])
      case (panics e w)
      then show ?thesis using assms unfolding has_specs_def by blast
    next
      case (queues job w)
      then have "has_specs (c\<lparr>cn_heap := (cn_heap c)(p := job), cn_world := w\<rparr>)" using assms by (simp add: has_specs_def)
      then show ?thesis using queues(3) q AddNote by auto
    qed
  next
    case (UpdateNote old p)
    then show ?thesis using assms q by (simp add: OnUpdate_def job_handler_def job_filter_def updateCaffe2Job_def Let_def)
  next
    case (DeleteNote g)
    then show ?thesis using assms q by (simp add: OnDelete_def job_handler_def)
  qed
qed

lemma handle_step:
  assumes "pipeline_ok meta s" and "has_specs (pp_controller s)" and "listener_ok (handler_of s)" and "waiting_notes (handler_of s) \<noteq> []"
  shows "\<exists>s'. pipeline_step api val h P s s' \<and> undisturbed s s' \<and> has_specs (pp_controller s') \<and>
    si_fifo (pp_informer s') = si_fifo (pp_informer s) \<and> length (waiting_notes (handler_of s')) < length (waiting_notes (handler_of s))"
proof -
  obtain n where n: "ln_notification (handler_of s) = Some n"
    using assms(3,4) by (auto simp: waiting_notes_def listener_ok_def split: option.splits)
  obtain c where c: "run_handler api n (pp_controller s) = (Ret (), c)" "has_specs c" using handler_succeeds [OF assms(2)] by blast
  have "metas meta (pp_controller s)" using assms(1) by (simp add: pipeline_ok_def)
  from handler_schedules [OF c(1) this] have "ShuttingDown (cn_queue c) = ShuttingDown (cn_queue (pp_controller s))"
    by (simp add: leaves_books_def)
  moreover have "length (waiting_notes (listener_next (handler_of s))) < length (waiting_notes (handler_of s))"
    using n by (simp add: waiting_notes_def listener_next_def split: list.split)
  ultimately show ?thesis using handles [OF n c(1), of val h P] c(2)
    by (intro exI conjI) (assumption, auto simp: undisturbed_def handler_of_def)
qed

lemma delay_step:
  assumes "cn_waiting (pp_controller s) \<noteq> []"
  shows "\<exists>s'. pipeline_step api val h P s s' \<and> undisturbed s s' \<and> pp_informer s' = pp_informer s \<and>
    length (cn_waiting (pp_controller s')) < length (cn_waiting (pp_controller s))"
proof -
  obtain item due rest where w: "cn_waiting (pp_controller s) = [] @ (item, due) # rest"
    using assms by (cases "cn_waiting (pp_controller s)") auto
  have "ShuttingDown (Add item q) = ShuttingDown q" for q :: "string work_queue" by (auto simp: Add_def Let_def ShuttingDown_def)
  then show ?thesis using delay_over [OF w, of api val h P] w by (intro exI conjI) (assumption, auto simp: undisturbed_def)
qed

section \<open>Draining a part\<close>

text \<open>A measure that a step can always bring down reaches zero.\<close>

lemma drains:
  fixes size_of :: "'w pipeline \<Rightarrow> nat"
  assumes "\<And>t. pipeline_reachable api val h P s t \<Longrightarrow> good t \<Longrightarrow> size_of t \<noteq> 0 \<Longrightarrow> \<exists>t'. pipeline_step api val h P t t' \<and> undisturbed t t' \<and> good t' \<and> size_of t' < size_of t"
    and "good s"
  shows "\<exists>t. pipeline_reachable api val h P s t \<and> undisturbed s t \<and> good t \<and> size_of t = 0"
proof -
  let ?R = "pipeline_reachable api val h P"
  have "?R s t \<and> undisturbed s t \<and> good t \<Longrightarrow> \<exists>t'. ?R s t' \<and> undisturbed s t' \<and> good t' \<and> size_of t' = 0" for t
  proof (induction "size_of t" arbitrary: t rule: less_induct)
    case less
    show ?case
    proof (cases "size_of t = 0")
      case False
      then obtain t' where t': "pipeline_step api val h P t t'" "undisturbed t t'" "good t'" "size_of t' < size_of t"
        using assms(1) less.prems by blast
      then have "?R s t'" using less.prems by (auto intro: moves)
      then show ?thesis using less.hyps [OF t'(4)] less.prems t' undisturbed_trans by blast
    qed (use less.prems in blast)
  qed
  then show ?thesis using assms(2) begins undisturbed_refl by metis
qed

section \<open>Properties\<close>

text \<open>All that is left to do is with the workers.\<close>

definition with_workers :: "'w pipeline \<Rightarrow> bool" where
  "with_workers s \<longleftrightarrow> ff_queue (si_fifo (pp_informer s)) = [] \<and> ln_notification (handler_of s) = None \<and>
     cn_waiting (pp_controller s) = []"

lemma reaches_workers:
  assumes "versions_ok job_Meta h" and "pipeline_starts val period i s0" and "pipeline_reachable api val h P s0 s"
    and "has_specs (pp_controller s)"
  shows "\<exists>s'. pipeline_reachable api val h P s s' \<and> undisturbed s s' \<and> with_workers s'"
proof -
  let ?R = "pipeline_reachable api val h P"
  have fresh: "fresh_informer (meta_of val) period i" using assms(2) by (simp add: pipeline_starts_def)
  have inv: "pipeline_ok (meta_of val) t \<and> informer_ok (meta_of val) (pp_informer t) \<and> listener_ok (handler_of t)" if "?R s t" for t
  proof -
    note ok = pipeline_reachable_ok [OF pipeline_reachable_trans [OF that assms(3)] assms(2,1)]
    then have reach: "informer_reachable (meta_of val) P i (pp_informer t)" by blast
    show ?thesis using ok informer_reachable_ok [OF reach fresh] listeners_reachable [OF reach fresh]
      by (auto simp: pipeline_ok_def listeners_ok_def view_ok_def)
  qed
  let ?changes = "\<lambda>t. length (ff_queue (si_fifo (pp_informer t)))"
  have "\<exists>t. ?R s t \<and> undisturbed s t \<and> has_specs (pp_controller t) \<and> ?changes t = 0"
  proof (rule drains [where good = "\<lambda>t. has_specs (pp_controller t)" and size_of = ?changes])
    fix t assume t: "?R s t" "has_specs (pp_controller t)" "?changes t \<noteq> 0"
    then show "\<exists>t'. pipeline_step api val h P t t' \<and> undisturbed t t' \<and> has_specs (pp_controller t') \<and> ?changes t' < ?changes t"
      using pop_step [of val t api h P] inv [OF t(1)] by (fastforce simp: pipeline_ok_def has_specs_def)
  qed (rule assms(4))
  then obtain a where a: "?R s a" "undisturbed s a" "has_specs (pp_controller a) \<and> ?changes a = 0" by blast
  let ?notes = "\<lambda>t. length (waiting_notes (handler_of t))"
  have "\<exists>t. ?R a t \<and> undisturbed a t \<and> (has_specs (pp_controller t) \<and> ?changes t = 0) \<and> ?notes t = 0"
  proof (rule drains [where good = "\<lambda>t. has_specs (pp_controller t) \<and> ?changes t = 0" and size_of = ?notes])
    fix t assume t: "?R a t" "has_specs (pp_controller t) \<and> ?changes t = 0" "?notes t \<noteq> 0"
    note i = inv [OF pipeline_reachable_trans [OF t(1) a(1)]]
    show "\<exists>t'. pipeline_step api val h P t t' \<and> undisturbed t t' \<and> (has_specs (pp_controller t') \<and> ?changes t' = 0) \<and> ?notes t' < ?notes t"
      using handle_step [of "meta_of val" t api val h P] i t(2,3) by fastforce
  qed (rule a(3))
  then obtain b where b: "?R a b" "undisturbed a b" "?changes b = 0" "?notes b = 0" by blast
  have none: "ln_notification (handler_of b) = None" using b(4) by (simp add: waiting_notes_def split: option.splits)
  let ?good = "\<lambda>t. ?changes t = 0 \<and> ln_notification (handler_of t) = None"
  have "\<exists>t. ?R b t \<and> undisturbed b t \<and> ?good t \<and> length (cn_waiting (pp_controller t)) = 0"
  proof (rule drains [where good = ?good and size_of = "\<lambda>t. length (cn_waiting (pp_controller t))"])
    fix t assume t: "?R b t" "?good t" "length (cn_waiting (pp_controller t)) \<noteq> 0"
    then show "\<exists>t'. pipeline_step api val h P t t' \<and> undisturbed t t' \<and> ?good t' \<and>
        length (cn_waiting (pp_controller t')) < length (cn_waiting (pp_controller t))"
      using delay_step [of t api val h P] by (fastforce simp: handler_of_def)
  qed (use b(3) none in simp)
  then obtain c where c: "?R b c" "undisturbed b c" "with_workers c" by (auto simp: with_workers_def)
  have "?R s c" by (rule pipeline_reachable_trans [OF c(1) pipeline_reachable_trans [OF b(1) a(1)]])
  moreover have "undisturbed s c" using a(2) b(2) c(2) undisturbed_trans by blast
  ultimately show ?thesis using c(3) by blast
qed



end
