(* ===== verification/SchemeTypes.thy ===== *)
theory SchemeTypes
  imports Defaults DeepCopy
begin

text \<open>
  The registration of the API types in a scheme: register.go of pkg/apis/caffe2/v1alpha1 and of the clientsets
  (scheme and fake), the generated \<open>RegisterDefaults\<close>, and of apimachinery the scheme (runtime/scheme.go,
  scheme_builder.go) and the types every group version gets (meta/v1/register.go). A Go type is its
  package and its name; every registered object is a pointer to a struct. Of the functions a scheme carries
  the model has the defaulting functions and which types have a copy function; conversion functions are left out.
\<close>

section \<open>The scheme\<close>

record go_type =
  gt_PkgPath :: string
  gt_Name :: string

datatype scheme_object = JobObject Caffe2Job | JobListObject "Caffe2Job list" | OtherObject go_type

definition api_type :: "string \<Rightarrow> go_type" where
  "api_type name = \<lparr>gt_PkgPath = ''github.com/kubeflow/caffe2-operator/pkg/apis/caffe2/v1alpha1'', gt_Name = name\<rparr>"

definition meta_type :: "string \<Rightarrow> go_type" where
  "meta_type name = \<lparr>gt_PkgPath = ''k8s.io/apimachinery/pkg/apis/meta/v1'', gt_Name = name\<rparr>"

fun type_of :: "scheme_object \<Rightarrow> go_type" where
  "type_of (JobObject job) = api_type ''Caffe2Job''"
| "type_of (JobListObject jobs) = api_type ''Caffe2JobList''"
| "type_of (OtherObject t) = t"

record 'w scheme =
  sc_gvkToType :: "GroupVersionKind \<rightharpoonup> go_type"
  sc_typeToGVK :: "go_type \<Rightarrow> GroupVersionKind list"
  sc_unversionedTypes :: "go_type \<rightharpoonup> GroupVersionKind"
  sc_unversionedKinds :: "string \<rightharpoonup> go_type"
  sc_defaulterFuncs :: "go_type \<rightharpoonup> (scheme_object \<Rightarrow> ('w, scheme_object) action)"
  sc_cloner :: "go_type set"

definition NewScheme :: "'w scheme" where
  "NewScheme = \<lparr>sc_gvkToType = Map.empty, sc_typeToGVK = (\<lambda>_. []), sc_unversionedTypes = Map.empty,
     sc_unversionedKinds = Map.empty, sc_defaulterFuncs = Map.empty, sc_cloner = {}\<rparr>"

definition WithKind :: "string \<times> string \<Rightarrow> string \<Rightarrow> GroupVersionKind" where
  "WithKind gv kind = \<lparr>gvk_Group = fst gv, gvk_Version = snd gv, gvk_Kind = kind\<rparr>"

definition AddKnownTypeWithName :: "GroupVersionKind \<Rightarrow> go_type \<Rightarrow> 'w scheme \<Rightarrow> 'w scheme outcome" where
  "AddKnownTypeWithName gvk t s =
     (if gvk_Version gvk = [] then Panic ExplicitPanic
      else if sc_gvkToType s gvk \<noteq> None \<and> sc_gvkToType s gvk \<noteq> Some t then Panic ExplicitPanic
      else let s1 = s\<lparr>sc_gvkToType := (sc_gvkToType s)(gvk \<mapsto> t)\<rparr> in
        if gvk \<in> set (sc_typeToGVK s1 t) then Ret s1
        else Ret (s1\<lparr>sc_typeToGVK := (sc_typeToGVK s1)(t := sc_typeToGVK s1 t @ [gvk])\<rparr>))"

fun AddKnownTypes :: "string \<times> string \<Rightarrow> go_type list \<Rightarrow> 'w scheme \<Rightarrow> 'w scheme outcome" where
  "AddKnownTypes gv [] s = Ret s"
| "AddKnownTypes gv (t # types) s =
     bind_outcome (AddKnownTypeWithName (WithKind gv (gt_Name t)) t s) (AddKnownTypes gv types)"

fun mark_unversioned :: "string \<times> string \<Rightarrow> go_type list \<Rightarrow> 'w scheme \<Rightarrow> 'w scheme outcome" where
  "mark_unversioned gv [] s = Ret s"
| "mark_unversioned gv (t # types) s =
     (let gvk = WithKind gv (gt_Name t);
          s1 = s\<lparr>sc_unversionedTypes := (sc_unversionedTypes s)(t \<mapsto> gvk)\<rparr> in
      if sc_unversionedKinds s1 (gvk_Kind gvk) \<noteq> None \<and> sc_unversionedKinds s1 (gvk_Kind gvk) \<noteq> Some t
      then Panic ExplicitPanic
      else mark_unversioned gv types (s1\<lparr>sc_unversionedKinds := (sc_unversionedKinds s1)(gvk_Kind gvk \<mapsto> t)\<rparr>))"

definition AddUnversionedTypes :: "string \<times> string \<Rightarrow> go_type list \<Rightarrow> 'w scheme \<Rightarrow> 'w scheme outcome" where
  "AddUnversionedTypes gv types s = bind_outcome (AddKnownTypes gv types s) (mark_unversioned gv types)"

definition ObjectKinds :: "scheme_object \<Rightarrow> 'w scheme \<Rightarrow> go_error + GroupVersionKind list \<times> bool" where
  "ObjectKinds obj s =
     (let t = type_of obj in
      if sc_typeToGVK s t = [] then Inl (Errorf ''no kind is registered for the type %v'' [gt_Name t] [])
      else Inr (sc_typeToGVK s t, sc_unversionedTypes s t \<noteq> None))"

definition Recognizes :: "GroupVersionKind \<Rightarrow> 'w scheme \<Rightarrow> bool" where
  "Recognizes gvk s \<longleftrightarrow> sc_gvkToType s gvk \<noteq> None"

text \<open>The type of the object that \<open>New\<close> makes.\<close>

definition scheme_New :: "GroupVersionKind \<Rightarrow> 'w scheme \<Rightarrow> go_error + go_type" where
  "scheme_New kind s =
     (case sc_gvkToType s kind of
        Some t \<Rightarrow> Inr t
      | None \<Rightarrow>
          (case sc_unversionedKinds s (gvk_Kind kind) of
             Some t \<Rightarrow> Inr t
           | None \<Rightarrow> Inl (Errorf ''no kind %q is registered for version %q'' [gvk_Kind kind, GroupVersion_String kind] [])))"

definition AddTypeDefaultingFunc ::
  "go_type \<Rightarrow> (scheme_object \<Rightarrow> ('w, scheme_object) action) \<Rightarrow> 'w scheme \<Rightarrow> 'w scheme" where
  "AddTypeDefaultingFunc t fn s = s\<lparr>sc_defaulterFuncs := (sc_defaulterFuncs s)(t \<mapsto> fn)\<rparr>"

definition scheme_Default :: "'w scheme \<Rightarrow> scheme_object \<Rightarrow> ('w, scheme_object) action" where
  "scheme_Default s src w =
     (case sc_defaulterFuncs s (type_of src) of None \<Rightarrow> (Ret src, w) | Some fn \<Rightarrow> fn src w)"

section \<open>What is registered\<close>

definition APIVersionInternal :: string where "APIVersionInternal = ''__internal''"

definition Unversioned :: "string \<times> string" where "Unversioned = ([], ''v1'')"

definition AddToGroupVersion :: "string \<times> string \<Rightarrow> 'w scheme \<Rightarrow> 'w scheme outcome" where
  "AddToGroupVersion gv s =
     bind_outcome (AddKnownTypeWithName (WithKind gv ''WatchEvent'') (meta_type ''WatchEvent'') s) (\<lambda>s.
     bind_outcome (AddKnownTypeWithName (WithKind (fst gv, APIVersionInternal) ''WatchEvent'') (meta_type ''InternalEvent'') s) (\<lambda>s.
     bind_outcome (AddKnownTypes gv (map meta_type [''ListOptions'', ''ExportOptions'', ''GetOptions'', ''DeleteOptions'']) s) (\<lambda>s.
     AddUnversionedTypes Unversioned (map meta_type [''Status'', ''APIVersions'', ''APIGroupList'', ''APIGroup'', ''APIResourceList'']) s)))"

definition SchemeGroupVersion :: "string \<times> string" where
  "SchemeGroupVersion = (GroupName, GroupVersion)"

definition addKnownTypes :: "'w scheme \<Rightarrow> (go_error option \<times> 'w scheme) outcome" where
  "addKnownTypes s =
     bind_outcome (AddKnownTypes SchemeGroupVersion [api_type ''Caffe2Job'', api_type ''Caffe2JobList''] s) (\<lambda>s.
     bind_outcome (AddToGroupVersion SchemeGroupVersion s) (\<lambda>s. Ret (None, s)))"

text \<open>The type assertions in the two closures cannot fail on what \<open>scheme_Default\<close> passes.\<close>

definition default_job :: "('w \<Rightarrow> time \<times> 'w) \<Rightarrow> scheme_object \<Rightarrow> ('w, scheme_object) action" where
  "default_job now obj w =
     (case obj of
        JobObject job \<Rightarrow>
          (case SetObjectDefaults_Caffe2Job now job w of (r, w1) \<Rightarrow> (bind_outcome r (\<lambda>job. Ret (JobObject job)), w1))
      | _ \<Rightarrow> (Panic TypeAssertion, w))"

definition default_job_list :: "('w \<Rightarrow> time \<times> 'w) \<Rightarrow> scheme_object \<Rightarrow> ('w, scheme_object) action" where
  "default_job_list now obj w =
     (case obj of
        JobListObject jobs \<Rightarrow>
          (case SetObjectDefaults_Caffe2JobList now jobs w of (r, w1) \<Rightarrow> (bind_outcome r (\<lambda>jobs. Ret (JobListObject jobs)), w1))
      | _ \<Rightarrow> (Panic TypeAssertion, w))"

definition RegisterDefaults :: "('w \<Rightarrow> time \<times> 'w) \<Rightarrow> 'w scheme \<Rightarrow> (go_error option \<times> 'w scheme) outcome" where
  "RegisterDefaults now s =
     Ret (None, AddTypeDefaultingFunc (api_type ''Caffe2JobList'') (default_job_list now)
       (AddTypeDefaultingFunc (api_type ''Caffe2Job'') (default_job now) s))"

definition addDefaultingFuncs :: "('w \<Rightarrow> time \<times> 'w) \<Rightarrow> 'w scheme \<Rightarrow> (go_error option \<times> 'w scheme) outcome" where
  "addDefaultingFuncs now s = RegisterDefaults now s"

definition register_copies :: "'w scheme \<Rightarrow> (go_error option \<times> 'w scheme) outcome" where
  "register_copies s = Ret (None, s\<lparr>sc_cloner := sc_cloner s \<union> api_type ` fst ` set RegisterDeepCopies\<rparr>)"

text \<open>\<open>SchemeBuilder\<close> after the \<open>init\<close> functions of the package have run, in the order of their files.\<close>

definition SchemeBuilder :: "('w \<Rightarrow> time \<times> 'w) \<Rightarrow> ('w scheme \<Rightarrow> (go_error option \<times> 'w scheme) outcome) list" where
  "SchemeBuilder now = [addKnownTypes, addDefaultingFuncs now, register_copies]"

fun apply_builder ::
  "('s \<Rightarrow> (go_error option \<times> 's) outcome) list \<Rightarrow> 's \<Rightarrow> (go_error option \<times> 's) outcome" where
  "apply_builder [] s = Ret (None, s)"
| "apply_builder (f # sb) s =
     bind_outcome (f s) (\<lambda>(err, s1). if err \<noteq> None then Ret (err, s1) else apply_builder sb s1)"

definition v1alpha1_AddToScheme :: "('w \<Rightarrow> time \<times> 'w) \<Rightarrow> 'w scheme \<Rightarrow> (go_error option \<times> 'w scheme) outcome" where
  "v1alpha1_AddToScheme now s = apply_builder (SchemeBuilder now) s"

text \<open>The clientsets drop the error.\<close>

definition versioned_AddToScheme :: "('w \<Rightarrow> time \<times> 'w) \<Rightarrow> 'w scheme \<Rightarrow> 'w scheme outcome" where
  "versioned_AddToScheme now s = bind_outcome (v1alpha1_AddToScheme now s) (\<lambda>(err, s1). Ret s1)"

definition versioned_Scheme :: "('w \<Rightarrow> time \<times> 'w) \<Rightarrow> 'w scheme outcome" where
  "versioned_Scheme now = bind_outcome (AddToGroupVersion ([], ''v1'') NewScheme) (versioned_AddToScheme now)"

definition fake_AddToScheme :: "('w \<Rightarrow> time \<times> 'w) \<Rightarrow> 'w scheme \<Rightarrow> 'w scheme outcome" where
  "fake_AddToScheme now s = bind_outcome (v1alpha1_AddToScheme now s) (\<lambda>(err, s1). Ret s1)"

definition fake_scheme :: "('w \<Rightarrow> time \<times> 'w) \<Rightarrow> 'w scheme outcome" where
  "fake_scheme now = bind_outcome (AddToGroupVersion ([], ''v1'') NewScheme) (fake_AddToScheme now)"

section \<open>Lemmas\<close>

text \<open>The two tables of a scheme agree, and kinds have a version.\<close>

definition scheme_ok :: "'w scheme \<Rightarrow> bool" where
  "scheme_ok s \<longleftrightarrow> (\<forall>gvk t. gvk \<in> set (sc_typeToGVK s t) \<longleftrightarrow> sc_gvkToType s gvk = Some t) \<and>
     (\<forall>t. distinct (sc_typeToGVK s t)) \<and> (\<forall>gvk. sc_gvkToType s gvk \<noteq> None \<longrightarrow> gvk_Version gvk \<noteq> [])"

lemma scheme_ok_New: "scheme_ok NewScheme"
  by (simp add: scheme_ok_def NewScheme_def)

text \<open>What changes when a kind is registered, and when that is possible.\<close>

definition extends :: "'w scheme \<Rightarrow> 'w scheme \<Rightarrow> bool" where
  "extends s s' \<longleftrightarrow> scheme_ok s' \<and> sc_gvkToType s \<subseteq>\<^sub>m sc_gvkToType s' \<and>
     (\<forall>t. \<exists>gvks. sc_typeToGVK s' t = sc_typeToGVK s t @ gvks)"

lemma extends_refl: "scheme_ok s \<Longrightarrow> extends s s"
  by (simp add: extends_def)

lemma extends_trans: "extends a b \<Longrightarrow> extends b c \<Longrightarrow> extends a c"
  unfolding extends_def by (metis append_assoc map_le_trans)

lemma AddKnownTypeWithName_ok:
  assumes "scheme_ok s" and "AddKnownTypeWithName gvk t s = Ret s'"
  shows "extends s s' \<and> sc_gvkToType s' gvk = Some t \<and> sc_unversionedTypes s' = sc_unversionedTypes s \<and>
    sc_unversionedKinds s' = sc_unversionedKinds s \<and> sc_defaulterFuncs s' = sc_defaulterFuncs s \<and> sc_cloner s' = sc_cloner s"
  using assms by (auto simp: AddKnownTypeWithName_def scheme_ok_def extends_def map_le_def Let_def split: if_splits)

text \<open>Registering again what is there changes nothing.\<close>

lemma AddKnownTypeWithName_again:
  assumes "scheme_ok s" and "sc_gvkToType s gvk = Some t"
  shows "AddKnownTypeWithName gvk t s = Ret s"
proof -
  have "gvk \<in> set (sc_typeToGVK s t)" "gvk_Version gvk \<noteq> []" using assms by (auto simp: scheme_ok_def)
  then show ?thesis using assms(2) by (simp add: AddKnownTypeWithName_def Let_def fun_upd_idem)
qed

text \<open>Only the tables of the known types change.\<close>

definition same_rest :: "'w scheme \<Rightarrow> 'w scheme \<Rightarrow> bool" where
  "same_rest s s' \<longleftrightarrow> sc_unversionedTypes s' = sc_unversionedTypes s \<and> sc_unversionedKinds s' = sc_unversionedKinds s \<and>
     sc_defaulterFuncs s' = sc_defaulterFuncs s \<and> sc_cloner s' = sc_cloner s"

lemma extends_known: "extends s s' \<Longrightarrow> sc_gvkToType s gvk = Some t \<Longrightarrow> sc_gvkToType s' gvk = Some t"
  by (auto simp: extends_def map_le_def dom_def)

lemma AddKnownTypes_ok:
  assumes "scheme_ok s" and "AddKnownTypes gv types s = Ret s'"
  shows "extends s s' \<and> same_rest s s' \<and> (\<forall>t\<in>set types. sc_gvkToType s' (WithKind gv (gt_Name t)) = Some t)"
  using assms
proof (induction gv types s rule: AddKnownTypes.induct)
  case (1 gv s)
  then show ?case by (simp add: extends_refl same_rest_def)
next
  case (2 gv t types s)
  from 2(3) obtain s1 where s1: "AddKnownTypeWithName (WithKind gv (gt_Name t)) t s = Ret s1"
    and rest: "AddKnownTypes gv types s1 = Ret s'" by (auto simp: bind_outcome_Ret_iff)
  note first = AddKnownTypeWithName_ok [OF 2(2) s1]
  have "scheme_ok s1" using first by (simp add: extends_def)
  note later = 2(1) [OF this rest]
  show ?case using first later by (auto simp: same_rest_def intro: extends_trans extends_known)
qed

lemma AddKnownTypes_again:
  assumes "scheme_ok s" and "\<And>t. t \<in> set types \<Longrightarrow> sc_gvkToType s (WithKind gv (gt_Name t)) = Some t"
  shows "AddKnownTypes gv types s = Ret s"
  using assms(2) by (induction types) (simp_all add: AddKnownTypeWithName_again assms(1))

text \<open>The types of one group version that are marked.\<close>

definition marked :: "string \<times> string \<Rightarrow> go_type list \<Rightarrow> 'w scheme \<Rightarrow> bool" where
  "marked gv types s \<longleftrightarrow> (\<forall>t\<in>set types. sc_unversionedTypes s t = Some (WithKind gv (gt_Name t)) \<and>
     sc_unversionedKinds s (gt_Name t) = Some t)"

lemma mark_unversioned_ok:
  assumes "mark_unversioned gv types s = Ret s'"
  shows "sc_gvkToType s' = sc_gvkToType s \<and> sc_typeToGVK s' = sc_typeToGVK s \<and>
    sc_defaulterFuncs s' = sc_defaulterFuncs s \<and> sc_cloner s' = sc_cloner s \<and>
    marked gv types s' \<and> (\<forall>ts. marked gv ts s \<longrightarrow> marked gv ts s')"
  using assms
proof (induction gv types s rule: mark_unversioned.induct)
  case (1 gv s)
  then show ?case by (simp add: marked_def)
next
  case (2 gv t types s)
  let ?s2 = "s\<lparr>sc_unversionedTypes := (sc_unversionedTypes s)(t \<mapsto> WithKind gv (gt_Name t)),
    sc_unversionedKinds := (sc_unversionedKinds s)(gt_Name t \<mapsto> t)\<rparr>"
  have free: "sc_unversionedKinds s (gt_Name t) = None \<or> sc_unversionedKinds s (gt_Name t) = Some t"
    and rest: "mark_unversioned gv types ?s2 = Ret s'"
    using 2(2) by (auto simp: WithKind_def Let_def split: if_splits)
  have kept: "marked gv (t # ts) ?s2" if "marked gv ts s" for ts
    using that free by (auto simp: marked_def WithKind_def)
  have later: "sc_gvkToType s' = sc_gvkToType s \<and> sc_typeToGVK s' = sc_typeToGVK s \<and>
    sc_defaulterFuncs s' = sc_defaulterFuncs s \<and> sc_cloner s' = sc_cloner s" "marked gv types s'"
    and keeps: "\<And>ts. marked gv ts ?s2 \<Longrightarrow> marked gv ts s'"
    using 2(1) [OF refl refl] rest free by (auto simp: WithKind_def)
  have "marked gv (t # types) s'" using keeps [OF kept [of "[]"]] later(2) by (simp add: marked_def)
  moreover have "marked gv ts s'" if "marked gv ts s" for ts
    using keeps [OF kept [OF that]] by (simp add: marked_def)
  ultimately show ?case using later(1) by blast
qed

lemma mark_unversioned_others:
  assumes "mark_unversioned gv types s = Ret s'" and "u \<notin> set types"
  shows "sc_unversionedTypes s' u = sc_unversionedTypes s u"
  using assms by (induction gv types s rule: mark_unversioned.induct) (auto simp: Let_def split: if_splits)

lemma mark_unversioned_again:
  assumes "marked gv types s"
  shows "mark_unversioned gv types s = Ret s"
  using assms by (induction types) (simp_all add: marked_def Let_def fun_upd_idem WithKind_def)

definition option_types :: "go_type list" where
  "option_types = map meta_type [''ListOptions'', ''ExportOptions'', ''GetOptions'', ''DeleteOptions'']"

definition status_types :: "go_type list" where
  "status_types = map meta_type [''Status'', ''APIVersions'', ''APIGroupList'', ''APIGroup'', ''APIResourceList'']"

text \<open>What \<open>AddToGroupVersion\<close> leaves in a scheme.\<close>

definition group_version_added :: "string \<times> string \<Rightarrow> 'w scheme \<Rightarrow> bool" where
  "group_version_added gv s \<longleftrightarrow>
     sc_gvkToType s (WithKind gv ''WatchEvent'') = Some (meta_type ''WatchEvent'') \<and>
     sc_gvkToType s (WithKind (fst gv, APIVersionInternal) ''WatchEvent'') = Some (meta_type ''InternalEvent'') \<and>
     (\<forall>t\<in>set option_types. sc_gvkToType s (WithKind gv (gt_Name t)) = Some t) \<and>
     (\<forall>t\<in>set status_types. sc_gvkToType s (WithKind Unversioned (gt_Name t)) = Some t) \<and>
     marked Unversioned status_types s"

lemma AddToGroupVersion_eq:
  "AddToGroupVersion gv s =
     bind_outcome (AddKnownTypeWithName (WithKind gv ''WatchEvent'') (meta_type ''WatchEvent'') s) (\<lambda>s.
     bind_outcome (AddKnownTypeWithName (WithKind (fst gv, APIVersionInternal) ''WatchEvent'') (meta_type ''InternalEvent'') s) (\<lambda>s.
     bind_outcome (AddKnownTypes gv option_types s) (\<lambda>s.
     bind_outcome (AddKnownTypes Unversioned status_types s) (mark_unversioned Unversioned status_types))))"
  by (simp only: AddToGroupVersion_def AddUnversionedTypes_def option_types_def status_types_def)

lemma extends_ok: "extends s s' \<Longrightarrow> scheme_ok s'"
  by (simp add: extends_def)

lemma same_tables:
  "sc_gvkToType s' = sc_gvkToType s \<Longrightarrow> sc_typeToGVK s' = sc_typeToGVK s \<Longrightarrow> scheme_ok s \<Longrightarrow> extends s s'"
  by (auto simp: extends_def scheme_ok_def)

lemma AddToGroupVersion_ok:
  assumes "scheme_ok s" and "AddToGroupVersion gv s = Ret s'"
  shows "extends s s' \<and> group_version_added gv s' \<and> sc_defaulterFuncs s' = sc_defaulterFuncs s \<and> sc_cloner s' = sc_cloner s \<and>
    (\<forall>u. u \<notin> set status_types \<longrightarrow> sc_unversionedTypes s' u = sc_unversionedTypes s u)"
proof -
  from assms(2) obtain a b c d where
    a: "AddKnownTypeWithName (WithKind gv ''WatchEvent'') (meta_type ''WatchEvent'') s = Ret a" and
    b: "AddKnownTypeWithName (WithKind (fst gv, APIVersionInternal) ''WatchEvent'') (meta_type ''InternalEvent'') a = Ret b" and
    c: "AddKnownTypes gv option_types b = Ret c" and d: "AddKnownTypes Unversioned status_types c = Ret d" and
    e: "mark_unversioned Unversioned status_types d = Ret s'"
    unfolding AddToGroupVersion_eq bind_outcome_Ret_iff by blast
  note A = AddKnownTypeWithName_ok [OF assms(1) a]
  note B = AddKnownTypeWithName_ok [OF A [THEN conjunct1, THEN extends_ok] b]
  note C = AddKnownTypes_ok [OF B [THEN conjunct1, THEN extends_ok] c]
  note D = AddKnownTypes_ok [OF C [THEN conjunct1, THEN extends_ok] d]
  note E = mark_unversioned_ok [OF e]
  have e': "extends d s'" using D E by (blast intro: same_tables extends_ok)
  have ad: "extends a d" "extends b d" "extends c d" using B C D by (blast intro: extends_trans)+
  note up = ad [THEN extends_trans, OF e']
  have "group_version_added gv s'"
    unfolding group_version_added_def using A B C D E up e' by (blast intro: extends_known)
  moreover have "extends s s'" using A up(1) by (blast intro: extends_trans)
  ultimately show ?thesis using A B C D E mark_unversioned_others [OF e] by (simp add: same_rest_def)
qed

lemma AddToGroupVersion_again:
  assumes "scheme_ok s" and "group_version_added gv s"
  shows "AddToGroupVersion gv s = Ret s"
  using assms unfolding AddToGroupVersion_eq group_version_added_def
  by (simp add: AddKnownTypeWithName_again AddKnownTypes_again mark_unversioned_again)

text \<open>What \<open>AddToScheme\<close> of v1alpha1 leaves.\<close>

definition job_types_added :: "('w \<Rightarrow> time \<times> 'w) \<Rightarrow> 'w scheme \<Rightarrow> bool" where
  "job_types_added now s \<longleftrightarrow> group_version_added SchemeGroupVersion s \<and>
     (\<forall>name\<in>{''Caffe2Job'', ''Caffe2JobList''}. sc_gvkToType s (WithKind SchemeGroupVersion name) = Some (api_type name)) \<and>
     sc_defaulterFuncs s (api_type ''Caffe2Job'') = Some (default_job now) \<and>
     sc_defaulterFuncs s (api_type ''Caffe2JobList'') = Some (default_job_list now) \<and>
     api_type ` fst ` set RegisterDeepCopies \<subseteq> sc_cloner s"

lemma v1alpha1_AddToScheme_eq:
  "v1alpha1_AddToScheme now s =
     bind_outcome (AddKnownTypes SchemeGroupVersion [api_type ''Caffe2Job'', api_type ''Caffe2JobList''] s) (\<lambda>s.
     bind_outcome (AddToGroupVersion SchemeGroupVersion s) (\<lambda>s.
       Ret (None, s\<lparr>sc_defaulterFuncs := (sc_defaulterFuncs s)(api_type ''Caffe2Job'' \<mapsto> default_job now,
           api_type ''Caffe2JobList'' \<mapsto> default_job_list now),
         sc_cloner := sc_cloner s \<union> api_type ` fst ` set RegisterDeepCopies\<rparr>)))"
  unfolding v1alpha1_AddToScheme_def SchemeBuilder_def addKnownTypes_def apply_builder.simps bind_outcome_assoc
  by (simp add: addDefaultingFuncs_def RegisterDefaults_def register_copies_def AddTypeDefaultingFunc_def
      del: AddKnownTypes.simps)

lemma AddToScheme_ok:
  assumes "scheme_ok s" and "v1alpha1_AddToScheme now s = Ret (err, s')"
  shows "err = None \<and> extends s s' \<and> job_types_added now s' \<and>
    (\<forall>u. u \<notin> set status_types \<longrightarrow> sc_unversionedTypes s' u = sc_unversionedTypes s u)"
proof -
  from assms(2) obtain a b where
    a: "AddKnownTypes SchemeGroupVersion [api_type ''Caffe2Job'', api_type ''Caffe2JobList''] s = Ret a" and
    b: "AddToGroupVersion SchemeGroupVersion a = Ret b" and err: "err = None" and
    s': "s' = b\<lparr>sc_defaulterFuncs := (sc_defaulterFuncs b)(api_type ''Caffe2Job'' \<mapsto> default_job now,
           api_type ''Caffe2JobList'' \<mapsto> default_job_list now),
         sc_cloner := sc_cloner b \<union> api_type ` fst ` set RegisterDeepCopies\<rparr>"
    unfolding v1alpha1_AddToScheme_eq bind_outcome_Ret_iff by blast
  note A = AddKnownTypes_ok [OF assms(1) a]
  note B = AddToGroupVersion_ok [OF A [THEN conjunct1, THEN extends_ok] b]
  have "extends s b" using A B by (blast intro: extends_trans)
  then have "extends s s'" by (simp add: s' extends_def scheme_ok_def)
  moreover have "group_version_added SchemeGroupVersion s'"
    using B by (simp add: s' group_version_added_def marked_def)
  moreover have "sc_gvkToType b (WithKind SchemeGroupVersion name) = Some (api_type name)"
    if "name \<in> {''Caffe2Job'', ''Caffe2JobList''}" for name
    using A B that by (auto simp: api_type_def intro: extends_known)
  moreover have "sc_unversionedTypes s' u = sc_unversionedTypes s u" if "u \<notin> set status_types" for u
    using A B that by (simp add: s' same_rest_def)
  ultimately show ?thesis by (simp add: err job_types_added_def s' api_type_def)
qed

text \<open>Adding the types again changes nothing.\<close>

lemma AddToScheme_again:
  assumes "scheme_ok s" and "job_types_added now s"
  shows "v1alpha1_AddToScheme now s = Ret (None, s)"
proof -
  have "AddKnownTypes SchemeGroupVersion [api_type ''Caffe2Job'', api_type ''Caffe2JobList''] s = Ret s"
    using assms by (intro AddKnownTypes_again) (auto simp: job_types_added_def api_type_def)
  moreover have "AddToGroupVersion SchemeGroupVersion s = Ret s"
    using assms by (simp add: AddToGroupVersion_again job_types_added_def)
  ultimately show ?thesis using assms(2) unfolding v1alpha1_AddToScheme_eq
    by (simp add: job_types_added_def fun_upd_idem Un_absorb2 del: AddKnownTypes.simps)
qed

subsection \<open>Registration does not panic\<close>

text \<open>The kinds that the core group and the group of the jobs register, with their types.\<close>

definition our_kinds :: "GroupVersionKind \<rightharpoonup> go_type" where
  "our_kinds gvk =
     (let gv = (gvk_Group gvk, gvk_Version gvk); name = gvk_Kind gvk in
      if gv = SchemeGroupVersion \<and> name \<in> {''Caffe2Job'', ''Caffe2JobList''} then Some (api_type name)
      else if gv \<in> {SchemeGroupVersion, Unversioned} \<and> name \<in> insert ''WatchEvent'' (gt_Name ` set option_types) then Some (meta_type name)
      else if gv = Unversioned \<and> name \<in> gt_Name ` set status_types then Some (meta_type name)
      else if fst gv \<in> {GroupName, []} \<and> snd gv = APIVersionInternal \<and> name = ''WatchEvent'' then Some (meta_type ''InternalEvent'')
      else None)"

text \<open>A scheme that has no other type under one of these kinds.\<close>

definition compatible :: "'w scheme \<Rightarrow> bool" where
  "compatible s \<longleftrightarrow>
     (\<forall>gvk t. sc_gvkToType s gvk \<noteq> None \<and> our_kinds gvk = Some t \<longrightarrow> sc_gvkToType s gvk = Some t) \<and>
     (\<forall>t\<in>set status_types. sc_unversionedKinds s (gt_Name t) \<noteq> None \<longrightarrow> sc_unversionedKinds s (gt_Name t) = Some t)"

lemma compatible_New: "compatible NewScheme"
  by (simp add: compatible_def NewScheme_def)

lemma AddKnownTypeWithName_returns:
  assumes "compatible s" and "our_kinds gvk = Some t" and "gvk_Version gvk \<noteq> []"
  shows "\<exists>s'. AddKnownTypeWithName gvk t s = Ret s' \<and> compatible s'"
proof -
  have "sc_gvkToType s gvk = None \<or> sc_gvkToType s gvk = Some t" using assms(1,2) unfolding compatible_def by blast
  then show ?thesis using assms unfolding AddKnownTypeWithName_def Let_def compatible_def by simp
qed

lemma AddKnownTypes_returns:
  assumes "compatible s" and "\<And>t. t \<in> set types \<Longrightarrow> our_kinds (WithKind gv (gt_Name t)) = Some t" and "snd gv \<noteq> []"
  shows "\<exists>s'. AddKnownTypes gv types s = Ret s' \<and> compatible s'"
  using assms
proof (induction gv types s rule: AddKnownTypes.induct)
  case (2 gv t types s)
  then obtain s1 where "AddKnownTypeWithName (WithKind gv (gt_Name t)) t s = Ret s1" "compatible s1"
    using AddKnownTypeWithName_returns [of s "WithKind gv (gt_Name t)" t] by (auto simp: WithKind_def)
  then show ?case using 2(1) [of s1] 2(3,4) by simp
qed simp

lemma status_types_names: "t \<in> set status_types \<Longrightarrow> t = meta_type (gt_Name t)"
  by (auto simp: status_types_def meta_type_def)

lemma option_types_names: "t \<in> set option_types \<Longrightarrow> t = meta_type (gt_Name t)"
  by (auto simp: option_types_def meta_type_def)

lemma mark_unversioned_returns:
  assumes "compatible s" and "set types \<subseteq> set status_types"
  shows "\<exists>s'. mark_unversioned gv types s = Ret s' \<and> compatible s'"
  using assms
proof (induction gv types s rule: mark_unversioned.induct)
  case (2 gv t types s)
  let ?s2 = "s\<lparr>sc_unversionedTypes := (sc_unversionedTypes s)(t \<mapsto> WithKind gv (gt_Name t)),
    sc_unversionedKinds := (sc_unversionedKinds s)(gt_Name t \<mapsto> t)\<rparr>"
  have free: "sc_unversionedKinds s (gt_Name t) = None \<or> sc_unversionedKinds s (gt_Name t) = Some t"
    using 2(2,3) unfolding compatible_def by auto
  have same: "u = t" if "u \<in> set status_types" "gt_Name u = gt_Name t" for u
    using that 2(3) status_types_names [of u] status_types_names [of t] by simp
  have "compatible ?s2" using 2(2) same by (auto simp: compatible_def)
  then show ?case using 2(1) [OF refl refl] 2(3) free by (auto simp: WithKind_def Let_def)
qed simp

lemma AddToGroupVersion_returns:
  assumes "compatible s" and gv: "gv \<in> {SchemeGroupVersion, Unversioned}"
  shows "\<exists>s'. AddToGroupVersion gv s = Ret s' \<and> compatible s'"
proof -
  have known: "our_kinds (WithKind gv ''WatchEvent'') = Some (meta_type ''WatchEvent'')"
    "our_kinds (WithKind (fst gv, APIVersionInternal) ''WatchEvent'') = Some (meta_type ''InternalEvent'')"
    "snd gv \<noteq> []" "snd Unversioned \<noteq> []" "APIVersionInternal \<noteq> []"
    using gv by (auto simp: our_kinds_def WithKind_def SchemeGroupVersion_def Unversioned_def APIVersionInternal_def GroupVersion_def Let_def)
  have other: "Unversioned \<noteq> SchemeGroupVersion" by (simp add: Unversioned_def SchemeGroupVersion_def GroupName_def)
  have names: "gt_Name ` set option_types = {''ListOptions'', ''ExportOptions'', ''GetOptions'', ''DeleteOptions''}"
    by (simp add: option_types_def meta_type_def)
  have options: "our_kinds (WithKind gv (gt_Name t)) = Some t" if "t \<in> set option_types" for t
  proof -
    have "gt_Name t \<in> gt_Name ` set option_types" using that by (rule imageI)
    moreover then have "gt_Name t \<notin> {''Caffe2Job'', ''Caffe2JobList''}" unfolding names by auto
    ultimately show ?thesis using gv option_types_names [OF that] by (simp add: our_kinds_def WithKind_def Let_def)
  qed
  have status: "our_kinds (WithKind Unversioned (gt_Name t)) = Some t" if "t \<in> set status_types" for t
    using status_types_names [OF that] other imageI [OF that, of gt_Name]
    by (simp add: our_kinds_def WithKind_def Let_def)
  obtain a where a: "AddKnownTypeWithName (WithKind gv ''WatchEvent'') (meta_type ''WatchEvent'') s = Ret a" "compatible a"
    using AddKnownTypeWithName_returns [OF assms(1) known(1)] known(3) by (auto simp: WithKind_def)
  obtain b where b: "AddKnownTypeWithName (WithKind (fst gv, APIVersionInternal) ''WatchEvent'') (meta_type ''InternalEvent'') a = Ret b"
    "compatible b"
    using AddKnownTypeWithName_returns [OF a(2) known(2)] known(5) by (auto simp: WithKind_def)
  obtain c where c: "AddKnownTypes gv option_types b = Ret c" "compatible c"
    using AddKnownTypes_returns [OF b(2) options known(3)] by blast
  obtain d where d: "AddKnownTypes Unversioned status_types c = Ret d" "compatible d"
    using AddKnownTypes_returns [OF c(2) status known(4)] by blast
  show ?thesis using mark_unversioned_returns [OF d(2) subset_refl] a(1) b(1) c(1) d(1) by (simp add: AddToGroupVersion_eq)
qed

lemma AddToScheme_returns:
  assumes "compatible s"
  shows "\<exists>s'. v1alpha1_AddToScheme now s = Ret (None, s')"
proof -
  have "our_kinds (WithKind SchemeGroupVersion (gt_Name t)) = Some t" if "t \<in> set [api_type ''Caffe2Job'', api_type ''Caffe2JobList'']" for t
    using that by (auto simp: our_kinds_def WithKind_def api_type_def Let_def)
  moreover have "snd SchemeGroupVersion \<noteq> []" by (simp add: SchemeGroupVersion_def GroupVersion_def)
  ultimately obtain a where a: "AddKnownTypes SchemeGroupVersion [api_type ''Caffe2Job'', api_type ''Caffe2JobList''] s = Ret a" "compatible a"
    using AddKnownTypes_returns [OF assms] by blast
  obtain b where "AddToGroupVersion SchemeGroupVersion a = Ret b" using AddToGroupVersion_returns [OF a(2)] by blast
  with a(1) show ?thesis by (simp add: v1alpha1_AddToScheme_eq del: AddKnownTypes.simps)
qed

lemma versioned_Scheme_built:
  "\<exists>(s0 :: 'w scheme) s. AddToGroupVersion ([], ''v1'') NewScheme = Ret s0 \<and> scheme_ok s0 \<and> compatible s0 \<and>
     v1alpha1_AddToScheme now s0 = Ret (None, s) \<and> versioned_Scheme now = Ret s"
proof -
  obtain s0 :: "'w scheme" where s0: "AddToGroupVersion ([], ''v1'') NewScheme = Ret s0" "compatible s0"
    using AddToGroupVersion_returns [OF compatible_New, of Unversioned] by (auto simp: Unversioned_def)
  moreover have "scheme_ok s0" using AddToGroupVersion_ok [OF scheme_ok_New s0(1)] by (simp add: extends_def)
  moreover obtain s where "v1alpha1_AddToScheme now s0 = Ret (None, s)" using AddToScheme_returns [OF s0(2)] by blast
  ultimately show ?thesis by (auto simp: versioned_Scheme_def versioned_AddToScheme_def)
qed

section \<open>Properties\<close>

text \<open>
  C34. Registration is total and a round trip: a scheme whose tables agree and that has no other type under the
  kinds of the operator takes the API types without an error and without a panic; it keeps every kind it had;
  the kind in an owner reference of the operator makes a \<open>Caffe2Job\<close>, and a \<open>Caffe2Job\<close> has that kind and is not unversioned;
  defaulting through the scheme is the generated defaulting function, and each type with a generated copy
  function is known to the cloner; registering again changes nothing.
\<close>

theorem scheme_roundtrip:
  assumes "scheme_ok s" and "compatible s" and "sc_unversionedTypes s (api_type ''Caffe2Job'') = None"
  shows "\<exists>s'. v1alpha1_AddToScheme now s = Ret (None, s') \<and> scheme_ok s' \<and> sc_gvkToType s \<subseteq>\<^sub>m sc_gvkToType s' \<and>
    scheme_New controllerKind s' = Inr (type_of (JobObject job)) \<and>
    (\<exists>kinds. ObjectKinds (JobObject job) s' = Inr (kinds, False) \<and> controllerKind \<in> set kinds) \<and>
    scheme_Default s' (JobObject job) w =
      (case SetObjectDefaults_Caffe2Job now job w of (r, w1) \<Rightarrow> (bind_outcome r (\<lambda>job. Ret (JobObject job)), w1)) \<and>
    (\<forall>f\<in>set RegisterDeepCopies. api_type (fst f) \<in> sc_cloner s') \<and>
    v1alpha1_AddToScheme now s' = Ret (None, s')"
proof -
  obtain s' where s': "v1alpha1_AddToScheme now s = Ret (None, s')" using AddToScheme_returns [OF assms(2)] by blast
  note added = AddToScheme_ok [OF assms(1) s']
  have "api_type ''Caffe2Job'' \<notin> set status_types" by (simp add: api_type_def status_types_def meta_type_def)
  then have versioned: "sc_unversionedTypes s' (api_type ''Caffe2Job'') = None" using added assms(3) by simp
  have kind: "controllerKind = WithKind SchemeGroupVersion ''Caffe2Job''"
    by (simp add: controllerKind_def WithKind_def SchemeGroupVersion_def)
  have known: "sc_gvkToType s' controllerKind = Some (api_type ''Caffe2Job'')"
    using added by (simp add: kind job_types_added_def)
  then have listed: "controllerKind \<in> set (sc_typeToGVK s' (api_type ''Caffe2Job''))"
    using added by (simp add: extends_def scheme_ok_def)
  have "v1alpha1_AddToScheme now s' = Ret (None, s')" using added by (simp add: AddToScheme_again extends_def)
  moreover have "scheme_Default s' (JobObject job) w =
      (case SetObjectDefaults_Caffe2Job now job w of (r, w1) \<Rightarrow> (bind_outcome r (\<lambda>job. Ret (JobObject job)), w1))"
    using added by (simp add: scheme_Default_def job_types_added_def default_job_def)
  moreover have "ObjectKinds (JobObject job) s' = Inr (sc_typeToGVK s' (api_type ''Caffe2Job''), False)"
    using listed versioned by (auto simp: ObjectKinds_def Let_def)
  moreover have "\<forall>f\<in>set RegisterDeepCopies. api_type (fst f) \<in> sc_cloner s'"
    using added by (auto simp: job_types_added_def)
  ultimately show ?thesis using s' added known listed by (auto simp: extends_def scheme_New_def)
qed

theorem scheme_roundtrip_witness:
  "\<exists>s. versioned_Scheme ticking = Ret s \<and> fake_scheme ticking = Ret s \<and> scheme_New controllerKind s = Inr (api_type ''Caffe2Job'')"
proof -
  obtain s0 :: "int scheme" and s where built: "AddToGroupVersion ([], ''v1'') NewScheme = Ret s0" "scheme_ok s0" "compatible s0"
      "versioned_Scheme ticking = Ret s" "v1alpha1_AddToScheme ticking s0 = Ret (None, s)"
    using versioned_Scheme_built [of ticking] by blast
  have "api_type ''Caffe2Job'' \<notin> set status_types" by (simp add: api_type_def status_types_def meta_type_def)
  then have "sc_unversionedTypes s0 (api_type ''Caffe2Job'') = None"
    using AddToGroupVersion_ok [OF scheme_ok_New built(1)] by (simp add: NewScheme_def)
  from scheme_roundtrip [OF built(2,3) this, of ticking bare_job 0] built(4,5)
  show ?thesis by (auto simp: fake_scheme_def versioned_Scheme_def fake_AddToScheme_def versioned_AddToScheme_def)
qed

end
