(* ===== verification/ClientConfig.thy ===== *)
theory ClientConfig
  imports RestClient Complex_Main
begin

text \<open>
  From a configuration to clients: pkg/client/clientset/versioned (clientset.go and
  typed/kubeflow/v1alpha1/kubeflow_client.go), \<open>createClients\<close> of cmd/caffe2-operator/app/server.go,
  and what these call under vendor/k8s.io/client-go (rest/config.go, rest/url_utils.go, rest/client.go,
  kubernetes/clientset.go, discovery/discovery_client.go, and the clientset of apiextensions-apiserver), with the
  constructors that panic and the accessors of a clientset. A configuration passed by pointer is
  returned as the callee leaves it; a rate limiter is the number of its bucket in the list of buckets
  made so far. Arguments (record \<open>host_env\<close>) are the URL parser, the transport and serializer set-up with
  their errors, the user agent of the process, and whether the bucket constructor finds a quantum for a
  rate. A float32 rate is the rational number it stands for.
\<close>

section \<open>Configurations and clients\<close>

record url =
  ur_Scheme :: string
  ur_Host :: string
  ur_Path :: string

record config =
  cf_Host :: string
  cf_APIPath :: string
  cf_GroupVersion :: "(string \<times> string) option"
  cf_NegotiatedSerializer :: "string option"
  cf_hasCA :: bool
  cf_hasCert :: bool
  cf_Insecure :: bool
  cf_BearerToken :: string
  cf_UserAgent :: string
  cf_QPS :: rat
  cf_Burst :: int
  cf_RateLimiter :: "nat option"

record host_env =
  ev_Parse :: "string \<Rightarrow> go_error + url"
  ev_TransportFor :: "config \<Rightarrow> go_error option"
  ev_createSerializers :: "string \<Rightarrow> go_error option"
  ev_UserAgent :: string
  ev_rate_fits :: "rat \<Rightarrow> bool"

record made_client =
  mc_base :: url
  mc_versionedAPIPath :: string
  mc_GroupVersion :: "string \<times> string"
  mc_UserAgent :: string
  mc_Throttle :: "nat option"

type_synonym buckets = "(rat \<times> int) list"

text \<open>A call that can fail, followed by another.\<close>

definition and_then ::
  "('w, go_error + 'a) action \<Rightarrow> ('a \<Rightarrow> ('w, go_error + 'b) action) \<Rightarrow> ('w, go_error + 'b) action" where
  "and_then m f w =
     (case m w of
        (Panic p, w') \<Rightarrow> (Panic p, w')
      | (Ret (Inl err), w') \<Rightarrow> (Ret (Inl err), w')
      | (Ret (Inr x), w') \<Rightarrow> f x w')"

definition and_return :: "('w, go_error + 'a) action \<Rightarrow> ('a \<Rightarrow> 'b) \<Rightarrow> ('w, go_error + 'b) action" where
  "and_return m f = and_then m (\<lambda>x w. (Ret (Inr (f x)), w))"

section \<open>REST clients\<close>

definition DefaultQPS :: rat where "DefaultQPS = 5"
definition DefaultBurst :: int where "DefaultBurst = 10"

text \<open>The bucket constructor panics on an empty bucket, and when it finds no quantum for the rate.\<close>

definition NewTokenBucketRateLimiter :: "host_env \<Rightarrow> rat \<Rightarrow> int \<Rightarrow> (buckets, nat) action" where
  "NewTokenBucketRateLimiter env qps burst w =
     (if burst \<le> 0 \<or> \<not> ev_rate_fits env qps then (Panic ExplicitPanic, w)
      else (Ret (length w), w @ [(qps, burst)]))"

definition DefaultServerURL ::
  "host_env \<Rightarrow> string \<Rightarrow> string \<Rightarrow> string \<times> string \<Rightarrow> bool \<Rightarrow> go_error + url \<times> string" where
  "DefaultServerURL env host apiPath gv defaultTLS =
     (if host = [] then Inl (Errorf ''host must be a URL or a host:port pair'' [] [])
      else
        let usable = (case ev_Parse env host of Inl err \<Rightarrow> None
                      | Inr u \<Rightarrow> if ur_Scheme u = [] \<or> ur_Host u = [] then None else Some u);
            hostURL = (case usable of
              Some u \<Rightarrow> Inr u
            | None \<Rightarrow>
                (case ev_Parse env ((if defaultTLS then ''https://'' else ''http://'') @ host) of
                   Inl err \<Rightarrow> Inl err
                 | Inr u \<Rightarrow>
                     if ur_Path u \<noteq> [] \<and> ur_Path u \<noteq> ''/''
                     then Inl (Errorf ''host must be a URL or a host:port pair: %q'' [host] []) else Inr u));
            versionedAPIPath = path_Join [''/'', apiPath];
            versionedAPIPath =
              (if 0 < length (fst gv) then path_Join [versionedAPIPath, fst gv, snd gv]
               else path_Join [versionedAPIPath, snd gv])
        in case hostURL of Inl err \<Rightarrow> Inl err | Inr u \<Rightarrow> Inr (u, versionedAPIPath))"

definition defaultServerUrlFor :: "host_env \<Rightarrow> config \<Rightarrow> go_error + url \<times> string" where
  "defaultServerUrlFor env c =
     (let defaultTLS = (cf_hasCA c \<or> cf_hasCert c \<or> cf_Insecure c);
          host = (if cf_Host c = [] then ''localhost'' else cf_Host c)
      in DefaultServerURL env host (cf_APIPath c)
           (case cf_GroupVersion c of Some gv \<Rightarrow> gv | None \<Rightarrow> ([], [])) defaultTLS)"

definition with_slash :: "url \<Rightarrow> url" where
  "with_slash base = (if suffix ''/'' (ur_Path base) then base else base\<lparr>ur_Path := ur_Path base @ ''/''\<rparr>)"

text \<open>\<open>userAgent\<close> is the one the transport of the HTTP client adds to its requests.\<close>

definition NewRESTClient ::
  "host_env \<Rightarrow> url \<Rightarrow> string \<Rightarrow> string \<times> string \<Rightarrow> string \<Rightarrow> rat \<Rightarrow> int \<Rightarrow> nat option \<Rightarrow> string \<Rightarrow>
     (buckets, go_error + made_client) action" where
  "NewRESTClient env baseURL versionedAPIPath gv codec maxQPS maxBurst rateLimiter userAgent w =
     (let made = (\<lambda>throttle. \<lparr>mc_base = with_slash baseURL, mc_versionedAPIPath = versionedAPIPath, mc_GroupVersion = gv,
            mc_UserAgent = userAgent, mc_Throttle = throttle\<rparr>) in
      case ev_createSerializers env codec of
        Some err \<Rightarrow> (Ret (Inl err), w)
      | None \<Rightarrow>
          if 0 < maxQPS \<and> rateLimiter = None
          then (case NewTokenBucketRateLimiter env maxQPS maxBurst w of
                  (Panic p, w') \<Rightarrow> (Panic p, w')
                | (Ret throttle, w') \<Rightarrow> (Ret (Inr (made (Some throttle))), w'))
          else (Ret (Inr (made rateLimiter)), w))"

definition RESTClientFor :: "host_env \<Rightarrow> config \<Rightarrow> (buckets, go_error + made_client) action" where
  "RESTClientFor env c w =
     (case (cf_GroupVersion c, cf_NegotiatedSerializer c) of
        (None, _) \<Rightarrow> (Ret (Inl (Errorf ''GroupVersion is required when initializing a RESTClient'' [] [])), w)
      | (Some gv, None) \<Rightarrow>
          (Ret (Inl (Errorf ''NegotiatedSerializer is required when initializing a RESTClient'' [] [])), w)
      | (Some gv, Some codec) \<Rightarrow>
          let qps = (if cf_QPS c = 0 then DefaultQPS else cf_QPS c);
              burst = (if cf_Burst c = 0 then DefaultBurst else cf_Burst c) in
          (case defaultServerUrlFor env c of
             Inl err \<Rightarrow> (Ret (Inl err), w)
           | Inr (baseURL, versionedAPIPath) \<Rightarrow>
               (case ev_TransportFor env c of
                  Some err \<Rightarrow> (Ret (Inl err), w)
                | None \<Rightarrow>
                    NewRESTClient env baseURL versionedAPIPath gv codec qps burst (cf_RateLimiter c) (cf_UserAgent c) w)))"

definition UnversionedRESTClientFor :: "host_env \<Rightarrow> config \<Rightarrow> (buckets, go_error + made_client) action" where
  "UnversionedRESTClientFor env c w =
     (case cf_NegotiatedSerializer c of
        None \<Rightarrow> (Ret (Inl (Errorf ''NeogitatedSerializer is required when initializing a RESTClient'' [] [])), w)
      | Some codec \<Rightarrow>
          (case defaultServerUrlFor env c of
             Inl err \<Rightarrow> (Ret (Inl err), w)
           | Inr (baseURL, versionedAPIPath) \<Rightarrow>
               (case ev_TransportFor env c of
                  Some err \<Rightarrow> (Ret (Inl err), w)
                | None \<Rightarrow>
                    NewRESTClient env baseURL versionedAPIPath
                      (case cf_GroupVersion c of Some gv \<Rightarrow> gv | None \<Rightarrow> ([], ''v1''))
                      codec (cf_QPS c) (cf_Burst c) (cf_RateLimiter c) (cf_UserAgent c) w)))"

section \<open>Clientsets\<close>

text \<open>
  \<open>setConfigDefaults\<close> of a typed client, for its group and version and its path. The clients of the
  Kubernetes groups have the same function as the client of jobs.
\<close>

definition setConfigDefaults :: "host_env \<Rightarrow> string \<times> string \<Rightarrow> string \<Rightarrow> config \<Rightarrow> config" where
  "setConfigDefaults env gv apiPath c =
     c\<lparr>cf_GroupVersion := Some gv, cf_APIPath := apiPath, cf_NegotiatedSerializer := Some ''scheme.Codecs'',
       cf_UserAgent := (if cf_UserAgent c = [] then ev_UserAgent env else cf_UserAgent c)\<rparr>"

definition typed_NewForConfig ::
  "host_env \<Rightarrow> string \<times> string \<Rightarrow> string \<Rightarrow> config \<Rightarrow> (buckets, go_error + made_client) action" where
  "typed_NewForConfig env gv apiPath c = RESTClientFor env (setConfigDefaults env gv apiPath c)"

definition kubeflowv1alpha1_NewForConfig :: "host_env \<Rightarrow> config \<Rightarrow> (buckets, go_error + made_client) action" where
  "kubeflowv1alpha1_NewForConfig env c = typed_NewForConfig env (GroupName, GroupVersion) ''/apis'' c"

definition setDiscoveryDefaults :: "host_env \<Rightarrow> config \<Rightarrow> config" where
  "setDiscoveryDefaults env c =
     c\<lparr>cf_APIPath := [], cf_GroupVersion := None, cf_NegotiatedSerializer := Some ''NoopEncoder'',
       cf_UserAgent := (if length (cf_UserAgent c) = 0 then ev_UserAgent env else cf_UserAgent c)\<rparr>"

definition NewDiscoveryClientForConfig :: "host_env \<Rightarrow> config \<Rightarrow> (buckets, go_error + made_client) action" where
  "NewDiscoveryClientForConfig env c = UnversionedRESTClientFor env (setDiscoveryDefaults env c)"

text \<open>The limiter that every client of a clientset shares, when the configuration has a rate but no limiter.\<close>

definition share_limiter :: "host_env \<Rightarrow> config \<Rightarrow> (buckets, go_error + config) action" where
  "share_limiter env c w =
     (if cf_RateLimiter c = None \<and> 0 < cf_QPS c
      then (case NewTokenBucketRateLimiter env (cf_QPS c) (cf_Burst c) w of
              (Panic p, w') \<Rightarrow> (Panic p, w')
            | (Ret l, w') \<Rightarrow> (Ret (Inr (c\<lparr>cf_RateLimiter := Some l\<rparr>)), w'))
      else (Ret (Inr c), w))"

record clientset =
  cs_kubeflowV1alpha1 :: made_client
  cs_DiscoveryClient :: made_client

definition versioned_NewForConfig :: "host_env \<Rightarrow> config \<Rightarrow> (buckets, go_error + clientset) action" where
  "versioned_NewForConfig env c =
     and_then (share_limiter env c) (\<lambda>configShallowCopy.
     and_then (kubeflowv1alpha1_NewForConfig env configShallowCopy) (\<lambda>kubeflow.
     and_return (NewDiscoveryClientForConfig env configShallowCopy) (\<lambda>discovery.
       \<lparr>cs_kubeflowV1alpha1 = kubeflow, cs_DiscoveryClient = discovery\<rparr>)))"

text \<open>The groups of the Kubernetes clientset: group, version and path, in the order of \<open>NewForConfig\<close>.\<close>

definition kube_groups :: "((string \<times> string) \<times> string) list" where
  "kube_groups =
     [((''admissionregistration.k8s.io'', ''v1alpha1''), ''/apis''), ((''apps'', ''v1beta1''), ''/apis''),
      ((''apps'', ''v1beta2''), ''/apis''), ((''authentication.k8s.io'', ''v1''), ''/apis''),
      ((''authentication.k8s.io'', ''v1beta1''), ''/apis''), ((''authorization.k8s.io'', ''v1''), ''/apis''),
      ((''authorization.k8s.io'', ''v1beta1''), ''/apis''), ((''autoscaling'', ''v1''), ''/apis''),
      ((''autoscaling'', ''v2beta1''), ''/apis''), ((''batch'', ''v1''), ''/apis''), ((''batch'', ''v1beta1''), ''/apis''),
      ((''batch'', ''v2alpha1''), ''/apis''), ((''certificates.k8s.io'', ''v1beta1''), ''/apis''), (([], ''v1''), ''/api''),
      ((''extensions'', ''v1beta1''), ''/apis''), ((''networking.k8s.io'', ''v1''), ''/apis''),
      ((''policy'', ''v1beta1''), ''/apis''), ((''rbac.authorization.k8s.io'', ''v1''), ''/apis''),
      ((''rbac.authorization.k8s.io'', ''v1beta1''), ''/apis''), ((''rbac.authorization.k8s.io'', ''v1alpha1''), ''/apis''),
      ((''scheduling.k8s.io'', ''v1alpha1''), ''/apis''), ((''settings.k8s.io'', ''v1alpha1''), ''/apis''),
      ((''storage.k8s.io'', ''v1beta1''), ''/apis''), ((''storage.k8s.io'', ''v1''), ''/apis'')]"

fun typed_clients ::
  "host_env \<Rightarrow> config \<Rightarrow> ((string \<times> string) \<times> string) list \<Rightarrow> (buckets, go_error + made_client list) action" where
  "typed_clients env c [] w = (Ret (Inr []), w)"
| "typed_clients env c ((gv, apiPath) # groups) w =
     and_then (typed_NewForConfig env gv apiPath c) (\<lambda>client.
     and_return (typed_clients env c groups) (\<lambda>clients. client # clients)) w"

record kube_clientset =
  kc_typed :: "made_client list"
  kc_DiscoveryClient :: made_client

definition kubernetes_NewForConfig :: "host_env \<Rightarrow> config \<Rightarrow> (buckets, go_error + kube_clientset) action" where
  "kubernetes_NewForConfig env c =
     and_then (share_limiter env c) (\<lambda>configShallowCopy.
     and_then (typed_clients env configShallowCopy kube_groups) (\<lambda>clients.
     and_return (NewDiscoveryClientForConfig env configShallowCopy) (\<lambda>discovery.
       \<lparr>kc_typed = clients, kc_DiscoveryClient = discovery\<rparr>)))"

section \<open>The clients of the operator\<close>

text \<open>\<open>AddUserAgent\<close> writes into the configuration it is given, and returns the same pointer.\<close>

definition AddUserAgent :: "host_env \<Rightarrow> config \<Rightarrow> string \<Rightarrow> config" where
  "AddUserAgent env config userAgent = config\<lparr>cf_UserAgent := ev_UserAgent env @ ''/'' @ userAgent\<rparr>"

text \<open>\<open>createClients\<close>, on the configuration \<open>config\<close> points to.\<close>

definition createClients ::
  "host_env \<Rightarrow> config \<Rightarrow> (buckets, go_error + kube_clientset \<times> kube_clientset \<times> clientset) action" where
  "createClients env config =
     (let config1 = AddUserAgent env config ''caffe2job_operator'';
          config2 = AddUserAgent env config1 ''leader-election'' in
      and_then (kubernetes_NewForConfig env config1) (\<lambda>kubeClient.
      and_then (kubernetes_NewForConfig env config2) (\<lambda>leaderElectionClient.
      and_return (versioned_NewForConfig env config2) (\<lambda>jobClient.
        (kubeClient, leaderElectionClient, jobClient)))))"

section \<open>Constructors that panic, and accessors\<close>

text \<open>The \<open>OrDie\<close> variant of a constructor of one client.\<close>

definition or_die :: "('w, go_error + 'a) action \<Rightarrow> ('w, 'a) action" where
  "or_die m w =
     (case m w of
        (Panic p, w') \<Rightarrow> (Panic p, w')
      | (Ret (Inl err), w') \<Rightarrow> (Panic ExplicitPanic, w')
      | (Ret (Inr x), w') \<Rightarrow> (Ret x, w'))"

definition then_die :: "('w, 'a) action \<Rightarrow> ('a \<Rightarrow> ('w, 'b) action) \<Rightarrow> ('w, 'b) action" where
  "then_die m f w = (case m w of (Panic p, w') \<Rightarrow> (Panic p, w') | (Ret x, w') \<Rightarrow> f x w')"

definition kubeflowv1alpha1_NewForConfigOrDie :: "host_env \<Rightarrow> config \<Rightarrow> (buckets, made_client) action" where
  "kubeflowv1alpha1_NewForConfigOrDie env c = or_die (kubeflowv1alpha1_NewForConfig env c)"

definition NewDiscoveryClientForConfigOrDie :: "host_env \<Rightarrow> config \<Rightarrow> (buckets, made_client) action" where
  "NewDiscoveryClientForConfigOrDie env c = or_die (NewDiscoveryClientForConfig env c)"

text \<open>A clientset made this way has no limiter in common: each client gets its own from the configuration.\<close>

definition versioned_NewForConfigOrDie :: "host_env \<Rightarrow> config \<Rightarrow> (buckets, clientset) action" where
  "versioned_NewForConfigOrDie env c =
     then_die (kubeflowv1alpha1_NewForConfigOrDie env c) (\<lambda>kubeflow.
     then_die (NewDiscoveryClientForConfigOrDie env c) (\<lambda>discovery w.
       (Ret \<lparr>cs_kubeflowV1alpha1 = kubeflow, cs_DiscoveryClient = discovery\<rparr>, w)))"

fun typed_clients_or_die ::
  "host_env \<Rightarrow> config \<Rightarrow> ((string \<times> string) \<times> string) list \<Rightarrow> (buckets, made_client list) action" where
  "typed_clients_or_die env c [] w = (Ret [], w)"
| "typed_clients_or_die env c ((gv, apiPath) # groups) w =
     then_die (or_die (typed_NewForConfig env gv apiPath c)) (\<lambda>client.
     then_die (typed_clients_or_die env c groups) (\<lambda>clients w. (Ret (client # clients), w))) w"

definition kubernetes_NewForConfigOrDie :: "host_env \<Rightarrow> config \<Rightarrow> (buckets, kube_clientset) action" where
  "kubernetes_NewForConfigOrDie env c =
     then_die (typed_clients_or_die env c kube_groups) (\<lambda>clients.
     then_die (NewDiscoveryClientForConfigOrDie env c) (\<lambda>discovery w.
       (Ret \<lparr>kc_typed = clients, kc_DiscoveryClient = discovery\<rparr>, w)))"

text \<open>The clientset of k8s.io/apiextensions-apiserver, as \<open>MustNewApiExtensionsClient\<close> makes it.\<close>

record apiextensions_clientset =
  ax_apiextensionsV1beta1 :: made_client
  ax_DiscoveryClient :: made_client

definition apiextensions_NewForConfigOrDie :: "host_env \<Rightarrow> config \<Rightarrow> (buckets, apiextensions_clientset) action" where
  "apiextensions_NewForConfigOrDie env c =
     then_die (or_die (typed_NewForConfig env (''apiextensions.k8s.io'', ''v1beta1'') ''/apis'' c)) (\<lambda>client.
     then_die (NewDiscoveryClientForConfigOrDie env c) (\<lambda>discovery w.
       (Ret \<lparr>ax_apiextensionsV1beta1 = client, ax_DiscoveryClient = discovery\<rparr>, w)))"

text \<open>From a REST client that exists already. A typed client is a pointer to the REST client it wraps.\<close>

definition kubeflowv1alpha1_New :: "made_client \<Rightarrow> made_client" where
  "kubeflowv1alpha1_New c = c"

definition versioned_New :: "made_client \<Rightarrow> clientset" where
  "versioned_New c = \<lparr>cs_kubeflowV1alpha1 = kubeflowv1alpha1_New c, cs_DiscoveryClient = c\<rparr>"

text \<open>The accessors of a clientset, on a pointer that may be nil where the code checks that.\<close>

definition clientset_KubeflowV1alpha1 :: "clientset \<Rightarrow> made_client" where
  "clientset_KubeflowV1alpha1 c = cs_kubeflowV1alpha1 c"

definition clientset_Kubeflow :: "clientset \<Rightarrow> made_client" where
  "clientset_Kubeflow c = cs_kubeflowV1alpha1 c"

definition clientset_Discovery :: "clientset option \<Rightarrow> made_client option" where
  "clientset_Discovery c = (case c of None \<Rightarrow> None | Some cs \<Rightarrow> Some (cs_DiscoveryClient cs))"

definition KubeflowV1alpha1Client_RESTClient :: "made_client option \<Rightarrow> made_client option" where
  "KubeflowV1alpha1Client_RESTClient c = (case c of None \<Rightarrow> None | Some client \<Rightarrow> Some client)"

record caffe2Jobs =
  jc_client :: "made_client option"
  jc_ns :: string

definition newCaffe2Jobs :: "made_client option \<Rightarrow> string \<Rightarrow> caffe2Jobs" where
  "newCaffe2Jobs c namespace = \<lparr>jc_client = KubeflowV1alpha1Client_RESTClient c, jc_ns = namespace\<rparr>"

definition KubeflowV1alpha1Client_Caffe2Jobs :: "made_client option \<Rightarrow> string \<Rightarrow> caffe2Jobs" where
  "KubeflowV1alpha1Client_Caffe2Jobs c namespace = newCaffe2Jobs c namespace"

section \<open>Lemmas\<close>

lemma and_then_Inr:
  "and_then m f w = (Ret (Inr y), w') \<longleftrightarrow> (\<exists>x w1. m w = (Ret (Inr x), w1) \<and> f x w1 = (Ret (Inr y), w'))"
  by (auto simp: and_then_def split: prod.splits outcome.splits sum.splits)

lemma and_return_Inr:
  "and_return m f w = (Ret (Inr y), w') \<longleftrightarrow> (\<exists>x. m w = (Ret (Inr x), w') \<and> y = f x)"
  by (auto simp: and_return_def and_then_Inr)

lemmas chain_simps = and_then_Inr and_return_Inr

lemma and_then_step [simp]:
  "m w = (Ret (Inr x), w1) \<Longrightarrow> and_then m f w = f x w1"
  "m w = (Panic p, w1) \<Longrightarrow> and_then m f w = (Panic p, w1)"
  "m w = (Ret (Inr x), w1) \<Longrightarrow> and_return m g w = (Ret (Inr (g x)), w1)"
  "m w = (Panic p, w1) \<Longrightarrow> and_return m g w = (Panic p, w1)"
  by (simp_all add: and_return_def and_then_def)

text \<open>What a made client takes from its configuration.\<close>

lemma NewRESTClient_made:
  "NewRESTClient env u p gv codec q b l ua w = (Ret (Inr m), w') \<Longrightarrow>
     mc_base m = with_slash u \<and>
     mc_versionedAPIPath m = p \<and> mc_GroupVersion m = gv \<and> mc_UserAgent m = ua"
  by (auto simp: NewRESTClient_def Let_def split: option.splits if_splits prod.splits outcome.splits)

lemma RESTClientFor_made:
  assumes "RESTClientFor env c w = (Ret (Inr m), w')"
  shows "mc_UserAgent m = cf_UserAgent c \<and> cf_GroupVersion c = Some (mc_GroupVersion m) \<and>
    (\<exists>u. defaultServerUrlFor env c = Inr (u, mc_versionedAPIPath m) \<and>
      mc_base m = with_slash u)"
  using assms by (auto simp: RESTClientFor_def Let_def split: option.splits sum.splits dest!: NewRESTClient_made)

lemma typed_made:
  assumes "typed_NewForConfig env gv apiPath c w = (Ret (Inr m), w')" and "cf_UserAgent c \<noteq> []"
  shows "mc_UserAgent m = cf_UserAgent c \<and> mc_GroupVersion m = gv"
  using RESTClientFor_made [OF assms(1) [unfolded typed_NewForConfig_def]] assms(2) by (simp add: setConfigDefaults_def)

lemma discovery_made:
  assumes "NewDiscoveryClientForConfig env c w = (Ret (Inr m), w')" and "cf_UserAgent c \<noteq> []"
  shows "mc_UserAgent m = cf_UserAgent c"
  using assms by (auto simp: NewDiscoveryClientForConfig_def UnversionedRESTClientFor_def setDiscoveryDefaults_def
      split: option.splits sum.splits dest!: NewRESTClient_made)

lemma typed_clients_made:
  "typed_clients env c groups w = (Ret (Inr ms), w') \<Longrightarrow> cf_UserAgent c \<noteq> [] \<Longrightarrow>
     list_all (\<lambda>m. mc_UserAgent m = cf_UserAgent c) ms \<and> map mc_GroupVersion ms = map fst groups"
  by (induction env c groups w arbitrary: ms w' rule: typed_clients.induct)
    (auto simp: chain_simps dest!: typed_made)

lemma share_limiter_frame:
  "share_limiter env c w = (Ret (Inr c'), w') \<Longrightarrow>
     cf_UserAgent c' = cf_UserAgent c \<and> cf_Host c' = cf_Host c \<and> cf_hasCA c' = cf_hasCA c \<and>
     cf_hasCert c' = cf_hasCert c \<and> cf_Insecure c' = cf_Insecure c"
  by (auto simp: share_limiter_def split: if_splits prod.splits outcome.splits)

lemma kubernetes_made:
  assumes "kubernetes_NewForConfig env c w = (Ret (Inr cs), w')" and "cf_UserAgent c \<noteq> []"
  shows "list_all (\<lambda>m. mc_UserAgent m = cf_UserAgent c) (kc_DiscoveryClient cs # kc_typed cs) \<and>
    map mc_GroupVersion (kc_typed cs) = map fst kube_groups"
  using assms by (auto simp: kubernetes_NewForConfig_def chain_simps
      dest!: typed_clients_made discovery_made dest: share_limiter_frame)

lemma versioned_made:
  assumes "versioned_NewForConfig env c w = (Ret (Inr cs), w')" and "cf_UserAgent c \<noteq> []"
  shows "list_all (\<lambda>m. mc_UserAgent m = cf_UserAgent c) [cs_kubeflowV1alpha1 cs, cs_DiscoveryClient cs] \<and>
    mc_GroupVersion (cs_kubeflowV1alpha1 cs) = (GroupName, GroupVersion)"
  using assms by (auto simp: versioned_NewForConfig_def kubeflowv1alpha1_NewForConfig_def chain_simps
      dest!: typed_made discovery_made dest: share_limiter_frame)

text \<open>The address a configuration gives when its host parses as a URL.\<close>

abbreviation server_host :: "config \<Rightarrow> string" where
  "server_host c \<equiv> (if cf_Host c = [] then ''localhost'' else cf_Host c)"

definition versioned_path :: "string \<Rightarrow> string \<times> string \<Rightarrow> string" where
  "versioned_path apiPath gv =
     (if fst gv = [] then path_Join [path_Join [''/'', apiPath], snd gv] else path_Join [path_Join [''/'', apiPath], fst gv, snd gv])"

lemma job_api_path:
  "versioned_path ''/apis'' (GroupName, GroupVersion) = rooted_path [''apis'', GroupName, GroupVersion]"
  by (simp add: versioned_path_def path_Join_def path_Clean_def rooted_path_def GroupName_def GroupVersion_def)

lemma defaultServerUrlFor_usable:
  assumes "ev_Parse env (server_host c) = Inr u" and "ur_Scheme u \<noteq> []" and "ur_Host u \<noteq> []"
  shows "defaultServerUrlFor env c =
    Inr (u, versioned_path (cf_APIPath c) (case cf_GroupVersion c of Some gv \<Rightarrow> gv | None \<Rightarrow> ([], [])))"
proof -
  have "DefaultServerURL env host apiPath gv tls = Inr (u, versioned_path apiPath gv)"
    if "host \<noteq> []" "ev_Parse env host = Inr u" for host apiPath gv tls
    using that assms(2,3) by (simp add: DefaultServerURL_def versioned_path_def Let_def)
  from this [of "server_host c"] show ?thesis using assms(1)
    by (simp only: defaultServerUrlFor_def Let_def) simp
qed

text \<open>The client of jobs, on a server that is not behind a path.\<close>

definition rooted_server :: "host_env \<Rightarrow> config \<Rightarrow> bool" where
  "rooted_server env c \<longleftrightarrow>
     (\<exists>u. ev_Parse env (server_host c) = Inr u \<and>
       ur_Scheme u \<noteq> [] \<and> ur_Host u \<noteq> [] \<and> ur_Path u \<in> {[], ''/''})"

lemma job_client_made:
  assumes "versioned_NewForConfig env c w = (Ret (Inr cs), w')" and "rooted_server env c"
  shows "ur_Path (mc_base (cs_kubeflowV1alpha1 cs)) = ''/'' \<and>
    mc_versionedAPIPath (cs_kubeflowV1alpha1 cs) = rooted_path [''apis'', GroupName, GroupVersion]"
proof -
  obtain c1 w1 w2 where 1: "share_limiter env c w = (Ret (Inr c1), w1)"
    and 2: "RESTClientFor env (setConfigDefaults env (GroupName, GroupVersion) ''/apis'' c1) w1 =
      (Ret (Inr (cs_kubeflowV1alpha1 cs)), w2)"
    using assms(1) by (auto simp: versioned_NewForConfig_def kubeflowv1alpha1_NewForConfig_def
        typed_NewForConfig_def chain_simps)
  obtain u where u: "ev_Parse env (server_host c) = Inr u"
    "ur_Scheme u \<noteq> []" "ur_Host u \<noteq> []" "ur_Path u \<in> {[], ''/''}"
    using assms(2) by (auto simp: rooted_server_def)
  let ?c = "setConfigDefaults env (GroupName, GroupVersion) ''/apis'' c1"
  have c: "server_host ?c = server_host c" "cf_GroupVersion ?c = Some (GroupName, GroupVersion)" "cf_APIPath ?c = ''/apis''"
    using share_limiter_frame [OF 1] by (simp_all add: setConfigDefaults_def)
  have "defaultServerUrlFor env ?c = Inr (u, rooted_path [''apis'', GroupName, GroupVersion])"
    using defaultServerUrlFor_usable [of env ?c u, unfolded c] u(1-3) by (simp add: job_api_path)
  moreover have "ur_Path (with_slash u) = ''/''" using u(4) by (auto simp: with_slash_def suffix_def)
  ultimately show ?thesis using RESTClientFor_made [OF 2] by auto
qed

text \<open>Set-up that meets no error, and the outcome of each client then.\<close>

definition sets_up :: "host_env \<Rightarrow> config \<Rightarrow> bool" where
  "sets_up env c \<longleftrightarrow> rooted_server env c \<and> (\<forall>c. ev_TransportFor env c = None) \<and>
     (\<forall>codec. ev_createSerializers env codec = None) \<and> ev_rate_fits env DefaultQPS \<and> ev_rate_fits env (cf_QPS c)"

lemma NewRESTClient_throttle:
  assumes "ev_createSerializers env codec = None" and "0 < q \<and> l = None \<longrightarrow> 0 < b \<and> ev_rate_fits env q"
  shows "\<exists>m. NewRESTClient env u p gv codec q b l ua w =
      (Ret (Inr m), if 0 < q \<and> l = None then w @ [(q, b)] else w) \<and>
    mc_Throttle m = (if 0 < q \<and> l = None then Some (length w) else l)"
  using assms by (auto simp: NewRESTClient_def NewTokenBucketRateLimiter_def)

lemma typed_throttle:
  fixes c w
  defines "q \<equiv> if cf_QPS c = 0 then DefaultQPS else cf_QPS c" and "b \<equiv> if cf_Burst c = 0 then DefaultBurst else cf_Burst c"
    and "l \<equiv> cf_RateLimiter c"
  assumes "sets_up env c" and "0 < q \<and> l = None \<longrightarrow> 0 < b"
  shows "\<exists>m. typed_NewForConfig env gv apiPath c w =
      (Ret (Inr m), if 0 < q \<and> l = None then w @ [(q, b)] else w) \<and>
    mc_Throttle m = (if 0 < q \<and> l = None then Some (length w) else l)"
proof -
  let ?c = "setConfigDefaults env gv apiPath c"
  obtain u where u: "ev_Parse env (server_host c) = Inr u" "ur_Scheme u \<noteq> []" "ur_Host u \<noteq> []"
    using assms(4) by (auto simp: sets_up_def rooted_server_def)
  have c: "server_host ?c = server_host c" "cf_GroupVersion ?c = Some gv"
    "cf_APIPath ?c = apiPath" "cf_NegotiatedSerializer ?c = Some ''scheme.Codecs''"
    "cf_QPS ?c = cf_QPS c" "cf_Burst ?c = cf_Burst c" "cf_RateLimiter ?c = cf_RateLimiter c"
    by (simp_all add: setConfigDefaults_def)
  have url: "defaultServerUrlFor env ?c = Inr (u, versioned_path apiPath gv)"
    using defaultServerUrlFor_usable [of env ?c u, unfolded c] u by simp
  have "ev_rate_fits env q" using assms(4) by (simp add: q_def sets_up_def)
  then have fits: "0 < q \<and> l = None \<longrightarrow> 0 < b \<and> ev_rate_fits env q" using assms(5) by blast
  have "typed_NewForConfig env gv apiPath c w =
      NewRESTClient env u (versioned_path apiPath gv) gv
        ''scheme.Codecs'' q b l (cf_UserAgent ?c) w"
    using assms(4) by (simp only: typed_NewForConfig_def RESTClientFor_def c url
        q_def b_def l_def) (simp add: sets_up_def)
  moreover have "ev_createSerializers env ''scheme.Codecs'' = None" using assms(4) by (simp add: sets_up_def)
  ultimately show ?thesis using NewRESTClient_throttle [OF _ fits] by simp
qed

lemma discovery_throttle:
  assumes "sets_up env c" and "0 < cf_QPS c \<and> cf_RateLimiter c = None \<longrightarrow> 0 < cf_Burst c"
  shows "\<exists>m. NewDiscoveryClientForConfig env c w =
      (Ret (Inr m), if 0 < cf_QPS c \<and> cf_RateLimiter c = None then w @ [(cf_QPS c, cf_Burst c)] else w) \<and>
    mc_Throttle m = (if 0 < cf_QPS c \<and> cf_RateLimiter c = None then Some (length w) else cf_RateLimiter c)"
proof -
  let ?c = "setDiscoveryDefaults env c"
  obtain u where u: "ev_Parse env (server_host c) = Inr u" "ur_Scheme u \<noteq> []" "ur_Host u \<noteq> []"
    using assms(1) by (auto simp: sets_up_def rooted_server_def)
  have c: "cf_GroupVersion ?c = None" "cf_NegotiatedSerializer ?c = Some ''NoopEncoder''" "server_host ?c = server_host c"
    "cf_QPS ?c = cf_QPS c" "cf_Burst ?c = cf_Burst c" "cf_RateLimiter ?c = cf_RateLimiter c"
    by (simp_all add: setDiscoveryDefaults_def)
  obtain p where url: "defaultServerUrlFor env ?c = Inr (u, p)"
    using defaultServerUrlFor_usable [of env ?c u, unfolded c] u by simp
  have fits: "0 < cf_QPS c \<and> cf_RateLimiter c = None \<longrightarrow> 0 < cf_Burst c \<and> ev_rate_fits env (cf_QPS c)"
    using assms by (auto simp: sets_up_def)
  have "NewDiscoveryClientForConfig env c w =
      NewRESTClient env u p ([], ''v1'') ''NoopEncoder'' (cf_QPS c) (cf_Burst c) (cf_RateLimiter c) (cf_UserAgent ?c) w"
    using assms(1) by (simp only: NewDiscoveryClientForConfig_def UnversionedRESTClientFor_def c url) (simp add: sets_up_def)
  moreover have "ev_createSerializers env ''NoopEncoder'' = None" using assms(1) by (simp add: sets_up_def)
  ultimately show ?thesis using NewRESTClient_throttle [OF _ fits] by simp
qed

text \<open>With neither rate nor limiter, as in a cluster, every typed client makes a bucket of its own.\<close>

lemma typed_clients_unlimited:
  assumes "sets_up env c" and "cf_QPS c = 0" and "cf_Burst c = 0" and "cf_RateLimiter c = None"
  shows "\<exists>ms. typed_clients env c groups w = (Ret (Inr ms), w @ replicate (length groups) (5, 10))"
proof (induction groups arbitrary: w)
  case (Cons g groups)
  obtain gv apiPath where g: "g = (gv, apiPath)" by (cases g)
  obtain m where "typed_NewForConfig env gv apiPath c w = (Ret (Inr m), w @ [(5, 10)])"
    using typed_throttle [OF assms(1), where w = w and gv = gv and apiPath = apiPath] assms(2-4)
    by (auto simp: DefaultQPS_def DefaultBurst_def)
  moreover obtain ms where "typed_clients env c groups (w @ [(5, 10)]) =
      (Ret (Inr ms), (w @ [(5, 10)]) @ replicate (length groups) (5, 10))"
    using Cons.IH [of "w @ [(5, 10)]"] by blast
  ultimately show ?case by (simp add: g)
qed simp

lemma clientsets_unlimited:
  assumes "sets_up env c" and "cf_QPS c = 0" and "cf_Burst c = 0" and "cf_RateLimiter c = None"
  shows "\<exists>cs. kubernetes_NewForConfig env c w = (Ret (Inr cs), w @ replicate (length kube_groups) (5, 10))"
    and "\<exists>cs. versioned_NewForConfig env c w = (Ret (Inr cs), w @ [(5, 10)])"
proof -
  have share: "share_limiter env c w = (Ret (Inr c), w)" for w using assms(2) by (simp add: share_limiter_def)
  have discovery: "\<exists>m. NewDiscoveryClientForConfig env c w = (Ret (Inr m), w)" for w
    using discovery_throttle [OF assms(1), of w] assms(2) by auto
  obtain ms where ms: "typed_clients env c kube_groups w = (Ret (Inr ms), w @ replicate (length kube_groups) (5, 10))"
    using typed_clients_unlimited [OF assms] by blast
  with share discovery [of "w @ replicate (length kube_groups) (5, 10)"]
  show "\<exists>cs. kubernetes_NewForConfig env c w = (Ret (Inr cs), w @ replicate (length kube_groups) (5, 10))"
    by (auto simp: kubernetes_NewForConfig_def)
  obtain m where "kubeflowv1alpha1_NewForConfig env c w = (Ret (Inr m), w @ [(5, 10)])"
    using typed_throttle [OF assms(1), where w = w and gv = "(GroupName, GroupVersion)" and apiPath = "''/apis''"] assms(2-4)
    by (auto simp: kubeflowv1alpha1_NewForConfig_def DefaultQPS_def DefaultBurst_def)
  with share discovery [of "w @ [(5, 10)]"]
  show "\<exists>cs. versioned_NewForConfig env c w = (Ret (Inr cs), w @ [(5, 10)])"
    by (auto simp: versioned_NewForConfig_def)
qed

lemma createClients_unlimited:
  assumes "sets_up env c" and "cf_QPS c = 0" and "cf_Burst c = 0" and "cf_RateLimiter c = None"
  shows "\<exists>clients. createClients env c w = (Ret (Inr clients), w @ replicate 49 (5, 10))"
proof -
  let ?ua = "\<lambda>s. AddUserAgent env c s"
  have up: "sets_up env (?ua s)" "cf_QPS (?ua s) = 0" "cf_Burst (?ua s) = 0" "cf_RateLimiter (?ua s) = None" for s
    using assms by (cases "cf_Host c = []"; simp add: AddUserAgent_def sets_up_def rooted_server_def)+
  have twice: "AddUserAgent env (?ua s) s' = ?ua s'" for s s' by (simp add: AddUserAgent_def)
  let ?n = "length kube_groups"
  obtain k where 1: "kubernetes_NewForConfig env (?ua ''caffe2job_operator'') w = (Ret (Inr k), w @ replicate ?n (5, 10))"
    using clientsets_unlimited(1) [OF up] by blast
  obtain l where 2: "kubernetes_NewForConfig env (?ua ''leader-election'') (w @ replicate ?n (5, 10)) =
      (Ret (Inr l), (w @ replicate ?n (5, 10)) @ replicate ?n (5, 10))"
    using clientsets_unlimited(1) [OF up] by blast
  obtain j where 3: "versioned_NewForConfig env (?ua ''leader-election'') ((w @ replicate ?n (5, 10)) @ replicate ?n (5, 10)) =
      (Ret (Inr j), ((w @ replicate ?n (5, 10)) @ replicate ?n (5, 10)) @ [(5, 10)])"
    using clientsets_unlimited(2) [OF up] by blast
  have "((w @ replicate ?n (5, 10)) @ replicate ?n (5, 10)) @ [(5, 10)] = w @ replicate 49 (5, 10)"
    by (simp add: kube_groups_def numeral_eq_Suc replicate_append_same)
  with 1 2 3 show ?thesis by (auto simp: createClients_def Let_def twice)
qed

text \<open>
  Without a rate of its own, or with a limiter, a configuration gives the same clientset either way; with a rate the
  variant that panics leaves the two clients with a bucket each, and the server with twice the requests.
\<close>

lemma NewForConfigOrDie_agrees:
  assumes "cf_RateLimiter c \<noteq> None \<or> cf_QPS c \<le> 0"
  shows "versioned_NewForConfigOrDie env c = or_die (versioned_NewForConfig env c)"
proof
  fix w
  have "share_limiter env c w = (Ret (Inr c), w)" using assms by (auto simp: share_limiter_def)
  then show "versioned_NewForConfigOrDie env c w = or_die (versioned_NewForConfig env c) w"
    by (simp add: versioned_NewForConfigOrDie_def versioned_NewForConfig_def kubeflowv1alpha1_NewForConfigOrDie_def
        NewDiscoveryClientForConfigOrDie_def and_return_def and_then_def then_die_def or_die_def
        split: prod.split outcome.split sum.split)
qed

lemma NewForConfigOrDie_limits:
  assumes "sets_up env c" and "cf_RateLimiter c = None" and "0 < cf_QPS c" and "0 < cf_Burst c"
  shows "\<exists>cs. versioned_NewForConfigOrDie env c w = (Ret cs, w @ replicate 2 (cf_QPS c, cf_Burst c)) \<and>
    mc_Throttle (cs_kubeflowV1alpha1 cs) = Some (length w) \<and> mc_Throttle (cs_DiscoveryClient cs) = Some (Suc (length w))"
proof -
  let ?w = "w @ [(cf_QPS c, cf_Burst c)]"
  obtain m m' where "kubeflowv1alpha1_NewForConfig env c w = (Ret (Inr m), ?w)" "mc_Throttle m = Some (length w)"
    "NewDiscoveryClientForConfig env c ?w = (Ret (Inr m'), ?w @ [(cf_QPS c, cf_Burst c)])" "mc_Throttle m' = Some (length ?w)"
    using typed_throttle [OF assms(1), where w = w and gv = "(GroupName, GroupVersion)" and apiPath = "''/apis''"]
      discovery_throttle [OF assms(1), of ?w] assms(2-4) by (auto simp: kubeflowv1alpha1_NewForConfig_def)
  then show ?thesis
    by (simp add: versioned_NewForConfigOrDie_def kubeflowv1alpha1_NewForConfigOrDie_def NewDiscoveryClientForConfigOrDie_def
        then_die_def or_die_def numeral_2_eq_2)
qed

lemma kube_groups_length: "length kube_groups = 24"
  by (simp add: kube_groups_def)

section \<open>Properties\<close>

text \<open>A server at a plain address, for the witnesses.\<close>

definition plain_env :: host_env where
  "plain_env = \<lparr>ev_Parse = (\<lambda>s. Inr \<lparr>ur_Scheme = ''https'', ur_Host = s, ur_Path = []\<rparr>), ev_TransportFor = (\<lambda>_. None),
     ev_createSerializers = (\<lambda>_. None), ev_UserAgent = ''caffe2-operator'', ev_rate_fits = (\<lambda>_. True)\<rparr>"

definition cluster_config :: config where
  "cluster_config = \<lparr>cf_Host = ''https://10.0.0.1:443'', cf_APIPath = [], cf_GroupVersion = None,
     cf_NegotiatedSerializer = None, cf_hasCA = True, cf_hasCert = False, cf_Insecure = False, cf_BearerToken = ''token'', cf_UserAgent = [],
     cf_QPS = 0, cf_Burst = 0, cf_RateLimiter = None\<rparr>"

lemma cluster_sets_up: "sets_up plain_env cluster_config"
  by (simp add: sets_up_def rooted_server_def plain_env_def cluster_config_def)

text \<open>
  When \<open>createClients\<close> returns clients, every client of the Kubernetes clientset of the controller
  runs under the user agent \<open>caffe2job_operator\<close>, one per API group in the order of the code, and every
  client of the leader-election clientset under \<open>leader-election\<close>; the client of jobs runs under
  \<open>leader-election\<close> as well, because \<open>AddUserAgent\<close> has written into the shared configuration.
\<close>

theorem createClients_user_agents:
  assumes "createClients env config w = (Ret (Inr (kubeClient, leaderElectionClient, jobClient)), w')"
  shows "list_all (\<lambda>m. mc_UserAgent m = ev_UserAgent env @ ''/caffe2job_operator'')
      (kc_DiscoveryClient kubeClient # kc_typed kubeClient) \<and>
    map mc_GroupVersion (kc_typed kubeClient) = map fst kube_groups \<and>
    list_all (\<lambda>m. mc_UserAgent m = ev_UserAgent env @ ''/leader-election'')
      (kc_DiscoveryClient leaderElectionClient # kc_typed leaderElectionClient) \<and>
    list_all (\<lambda>m. mc_UserAgent m = ev_UserAgent env @ ''/leader-election'')
      [cs_kubeflowV1alpha1 jobClient, cs_DiscoveryClient jobClient] \<and>
    mc_GroupVersion (cs_kubeflowV1alpha1 jobClient) = (GroupName, GroupVersion)"
proof -
  let ?c1 = "AddUserAgent env config ''caffe2job_operator''" and ?c2 = "AddUserAgent env config ''leader-election''"
  have twice: "AddUserAgent env ?c1 ''leader-election'' = ?c2" by (simp add: AddUserAgent_def)
  have ua: "cf_UserAgent ?c1 = ev_UserAgent env @ ''/caffe2job_operator''"
    "cf_UserAgent ?c2 = ev_UserAgent env @ ''/leader-election''"
    by (simp_all add: AddUserAgent_def)
  obtain w1 w2 where "kubernetes_NewForConfig env ?c1 w = (Ret (Inr kubeClient), w1)"
    "kubernetes_NewForConfig env ?c2 w1 = (Ret (Inr leaderElectionClient), w2)"
    "versioned_NewForConfig env ?c2 w2 = (Ret (Inr jobClient), w')"
    using assms by (auto simp: createClients_def Let_def twice chain_simps)
  from kubernetes_made [OF this(1)] kubernetes_made [OF this(2)] versioned_made [OF this(3)] show ?thesis
    by (simp add: ua)
qed

text \<open>The witness runs \<open>createClients\<close>: 24 typed clients twice and one client of jobs, with a bucket each.\<close>

lemma cluster_clients:
  "case createClients plain_env cluster_config [] of (r, w) \<Rightarrow>
     length w = 49 \<and> (case r of Ret (Inr _) \<Rightarrow> True | _ \<Rightarrow> False)"
  by code_simp

theorem createClients_user_agents_witness:
  "\<exists>kube leader jobs w. createClients plain_env cluster_config [] = (Ret (Inr (kube, leader, jobs)), w) \<and>
     length (kc_typed kube) = 24 \<and>
     mc_UserAgent (cs_kubeflowV1alpha1 jobs) = ''caffe2-operator/leader-election''"
proof -
  obtain kube leader jobs w where made: "createClients plain_env cluster_config [] = (Ret (Inr (kube, leader, jobs)), w)"
    using cluster_clients by (auto split: prod.splits outcome.splits sum.splits)
  from createClients_user_agents [OF this]
  have "map mc_GroupVersion (kc_typed kube) = map fst kube_groups"
    and ua: "mc_UserAgent (cs_kubeflowV1alpha1 jobs) = ''caffe2-operator/leader-election''"
    by (simp_all add: plain_env_def)
  then have "length (kc_typed kube) = 24" by (metis length_map kube_groups_length)
  with made ua show ?thesis by blast
qed

text \<open>
  The limits of the job clientset, when nothing in its set-up fails. With a positive rate and burst
  one bucket is made and both clients take from it. With a rate of zero the client of jobs gets a bucket
  of its own, of 5 requests per second and (burst zero) 10 at once, and the discovery client none. With a
  positive rate and the burst left at zero the default burst is not applied: the constructor panics.
\<close>

theorem versioned_NewForConfig_limits:
  assumes "sets_up env c" and "cf_RateLimiter c = None"
  shows "(0 < cf_QPS c \<and> 0 < cf_Burst c \<longrightarrow>
      (\<exists>cs. versioned_NewForConfig env c w = (Ret (Inr cs), w @ [(cf_QPS c, cf_Burst c)]) \<and>
        mc_Throttle (cs_kubeflowV1alpha1 cs) = Some (length w) \<and> mc_Throttle (cs_DiscoveryClient cs) = Some (length w))) \<and>
    (0 < cf_QPS c \<and> cf_Burst c \<le> 0 \<longrightarrow> versioned_NewForConfig env c w = (Panic ExplicitPanic, w)) \<and>
    (cf_QPS c = 0 \<and> cf_Burst c = 0 \<longrightarrow>
      (\<exists>cs. versioned_NewForConfig env c w = (Ret (Inr cs), w @ [(5, 10)]) \<and>
        mc_Throttle (cs_kubeflowV1alpha1 cs) = Some (length w) \<and> mc_Throttle (cs_DiscoveryClient cs) = None))"
proof (intro conjI impI)
  assume pos: "0 < cf_QPS c \<and> 0 < cf_Burst c"
  let ?c = "c\<lparr>cf_RateLimiter := Some (length w)\<rparr>" and ?w = "w @ [(cf_QPS c, cf_Burst c)]"
  have share: "share_limiter env c w = (Ret (Inr ?c), ?w)"
    using assms pos by (simp add: share_limiter_def NewTokenBucketRateLimiter_def sets_up_def)
  have up: "sets_up env ?c" using assms(1) by (cases "cf_Host c = []") (simp_all add: sets_up_def rooted_server_def)
  obtain m m' where "kubeflowv1alpha1_NewForConfig env ?c ?w = (Ret (Inr m), ?w)" "mc_Throttle m = Some (length w)"
    "NewDiscoveryClientForConfig env ?c ?w = (Ret (Inr m'), ?w)" "mc_Throttle m' = Some (length w)"
    using typed_throttle [OF up, where w = ?w and gv = "(GroupName, GroupVersion)" and apiPath = "''/apis''"] discovery_throttle [OF up, of ?w]
    by (auto simp: kubeflowv1alpha1_NewForConfig_def)
  with share show "\<exists>cs. versioned_NewForConfig env c w = (Ret (Inr cs), ?w) \<and>
        mc_Throttle (cs_kubeflowV1alpha1 cs) = Some (length w) \<and> mc_Throttle (cs_DiscoveryClient cs) = Some (length w)"
    by (simp add: versioned_NewForConfig_def kubeflowv1alpha1_NewForConfig_def)
next
  assume "0 < cf_QPS c \<and> cf_Burst c \<le> 0"
  then have "share_limiter env c w = (Panic ExplicitPanic, w)"
    using assms(2) by (simp add: share_limiter_def NewTokenBucketRateLimiter_def)
  then show "versioned_NewForConfig env c w = (Panic ExplicitPanic, w)"
    by (simp add: versioned_NewForConfig_def)
next
  assume zero: "cf_QPS c = 0 \<and> cf_Burst c = 0"
  have share: "share_limiter env c w = (Ret (Inr c), w)" using zero by (simp add: share_limiter_def)
  obtain m m' where "kubeflowv1alpha1_NewForConfig env c w = (Ret (Inr m), w @ [(5, 10)])" "mc_Throttle m = Some (length w)"
    "NewDiscoveryClientForConfig env c (w @ [(5, 10)]) = (Ret (Inr m'), w @ [(5, 10)])" "mc_Throttle m' = None"
    using typed_throttle [OF assms(1), where w = w and gv = "(GroupName, GroupVersion)" and apiPath = "''/apis''"]
      discovery_throttle [OF assms(1), of "w @ [(5, 10)]"] assms(2) zero
    by (auto simp: kubeflowv1alpha1_NewForConfig_def DefaultQPS_def DefaultBurst_def)
  with share show "\<exists>cs. versioned_NewForConfig env c w = (Ret (Inr cs), w @ [(5, 10)]) \<and>
        mc_Throttle (cs_kubeflowV1alpha1 cs) = Some (length w) \<and> mc_Throttle (cs_DiscoveryClient cs) = None"
    by (simp add: versioned_NewForConfig_def kubeflowv1alpha1_NewForConfig_def)
qed

theorem versioned_NewForConfig_limits_witness:
  "versioned_NewForConfig plain_env (cluster_config\<lparr>cf_QPS := 20\<rparr>) [] = (Panic ExplicitPanic, []) \<and>
   snd (versioned_NewForConfig plain_env cluster_config []) = [(5, 10)]"
proof
  have "sets_up plain_env (cluster_config\<lparr>cf_QPS := 20\<rparr>)"
    by (simp add: sets_up_def rooted_server_def plain_env_def cluster_config_def)
  from versioned_NewForConfig_limits [OF this, of "[]"]
  show "versioned_NewForConfig plain_env (cluster_config\<lparr>cf_QPS := 20\<rparr>) [] = (Panic ExplicitPanic, [])"
    by (simp add: cluster_config_def)
  from versioned_NewForConfig_limits [OF cluster_sets_up, of "[]"]
  show "snd (versioned_NewForConfig plain_env cluster_config []) = [(5, 10)]"
    by (auto simp: cluster_config_def)
qed

text \<open>
  A client of jobs made from a configuration reaches the jobs' path of the API server: with a server
  that is not behind a path prefix, a \<open>Get\<close> of a well-formed namespace and name through it sends one GET
  to \<open>/apis/kubeflow.org/v1alpha1/namespaces/NS/caffe2jobs/NAME\<close>.
\<close>

theorem configured_client_reaches_job:
  assumes "versioned_NewForConfig env c w = (Ret (Inr cs), w')" and "rooted_server env c"
    and "cl_basePath rc = ur_Path (mc_base (cs_kubeflowV1alpha1 cs))"
    and "cl_versionedAPIPath rc = mc_versionedAPIPath (cs_kubeflowV1alpha1 cs)"
    and "cl_encode_get rc options = Inr q" and "addressable ns" and "addressable name"
  shows "Jobs_Get rc ns name options world =
    into_result (cl_decode_job rc) (cl_exchange rc ''GET''
      (''/apis/kubeflow.org/v1alpha1/namespaces/'' @ ns @ ''/caffe2jobs/'' @ name) (append_params q []) None world)"
proof -
  have client: "job_client rc" using job_client_made [OF assms(1,2)] assms(3,4) by (simp add: job_client_def)
  have "job_path ns [name] = ''/apis/kubeflow.org/v1alpha1/namespaces/'' @ ns @ ''/caffe2jobs/'' @ name"
    by (simp add: job_path_def rooted_path_def GroupName_def GroupVersion_def)
  then show ?thesis using assms(6,7)
    by (auto simp: Jobs_Get_def assms(5) chained fresh_request Do_sent [OF client])
qed

theorem configured_client_reaches_job_witness:
  "\<exists>cs w. versioned_NewForConfig plain_env cluster_config [] = (Ret (Inr cs), w) \<and>
     Jobs_Get (echo_client\<lparr>cl_versionedAPIPath := mc_versionedAPIPath (cs_kubeflowV1alpha1 cs)\<rparr>) ''ns'' ''job'' [] [] =
       (Inr sample_job, [(''GET'', ''/apis/kubeflow.org/v1alpha1/namespaces/ns/caffe2jobs/job'')])"
proof -
  have "case versioned_NewForConfig plain_env cluster_config [] of (r, w) \<Rightarrow> (case r of Ret (Inr _) \<Rightarrow> True | _ \<Rightarrow> False)"
    by code_simp
  then obtain cs w where made: "versioned_NewForConfig plain_env cluster_config [] = (Ret (Inr cs), w)"
    by (auto split: prod.splits outcome.splits sum.splits)
  have server: "rooted_server plain_env cluster_config" using cluster_sets_up by (simp add: sets_up_def)
  let ?rc = "echo_client\<lparr>cl_versionedAPIPath := mc_versionedAPIPath (cs_kubeflowV1alpha1 cs)\<rparr>"
  have rc: "cl_basePath ?rc = ur_Path (mc_base (cs_kubeflowV1alpha1 cs))"
    "cl_versionedAPIPath ?rc = mc_versionedAPIPath (cs_kubeflowV1alpha1 cs)" "cl_encode_get ?rc [] = Inr []"
    using job_client_made [OF made server] by (simp_all add: echo_client_def)
  have a: "addressable ''ns''" "addressable ''job''" by (simp_all add: addressable_def IsValidPathSegmentName_def)
  from configured_client_reaches_job [OF made server rc a, of "[]"] made show ?thesis
    by (auto simp: into_result_def echo_client_def append_params_def)
qed

end
