(* ===== verification/Startup.thy ===== *)
theory Startup
  imports ClientConfig Utilities
begin

text \<open>
  How the operator process starts: the options of cmd/caffe2-operator/app/options, \<open>Run\<close> of
  cmd/caffe2-operator/app/server.go up to the call of the leader election, \<open>main\<close>, the cluster
  configuration and the clients of pkg/util/k8sutil and the version report of version/. The environment variables are
  part of the state, as the code sets some of them; an unset one reads as the empty string. Arguments
  (record \<open>process_env\<close>) are name resolution, reading a kubeconfig file, the service account's files,
  the host name and what the Go runtime reports of itself.
\<close>

section \<open>Options\<close>

record ServerOption =
  so_ChaosLevel :: int
  so_ControllerConfigFile :: string
  so_PrintVersion :: bool
  so_GCInterval :: int
  so_SchedulerName :: string

definition NewServerOption :: ServerOption where
  "NewServerOption = \<lparr>so_ChaosLevel = 0, so_ControllerConfigFile = [], so_PrintVersion = False, so_GCInterval = 0,
     so_SchedulerName = []\<rparr>"

datatype flag_default = IntVar int | BoolVar bool | DurationVar int | StringVar string

text \<open>\<open>AddFlags\<close> registers the flags and sets each variable to its default.\<close>

definition server_flags :: "(string \<times> flag_default) list" where
  "server_flags =
     [(''chaos-level'', IntVar (-1)), (''version'', BoolVar False), (''gc-interval'', DurationVar (10 * 60 * 10 ^ 9)),
      (''controller-config-file'', StringVar []), (''scheduler-name'', StringVar ''default-scheduler'')]"

fun set_flag :: "string \<times> flag_default \<Rightarrow> ServerOption \<Rightarrow> ServerOption" where
  "set_flag (name, IntVar n) s = (if name = ''chaos-level'' then s\<lparr>so_ChaosLevel := n\<rparr> else s)"
| "set_flag (name, BoolVar b) s = (if name = ''version'' then s\<lparr>so_PrintVersion := b\<rparr> else s)"
| "set_flag (name, DurationVar d) s = (if name = ''gc-interval'' then s\<lparr>so_GCInterval := d\<rparr> else s)"
| "set_flag (name, StringVar v) s =
     (if name = ''controller-config-file'' then s\<lparr>so_ControllerConfigFile := v\<rparr>
      else if name = ''scheduler-name'' then s\<lparr>so_SchedulerName := v\<rparr> else s)"

definition AddFlags :: "ServerOption \<Rightarrow> ServerOption" where
  "AddFlags s = fold set_flag server_flags s"

section \<open>The cluster configuration\<close>

type_synonym env_vars = "string \<Rightarrow> string"

record process_env =
  pe_LookupHost :: "string \<Rightarrow> go_error + string list"
  pe_BuildConfigFromFlags :: "string \<Rightarrow> go_error + config"
  pe_ReadToken :: "go_error + string"
  pe_rootCA :: "go_error option"
  pe_Hostname :: "go_error + string"
  pe_goVersion :: string
  pe_goOS :: string
  pe_goArch :: string

definition os_Setenv :: "string \<Rightarrow> string \<Rightarrow> env_vars \<Rightarrow> go_error option \<times> env_vars" where
  "os_Setenv key v env =
     (if key = [] \<or> CHR ''='' \<in> set key \<or> CHR 0x00 \<in> set key \<or> CHR 0x00 \<in> set v
      then (Some (Errorf ''setenv: invalid argument'' [] []), env) else (None, env(key := v)))"

definition JoinHostPort :: "string \<Rightarrow> string \<Rightarrow> string" where
  "JoinHostPort host port =
     (if CHR '':'' \<in> set host \<or> CHR ''%'' \<in> set host then ''['' @ host @ '']:'' @ port else host @ '':'' @ port)"

definition InClusterConfig :: "process_env \<Rightarrow> env_vars \<Rightarrow> go_error + config" where
  "InClusterConfig pe env =
     (let host = env ''KUBERNETES_SERVICE_HOST''; port = env ''KUBERNETES_SERVICE_PORT'' in
      if length host = 0 \<or> length port = 0
      then Inl (Errorf ''unable to load in-cluster configuration, KUBERNETES_SERVICE_HOST and KUBERNETES_SERVICE_PORT must be defined'' [] [])
      else (case pe_ReadToken pe of
              Inl err \<Rightarrow> Inl err
            | Inr token \<Rightarrow>
                Inr \<lparr>cf_Host = ''https://'' @ JoinHostPort host port, cf_APIPath = [], cf_GroupVersion = None,
                  cf_NegotiatedSerializer = None, cf_hasCA = (pe_rootCA pe = None), cf_hasCert = False,
                  cf_Insecure = False, cf_BearerToken = token, cf_UserAgent = [], cf_QPS = 0, cf_Burst = 0,
                  cf_RateLimiter = None\<rparr>))"

text \<open>The two workarounds of \<open>GetClusterConfig\<close> for variables that are not set.\<close>

definition ensure_service_host :: "process_env \<Rightarrow> (env_vars, go_error option) action" where
  "ensure_service_host pe env =
     (if length (env ''KUBERNETES_SERVICE_HOST'') = 0 then
        (case pe_LookupHost pe ''kubernetes.default.svc'' of
           Inl err \<Rightarrow> (Panic ExplicitPanic, env)
         | Inr [] \<Rightarrow> (Panic SliceBounds, env)
         | Inr (addr # _) \<Rightarrow>
             (case os_Setenv ''KUBERNETES_SERVICE_HOST'' addr env of (err, env') \<Rightarrow> (Ret err, env')))
      else (Ret None, env))"

definition ensure_service_port :: "(env_vars, unit) action" where
  "ensure_service_port env =
     (if length (env ''KUBERNETES_SERVICE_PORT'') = 0 then
        (case os_Setenv ''KUBERNETES_SERVICE_PORT'' ''443'' env of
           (Some err, env') \<Rightarrow> (Panic ExplicitPanic, env')
         | (None, env') \<Rightarrow> (Ret (), env'))
      else (Ret (), env))"

definition RecommendedConfigPathEnvVar :: string where "RecommendedConfigPathEnvVar = ''KUBECONFIG''"

definition GetClusterConfig :: "process_env \<Rightarrow> string \<Rightarrow> (env_vars, go_error + config) action" where
  "GetClusterConfig pe f env =
     (if f \<noteq> [] then (Ret (pe_BuildConfigFromFlags pe f), env)
      else if 0 < length (env RecommendedConfigPathEnvVar)
        then (Ret (pe_BuildConfigFromFlags pe (env RecommendedConfigPathEnvVar)), env)
      else (case ensure_service_host pe env of
              (Panic p, env1) \<Rightarrow> (Panic p, env1)
            | (Ret (Some err), env1) \<Rightarrow> (Ret (Inl err), env1)
            | (Ret None, env1) \<Rightarrow>
                (case ensure_service_port env1 of
                   (Panic p, env2) \<Rightarrow> (Panic p, env2)
                 | (Ret _, env2) \<Rightarrow> (Ret (InClusterConfig pe env2), env2))))"

text \<open>\<open>log.Fatal\<close> ends the process; the result is then \<open>None\<close>.\<close>

definition must_new ::
  "process_env \<Rightarrow> (config \<Rightarrow> (buckets, 'a) action) \<Rightarrow> (env_vars \<times> buckets, 'a option) action" where
  "must_new pe new_client s =
     (case s of (env, w) \<Rightarrow>
        (case GetClusterConfig pe [] env of
           (Panic p, env1) \<Rightarrow> (Panic p, (env1, w))
         | (Ret (Inl err), env1) \<Rightarrow> (Ret None, (env1, w))
         | (Ret (Inr cfg), env1) \<Rightarrow>
             (case new_client cfg w of
                (Panic p, w1) \<Rightarrow> (Panic p, (env1, w1))
              | (Ret client, w1) \<Rightarrow> (Ret (Some client), (env1, w1)))))"

definition MustNewKubeClient :: "host_env \<Rightarrow> process_env \<Rightarrow> (env_vars \<times> buckets, kube_clientset option) action" where
  "MustNewKubeClient he pe = must_new pe (kubernetes_NewForConfigOrDie he)"

definition MustNewApiExtensionsClient ::
  "host_env \<Rightarrow> process_env \<Rightarrow> (env_vars \<times> buckets, apiextensions_clientset option) action" where
  "MustNewApiExtensionsClient he pe = must_new pe (apiextensions_NewForConfigOrDie he)"

definition CascadeDeleteOptions :: "int \<Rightarrow> DeleteOptions" where
  "CascadeDeleteOptions gracePeriodSeconds =
     \<lparr>dl_GracePeriodSeconds = Some gracePeriodSeconds, dl_PropagationPolicy = Some ''Foreground''\<rparr>"

section \<open>Running the server\<close>

abbreviation version_Version :: string where "version_Version \<equiv> ''0.0.1+git''"
abbreviation version_GitSHA :: string where "version_GitSHA \<equiv> ''Not provided.''"

definition version_Info :: "process_env \<Rightarrow> string list" where
  "version_Info pe =
     [''Version: '' @ version_Version, ''Git SHA: '' @ version_GitSHA, ''Go Version: '' @ pe_goVersion pe,
      ''Go OS/Arch: '' @ pe_goOS pe @ ''/'' @ pe_goArch pe]"

record election_config =
  ec_Namespace :: string
  ec_Name :: string
  ec_Identity :: string
  ec_LeaseDuration :: int
  ec_RenewDeadline :: int
  ec_RetryPeriod :: int

definition leaseDuration :: int where "leaseDuration = 15 * 10 ^ 9"
definition renewDuration :: int where "renewDuration = 5 * 10 ^ 9"
definition retryPeriod :: int where "retryPeriod = 3 * 10 ^ 9"

text \<open>
  \<open>NewLeaderElector\<close>; 1.2 is \<open>JitterFactor\<close>, the product is exact here and converts to a duration by
  truncation, and the lock is never nil.
\<close>

definition NewLeaderElector :: "election_config \<Rightarrow> go_error + election_config" where
  "NewLeaderElector lec =
     (if ec_LeaseDuration lec \<le> ec_RenewDeadline lec
        then Inl (Errorf ''leaseDuration must be greater than renewDeadline'' [] [])
      else if ec_RenewDeadline lec \<le> (if ec_RetryPeriod lec < 0 then - (- 12 * ec_RetryPeriod lec div 10) else 12 * ec_RetryPeriod lec div 10)
        then Inl (Errorf ''renewDeadline must be greater than retryPeriod*JitterFactor'' [] [])
      else Inr lec)"

text \<open>
  Where \<open>Run\<close> gets to: it returns an error, it ends the process after printing the version, or it
  campaigns for leadership with its clients, which it only leaves by ending the process.
\<close>

datatype server_state =
    RunFailed go_error
  | VersionPrinted "string list"
  | Campaigning election_config kube_clientset clientset

definition PrintVersionAndExit :: "process_env \<Rightarrow> server_state" where [simp]:
  "PrintVersionAndExit pe = VersionPrinted (version_Info pe)"

text \<open>
  \<open>Run\<close>; \<open>new_controller\<close> is the error of \<open>controller.New\<close>, which returns none in this repository. The
  state is the environment and the rate limiters made.
\<close>

definition server_Run ::
  "host_env \<Rightarrow> process_env \<Rightarrow> go_error option \<Rightarrow> ServerOption \<Rightarrow> (env_vars \<times> buckets, server_state) action" where
  "server_Run he pe new_controller opt s =
     (case s of (env, w) \<Rightarrow>
        let namespace =
              (if length (env ''KUBEFLOW_NAMESPACE'') = 0 then ''default'' else env ''KUBEFLOW_NAMESPACE'') in
        if so_PrintVersion opt then (Ret (PrintVersionAndExit pe), s)
        else (case GetClusterConfig pe (so_ControllerConfigFile opt) env of
          (Panic p, env1) \<Rightarrow> (Panic p, (env1, w))
        | (Ret (Inl err), env1) \<Rightarrow> (Ret (RunFailed err), (env1, w))
        | (Ret (Inr config), env1) \<Rightarrow>
            (case createClients he config w of
               (Panic p, w1) \<Rightarrow> (Panic p, (env1, w1))
             | (Ret (Inl err), w1) \<Rightarrow> (Ret (RunFailed err), (env1, w1))
             | (Ret (Inr (kubeClient, leaderElectionClient, jobClient)), w1) \<Rightarrow>
                 (case new_controller of
                    Some err \<Rightarrow> (Ret (RunFailed err), (env1, w1))
                  | None \<Rightarrow>
                      (case pe_Hostname pe of
                         Inl err \<Rightarrow> (Ret (RunFailed (Errorf ''Failed to get hostname: %v'' [] [err])), (env1, w1))
                       | Inr hostname \<Rightarrow>
                           (case NewLeaderElector
                                   \<lparr>ec_Namespace = namespace, ec_Name = ''caffe2-operator'', ec_Identity = hostname,
                                    ec_LeaseDuration = leaseDuration, ec_RenewDeadline = renewDuration,
                                    ec_RetryPeriod = retryPeriod\<rparr> of
                              Inl err \<Rightarrow> (Panic ExplicitPanic, (env1, w1))
                            | Inr lec \<Rightarrow> (Ret (Campaigning lec leaderElectionClient jobClient), (env1, w1))))))))"

text \<open>\<open>main\<close>: the exit code, where the process ends; \<open>parse\<close> is \<open>flag.Parse\<close> on the options with their defaults.\<close>

definition server_main ::
  "host_env \<Rightarrow> process_env \<Rightarrow> (ServerOption \<Rightarrow> ServerOption) \<Rightarrow> (env_vars \<times> buckets, int option) action" where
  "server_main he pe parse s =
     (case server_Run he pe None (parse (AddFlags NewServerOption)) s of
        (Panic p, s') \<Rightarrow> (Panic p, s')
      | (Ret (RunFailed err), s') \<Rightarrow> (Ret (Some 1), s')
      | (Ret (VersionPrinted info), s') \<Rightarrow> (Ret (Some 0), s')
      | (Ret (Campaigning lec kube jobs), s') \<Rightarrow> (Ret None, s'))"

section \<open>Lemmas\<close>

lemmas service_vars = ensure_service_host_def ensure_service_port_def os_Setenv_def

lemma service_host_outcome:
  "env ''KUBERNETES_SERVICE_HOST'' \<noteq> [] \<Longrightarrow> ensure_service_host pe env = (Ret None, env)"
  "env ''KUBERNETES_SERVICE_HOST'' = [] \<Longrightarrow> pe_LookupHost pe ''kubernetes.default.svc'' = Inr (addr # addrs) \<Longrightarrow>
     CHR 0x00 \<notin> set addr \<Longrightarrow>
     ensure_service_host pe env = (Ret None, env(''KUBERNETES_SERVICE_HOST'' := addr))"
  "env ''KUBERNETES_SERVICE_HOST'' = [] \<Longrightarrow> pe_LookupHost pe ''kubernetes.default.svc'' = Inl err \<Longrightarrow>
     ensure_service_host pe env = (Panic ExplicitPanic, env)"
  by (simp_all add: service_vars)

lemma service_port_outcome:
  "ensure_service_port env = (Ret (), if env ''KUBERNETES_SERVICE_PORT'' = [] then env(''KUBERNETES_SERVICE_PORT'' := ''443'') else env)"
  by (simp add: service_vars)

lemma NewLeaderElector_accepts:
  "NewLeaderElector \<lparr>ec_Namespace = ns, ec_Name = n, ec_Identity = i, ec_LeaseDuration = leaseDuration,
     ec_RenewDeadline = renewDuration, ec_RetryPeriod = retryPeriod\<rparr> =
   Inr \<lparr>ec_Namespace = ns, ec_Name = n, ec_Identity = i, ec_LeaseDuration = leaseDuration,
     ec_RenewDeadline = renewDuration, ec_RetryPeriod = retryPeriod\<rparr>"
  by (simp add: NewLeaderElector_def leaseDuration_def renewDuration_def retryPeriod_def)

text \<open>The configuration found in a pod.\<close>

lemma in_cluster:
  assumes "env ''KUBECONFIG'' = []"
    and "env ''KUBERNETES_SERVICE_HOST'' = [] \<longrightarrow>
      pe_LookupHost pe ''kubernetes.default.svc'' = Inr (addr # addrs) \<and> addr \<noteq> [] \<and> CHR 0x00 \<notin> set addr"
  shows "\<exists>env'. GetClusterConfig pe [] env = (Ret (InClusterConfig pe env'), env') \<and> env' ''KUBECONFIG'' = [] \<and>
    env' ''KUBERNETES_SERVICE_HOST'' =
      (if env ''KUBERNETES_SERVICE_HOST'' = [] then addr else env ''KUBERNETES_SERVICE_HOST'') \<and>
    env' ''KUBERNETES_SERVICE_HOST'' \<noteq> [] \<and>
    env' ''KUBERNETES_SERVICE_PORT'' =
      (if env ''KUBERNETES_SERVICE_PORT'' = [] then ''443'' else env ''KUBERNETES_SERVICE_PORT'') \<and>
    env' ''KUBERNETES_SERVICE_PORT'' \<noteq> []"
proof -
  obtain env1 where 1: "ensure_service_host pe env = (Ret None, env1)" "env1 ''KUBECONFIG'' = []"
    "env1 ''KUBERNETES_SERVICE_HOST'' =
      (if env ''KUBERNETES_SERVICE_HOST'' = [] then addr else env ''KUBERNETES_SERVICE_HOST'')"
    "env1 ''KUBERNETES_SERVICE_HOST'' \<noteq> []" "env1 ''KUBERNETES_SERVICE_PORT'' = env ''KUBERNETES_SERVICE_PORT''"
    using service_host_outcome(1,2) [of env pe] assms by (cases "env ''KUBERNETES_SERVICE_HOST'' = []") auto
  then show ?thesis using assms(1)
    by (cases "env ''KUBERNETES_SERVICE_PORT'' = []")
      (simp_all add: GetClusterConfig_def RecommendedConfigPathEnvVar_def service_port_outcome)
qed

lemma InClusterConfig_set:
  assumes "env ''KUBERNETES_SERVICE_HOST'' \<noteq> []" and "env ''KUBERNETES_SERVICE_PORT'' \<noteq> []"
  shows "case InClusterConfig pe env of
       Inl err \<Rightarrow> pe_ReadToken pe = Inl err
     | Inr c \<Rightarrow> cf_Host c = ''https://'' @ JoinHostPort (env ''KUBERNETES_SERVICE_HOST'') (env ''KUBERNETES_SERVICE_PORT'') \<and>
         cf_QPS c = 0 \<and> cf_Burst c = 0 \<and> cf_RateLimiter c = None"
  using assms by (simp add: InClusterConfig_def Let_def split: sum.split)

section \<open>Properties\<close>

text \<open>The environment a pod without the service variables starts with.\<close>

definition pod_env :: process_env where
  "pod_env = \<lparr>pe_LookupHost = (\<lambda>_. Inr [''10.0.0.1'']), pe_BuildConfigFromFlags = (\<lambda>_. Inl (Errorf ''no file'' [] [])),
     pe_ReadToken = Inr ''token'', pe_rootCA = None, pe_Hostname = Inr ''operator-0'', pe_goVersion = ''go1.9'',
     pe_goOS = ''linux'', pe_goArch = ''amd64''\<rparr>"

text \<open>
  Without a configuration file and \<open>KUBECONFIG\<close>, and with a service host in the environment or one
  that resolves, \<open>GetClusterConfig\<close> does not panic; it leaves a host and a port in the environment, the
  ones that were set or else the first address resolved and 443, and gives the in-cluster configuration
  for exactly these, or the error of reading the token; asking again changes nothing and needs no name
  resolution.
\<close>

theorem GetClusterConfig_in_cluster:
  assumes "env ''KUBECONFIG'' = []"
    and "env ''KUBERNETES_SERVICE_HOST'' = [] \<longrightarrow>
      pe_LookupHost pe ''kubernetes.default.svc'' = Inr (addr # addrs) \<and> addr \<noteq> [] \<and> CHR 0x00 \<notin> set addr"
  shows "\<exists>env'. GetClusterConfig pe [] env = (Ret (InClusterConfig pe env'), env') \<and>
    env' ''KUBERNETES_SERVICE_HOST'' =
      (if env ''KUBERNETES_SERVICE_HOST'' = [] then addr else env ''KUBERNETES_SERVICE_HOST'') \<and>
    env' ''KUBERNETES_SERVICE_PORT'' =
      (if env ''KUBERNETES_SERVICE_PORT'' = [] then ''443'' else env ''KUBERNETES_SERVICE_PORT'') \<and>
    (case InClusterConfig pe env' of
       Inl err \<Rightarrow> pe_ReadToken pe = Inl err
     | Inr c \<Rightarrow> cf_Host c = ''https://'' @ JoinHostPort (env' ''KUBERNETES_SERVICE_HOST'') (env' ''KUBERNETES_SERVICE_PORT'')) \<and>
    (\<forall>lookup. GetClusterConfig (pe\<lparr>pe_LookupHost := lookup\<rparr>) [] env' = (Ret (InClusterConfig pe env'), env'))"
proof -
  obtain env' where env': "GetClusterConfig pe [] env = (Ret (InClusterConfig pe env'), env')" "env' ''KUBECONFIG'' = []"
    and host: "env' ''KUBERNETES_SERVICE_HOST'' =
      (if env ''KUBERNETES_SERVICE_HOST'' = [] then addr else env ''KUBERNETES_SERVICE_HOST'')"
      "env' ''KUBERNETES_SERVICE_HOST'' \<noteq> []"
    and port: "env' ''KUBERNETES_SERVICE_PORT'' =
      (if env ''KUBERNETES_SERVICE_PORT'' = [] then ''443'' else env ''KUBERNETES_SERVICE_PORT'')"
      "env' ''KUBERNETES_SERVICE_PORT'' \<noteq> []"
    using in_cluster [OF assms] by blast
  have "InClusterConfig (pe\<lparr>pe_LookupHost := lookup\<rparr>) env' = InClusterConfig pe env'" for lookup
    using host(2) port(2) by (simp add: InClusterConfig_def Let_def split: sum.split)
  then have "GetClusterConfig (pe\<lparr>pe_LookupHost := lookup\<rparr>) [] env' = (Ret (InClusterConfig pe env'), env')" for lookup
    using env'(2) host(2) port(2)
    by (simp add: GetClusterConfig_def RecommendedConfigPathEnvVar_def service_port_outcome service_host_outcome(1))
  moreover have "case InClusterConfig pe env' of
       Inl err \<Rightarrow> pe_ReadToken pe = Inl err
     | Inr c \<Rightarrow> cf_Host c = ''https://'' @ JoinHostPort (env' ''KUBERNETES_SERVICE_HOST'') (env' ''KUBERNETES_SERVICE_PORT'')"
    using InClusterConfig_set [OF host(2) port(2), of pe] by (auto split: sum.splits)
  ultimately show ?thesis using env'(1) host(1) port(1) by blast
qed

theorem GetClusterConfig_in_cluster_witness:
  "\<exists>env c. GetClusterConfig pod_env [] (\<lambda>_. []) = (Ret (Inr c), env) \<and> cf_Host c = ''https://10.0.0.1:443''"
proof -
  from GetClusterConfig_in_cluster [of "\<lambda>_. []" pod_env "''10.0.0.1''" "[]"]
  obtain env' where "GetClusterConfig pod_env [] (\<lambda>_. []) = (Ret (InClusterConfig pod_env env'), env')"
    "env' ''KUBERNETES_SERVICE_HOST'' = ''10.0.0.1''" "env' ''KUBERNETES_SERVICE_PORT'' = ''443''"
    by (auto simp: pod_env_def)
  then show ?thesis by (simp add: InClusterConfig_def pod_env_def JoinHostPort_def)
qed

text \<open>
  In a pod the operator comes up: with the service host resolvable or set, a readable token, a URL
  parser that takes the address apart and no trouble in setting up transports, the process makes its 49
  typed REST clients, each with a bucket of its own of 5 requests per second, panics nowhere (the fixed
  durations pass the elector's checks) and campaigns for the lock \<open>caffe2-operator\<close> of its namespace under
  its host name. Asked for the version, it prints it and ends with code 0 without touching anything.
\<close>

theorem operator_comes_up:
  assumes "env ''KUBECONFIG'' = []"
    and "env ''KUBERNETES_SERVICE_HOST'' = [] \<longrightarrow>
      pe_LookupHost pe ''kubernetes.default.svc'' = Inr (addr # addrs) \<and> addr \<noteq> [] \<and> CHR 0x00 \<notin> set addr"
    and "pe_ReadToken pe = Inr token" and "pe_Hostname pe = Inr hostname"
    and "\<And>host port. \<exists>u. ev_Parse he (''https://'' @ JoinHostPort host port) = Inr u \<and>
      ur_Scheme u = ''https'' \<and> ur_Host u \<noteq> [] \<and> ur_Path u = []"
    and "\<And>c. ev_TransportFor he c = None" and "\<And>codec. ev_createSerializers he codec = None"
    and "ev_rate_fits he 0" and "ev_rate_fits he 5"
  shows "\<exists>env' lec kube jobs.
    server_Run he pe None (AddFlags NewServerOption) (env, []) =
      (Ret (Campaigning lec kube jobs), (env', replicate 49 (5, 10))) \<and>
    server_main he pe id (env, []) = (Ret None, (env', replicate 49 (5, 10))) \<and>
    ec_Namespace lec = (if env ''KUBEFLOW_NAMESPACE'' = [] then ''default'' else env ''KUBEFLOW_NAMESPACE'') \<and>
    ec_Name lec = ''caffe2-operator'' \<and> ec_Identity lec = hostname \<and>
    server_main he pe (\<lambda>opt. opt\<lparr>so_PrintVersion := True\<rparr>) (env, []) = (Ret (Some 0), (env, []))"
proof -
  let ?opt = "AddFlags NewServerOption"
  have opt: "so_PrintVersion ?opt = False" "so_ControllerConfigFile ?opt = []"
    by (simp_all add: AddFlags_def server_flags_def NewServerOption_def)
  obtain env' where env': "GetClusterConfig pe [] env = (Ret (InClusterConfig pe env'), env')"
    "env' ''KUBERNETES_SERVICE_HOST'' \<noteq> []" "env' ''KUBERNETES_SERVICE_PORT'' \<noteq> []"
    using in_cluster [OF assms(1,2)] by blast
  then obtain c where config: "GetClusterConfig pe [] env = (Ret (Inr c), env')"
    "cf_QPS c = 0" "cf_Burst c = 0" "cf_RateLimiter c = None"
    "\<exists>host port. cf_Host c = ''https://'' @ JoinHostPort host port"
    using InClusterConfig_set [OF env'(2,3), of pe] assms(3) by (auto split: sum.splits)
  then have "sets_up he c" using assms(5-9)
    by (fastforce simp: sets_up_def rooted_server_def DefaultQPS_def)
  from createClients_unlimited [OF this config(2-4), of "[]"] obtain k l j where
    "createClients he c [] = (Ret (Inr (k, l, j)), replicate 49 (5, 10))" by auto
  with config(1) opt assms(4) show ?thesis
    by (simp add: server_main_def server_Run_def NewLeaderElector_accepts Let_def)
qed

theorem operator_comes_up_witness:
  "\<exists>env'. server_main plain_env pod_env id (\<lambda>_. [], []) = (Ret None, (env', replicate 49 (5, 10)))"
  using operator_comes_up [of "\<lambda>_. []" pod_env "''10.0.0.1''" "[]" "''token''" "''operator-0''" plain_env]
  by (auto simp: pod_env_def plain_env_def)

end
