(* ===== verification/LeaderElection.thy ===== *)
theory LeaderElection
  imports Startup
begin

text \<open>
  The leader election that \<open>Run\<close> of cmd/caffe2-operator/app/server.go ends in:
  k8s.io/client-go/tools/leaderelection (leaderelection.go and resourcelock/endpointslock.go), for several
  operator processes that campaign for one lock. A try of a process is cut at its calls to the API
  server, and the processes, the server and the time take turns. Of the server the model uses that it
  refuses a creation of an object that exists and an update that does not carry the current version; a
  call can fail before or after it took effect. All clocks run at the same rate and show the same time; a
  process takes no time between the calls, and a try takes at most \<open>latency\<close>.
\<close>

section \<open>Records and the lock\<close>

definition second :: time where "second = 10 ^ 9"

text \<open>Go's zero time, the first of January of the year 1.\<close>

definition zero_time :: time where "zero_time = - 62135596800 * second"

record LeaderElectionRecord =
  lr_HolderIdentity :: string
  lr_LeaseDurationSeconds :: int
  lr_AcquireTime :: time
  lr_RenewTime :: time
  lr_LeaderTransitions :: int

definition zero_record :: LeaderElectionRecord where
  "zero_record = \<lparr>lr_HolderIdentity = [], lr_LeaseDurationSeconds = 0, lr_AcquireTime = zero_time,
     lr_RenewTime = zero_time, lr_LeaderTransitions = 0\<rparr>"

text \<open>What comes back of a record that went through JSON: \<open>metav1.Time\<close> keeps the seconds.\<close>

definition json_time :: "time \<Rightarrow> time" where
  "json_time t = t div second * second"

definition json_record :: "LeaderElectionRecord \<Rightarrow> LeaderElectionRecord" where
  "json_record r = r\<lparr>lr_AcquireTime := json_time (lr_AcquireTime r), lr_RenewTime := json_time (lr_RenewTime r)\<rparr>"

text \<open>The endpoints object: its version and its annotation, which may be missing or unreadable.\<close>

datatype annotation = NoLeader | BadLeader | Leader LeaderElectionRecord

record endpoints =
  ep_version :: nat
  ep_leader :: annotation

text \<open>A \<open>LeaderElector\<close>, and of \<open>el.e\<close> of its \<open>EndpointsLock\<close> the version.\<close>

record elector =
  le_observedRecord :: LeaderElectionRecord
  le_observedTime :: time
  le_reportedLeader :: string
  le_e :: "nat option"

definition new_elector :: elector where
  "new_elector = \<lparr>le_observedRecord = zero_record, le_observedTime = zero_time, le_reportedLeader = [], le_e = None\<rparr>"

text \<open>\<open>EndpointsLock.Get\<close> on the reply of the server; a failed call leaves an empty object, of version 0.\<close>

definition lock_Get :: "go_error + endpoints \<Rightarrow> elector \<Rightarrow> (go_error + LeaderElectionRecord) \<times> elector" where
  "lock_Get reply le =
     (case reply of
        Inl err \<Rightarrow> (Inl err, le\<lparr>le_e := Some 0\<rparr>)
      | Inr e \<Rightarrow>
          (case ep_leader e of
             NoLeader \<Rightarrow> Inr zero_record
           | BadLeader \<Rightarrow> Inl (Errorf ''invalid character'' [] [])
           | Leader r \<Rightarrow> Inr r, le\<lparr>le_e := Some (ep_version e)\<rparr>))"

section \<open>One try\<close>

datatype lock_action = GiveUp | CreateRecord LeaderElectionRecord | UpdateRecord LeaderElectionRecord

definition fresh_record :: "election_config \<Rightarrow> time \<Rightarrow> LeaderElectionRecord" where
  "fresh_record lec now =
     \<lparr>lr_HolderIdentity = ec_Identity lec, lr_LeaseDurationSeconds = ec_LeaseDuration lec div second,
      lr_AcquireTime = now, lr_RenewTime = now, lr_LeaderTransitions = 0\<rparr>"

text \<open>
  \<open>tryAcquireOrRenew\<close> between its calls: \<open>now\<close> is the time read at its start, \<open>clock\<close> the time after the
  call. A record just written differs from the one read back, which has lost its fractions of seconds
  and its monotonic reading.
\<close>

definition after_Get ::
  "election_config \<Rightarrow> time \<Rightarrow> time \<Rightarrow> go_error + LeaderElectionRecord \<Rightarrow> elector \<Rightarrow> lock_action \<times> elector" where
  "after_Get lec now clock reply le =
     (case reply of
        Inl err \<Rightarrow> (if IsNotFound (Some err) then CreateRecord (fresh_record lec now) else GiveUp, le)
      | Inr old \<Rightarrow>
          (let le1 = (if le_observedRecord le \<noteq> old then le\<lparr>le_observedRecord := old, le_observedTime := clock\<rparr> else le) in
           if now < le_observedTime le1 + ec_LeaseDuration lec \<and> lr_HolderIdentity old \<noteq> ec_Identity lec
           then (GiveUp, le1)
           else (UpdateRecord
             (if lr_HolderIdentity old = ec_Identity lec
              then (fresh_record lec now)\<lparr>lr_AcquireTime := lr_AcquireTime old, lr_LeaderTransitions := lr_LeaderTransitions old\<rparr>
              else (fresh_record lec now)\<lparr>lr_LeaderTransitions := lr_LeaderTransitions old + 1\<rparr>), le1)))"

definition after_write ::
  "time \<Rightarrow> LeaderElectionRecord \<Rightarrow> go_error + nat \<Rightarrow> elector \<Rightarrow> bool \<times> elector" where
  "after_write clock r reply le =
     (case reply of
        Inl err \<Rightarrow> (False, le\<lparr>le_e := Some 0\<rparr>)
      | Inr v \<Rightarrow> (True, le\<lparr>le_e := Some v, le_observedRecord := r, le_observedTime := clock\<rparr>))"

definition maybeReportTransition :: "elector \<Rightarrow> elector" where
  "maybeReportTransition le =
     (if lr_HolderIdentity (le_observedRecord le) = le_reportedLeader le then le
      else le\<lparr>le_reportedLeader := lr_HolderIdentity (le_observedRecord le)\<rparr>)"

definition GetLeader :: "elector \<Rightarrow> string" where
  "GetLeader le = lr_HolderIdentity (le_observedRecord le)"

definition IsLeader :: "election_config \<Rightarrow> elector \<Rightarrow> bool" where
  "IsLeader lec le \<longleftrightarrow> lr_HolderIdentity (le_observedRecord le) = ec_Identity lec"

section \<open>A process\<close>

text \<open>
  \<open>Acquiring\<close> is inside \<open>acquire\<close>, \<open>Leading p\<close> inside \<open>renew\<close> with a poll that began at \<open>p\<close>, and \<open>Lost\<close> is
  after it, with the stop channel closed. Within these a process waits (since the try that began and
  ended at the times given) or is in a try, which carries its start and whether it is the last of its poll.
\<close>

datatype elect_mode = Acquiring | Leading time | Lost

datatype lock_request = CreateLock LeaderElectionRecord | UpdateLock nat LeaderElectionRecord

fun request_record :: "lock_request \<Rightarrow> LeaderElectionRecord" where
  "request_record (CreateLock r) = r"
| "request_record (UpdateLock v r) = r"

datatype try_pc =
    Waiting time time
  | Asking time bool
  | Asked time bool "go_error + endpoints"
  | Writing time bool lock_request
  | Written time bool LeaderElectionRecord "go_error + nat"

record elect_proc =
  pr_elector :: elector
  pr_mode :: elect_mode
  pr_pc :: try_pc

text \<open>
  When a try may start. \<open>acquire\<close> waits the retry period, and up to 1.2 times as much again, after each
  try. The poll in \<open>renew\<close> has a tick every retry period, taken only by a process that waits, until the
  deadline, when its channel closes and the condition runs once more.
\<close>

fun may_start :: "election_config \<Rightarrow> elect_mode \<Rightarrow> time \<Rightarrow> time \<Rightarrow> time \<Rightarrow> bool \<Rightarrow> bool" where
  "may_start lec Acquiring s e t final \<longleftrightarrow> \<not> final \<and> e + ec_RetryPeriod lec \<le> t"
| "may_start lec (Leading p) s e t final \<longleftrightarrow>
     (if final then p + ec_RenewDeadline lec \<le> t
      else s < t \<and> 0 < t - p \<and> (t - p) mod ec_RetryPeriod lec = 0 \<and> t \<le> p + ec_RenewDeadline lec)"
| "may_start lec Lost s e t final \<longleftrightarrow> False"

text \<open>The end of a try, in the closures of \<open>acquire\<close> and \<open>renew\<close>.\<close>

fun end_try :: "elect_mode \<Rightarrow> time \<Rightarrow> bool \<Rightarrow> time \<Rightarrow> bool \<times> elector \<Rightarrow> elect_proc" where
  "end_try mode s final t (succeeded, le) =
     (case mode of
        Acquiring \<Rightarrow> \<lparr>pr_elector = maybeReportTransition le, pr_mode = (if succeeded then Leading t else Acquiring), pr_pc = Waiting s t\<rparr>
      | Leading p \<Rightarrow>
          if succeeded then \<lparr>pr_elector = maybeReportTransition le, pr_mode = Leading t, pr_pc = Waiting s t\<rparr>
          else if final then \<lparr>pr_elector = maybeReportTransition le, pr_mode = Lost, pr_pc = Waiting s t\<rparr>
          else \<lparr>pr_elector = le, pr_mode = Leading p, pr_pc = Waiting s t\<rparr>
      | Lost \<Rightarrow> \<lparr>pr_elector = le, pr_mode = Lost, pr_pc = Waiting s t\<rparr>)"

inductive proc_step ::
  "election_config \<Rightarrow> endpoints option \<Rightarrow> time \<Rightarrow> elect_proc \<Rightarrow> elect_proc \<Rightarrow> bool" for lec lock t where
  start_try: "pr_pc p = Waiting s e \<Longrightarrow> may_start lec (pr_mode p) s e t final \<Longrightarrow>
    proc_step lec lock t p (p\<lparr>pr_pc := Asking t final\<rparr>)"
| lock_read: "pr_pc p = Asking s final \<Longrightarrow>
    reply = (case lock of None \<Rightarrow> Inl (StatusError ''NotFound'' (ec_Name lec)) | Some e \<Rightarrow> Inr e) \<Longrightarrow>
    proc_step lec lock t p (p\<lparr>pr_pc := Asked s final reply\<rparr>)"
| read_failed: "pr_pc p = Asking s final \<Longrightarrow> \<not> IsNotFound (Some err) \<Longrightarrow>
    proc_step lec lock t p (p\<lparr>pr_pc := Asked s final (Inl err)\<rparr>)"
| give_up: "pr_pc p = Asked s final reply \<Longrightarrow> lock_Get reply (pr_elector p) = (old, le) \<Longrightarrow>
    after_Get lec s t old le = (GiveUp, le1) \<Longrightarrow>
    proc_step lec lock t p (end_try (pr_mode p) s final t (False, le1))"
| go_create: "pr_pc p = Asked s final reply \<Longrightarrow> lock_Get reply (pr_elector p) = (old, le) \<Longrightarrow>
    after_Get lec s t old le = (CreateRecord r, le1) \<Longrightarrow>
    proc_step lec lock t p (p\<lparr>pr_elector := le1, pr_pc := Writing s final (CreateLock r)\<rparr>)"
| go_update: "pr_pc p = Asked s final reply \<Longrightarrow> lock_Get reply (pr_elector p) = (old, le) \<Longrightarrow>
    after_Get lec s t old le = (UpdateRecord r, le1) \<Longrightarrow> le_e le1 = Some v \<Longrightarrow>
    proc_step lec lock t p (p\<lparr>pr_elector := le1, pr_pc := Writing s final (UpdateLock v r)\<rparr>)"
| write_failed: "pr_pc p = Writing s final w \<Longrightarrow>
    proc_step lec lock t p (p\<lparr>pr_pc := Written s final (request_record w) (Inl err)\<rparr>)"
| finish_try: "pr_pc p = Written s final r reply \<Longrightarrow>
    proc_step lec lock t p (end_try (pr_mode p) s final t (after_write t r reply (pr_elector p)))"
| crash: "proc_step lec lock t p (p\<lparr>pr_mode := Lost, pr_pc := Waiting t t\<rparr>)"

section \<open>All processes\<close>

text \<open>
  The last three fields follow the last write, for the proofs: who made it, when the try that made it
  began, and when the server took it.
\<close>

record election =
  el_time :: time
  el_lock :: "endpoints option"
  el_procs :: "nat \<Rightarrow> elect_proc"
  el_writer :: "nat option"
  el_start :: time
  el_commit :: time

fun accept :: "lock_request \<Rightarrow> endpoints option \<Rightarrow> endpoints option" where
  "accept (CreateLock r) None = Some \<lparr>ep_version = 1, ep_leader = Leader (json_record r)\<rparr>"
| "accept (CreateLock r) (Some e) = None"
| "accept (UpdateLock v r) None = None"
| "accept (UpdateLock v r) (Some e) =
     (if v = ep_version e then Some \<lparr>ep_version = Suc v, ep_leader = Leader (json_record r)\<rparr> else None)"

fun in_time :: "election_config \<Rightarrow> time \<Rightarrow> elect_mode \<Rightarrow> try_pc \<Rightarrow> time \<Rightarrow> bool" where
  "in_time lec latency mode (Waiting s e) t \<longleftrightarrow>
     (case mode of Leading p \<Rightarrow> t \<le> max (p + ec_RenewDeadline lec) e | _ \<Rightarrow> True)"
| "in_time lec latency mode (Asking s final) t \<longleftrightarrow> t \<le> s + latency"
| "in_time lec latency mode (Asked s final reply) t \<longleftrightarrow> t \<le> s + latency"
| "in_time lec latency mode (Writing s final w) t \<longleftrightarrow> t \<le> s + latency"
| "in_time lec latency mode (Written s final r reply) t \<longleftrightarrow> t \<le> s + latency"

inductive elect_step ::
  "election_config \<Rightarrow> (nat \<Rightarrow> string) \<Rightarrow> nat \<Rightarrow> time \<Rightarrow> election \<Rightarrow> election \<Rightarrow> bool" for lec ids n latency where
  process: "i < n \<Longrightarrow> proc_step (lec\<lparr>ec_Identity := ids i\<rparr>) (el_lock S) (el_time S) (el_procs S i) p \<Longrightarrow>
    elect_step lec ids n latency S (S\<lparr>el_procs := (el_procs S)(i := p)\<rparr>)"
| commit: "i < n \<Longrightarrow> pr_pc (el_procs S i) = Writing s final w \<Longrightarrow> accept w (el_lock S) = Some e \<Longrightarrow>
    reply = Inr (ep_version e) \<or> reply = Inl err \<Longrightarrow>
    elect_step lec ids n latency S
      (S\<lparr>el_lock := Some e,
         el_procs := (el_procs S)(i := (el_procs S i)\<lparr>pr_pc := Written s final (request_record w) reply\<rparr>),
         el_writer := Some i, el_start := s, el_commit := el_time S\<rparr>)"
| tick: "el_time S \<le> t \<Longrightarrow> (\<And>i. i < n \<Longrightarrow> in_time lec latency (pr_mode (el_procs S i)) (pr_pc (el_procs S i)) t) \<Longrightarrow>
    elect_step lec ids n latency S (S\<lparr>el_time := t\<rparr>)"

text \<open>
  At the start no process of this election has tried yet; an object left from an earlier one is at
  least a second old.
\<close>

fun old_lock :: "time \<Rightarrow> endpoints option \<Rightarrow> bool" where
  "old_lock t None = True"
| "old_lock t (Some e) = (case ep_leader e of Leader r \<Rightarrow> lr_RenewTime r \<le> t - second | _ \<Rightarrow> True)"

definition election_init :: "election_config \<Rightarrow> time \<Rightarrow> endpoints option \<Rightarrow> election" where
  "election_init lec t lock =
     \<lparr>el_time = t, el_lock = lock,
      el_procs = (\<lambda>_. \<lparr>pr_elector = new_elector, pr_mode = Acquiring,
        pr_pc = Waiting (t - ec_RetryPeriod lec) (t - ec_RetryPeriod lec)\<rparr>),
      el_writer = None, el_start = t - second, el_commit = t\<rparr>"

inductive election_reachable ::
  "election_config \<Rightarrow> (nat \<Rightarrow> string) \<Rightarrow> nat \<Rightarrow> time \<Rightarrow> election \<Rightarrow> bool" for lec ids n latency where
  init: "0 \<le> t \<Longrightarrow> old_lock t lock \<Longrightarrow> election_reachable lec ids n latency (election_init lec t lock)"
| step: "election_reachable lec ids n latency S \<Longrightarrow> elect_step lec ids n latency S S' \<Longrightarrow>
    election_reachable lec ids n latency S'"

section \<open>The invariant\<close>

lemma json_time_bounds: "t - second < json_time t" "json_time t \<le> t"
  by (simp_all add: json_time_def second_def minus_mod_eq_div_mult [symmetric])

lemma json_record_sel [simp]:
  "lr_HolderIdentity (json_record r) = lr_HolderIdentity r" "lr_RenewTime (json_record r) = json_time (lr_RenewTime r)"
  by (simp_all add: json_record_def)

text \<open>Two tries of one process in \<open>renew\<close> start at least a second apart.\<close>

lemma tick_gap:
  assumes "0 < R" and "(a - p) mod R = 0" and "(b - p) mod R = 0" and "a < (b :: int)"
  shows "a + R \<le> b"
proof -
  from assms(2,3) obtain k l where k: "a - p = R * k" and l: "b - p = R * l" by (auto elim!: dvdE simp: mod_eq_0_iff_dvd)
  then have "R * k < R * l" using assms(4) by linarith
  then have "k + 1 \<le> l" using assms(1) by simp
  then have "R * (k + 1) \<le> R * l" using assms(1) by (simp only: mult_left_mono)
  then show ?thesis using k l by (simp add: algebra_simps)
qed

lemma deadline_gap:
  assumes "0 < R" and "(a - p) mod R = 0" and "a \<le> p + (D :: int)"
  shows "a + D mod R \<le> p + D"
proof -
  from assms(2) obtain k where k: "a - p = R * k" by (auto elim!: dvdE simp: mod_eq_0_iff_dvd)
  then have "R * k \<le> D" using assms(3) by linarith
  then have "k \<le> D div R" using assms(1) by (metis nonzero_mult_div_cancel_left zdiv_mono1 less_irrefl)
  then have "R * k \<le> R * (D div R)" using assms(1) by (simp only: mult_left_mono)
  then have "R * k + D mod R \<le> D" by (metis add_le_cancel_right mult_div_mod_eq)
  then show ?thesis using k by linarith
qed

text \<open>The start of the current try, or of the last one.\<close>

fun try_start :: "try_pc \<Rightarrow> time" where
  "try_start (Waiting s e) = s"
| "try_start (Asking s final) = s"
| "try_start (Asked s final reply) = s"
| "try_start (Writing s final w) = s"
| "try_start (Written s final r reply) = s"

fun last_try :: "try_pc \<Rightarrow> bool" where
  "last_try (Waiting s e) = False"
| "last_try (Asking s final) = final"
| "last_try (Asked s final reply) = final"
| "last_try (Writing s final w) = final"
| "last_try (Written s final r reply) = final"

fun before_write :: "try_pc \<Rightarrow> bool" where
  "before_write (Asking s final) = True"
| "before_write (Asked s final reply) = True"
| "before_write (Writing s final w) = True"
| "before_write pc = False"

text \<open>
  What holds of process \<open>i\<close> at time \<open>t\<close>, given the object and the last write: \<open>w\<close>, \<open>g\<close> and \<open>c\<close> are its
  writer, the start of the writer's try and its commit.
\<close>

definition knows :: "endpoints option \<Rightarrow> nat option \<Rightarrow> time \<Rightarrow> time \<Rightarrow> elector \<Rightarrow> bool" where
  "knows lock w g c le \<longleftrightarrow> lr_RenewTime (le_observedRecord le) \<le> g \<and>
     (\<forall>e. w \<noteq> None \<and> lock = Some e \<and> ep_leader e = Leader (le_observedRecord le) \<longrightarrow> c \<le> le_observedTime le)"

fun try_ok :: "election_config \<Rightarrow> nat \<Rightarrow> endpoints option \<Rightarrow> nat option \<Rightarrow> time \<Rightarrow> time \<Rightarrow> try_pc \<Rightarrow> bool" where
  "try_ok lec i lock w g c (Asked s final (Inr e')) \<longleftrightarrow>
     (\<exists>e. lock = Some e \<and> ep_version e' \<le> ep_version e \<and> (ep_version e' = ep_version e \<longrightarrow> e' = e)) \<and>
     (\<forall>r. ep_leader e' = Leader r \<longrightarrow> lr_RenewTime r \<le> g)"
| "try_ok lec i lock w g c (Writing s final (CreateLock r)) \<longleftrightarrow>
     lr_RenewTime r = s \<and> lr_HolderIdentity r = ec_Identity lec"
| "try_ok lec i lock w g c (Writing s final (UpdateLock v r)) \<longleftrightarrow>
     lr_RenewTime r = s \<and> lr_HolderIdentity r = ec_Identity lec \<and>
     (\<exists>e. lock = Some e \<and> v \<le> ep_version e \<and>
       (v = ep_version e \<longrightarrow> w = None \<or> w = Some i \<or> c + ec_LeaseDuration lec \<le> s))"
| "try_ok lec i lock w g c (Written s final r reply) \<longleftrightarrow>
     lr_RenewTime r = s \<and> ((\<exists>v. reply = Inr v) \<longrightarrow> w = Some i \<and> g = s \<and> s \<le> c)"
| "try_ok lec i lock w g c pc \<longleftrightarrow> True"

fun poll_ok :: "election_config \<Rightarrow> time \<Rightarrow> time \<Rightarrow> time \<Rightarrow> try_pc \<Rightarrow> bool" where
  "poll_ok lec latency p t (Waiting s e) \<longleftrightarrow>
     (s \<le> p \<or> (s - p) mod ec_RetryPeriod lec = 0 \<and> s \<le> p + ec_RenewDeadline lec) \<and>
     e \<le> p + ec_RenewDeadline lec + latency \<and> t \<le> max (p + ec_RenewDeadline lec) e"
| "poll_ok lec latency p t pc \<longleftrightarrow>
     (if last_try pc then try_start pc \<le> p + ec_RenewDeadline lec + latency
      else (try_start pc - p) mod ec_RetryPeriod lec = 0 \<and> try_start pc \<le> p + ec_RenewDeadline lec)"

fun span_ok :: "time \<Rightarrow> time \<Rightarrow> try_pc \<Rightarrow> bool" where
  "span_ok latency t (Waiting s e) \<longleftrightarrow> s \<le> e \<and> e \<le> t"
| "span_ok latency t pc \<longleftrightarrow> try_start pc \<le> t \<and> t \<le> try_start pc + latency"

definition spaced :: "nat \<Rightarrow> nat option \<Rightarrow> time \<Rightarrow> try_pc \<Rightarrow> bool" where
  "spaced i w g pc \<longleftrightarrow> (before_write pc \<and> (w = None \<or> w = Some i) \<longrightarrow> g + second \<le> try_start pc) \<and>
     (w = Some i \<longrightarrow> g \<le> try_start pc)"

definition leads_ok ::
  "election_config \<Rightarrow> time \<Rightarrow> nat \<Rightarrow> time \<Rightarrow> nat option \<Rightarrow> time \<Rightarrow> elect_mode \<Rightarrow> try_pc \<Rightarrow> bool" where
  "leads_ok lec latency i t w c mode pc \<longleftrightarrow>
     (\<forall>p. mode = Leading p \<longrightarrow> w = Some i \<and> p \<le> c + latency \<and> poll_ok lec latency p t pc)"

definition proc_ok ::
  "election_config \<Rightarrow> time \<Rightarrow> nat \<Rightarrow> time \<Rightarrow> endpoints option \<Rightarrow> nat option \<Rightarrow> time \<Rightarrow> time \<Rightarrow> elect_proc \<Rightarrow> bool" where
  "proc_ok lec latency i t lock w g c p \<longleftrightarrow>
     knows lock w g c (pr_elector p) \<and> try_ok lec i lock w g c (pr_pc p) \<and> span_ok latency t (pr_pc p) \<and>
     spaced i w g (pr_pc p) \<and> leads_ok lec latency i t w c (pr_mode p) (pr_pc p)"

definition lock_ok :: "(nat \<Rightarrow> string) \<Rightarrow> time \<Rightarrow> endpoints option \<Rightarrow> nat option \<Rightarrow> time \<Rightarrow> time \<Rightarrow> bool" where
  "lock_ok ids t lock w g c \<longleftrightarrow> zero_time \<le> g \<and> (w = None \<longrightarrow> g + second \<le> t) \<and>
     (\<forall>e r. lock = Some e \<and> ep_leader e = Leader r \<longrightarrow> lr_RenewTime r \<le> g) \<and>
     (\<forall>j. w = Some j \<longrightarrow> g \<le> c \<and> c \<le> t \<and>
       (\<exists>e r. lock = Some e \<and> ep_leader e = Leader r \<and> lr_HolderIdentity r = ids j))"

definition sound_timing :: "election_config \<Rightarrow> time \<Rightarrow> bool" where
  "sound_timing lec latency \<longleftrightarrow> second \<le> ec_RetryPeriod lec \<and> second \<le> ec_RenewDeadline lec mod ec_RetryPeriod lec \<and>
     0 \<le> ec_RenewDeadline lec \<and> 0 \<le> latency \<and> ec_RenewDeadline lec + 3 * latency < ec_LeaseDuration lec"

lemma second_pos: "0 < second"
  by (simp add: second_def)

lemma sound_timing_less: "sound_timing lec latency \<Longrightarrow> second \<le> ec_LeaseDuration lec"
  by (smt (verit) sound_timing_def second_pos pos_mod_bound zmod_le_nonneg_dividend)

section \<open>Each step keeps it\<close>

lemma start_spaced:
  assumes "sound_timing lec latency" and "may_start lec mode s e t final" and "s \<le> e" and "e \<le> t"
    and "\<And>p. mode = Leading p \<Longrightarrow> s \<le> p \<or> (s - p) mod ec_RetryPeriod lec = 0 \<and> s \<le> p + ec_RenewDeadline lec"
  shows "s + second \<le> t"
proof (cases mode)
  case (Leading p)
  show ?thesis
  proof (cases "s \<le> p")
    case True
    have "ec_RetryPeriod lec dvd t - p" if "\<not> final" using assms(2) that Leading by auto
    then have "ec_RetryPeriod lec \<le> t - p" if "\<not> final" using assms(2) that Leading by (auto intro: zdvd_imp_le)
    moreover have "second \<le> ec_RenewDeadline lec"
      using assms(1) zmod_le_nonneg_dividend [of "ec_RenewDeadline lec" "ec_RetryPeriod lec"] by (auto simp: sound_timing_def)
    ultimately show ?thesis using True assms(1,2) Leading by (cases final) (auto simp: sound_timing_def)
  next
    case False
    with assms(5) [OF Leading] have s: "(s - p) mod ec_RetryPeriod lec = 0" "s \<le> p + ec_RenewDeadline lec" by auto
    have R: "0 < ec_RetryPeriod lec" using assms(1) second_pos by (auto simp: sound_timing_def)
    show ?thesis
    proof (cases final)
      case True
      then show ?thesis using deadline_gap [OF R s] assms(1,2) Leading by (auto simp: sound_timing_def)
    next
      case False
      then show ?thesis using tick_gap [OF R s(1), of t] assms(1,2) Leading by (auto simp: sound_timing_def)
    qed
  qed
qed (use assms in \<open>auto simp: sound_timing_def\<close>)

lemma start_ok:
  assumes "proc_ok lec latency i t lock w g c p" and "lock_ok ids t lock w g c" and "sound_timing lec latency"
    and "pr_pc p = Waiting s e" and "may_start lec (pr_mode p) s e t final"
  shows "proc_ok lec latency i t lock w g c (p\<lparr>pr_pc := Asking t final\<rparr>)"
proof -
  have se: "s \<le> e" "e \<le> t" using assms(1,4) by (auto simp: proc_ok_def)
  have poll: "\<And>q. pr_mode p = Leading q \<Longrightarrow> poll_ok lec latency q t (Waiting s e)"
    using assms(1,4) by (auto simp: proc_ok_def leads_ok_def)
  have gap: "s + second \<le> t" by (rule start_spaced [OF assms(3,5) se]) (use poll in auto)
  have "spaced i w g (Asking t final)"
    using assms(1,2,4) gap second_pos by (auto simp: spaced_def proc_ok_def lock_ok_def)
  moreover have "leads_ok lec latency i t w c (pr_mode p) (Asking t final)"
    using assms(1,3,5) poll by (auto simp: leads_ok_def proc_ok_def sound_timing_def max_def split: if_splits)
  ultimately show ?thesis using assms(1,3) by (auto simp: proc_ok_def sound_timing_def)
qed

lemma read_ok:
  assumes "proc_ok lec latency i t lock w g c p" and "lock_ok ids t lock w g c" and "pr_pc p = Asking s final"
    and "\<And>e. reply = Inr e \<Longrightarrow> lock = Some e"
  shows "proc_ok lec latency i t lock w g c (p\<lparr>pr_pc := Asked s final reply\<rparr>)"
proof -
  have "try_ok lec i lock w g c (Asked s final reply)"
    using assms(2,4) by (cases reply) (auto simp: lock_ok_def)
  then show ?thesis using assms(1,3) by (auto simp: proc_ok_def spaced_def leads_ok_def)
qed

text \<open>The decision after the lock was read.\<close>

lemma after_Get_Inl:
  "after_Get lec s t (Inl err) le = (if IsNotFound (Some err) then CreateRecord (fresh_record lec s) else GiveUp, le)"
  by (simp add: after_Get_def)

lemma after_Get_Inr:
  assumes "after_Get lec s t (Inr old) le = (act, le1)"
  shows "le1 = (if le_observedRecord le \<noteq> old then le\<lparr>le_observedRecord := old, le_observedTime := t\<rparr> else le)"
    and "act = GiveUp \<or> (\<exists>r. act = UpdateRecord r \<and> lr_RenewTime r = s \<and> lr_HolderIdentity r = ec_Identity lec \<and>
      (lr_HolderIdentity old = ec_Identity lec \<or> le_observedTime le1 + ec_LeaseDuration lec \<le> s))"
proof -
  define le2 where "le2 = (if le_observedRecord le \<noteq> old then le\<lparr>le_observedRecord := old, le_observedTime := t\<rparr> else le)"
  define quit where "quit \<longleftrightarrow> s < le_observedTime le2 + ec_LeaseDuration lec \<and> lr_HolderIdentity old \<noteq> ec_Identity lec"
  have eq: "after_Get lec s t (Inr old) le = (if quit then (GiveUp, le2) else (UpdateRecord
      (if lr_HolderIdentity old = ec_Identity lec
       then (fresh_record lec s)\<lparr>lr_AcquireTime := lr_AcquireTime old, lr_LeaderTransitions := lr_LeaderTransitions old\<rparr>
       else (fresh_record lec s)\<lparr>lr_LeaderTransitions := lr_LeaderTransitions old + 1\<rparr>), le2))"
    by (simp only: after_Get_def Let_def sum.case quit_def le2_def)
  then have l: "le1 = le2" using assms by (cases quit) simp_all
  then show "le1 = (if le_observedRecord le \<noteq> old then le\<lparr>le_observedRecord := old, le_observedTime := t\<rparr> else le)"
    by (simp only: le2_def)
  show "act = GiveUp \<or> (\<exists>r. act = UpdateRecord r \<and> lr_RenewTime r = s \<and> lr_HolderIdentity r = ec_Identity lec \<and>
      (lr_HolderIdentity old = ec_Identity lec \<or> le_observedTime le1 + ec_LeaseDuration lec \<le> s))"
  proof (cases quit)
    case False
    then have "lr_HolderIdentity old = ec_Identity lec \<or> le_observedTime le1 + ec_LeaseDuration lec \<le> s"
      unfolding quit_def l by linarith
    then show ?thesis using False eq assms by (auto simp: fresh_record_def)
  qed (use eq assms in simp)
qed

lemma after_Get_knows:
  assumes "after_Get lec s t (Inr old) le = (act, le1)" and "knows lock w g c le" and "lr_RenewTime old \<le> g"
    and "w \<noteq> None \<Longrightarrow> c \<le> t"
  shows "knows lock w g c le1"
  using after_Get_Inr(1) [OF assms(1)] assms(2-) by (simp add: knows_def)

lemma decided:
  assumes "proc_ok lec latency i t lock w g c p" and "lock_ok ids t lock w g c" and "pr_pc p = Asked s final reply"
    and "ec_Identity lec = ids i" and "\<And>j. w = Some j \<Longrightarrow> ids j = ids i \<Longrightarrow> j = i"
    and "lock_Get reply (pr_elector p) = (old, le)" and "after_Get lec s t old le = (act, le1)"
  shows "knows lock w g c le1 \<and>
    (case act of GiveUp \<Rightarrow> True
     | CreateRecord r \<Rightarrow> try_ok lec i lock w g c (Writing s final (CreateLock r))
     | UpdateRecord r \<Rightarrow> \<forall>v. le_e le1 = Some v \<longrightarrow> try_ok lec i lock w g c (Writing s final (UpdateLock v r)))"
proof -
  have kn: "knows lock w g c (pr_elector p)" and tr: "try_ok lec i lock w g c (Asked s final reply)" and st: "s \<le> t"
    using assms(1,3) by (auto simp: proc_ok_def)
  have ct: "w \<noteq> None \<Longrightarrow> c \<le> t" and zero: "zero_time \<le> g" using assms(2) by (auto simp: lock_ok_def)
  show ?thesis
  proof (cases old)
    case (Inl err)
    moreover have "knows lock w g c le" using kn assms(6) by (auto simp: lock_Get_def knows_def split: sum.splits)
    ultimately show ?thesis using assms(7)
      by (auto simp: after_Get_Inl fresh_record_def split: if_splits)
  next
    case (Inr r0)
    with assms(6) obtain e' where e': "reply = Inr e'" "le = (pr_elector p)\<lparr>le_e := Some (ep_version e')\<rparr>"
      "r0 = zero_record \<and> ep_leader e' = NoLeader \<or> ep_leader e' = Leader r0"
      by (auto simp: lock_Get_def split: sum.splits annotation.splits)
    obtain e where e: "lock = Some e" "ep_version e' \<le> ep_version e" "ep_version e' = ep_version e \<longrightarrow> e' = e"
      and renew: "\<And>r. ep_leader e' = Leader r \<Longrightarrow> lr_RenewTime r \<le> g"
      using tr e'(1) by auto
    have kn': "knows lock w g c le" using kn e'(2) by (simp add: knows_def)
    have "lr_RenewTime r0 \<le> g" using e'(3) renew zero by (auto simp: zero_record_def)
    from after_Get_knows [OF assms(7) [unfolded Inr] kn' this ct] have k1: "knows lock w g c le1" by simp
    note le1 = after_Get_Inr(1) [OF assms(7) [unfolded Inr]] and act = after_Get_Inr(2) [OF assms(7) [unfolded Inr]]
    have le_e: "le_e le1 = Some (ep_version e')" using le1 e'(2) by simp
    show ?thesis
    proof (cases act)
      case (UpdateRecord r)
      with act have r: "lr_RenewTime r = s" "lr_HolderIdentity r = ec_Identity lec"
        "lr_HolderIdentity r0 = ec_Identity lec \<or> le_observedTime le1 + ec_LeaseDuration lec \<le> s" by auto
      have "w = None \<or> w = Some i \<or> c + ec_LeaseDuration lec \<le> s" if "ep_version e' = ep_version e"
      proof (rule ccontr)
        assume n: "\<not> ?thesis"
        then obtain j where j: "w = Some j" "j \<noteq> i" by auto
        obtain e2 r2 where "lock = Some e2" "ep_leader e2 = Leader r2" "lr_HolderIdentity r2 = ids j"
          using assms(2) j(1) unfolding lock_ok_def by blast
        then have ld: "ep_leader e = Leader r0" "lr_HolderIdentity r0 = ids j" using e e'(3) that by auto
        then have ne: "lr_HolderIdentity r0 \<noteq> ec_Identity lec" using assms(4,5) j by auto
        have "c \<le> le_observedTime le" if "le_observedRecord le = r0"
          using kn' that ld(1) e(1) j(1) by (auto simp: knows_def)
        then have "c \<le> le_observedTime le1" using le1 ct j(1) by simp
        then show False using r(3) ne n by simp
      qed
      with k1 le_e r e UpdateRecord show ?thesis by auto
    qed (use k1 act in auto)
  qed
qed

lemma end_try_ok:
  assumes "proc_ok lec latency i t lock w g c p" and "sound_timing lec latency"
    and "\<And>s e. pr_pc p \<noteq> Waiting s e" and "s = try_start (pr_pc p)" and "final = last_try (pr_pc p)"
    and "knows lock w g c le" and "succeeded \<Longrightarrow> w = Some i \<and> s \<le> c"
  shows "proc_ok lec latency i t lock w g c (end_try (pr_mode p) s final t (succeeded, le))"
proof -
  have span: "s \<le> t" "t \<le> s + latency" using assms(1,3,4) by (cases "pr_pc p"; simp add: proc_ok_def)+
  have rep: "knows lock w g c (maybeReportTransition le)" using assms(6) by (simp add: maybeReportTransition_def knows_def)
  have sp: "w = Some i \<longrightarrow> g \<le> s" using assms(1,4) by (auto simp: proc_ok_def spaced_def)
  have won: "leads_ok lec latency i t w c (Leading t) (Waiting s t)" if succeeded
    using that assms(2,7) span by (auto simp: leads_ok_def sound_timing_def)
  have poll: "leads_ok lec latency i t w c (Leading q) (Waiting s t)" if "pr_mode p = Leading q" "\<not> final" for q
    using that assms(1,3,4,5) span by (cases "pr_pc p") (auto simp: proc_ok_def leads_ok_def)
  show ?thesis
    using span sp rep assms(6) won poll
    by (cases "pr_mode p") (auto simp: proc_ok_def spaced_def leads_ok_def)
qed

lemma write_replied_ok:
  assumes "proc_ok lec latency i t lock w g c p" and "pr_pc p = Writing s final rq"
  shows "proc_ok lec latency i t lock w g c (p\<lparr>pr_pc := Written s final (request_record rq) (Inl err)\<rparr>)"
  using assms by (cases rq) (auto simp: proc_ok_def spaced_def leads_ok_def)

lemma write_started_ok:
  assumes "proc_ok lec latency i t lock w g c p" and "pr_pc p = Asked s final reply"
    and "knows lock w g c le" and "try_ok lec i lock w g c (Writing s final rq)"
  shows "proc_ok lec latency i t lock w g c (p\<lparr>pr_elector := le, pr_pc := Writing s final rq\<rparr>)"
  using assms by (auto simp: proc_ok_def spaced_def leads_ok_def)

lemma crash_ok:
  assumes "proc_ok lec latency i t lock w g c p" and "lock_ok ids t lock w g c"
  shows "proc_ok lec latency i t lock w g c (p\<lparr>pr_mode := Lost, pr_pc := Waiting t t\<rparr>)"
  using assms by (auto simp: proc_ok_def spaced_def leads_ok_def lock_ok_def)

lemma proc_step_ok:
  assumes "proc_step lec lock t p p'" and "proc_ok lec latency i t lock w g c p" and "lock_ok ids t lock w g c"
    and "sound_timing lec latency" and "ec_Identity lec = ids i" and "\<And>j. w = Some j \<Longrightarrow> ids j = ids i \<Longrightarrow> j = i"
  shows "proc_ok lec latency i t lock w g c p'"
  using assms(1)
proof cases
  case (start_try s e final)
  then show ?thesis using start_ok [OF assms(2-4)] by simp
next
  case (lock_read s final reply)
  then show ?thesis using read_ok [OF assms(2,3), of s final reply] by (auto split: option.splits)
next
  case (read_failed s final err)
  then show ?thesis using read_ok [OF assms(2,3), of s final "Inl err"] by simp
next
  case (give_up s final reply old le le1)
  show ?thesis unfolding give_up(1)
    by (rule end_try_ok [OF assms(2,4) _ _ _ conjunct1 [OF decided [OF assms(2,3) give_up(2) assms(5,6) give_up(3,4)]]])
      (simp_all add: give_up(2))
next
  case (go_create s final reply old le r le1)
  from decided [OF assms(2,3) go_create(2) assms(5,6) go_create(3,4)] show ?thesis
    unfolding go_create(1) by (intro write_started_ok [OF assms(2) go_create(2)]) auto
next
  case (go_update s final reply old le r le1 v)
  from decided [OF assms(2,3) go_update(2) assms(5,6) go_update(3,4)] go_update(5) show ?thesis
    unfolding go_update(1) by (intro write_started_ok [OF assms(2) go_update(2)]) auto
next
  case (write_failed s final rq err)
  then show ?thesis using write_replied_ok [OF assms(2)] by simp
next
  case (finish_try s final r reply)
  have tr: "lr_RenewTime r = s" "\<And>v. reply = Inr v \<Longrightarrow> w = Some i \<and> g = s \<and> s \<le> c" "knows lock w g c (pr_elector p)"
    using assms(2) finish_try(2) by (auto simp: proc_ok_def)
  obtain ok le where a: "after_write t r reply (pr_elector p) = (ok, le)" by (metis surj_pair)
  have "ok \<Longrightarrow> w = Some i \<and> s \<le> c" using a tr(2) by (auto simp: after_write_def split: sum.splits)
  moreover have "knows lock w g c le"
    using a tr assms(3) by (auto simp: after_write_def knows_def lock_ok_def split: sum.splits)
  ultimately show ?thesis unfolding finish_try(1) a
    by (intro end_try_ok [OF assms(2,4)]) (simp_all add: finish_try(2))
next
  case crash
  then show ?thesis using crash_ok [OF assms(2,3)] by simp
qed

lemma tick_ok:
  assumes "proc_ok lec latency i t lock w g c p" and "t \<le> t'" and "in_time lec latency (pr_mode p) (pr_pc p) t'"
  shows "proc_ok lec latency i t' lock w g c p"
  using assms by (cases "pr_pc p") (auto simp: proc_ok_def leads_ok_def)

lemma in_time_identity [simp]: "in_time (lec\<lparr>ec_Identity := x\<rparr>) latency mode pc t = in_time lec latency mode pc t"
  by (cases pc; cases mode) simp_all

lemma tick_lock_ok: "lock_ok ids t lock w g c \<Longrightarrow> t \<le> t' \<Longrightarrow> lock_ok ids t' lock w g c"
  by (auto simp: lock_ok_def)

text \<open>A write that the server takes: its try began a second or more after that of the write before.\<close>

lemma accept_some:
  assumes "accept rq lock = Some e"
  shows "ep_leader e = Leader (json_record (request_record rq)) \<and>
    (case rq of CreateLock r \<Rightarrow> lock = None | UpdateLock v r \<Rightarrow> \<exists>e0. lock = Some e0 \<and> v = ep_version e0 \<and> ep_version e = Suc v)"
  using assms by (cases "(rq, lock)" rule: accept.cases) (auto split: if_splits)

lemma commit_spacing:
  assumes "proc_ok lec latency i t lock w g c p" and "lock_ok ids t lock w g c" and "sound_timing lec latency"
    and "pr_pc p = Writing s final rq" and "accept rq lock = Some e"
  shows "g + second \<le> s" and "s \<le> t" and "lr_RenewTime (request_record rq) = s"
    and "lr_HolderIdentity (request_record rq) = ec_Identity lec"
    and "w = None \<or> w = Some i \<or> c + ec_LeaseDuration lec \<le> s"
proof -
  have tr: "try_ok lec i lock w g c (Writing s final rq)" and sp: "spaced i w g (Writing s final rq)" and st: "s \<le> t"
    using assms(1,4) by (auto simp: proc_ok_def)
  show "s \<le> t" "lr_RenewTime (request_record rq) = s" "lr_HolderIdentity (request_record rq) = ec_Identity lec"
    using st tr by (cases rq; simp)+
  show w: "w = None \<or> w = Some i \<or> c + ec_LeaseDuration lec \<le> s"
  proof (cases rq)
    case (CreateLock r)
    then have "lock = None" using accept_some [OF assms(5)] by simp
    then show ?thesis using assms(2) by (cases w) (auto simp: lock_ok_def)
  next
    case (UpdateLock v r)
    then show ?thesis using tr accept_some [OF assms(5)] by auto
  qed
  show "g + second \<le> s"
  proof (cases "w = None \<or> w = Some i")
    case True
    then show ?thesis using sp by (simp add: spaced_def)
  next
    case False
    then show ?thesis using w assms(2) sound_timing_less [OF assms(3)] by (auto simp: lock_ok_def)
  qed
qed

lemma knows_commit:
  assumes "knows lock w g c le" and "g + second \<le> s" and "lr_RenewTime r = s" and "ep_leader e = Leader (json_record r)"
  shows "knows (Some e) (Some i) s t le"
proof -
  have "s - second < lr_RenewTime (json_record r)" using json_time_bounds(1) [of s] assms(3) by simp
  then have "le_observedRecord le \<noteq> json_record r" using assms(1,2) by (auto simp: knows_def)
  then show ?thesis using assms second_pos by (auto simp: knows_def)
qed

lemma commit_own_ok:
  assumes "proc_ok lec latency i t lock w g c p" and "lock_ok ids t lock w g c" and "sound_timing lec latency"
    and "pr_pc p = Writing s final rq" and "accept rq lock = Some e" and "reply = Inr v \<or> reply = Inl err"
  shows "proc_ok lec latency i t (Some e) (Some i) s t (p\<lparr>pr_pc := Written s final (request_record rq) reply\<rparr>)"
proof -
  note sp = commit_spacing [OF assms(1-5)]
  have kn: "knows (Some e) (Some i) s t (pr_elector p)"
    using knows_commit [of lock w g c _ s "request_record rq" e i t] assms(1) sp accept_some [OF assms(5)]
    by (auto simp: proc_ok_def)
  have "p0 \<le> t + latency" if "pr_mode p = Leading p0" for p0
    using that assms(1,2) by (auto simp: proc_ok_def leads_ok_def lock_ok_def)
  then have "leads_ok lec latency i t (Some i) t (pr_mode p) (Written s final (request_record rq) reply)"
    using assms(1,4) by (auto simp: proc_ok_def leads_ok_def)
  with kn sp assms(1,4) show ?thesis by (auto simp: proc_ok_def spaced_def)
qed

text \<open>How long a process leads after its poll began.\<close>

lemma leading_bound:
  assumes "proc_ok lec latency i t lock w g c p" and "pr_mode p = Leading q" and "sound_timing lec latency"
  shows "t \<le> q + ec_RenewDeadline lec + 2 * latency"
proof -
  have "poll_ok lec latency q t (pr_pc p)" "span_ok latency t (pr_pc p)"
    using assms(1,2) by (auto simp: proc_ok_def leads_ok_def)
  then show ?thesis using assms(3) by (cases "pr_pc p") (auto simp: sound_timing_def split: if_splits)
qed

lemma commit_other_ok:
  assumes "proc_ok lec latency i t lock w g c p" and "lock_ok ids t lock w g c" and "sound_timing lec latency"
    and "pr_pc p = Writing s final rq" and "accept rq lock = Some e"
    and "proc_ok lec' latency j t lock w g c q" and "i \<noteq> j"
    and "ec_LeaseDuration lec' = ec_LeaseDuration lec" and "ec_RenewDeadline lec' = ec_RenewDeadline lec"
    and "ec_RetryPeriod lec' = ec_RetryPeriod lec"
  shows "proc_ok lec' latency j t (Some e) (Some i) s t q"
proof -
  note sp = commit_spacing [OF assms(1-5)] and acc = accept_some [OF assms(5)]
  have late: "w = Some j \<Longrightarrow> c + ec_LeaseDuration lec \<le> t" using sp(2,5) assms(7) by auto
  have kn: "knows (Some e) (Some i) s t (pr_elector q)"
    using knows_commit [of lock w g c _ s "request_record rq" e i t] assms(6) sp acc by (auto simp: proc_ok_def)
  have "pr_mode q \<noteq> Leading p0" for p0
  proof
    assume m: "pr_mode q = Leading p0"
    then have "w = Some j" "p0 \<le> c + latency" using assms(6) by (auto simp: proc_ok_def leads_ok_def)
    moreover have "t \<le> p0 + ec_RenewDeadline lec + 2 * latency"
      using leading_bound [OF assms(6) m] assms(3,8,9,10) by (simp add: sound_timing_def)
    ultimately show False using late assms(3) by (auto simp: sound_timing_def)
  qed
  then have ld: "leads_ok lec' latency j t (Some i) t (pr_mode q) (pr_pc q)" by (simp add: leads_ok_def)
  have grow: "lock = Some e0 \<Longrightarrow> ep_version e0 < ep_version e" for e0
    using acc by (cases rq) auto
  have "try_ok lec' j (Some e) (Some i) s t (pr_pc q)"
  proof (cases "pr_pc q")
    case (Asked s' final' reply)
    then show ?thesis using assms(6) grow sp(1) second_pos
      by (cases reply) (fastforce simp: proc_ok_def)+
  next
    case (Writing s' final' rq')
    then show ?thesis using assms(6) grow by (cases rq') (fastforce simp: proc_ok_def)+
  next
    case (Written s' final' r reply)
    have "\<not> (\<exists>v. reply = Inr v)"
      using assms(3,6) Written late by (auto simp: proc_ok_def sound_timing_def)
    then show ?thesis using assms(6) Written by (auto simp: proc_ok_def)
  qed simp_all
  with kn ld assms(6,7) show ?thesis by (auto simp: proc_ok_def spaced_def)
qed

lemma commit_lock_ok:
  assumes "proc_ok lec latency i t lock w g c p" and "lock_ok ids t lock w g c" and "sound_timing lec latency"
    and "pr_pc p = Writing s final rq" and "accept rq lock = Some e" and "ec_Identity lec = ids i"
  shows "lock_ok ids t (Some e) (Some i) s t"
  using commit_spacing [OF assms(1-5)] accept_some [OF assms(5)] assms(2,6) json_time_bounds(2) [of s] second_pos
  by (auto simp: lock_ok_def)

definition election_ok :: "election_config \<Rightarrow> (nat \<Rightarrow> string) \<Rightarrow> nat \<Rightarrow> time \<Rightarrow> election \<Rightarrow> bool" where
  "election_ok lec ids n latency S \<longleftrightarrow>
     lock_ok ids (el_time S) (el_lock S) (el_writer S) (el_start S) (el_commit S) \<and>
     (\<forall>j. el_writer S = Some j \<longrightarrow> j < n) \<and>
     (\<forall>i<n. proc_ok (lec\<lparr>ec_Identity := ids i\<rparr>) latency i (el_time S) (el_lock S) (el_writer S) (el_start S)
       (el_commit S) (el_procs S i))"

lemma sound_timing_identity [simp]: "sound_timing (lec\<lparr>ec_Identity := x\<rparr>) latency = sound_timing lec latency"
  by (simp add: sound_timing_def)

lemma election_init_ok:
  assumes "0 \<le> t" and "old_lock t lock" and "sound_timing lec latency"
  shows "election_ok lec ids n latency (election_init lec t lock)"
  using assms by (auto simp: election_ok_def election_init_def lock_ok_def proc_ok_def knows_def spaced_def
      leads_ok_def new_elector_def zero_record_def zero_time_def second_def sound_timing_def split: annotation.splits)

lemma elect_step_ok:
  assumes "elect_step lec ids n latency S S'" and "election_ok lec ids n latency S" and "sound_timing lec latency"
    and "inj_on ids {..<n}"
  shows "election_ok lec ids n latency S'"
  using assms(1)
proof cases
  case (process i p)
  have "j = i" if "el_writer S = Some j" "ids j = ids i" for j
    using that assms(2,4) process(2) by (auto simp: election_ok_def inj_on_def)
  with proc_step_ok [OF process(3), where ids = ids and i = i] assms(2,3) process(1,2) show ?thesis
    by (auto simp: election_ok_def)
next
  case (commit i s final rq e reply err)
  let ?lec = "\<lambda>i. lec\<lparr>ec_Identity := ids i\<rparr>"
  have lk: "lock_ok ids (el_time S) (el_lock S) (el_writer S) (el_start S) (el_commit S)"
    and pr: "\<And>j. j < n \<Longrightarrow> proc_ok (?lec j) latency j (el_time S) (el_lock S) (el_writer S) (el_start S) (el_commit S) (el_procs S j)"
    using assms(2) by (auto simp: election_ok_def)
  have st: "sound_timing (?lec i) latency" using assms(3) by simp
  note own = commit_own_ok [OF pr [OF commit(2)] lk st commit(3,4,5)]
    and other = commit_other_ok [OF pr [OF commit(2)] lk st commit(3,4) pr]
    and lock = commit_lock_ok [OF pr [OF commit(2)] lk st commit(3,4)]
  show ?thesis unfolding election_ok_def
  proof (intro conjI allI impI)
    show "lock_ok ids (el_time S') (el_lock S') (el_writer S') (el_start S') (el_commit S')"
      using lock commit(1) by simp
    show "el_writer S' = Some j \<Longrightarrow> j < n" for j using commit(1,2) by simp
    fix j assume "j < n"
    show "proc_ok (?lec j) latency j (el_time S') (el_lock S') (el_writer S') (el_start S') (el_commit S') (el_procs S' j)"
    proof (cases "j = i")
      case True
      then show ?thesis using own commit(1) by simp
    next
      case False
      then show ?thesis using other [OF \<open>j < n\<close>] commit(1) by simp
    qed
  qed
next
  case (tick t)
  show ?thesis unfolding election_ok_def
  proof (intro conjI allI impI)
    show "lock_ok ids (el_time S') (el_lock S') (el_writer S') (el_start S') (el_commit S')"
      using tick(1,2) assms(2) by (auto simp: election_ok_def intro: tick_lock_ok)
    show "el_writer S' = Some j \<Longrightarrow> j < n" for j using tick(1) assms(2) by (simp add: election_ok_def)
    fix j assume "j < n"
    then show "proc_ok (lec\<lparr>ec_Identity := ids j\<rparr>) latency j (el_time S') (el_lock S') (el_writer S') (el_start S')
        (el_commit S') (el_procs S' j)"
      using tick(1,2) tick(3) [of j] assms(2) unfolding election_ok_def
      by (auto intro: tick_ok [of _ latency j "el_time S"])
  qed
qed

lemma election_reachable_ok:
  assumes "election_reachable lec ids n latency S" and "sound_timing lec latency" and "inj_on ids {..<n}"
  shows "election_ok lec ids n latency S"
  using assms(1) by induction (use assms(2,3) election_init_ok elect_step_ok in blast)+

text \<open>The durations the operator campaigns with.\<close>

lemma server_Run_campaign:
  assumes "server_Run he pe None opt s = (Ret (Campaigning lec kube jobs), s')"
  shows "ec_LeaseDuration lec = leaseDuration \<and> ec_RenewDeadline lec = renewDuration \<and> ec_RetryPeriod lec = retryPeriod \<and>
    pe_Hostname pe = Inr (ec_Identity lec)"
proof -
  obtain ns host where "NewLeaderElector \<lparr>ec_Namespace = ns, ec_Name = ''caffe2-operator'', ec_Identity = host,
      ec_LeaseDuration = leaseDuration, ec_RenewDeadline = renewDuration, ec_RetryPeriod = retryPeriod\<rparr> = Inr lec"
    "pe_Hostname pe = Inr host"
    using assms by (auto simp: server_Run_def Let_def split: prod.splits outcome.splits sum.splits if_splits)
  then show ?thesis by (auto simp: NewLeaderElector_accepts)
qed

lemma operator_timing:
  assumes "ec_LeaseDuration lec = leaseDuration \<and> ec_RenewDeadline lec = renewDuration \<and> ec_RetryPeriod lec = retryPeriod"
    and "0 \<le> latency" and "3 * latency < 10 * second"
  shows "sound_timing lec latency"
  using assms by (simp add: sound_timing_def leaseDuration_def renewDuration_def retryPeriod_def second_def)

section \<open>A try that nothing interrupts\<close>

lemma try_steps:
  assumes "i < n" and "pr_pc (el_procs S i) = Waiting s e"
    and "may_start (lec\<lparr>ec_Identity := ids i\<rparr>) (pr_mode (el_procs S i)) s e (el_time S) final"
    and "reply = (case el_lock S of None \<Rightarrow> Inl (StatusError ''NotFound'' (ec_Name lec)) | Some e0 \<Rightarrow> Inr e0)"
    and "lock_Get reply (pr_elector (el_procs S i)) = (old, le)"
    and "after_Get (lec\<lparr>ec_Identity := ids i\<rparr>) (el_time S) (el_time S) old le = (act, le1)"
    and "act = CreateRecord r \<and> rq = CreateLock r \<or> act = UpdateRecord r \<and> le_e le1 = Some v \<and> rq = UpdateLock v r"
    and "accept rq (el_lock S) = Some e'" and "pr_mode (el_procs S i) \<noteq> Lost"
  shows "\<exists>S'. (elect_step lec ids n latency)\<^sup>*\<^sup>* S S' \<and> el_time S' = el_time S \<and> el_lock S' = Some e' \<and>
    (\<forall>j. j \<noteq> i \<longrightarrow> el_procs S' j = el_procs S j) \<and> pr_mode (el_procs S' i) = Leading (el_time S)"
proof -
  let ?lec = "lec\<lparr>ec_Identity := ids i\<rparr>" and ?t = "el_time S" and ?p = "el_procs S i"
  let ?S = "\<lambda>S p. S\<lparr>el_procs := (el_procs S)(i := p)\<rparr>"
  let ?a = "?p\<lparr>pr_pc := Asking ?t final\<rparr>" and ?b = "?p\<lparr>pr_pc := Asked ?t final reply\<rparr>"
    and ?c = "?p\<lparr>pr_elector := le1, pr_pc := Writing ?t final rq\<rparr>"
    and ?d = "?p\<lparr>pr_elector := le1, pr_pc := Written ?t final r (Inr (ep_version e'))\<rparr>"
    and ?e = "end_try (pr_mode ?p) ?t final ?t (after_write ?t r (Inr (ep_version e')) le1)"
  let ?R = "elect_step lec ids n latency"
  have rq: "request_record rq = r" using assms(7) by auto
  have "proc_step ?lec (el_lock S) ?t ?p ?a" by (rule proc_step.start_try [OF assms(2,3)])
  then have 1: "?R S (?S S ?a)" by (rule elect_step.process [OF assms(1)])
  have "proc_step ?lec (el_lock S) ?t ?a ?b"
    using proc_step.lock_read [where p = ?a and s = ?t and final = final and reply = reply and lock = "el_lock S" and lec = ?lec and t = ?t]
      assms(4) by (cases "el_lock S") simp_all
  then have 2: "?R (?S S ?a) (?S S ?b)" using elect_step.process [OF assms(1), where lec = lec and ids = ids and S = "?S S ?a" and p = ?b and latency = latency] by simp
  have "proc_step ?lec (el_lock S) ?t ?b ?c"
    using assms(7) proc_step.go_create [where p = ?b and s = ?t and final = final and reply = reply and old = old and le = le
        and lec = ?lec and t = ?t and r = r and ?le1.0 = le1 and lock = "el_lock S"]
      proc_step.go_update [where p = ?b and s = ?t and final = final and reply = reply and old = old and le = le
        and lec = ?lec and t = ?t and r = r and ?le1.0 = le1 and v = v and lock = "el_lock S"] assms(5,6) by auto
  then have 3: "?R (?S S ?b) (?S S ?c)" using elect_step.process [OF assms(1), where lec = lec and ids = ids and S = "?S S ?b" and p = ?c and latency = latency] by simp
  let ?T = "S\<lparr>el_lock := Some e', el_procs := (el_procs S)(i := ?d), el_writer := Some i, el_start := ?t, el_commit := ?t\<rparr>"
  have 4: "?R (?S S ?c) ?T"
    using elect_step.commit [OF assms(1), where S = "?S S ?c" and s = ?t and final = final and w = rq and e = e'
        and reply = "Inr (ep_version e')"] assms(8) rq by simp
  have "proc_step ?lec (Some e') ?t ?d ?e"
    using proc_step.finish_try [where p = ?d and s = ?t and final = final and r = r and reply = "Inr (ep_version e')"
        and lec = ?lec and lock = "Some e'" and t = ?t] by simp
  then have 5: "?R ?T (?S ?T ?e)" using elect_step.process [OF assms(1), where lec = lec and ids = ids and S = ?T and p = ?e and latency = latency] by simp
  have "?R\<^sup>*\<^sup>* S (?S ?T ?e)"
    using 1 2 3 4 5 by (meson converse_rtranclp_into_rtranclp rtranclp.rtrancl_refl)
  moreover have "pr_mode ?e = Leading ?t" using assms(9) by (cases "pr_mode ?p") (simp_all add: after_write_def)
  ultimately show ?thesis by (intro exI [of _ "?S ?T ?e"]) simp
qed

lemma reachable_steps:
  "(elect_step lec ids n latency)\<^sup>*\<^sup>* S S' \<Longrightarrow> election_reachable lec ids n latency S \<Longrightarrow> election_reachable lec ids n latency S'"
  by (induction rule: rtranclp_induct) (auto intro: election_reachable.step)

text \<open>A process that comes up.\<close>

lemma pod_campaigns:
  "\<exists>lec kube jobs s'. server_Run plain_env pod_env None (AddFlags NewServerOption) (\<lambda>_. [], []) =
     (Ret (Campaigning lec kube jobs), s')"
proof -
  have "case fst (server_Run plain_env pod_env None (AddFlags NewServerOption) (\<lambda>_. [], [])) of
      Ret st \<Rightarrow> (case st of Campaigning _ _ _ \<Rightarrow> True | _ \<Rightarrow> False) | Panic _ \<Rightarrow> False"
    by code_simp
  then show ?thesis
    by (cases "server_Run plain_env pod_env None (AddFlags NewServerOption) (\<lambda>_. [], [])")
      (auto split: outcome.splits server_state.splits)
qed

text \<open>The first process to try takes a free lock at once.\<close>

lemma free_lock_taken:
  assumes "i < n" and "0 \<le> t"
  shows "\<exists>S e r. election_reachable lec ids n latency S \<and> el_time S = t \<and> pr_mode (el_procs S i) = Leading t \<and>
    el_lock S = Some e \<and> ep_leader e = Leader r \<and> lr_HolderIdentity r = ids i \<and>
    (\<forall>j. j \<noteq> i \<longrightarrow> el_procs S j = el_procs (election_init lec t None) j)"
proof -
  let ?S = "election_init lec t None" and ?r = "fresh_record (lec\<lparr>ec_Identity := ids i\<rparr>) t"
  let ?e = "\<lparr>ep_version = 1, ep_leader = Leader (json_record ?r)\<rparr>" and ?le = "new_elector\<lparr>le_e := Some 0\<rparr>"
  have p: "el_procs ?S i = \<lparr>pr_elector = new_elector, pr_mode = Acquiring,
      pr_pc = Waiting (t - ec_RetryPeriod lec) (t - ec_RetryPeriod lec)\<rparr>" "el_time ?S = t" "el_lock ?S = None"
    by (simp_all add: election_init_def)
  let ?err = "StatusError ''NotFound'' (ec_Name lec)"
  have get: "lock_Get (Inl ?err) new_elector = (Inl ?err, ?le)" by (simp add: lock_Get_def)
  have act: "after_Get (lec\<lparr>ec_Identity := ids i\<rparr>) t t (Inl ?err) ?le = (CreateRecord ?r, ?le)"
    by (simp add: after_Get_Inl IsNotFound_def reasonForError_def)
  have "\<exists>S'. (elect_step lec ids n latency)\<^sup>*\<^sup>* ?S S' \<and> el_time S' = el_time ?S \<and> el_lock S' = Some ?e \<and>
      (\<forall>j. j \<noteq> i \<longrightarrow> el_procs S' j = el_procs ?S j) \<and> pr_mode (el_procs S' i) = Leading (el_time ?S)"
    by (rule try_steps [OF assms(1), where reply = "Inl ?err" and rq = "CreateLock ?r" and final = False
          and ?le1.0 = ?le and act = "CreateRecord ?r"])
      (simp_all add: p get act, simp_all only: act diff_add_cancel order.refl)
  then obtain S' where S': "(elect_step lec ids n latency)\<^sup>*\<^sup>* ?S S'" "el_time S' = t" "el_lock S' = Some ?e"
    "\<forall>j. j \<noteq> i \<longrightarrow> el_procs S' j = el_procs ?S j" "pr_mode (el_procs S' i) = Leading t"
    using p(2) by auto
  have "election_reachable lec ids n latency ?S" using assms(2) by (intro election_reachable.init) simp_all
  from reachable_steps [OF S'(1) this] S'(2-) show ?thesis
    by (intro exI [of _ S'] exI [of _ ?e] exI [of _ "json_record ?r"]) (simp add: fresh_record_def)
qed

section \<open>Properties\<close>



text \<open>The configuration of \<open>Run\<close>.\<close>

definition cluster_election :: election_config where
  "cluster_election = \<lparr>ec_Namespace = ''default'', ec_Name = ''caffe2-operator'', ec_Identity = ''host'',
     ec_LeaseDuration = leaseDuration, ec_RenewDeadline = renewDuration, ec_RetryPeriod = retryPeriod\<rparr>"

text \<open>
  The host name is the whole identity of a process. Two processes with one name, on a host network
  or started twice on one host, lead both: the second finds its own name in the lock and renews the
  lease of the first.
\<close>

theorem same_name_two_leaders:
  assumes "ids 0 = ids 1" and "0 \<le> t"
  shows "\<exists>S. election_reachable lec ids 2 latency S \<and> pr_mode (el_procs S 0) = Leading t \<and> pr_mode (el_procs S 1) = Leading t"
proof -
  obtain S e r where S: "election_reachable lec ids 2 latency S" "el_time S = t" "pr_mode (el_procs S 0) = Leading t"
    and e: "el_lock S = Some e" "ep_leader e = Leader r" "lr_HolderIdentity r = ids 0"
    and one: "el_procs S 1 = el_procs (election_init lec t None) 1"
    using free_lock_taken [of 0 2 t lec ids latency] assms(2) by auto
  let ?lec = "lec\<lparr>ec_Identity := ids 1\<rparr>" and ?le = "(pr_elector (el_procs S 1))\<lparr>le_e := Some (ep_version e)\<rparr>"
  obtain act le1 where act: "after_Get ?lec t t (Inr r) ?le = (act, le1)" by (metis surj_pair)
  have "le_e le1 = Some (ep_version e)" using after_Get_Inr(1) [OF act] by simp
  moreover have "act \<noteq> GiveUp" using act e(3) assms(1) by (auto simp: after_Get_def Let_def)
  then obtain r' where "act = UpdateRecord r'" using after_Get_Inr(2) [OF act] by auto
  ultimately have "\<exists>S'. (elect_step lec ids 2 latency)\<^sup>*\<^sup>* S S' \<and> el_time S' = el_time S \<and>
      el_lock S' = Some \<lparr>ep_version = Suc (ep_version e), ep_leader = Leader (json_record r')\<rparr> \<and>
      (\<forall>j. j \<noteq> 1 \<longrightarrow> el_procs S' j = el_procs S j) \<and> pr_mode (el_procs S' 1) = Leading (el_time S)"
    using e S(2) one act
    by (intro try_steps [where r = r' and v = "ep_version e" and old = "Inr r" and le = ?le and ?le1.0 = le1 and act = act])
      (auto simp: election_init_def lock_Get_def)
  then show ?thesis using reachable_steps [OF _ S(1)] S(2,3) by fastforce
qed

theorem same_name_two_leaders_witness:
  "\<exists>S. election_reachable cluster_election (\<lambda>_. ''host'') 2 0 S \<and>
     pr_mode (el_procs S 0) = Leading 7 \<and> pr_mode (el_procs S 1) = Leading 7"
  using same_name_two_leaders [of "\<lambda>_. ''host''" 7 cluster_election 0] by simp

text \<open>
  C22. A lease that ran out is taken over: a process that waits to acquire, has seen the record in the lock
  unchanged for the lease duration and is due for a try can lead at once, whoever holds the lock, if its
  calls go through; its name is then in the lock, and the other processes are where they were.
\<close>

theorem expired_lease_taken:
  assumes "i < n" and "pr_mode (el_procs S i) = Acquiring" and "pr_pc (el_procs S i) = Waiting s e"
    and "e + ec_RetryPeriod lec \<le> el_time S" and "el_lock S = Some lock"
    and "ep_leader lock = Leader (le_observedRecord (pr_elector (el_procs S i)))"
    and "le_observedTime (pr_elector (el_procs S i)) + ec_LeaseDuration lec \<le> el_time S"
  shows "\<exists>S' lock' r. (elect_step lec ids n latency)\<^sup>*\<^sup>* S S' \<and> el_time S' = el_time S \<and>
    pr_mode (el_procs S' i) = Leading (el_time S) \<and> el_lock S' = Some lock' \<and> ep_leader lock' = Leader r \<and>
    lr_HolderIdentity r = ids i \<and> (\<forall>j. j \<noteq> i \<longrightarrow> el_procs S' j = el_procs S j)"
proof -
  let ?lec = "lec\<lparr>ec_Identity := ids i\<rparr>" and ?le = "(pr_elector (el_procs S i))\<lparr>le_e := Some (ep_version lock)\<rparr>"
    and ?old = "le_observedRecord (pr_elector (el_procs S i))"
  obtain act le1 where act: "after_Get ?lec (el_time S) (el_time S) (Inr ?old) ?le = (act, le1)" by (metis surj_pair)
  have le1: "le1 = ?le" using after_Get_Inr(1) [OF act] by simp
  have "act \<noteq> GiveUp" using act assms(7) by (auto simp: after_Get_def Let_def)
  then obtain r where r: "act = UpdateRecord r" "lr_HolderIdentity r = ids i" using after_Get_Inr(2) [OF act] by auto
  have get: "lock_Get (Inr lock) (pr_elector (el_procs S i)) = (Inr ?old, ?le)" using assms(6) by (simp add: lock_Get_def)
  have "\<exists>S'. (elect_step lec ids n latency)\<^sup>*\<^sup>* S S' \<and> el_time S' = el_time S \<and>
      el_lock S' = Some \<lparr>ep_version = Suc (ep_version lock), ep_leader = Leader (json_record r)\<rparr> \<and>
      (\<forall>j. j \<noteq> i \<longrightarrow> el_procs S' j = el_procs S j) \<and> pr_mode (el_procs S' i) = Leading (el_time S)"
    by (rule try_steps [OF assms(1,3), where final = False and reply = "Inr lock" and act = act and ?le1.0 = le1 and r = r
        and rq = "UpdateLock (ep_version lock) r" and v = "ep_version lock" and old = "Inr ?old" and le = ?le])
      (use assms(2,4,5) r le1 get act in simp_all)
  then show ?thesis using r(2) by fastforce
qed

theorem expired_lease_taken_witness:
  "\<exists>S S' lock'. (elect_step cluster_election (\<lambda>_. ''new'') 1 second)\<^sup>*\<^sup>* S S' \<and>
     el_lock S = Some \<lparr>ep_version = 4, ep_leader = Leader (zero_record\<lparr>lr_HolderIdentity := ''gone''\<rparr>)\<rparr> \<and>
     pr_mode (el_procs S' 0) = Leading (20 * second) \<and> el_lock S' = Some lock'"
proof -
  let ?r = "zero_record\<lparr>lr_HolderIdentity := ''gone''\<rparr>"
  let ?lock = "\<lparr>ep_version = 4, ep_leader = Leader ?r\<rparr>"
  let ?S = "(election_init cluster_election (20 * second) (Some ?lock))\<lparr>el_procs := (\<lambda>_.
    \<lparr>pr_elector = new_elector\<lparr>le_observedRecord := ?r, le_observedTime := 5 * second\<rparr>, pr_mode = Acquiring,
     pr_pc = Waiting (15 * second) (16 * second)\<rparr>)\<rparr>"
  have S: "el_procs ?S 0 = \<lparr>pr_elector = new_elector\<lparr>le_observedRecord := ?r, le_observedTime := 5 * second\<rparr>,
      pr_mode = Acquiring, pr_pc = Waiting (15 * second) (16 * second)\<rparr>" "el_time ?S = 20 * second" "el_lock ?S = Some ?lock"
    by (simp_all add: election_init_def)
  have due: "16 * second + ec_RetryPeriod cluster_election \<le> 20 * second"
    "5 * second + ec_LeaseDuration cluster_election \<le> 20 * second"
    by (simp_all add: cluster_election_def leaseDuration_def retryPeriod_def second_def)
  from expired_lease_taken [of 0 1 ?S "15 * second" "16 * second" cluster_election ?lock "\<lambda>_. ''new''" second]
  obtain S' lock' where "(elect_step cluster_election (\<lambda>_. ''new'') 1 second)\<^sup>*\<^sup>* ?S S'"
    "pr_mode (el_procs S' 0) = Leading (20 * second)" "el_lock S' = Some lock'"
    unfolding S using due by auto
  with S(3) show ?thesis by blast
qed

end
