(* ===== verification/Spec2Isabelle.thy ===== *)
theory Spec2Isabelle
  imports
    Prelude GoStrings ApiTypes Memory DeepCopy Conditions JobStatus Defaults Selectors SelectorText ConfigGen
    PodControl RefManager PodReconcile WorkQueue RateLimiter Controller ControllerRun Utilities
    DelayingQueue RestClient FakeClient Informers DeltaFifo SharedInformer Reflector Pipeline Progress SchemeTypes
    ClientConfig Startup LeaderElection
begin

text \<open>
  The Caffe2 operator for Kubernetes.

  The program. The operator watches resources of kind \<open>Caffe2Job\<close> and keeps the pods of each job as its
  replica spec asks. \<open>main\<close> (cmd/caffe2-operator) reads the flags, finds the cluster, makes the clients and
  campaigns for leadership; the leader runs the controller (pkg/controller). Informers (pkg/client/informers)
  copy the jobs and pods of the API server into caches and notify the event handlers, which default a new
  job, write its first condition and put its key into a rate-limited work queue. Workers take keys out,
  fetch the job through the lister, reconcile its pods (list, claim by owner reference, create the missing
  ones, count the phases), derive the conditions of the job and write its status back. A failed key is put
  back after a growing delay.

  The theories, from the bottom up, and the code each one models:

  \<^item> \<open>Prelude\<close>: the outcome of a Go computation (a value or a panic), Go maps, shared lemmas. \<open>GoStrings\<close>: the
    functions of Go's strings, strconv and fmt packages that are used.
  \<^item> \<open>ApiTypes\<close>: pkg/apis/caffe2/v1alpha1/types.go and register.go, object metadata, pods, services, errors.
  \<^item> \<open>Memory\<close>, \<open>DeepCopy\<close>: zz_generated.deepcopy.go over an explicit memory of cells.
  \<^item> \<open>Defaults\<close>: defaults.go, zz_generated.defaults.go and validation.go.
  \<^item> \<open>Conditions\<close>, \<open>JobStatus\<close>: the condition list (controller.go) and the status (status.go) of a job.
  \<^item> \<open>Selectors\<close>, \<open>SelectorText\<close>: labels, selectors and name checks of apimachinery; the text of a selector,
    its lexer and parser, and \<open>JobListOpt\<close> of k8sutil.
  \<^item> \<open>ConfigGen\<close>: config.go, the names of the workers and the value of CAFFE2_CONFIG.
  \<^item> \<open>PodControl\<close>, \<open>RefManager\<close>, \<open>PodReconcile\<close>: controller_utils.go, controller_ref_manager.go and
    controller_pod.go.
  \<^item> \<open>WorkQueue\<close>, \<open>RateLimiter\<close>, \<open>DelayingQueue\<close>: the queue, the limiters, and the goroutine with its heap
    through which failed keys come back, of client-go's util/workqueue.
  \<^item> \<open>Controller\<close>: handlers, queueing, \<open>processNextWorkItem\<close> and \<open>syncCaffe2Job\<close> of controller.go.
    \<open>ControllerRun\<close>: \<open>New\<close> and \<open>Run\<close> with the workers as a step relation.
  \<^item> \<open>RestClient\<close>, \<open>FakeClient\<close>, \<open>Informers\<close>: the typed client, the fake clientset, and the stores, listers and
    informer factory of pkg/client, with what they call of client-go.
  \<^item> \<open>DeltaFifo\<close>, \<open>SharedInformer\<close>, \<open>Reflector\<close>: what fills those stores, client-go's queue of changes, the shared
    informer with its listeners, and the reflector that lists and watches, as step relations.
  \<^item> \<open>Pipeline\<close>, \<open>Progress\<close>: the job informer and the controller in one step relation, from the history of the API
    server to the workers, and its progress.
  \<^item> \<open>SchemeTypes\<close>: the registration of the API types in the schemes of the clientsets.
  \<^item> \<open>ClientConfig\<close>, \<open>Startup\<close>: from a configuration to clientsets, and from \<open>main\<close> to the leader election.
    \<open>LeaderElection\<close>: the election itself, client-go's tools/leaderelection, for several processes.
  \<^item> \<open>Utilities\<close>: retryutil, util, k8sutil and the API helper.

  How code becomes definitions. A struct is a record, an enumeration of strings a string constant, an
  interface with several implementations a datatype. A function that can panic returns an \<open>outcome\<close>; one that
  returns an error returns a sum or an optional error; one with effects is an \<open>action\<close>, from a state to a
  result and a state. What is outside the repository and its vendored code (the API server, clocks, name
  resolution, randomness, the HTTP transport) is an argument: a record of functions with their state. A replica
  counter is an \<open>int32\<close> word and wraps; a duration is an integer number of nanoseconds. A pointer is an
  option where only nil matters, a cell of a memory where sharing matters (\<open>DeepCopy\<close>), and an address of a
  heap for the objects of the job cache, which the handlers modify in place (\<open>Controller\<close>). A map over which
  the code ranges is an association list, and no result depends on its order unless stated.

  What is proved, by group:

  \<^item> Reconciliation: the counters and conditions after a sync follow from the pods; repeated syncs against a
    server that answers create exactly the missing indices, and a created pod is found again by the next
    sync; slicing by index agrees with its specification.
  \<^item> Ownership: claiming keeps what a controller owns and matches, adopts and releases only what it may, never
    adopts for a job that was replaced, and reports every denied write; contract \<open>ref_manager\<close>, for pods
    and for services.
  \<^item> Queueing: an item is never with two workers, an addition is never lost, the backoff grows and is capped,
    tokens are never overdrawn; contracts \<open>dedup_queue\<close> and \<open>rate_limiter\<close>. An item that fails stays
    in the books of the controller until it succeeds. The delaying queue brings every item back, never early;
    its heap is kept in order and its entries with their positions.
  \<^item> Life cycle: no worker before both caches are filled, and a stop ends \<open>Run\<close> and drains the queue; from the
    environment of a pod the process reaches its campaign. At most one process leads, if their host
    names differ and calls are answered in time, and an expired lease is taken over.
  \<^item> Data: conditions are unique per type and follow an abstract map (contract \<open>condition_store\<close>); defaulting is
    idempotent and complete, and which jobs it makes valid; copies are equal and share no cell (contract
    \<open>deep_copier\<close>, which pointers and slices inherit); selectors match what they describe and survive printing and parsing.
  \<^item> Clients: calls reach the job's own path or none; the fake clientset refines a map of jobs; listers read the
    sequence of changes, and the namespace index agrees with a filtered listing (contract \<open>keyed_store\<close>).
    Once its queue is empty, the cache of an informer is what the API server told it, and the handlers see what the
    cache holds (contract \<open>known_objects\<close>); a list that meets waiting changes can leave an object behind.
    What the reflector has passed on is the state of the server at the resource version it noted, whatever failed.
    The schemes of the clientsets build, and a job keeps its kind and its defaulting function in them.

  \<^item> Composition: once nothing is on its way between the API server and the workers, the cache is the state of
    the server at the noted version, and every job of that state was synchronised with that very object
    in the cache (\<open>quiet_jobs_synchronised\<close>). Whatever is on its way can get to the workers (\<open>changes_reach_workers\<close>).

  Bounds and fuel. No definition runs on fuel: loops are recursions with a termination proof, except the
  goroutines, which are step relations with bounds on their steps (\<open>stop_ends_Run\<close>), and \<open>Retry\<close>, whose number
  of tries is an argument of the code itself. Time is an integer; the safety of the election needs a bound on
  the time a try takes, a third of the ten seconds between the lease duration and the renew deadline.

  Not modelled, and why. \<open>Pformat\<close> works by reflection over Go types; of the scheme, which does too, the codecs and
  conversion functions are left out. Logging has no effect on the program. Of the reflector
  the HTTP calls and the random timeout of a watch are left out. \<open>Controller\<close> and \<open>ControllerRun\<close> see an informer
  through what it does: the caches change and the handlers are called. \<open>Pipeline\<close> joins the job informer and
  the controller; pods change there at any time, and their handler is called with any notification. The other theories meet at effects as well: for
  \<open>ControllerRun\<close> the lost election closes the stop channel, for \<open>Controller\<close> a waiting item becomes due. The constructor of a token
  bucket is kept to its panics in \<open>ClientConfig\<close>. Watches over HTTP are not opened up. The remaining files are
  documentation, interfaces without code, or accessors that return a field.
\<close>

section \<open>Listing the jobs of a name\<close>

text \<open>
  \<open>ExtractFromListOptions\<close> of client-go/testing/actions.go: both selectors of a listing, of which the fake
  client uses the one on labels; \<open>None\<close> is its panic on a text that is no selector. \<open>fields_ok\<close> tells
  whether the other text, on fields, is one.
\<close>

definition ExtractFromListOptions :: "(string \<Rightarrow> bool) \<Rightarrow> ListOptions \<Rightarrow> Selector option" where
  "ExtractFromListOptions fields_ok opts =
     (case labels_Parse (lo_LabelSelector opts) of
        Ret (Inr labelSelector) \<Rightarrow> if fields_ok (lo_FieldSelector opts) then Some labelSelector else None
      | _ \<Rightarrow> None)"

text \<open>A job that carries the labels of its name.\<close>

definition labelled_job :: Caffe2Job where
  "labelled_job = sample_job\<lparr>job_Meta := (job_Meta sample_job)\<lparr>om_Labels := Some (LabelsForJob ''job'')\<rparr>\<rparr>"

text \<open>
  C40. Asking a fake clientset for the jobs of a name, with the options of \<open>JobListOpt\<close>: for a name that can be
  a label value the answer is exactly the stored jobs of the namespace whose labels carry that name and
  the operator's app label, in their order; for any other name (more than 63 characters, for instance)
  it is every job of the namespace. The store is left as it was.
\<close>

theorem job_listing:
  assumes "NewSimpleClientset objects = Ret c" and "fields_ok []"
  shows "\<exists>c'. FakeJobs_List (ExtractFromListOptions fields_ok) ns (JobListOpt clusterName) c =
      (Ret (Some (filter (\<lambda>job. (ns = [] \<or> job_Namespace job = ns) \<and>
         (if IsValidLabelValue clusterName = []
          then map_of (map_entries (om_Labels (job_Meta job))) ''caffe2_job'' = Some clusterName \<and>
            map_of (map_entries (om_Labels (job_Meta job))) ''app'' = Some AppLabel
          else True)) (job_objects c)), None), c') \<and>
    fk_tracker c' = fk_tracker c"
proof -
  obtain sel where sel: "labels_Parse (lo_LabelSelector (JobListOpt clusterName)) = Ret (Inr sel)"
    "\<And>l. Selector_Matches sel l \<longleftrightarrow> (if IsValidLabelValue clusterName = []
       then map_of l ''caffe2_job'' = Some clusterName \<and> map_of l ''app'' = Some AppLabel else True)"
    using JobListOpt_selects [of clusterName] by metis
  have "ExtractFromListOptions fields_ok (JobListOpt clusterName) = Some sel"
    using assms(2) by (simp add: ExtractFromListOptions_def sel(1)) (simp add: JobListOpt_def)
  from fake_list_and_unhandled [OF assms(1), of "ExtractFromListOptions fields_ok", OF this, of ns] show ?thesis
    unfolding sel(2) by blast
qed

theorem job_listing_witness:
  "\<exists>c c'. NewSimpleClientset [labelled_job] = Ret c \<and>
     FakeJobs_List (ExtractFromListOptions (\<lambda>_. True)) ''ns'' (JobListOpt ''job'') c = (Ret (Some [labelled_job], None), c')"
proof -
  obtain c where c: "NewSimpleClientset [labelled_job] = Ret c" "job_objects c = [labelled_job]"
    using one_job_clientset [of labelled_job] by (auto simp: labelled_job_def sample_job_defs)
  have "IsValidLabelValue ''job'' = []" by code_simp
  with job_listing [OF c(1), of "\<lambda>_. True" "''ns''" "''job''"] c show ?thesis
    by (auto simp: labelled_job_def LabelsForJob_def sample_job_defs)
qed
end
